(* ===== verification/Prelude.thy ===== *)
theory Prelude
  imports Main "HOL-Library.Word"
begin

text \<open>
  Shared vocabulary of the development.

  Go's byte slices are lists of 8-bit words; Go's fixed-width integers are words of that width
  inside the wire structures, and integers with the two's complement wrap-around written out
  (\<open>int32\<close>, \<open>int64\<close>) in the consensus arithmetic.  A Go function returning a value and an
  error is a function into the sum type \<open>'e + 'a\<close>; \<open>bindE\<close> is the pattern
  \<^verbatim>\<open>if err != nil { return err }\<close>.

  The theory also models what the source uses of the Go standard library at this level:
  \<^verbatim>\<open>encoding/binary\<close> (little and big endian integers), \<^verbatim>\<open>io.ReadFull\<close> on an in-memory reader,
  slicing, and truncating division.
\<close>

unbundle bit_operations_syntax

type_synonym byte = "8 word"
type_synonym bytes = "8 word list"

named_theorems reader_iff \<open>characterisations of successful reads: what a reader returns and which bytes it consumed\<close>
named_theorems reader_run \<open>what a reader returns on an encoding followed by other bytes\<close>
named_theorems size_simps \<open>lengths of encodings\<close>

section \<open>Errors as values\<close>

type_synonym ('e, 'a) result = "'e + 'a"

definition bindE :: "('e, 'a) result \<Rightarrow> ('a \<Rightarrow> ('e, 'b) result) \<Rightarrow> ('e, 'b) result" where
  "bindE m f = (case m of Inl e \<Rightarrow> Inl e | Inr x \<Rightarrow> f x)"

lemma bindE_simps [simp]:
  "bindE (Inl e) f = Inl e"
  "bindE (Inr x) f = f x"
  by (simp_all add: bindE_def)

lemma bindE_Inr_iff [simp]: "bindE m f = Inr y \<longleftrightarrow> (\<exists>x. m = Inr x \<and> f x = Inr y)"
  by (cases m) auto

lemma bindE_Inl_iff: "bindE m f = Inl e \<longleftrightarrow> m = Inl e \<or> (\<exists>x. m = Inr x \<and> f x = Inl e)"
  by (cases m) auto

lemma bindE_assoc: "bindE (bindE m f) g = bindE m (\<lambda>x. bindE (f x) g)"
  by (cases m) auto

text \<open>A check that returns an error or lets the function go on.\<close>

definition guardE :: "bool \<Rightarrow> 'e \<Rightarrow> 'e + unit" where
  "guardE b e = (if b then Inl e else Inr ())"

lemma guardE_Inr_iff [simp]: "guardE b e = Inr u \<longleftrightarrow> \<not> b"
  by (simp add: guardE_def)

lemma guardE_Inl_iff [simp]: "guardE b e = Inl e' \<longleftrightarrow> b \<and> e' = e"
  by (auto simp: guardE_def)

text \<open>A loop that runs a check on every element and stops at the first error.\<close>

fun forE :: "('a \<Rightarrow> 'e + unit) \<Rightarrow> 'a list \<Rightarrow> 'e + unit" where
  "forE f [] = Inr ()"
| "forE f (x # xs) = bindE (f x) (\<lambda>_. forE f xs)"

lemma forE_Inr_iff [simp]: "forE f xs = Inr u \<longleftrightarrow> (\<forall>x\<in>set xs. f x = Inr ())"
  by (induction xs) auto

text \<open>A loop that threads a state through the elements and stops at the first error.\<close>

text \<open>The results of all steps, or the first error.\<close>

fun mapE :: "('a \<Rightarrow> 'e + 'b) \<Rightarrow> 'a list \<Rightarrow> 'e + 'b list" where
  "mapE f [] = Inr []"
| "mapE f (x # xs) = bindE (f x) (\<lambda>y. bindE (mapE f xs) (\<lambda>ys. Inr (y # ys)))"

lemma mapE_Inr: "(\<And>x. x \<in> set xs \<Longrightarrow> f x = Inr (g x)) \<Longrightarrow> mapE f xs = Inr (map g xs)"
  by (induction xs) simp_all

fun foldE :: "('s \<Rightarrow> 'a \<Rightarrow> 'e + 's) \<Rightarrow> 's \<Rightarrow> 'a list \<Rightarrow> 'e + 's" where
  "foldE f s [] = Inr s"
| "foldE f s (x # xs) = bindE (f s x) (\<lambda>s'. foldE f s' xs)"

lemma foldE_append: "foldE f s (xs @ ys) = bindE (foldE f s xs) (\<lambda>s'. foldE f s' ys)"
  by (induction xs arbitrary: s) (auto simp: bindE_assoc)

text \<open>An invariant kept by every successful step is kept by the loop.\<close>

lemma foldE_invariant:
  assumes "foldE f s xs = Inr t" and "P s"
    and "\<And>s x s'. P s \<Longrightarrow> x \<in> set xs \<Longrightarrow> f s x = Inr s' \<Longrightarrow> P s'"
  shows "P t"
  using assms
proof (induction xs arbitrary: s)
  case Nil
  then show ?case by simp
next
  case (Cons x xs)
  from Cons.prems(1) obtain s' where s': "f s x = Inr s'" "foldE f s' xs = Inr t" by auto
  have "P s'" using Cons.prems(2) _ s'(1) by (rule Cons.prems(3)) simp
  with s'(2) show ?case by (rule Cons.IH) (auto intro: Cons.prems(3))
qed

text \<open>The first element on which a partial function is defined.\<close>

fun firstSome :: "('a \<Rightarrow> 'b option) \<Rightarrow> 'a list \<Rightarrow> 'b option" where
  "firstSome f [] = None"
| "firstSome f (x # xs) = (case f x of None \<Rightarrow> firstSome f xs | Some y \<Rightarrow> Some y)"

lemma firstSome_None_iff: "firstSome f xs = None \<longleftrightarrow> (\<forall>x\<in>set xs. f x = None)"
  by (induction xs) (auto split: option.splits)

lemma firstSome_SomeE:
  assumes "firstSome f xs = Some y"
  obtains x where "x \<in> set xs" "f x = Some y"
  using assms by (induction xs) (auto split: option.splits)

lemma firstSome_append: "firstSome f (xs @ ys) = (case firstSome f xs of None \<Rightarrow> firstSome f ys | Some y \<Rightarrow> Some y)"
  by (induction xs) (auto split: option.splits)

lemma firstSome_Some_iff:
  "firstSome f xs = Some y \<longleftrightarrow>
     (\<exists>ys x zs. xs = ys @ x # zs \<and> f x = Some y \<and> (\<forall>z\<in>set ys. f z = None))"
proof
  assume "firstSome f xs = Some y"
  then show "\<exists>ys x zs. xs = ys @ x # zs \<and> f x = Some y \<and> (\<forall>z\<in>set ys. f z = None)"
  proof (induction xs)
    case Nil
    then show ?case by simp
  next
    case (Cons a xs)
    show ?case
    proof (cases "f a")
      case None
      with Cons obtain ys x zs where "xs = ys @ x # zs" "f x = Some y" "\<forall>z\<in>set ys. f z = None" by auto
      with None show ?thesis by (intro exI [of _ "a # ys"]) auto
    next
      case (Some b)
      with Cons.prems show ?thesis by (intro exI [of _ "[]"]) auto
    qed
  qed
next
  assume "\<exists>ys x zs. xs = ys @ x # zs \<and> f x = Some y \<and> (\<forall>z\<in>set ys. f z = None)"
  then show "firstSome f xs = Some y"
    by (auto simp: firstSome_append firstSome_None_iff [THEN iffD2])
qed

section \<open>Machine integers\<close>

text \<open>\<open>int32 x\<close> and \<open>int64 x\<close> are Go's conversions and the result of wrapping arithmetic.\<close>

definition int32 :: "int \<Rightarrow> int" where
  "int32 x = signed_take_bit 31 x"

definition int64 :: "int \<Rightarrow> int" where
  "int64 x = signed_take_bit 63 x"

definition uint64 :: "int \<Rightarrow> int" where
  "uint64 x = x mod 2 ^ 64"

lemma int32_id: "- (2 ^ 31) \<le> x \<Longrightarrow> x < 2 ^ 31 \<Longrightarrow> int32 x = x"
  by (simp add: int32_def signed_take_bit_int_eq_self)

lemma int64_id: "- (2 ^ 63) \<le> x \<Longrightarrow> x < 2 ^ 63 \<Longrightarrow> int64 x = x"
  by (simp add: int64_def signed_take_bit_int_eq_self)

lemma int64_bounds: "- (2 ^ 63) \<le> int64 x" "int64 x < 2 ^ 63"
  using signed_take_bit_int_greater_eq_minus_exp [of 63 x] signed_take_bit_int_less_exp [of 63 x]
  by (simp_all add: int64_def)

lemma int32_bounds: "- (2 ^ 31) \<le> int32 x" "int32 x < 2 ^ 31"
  using signed_take_bit_int_greater_eq_minus_exp [of 31 x] signed_take_bit_int_less_exp [of 31 x]
  by (simp_all add: int32_def)

text \<open>Go's integer division truncates towards zero.\<close>

definition go_div :: "int \<Rightarrow> int \<Rightarrow> int" where
  "go_div a b = (let q = \<bar>a\<bar> div \<bar>b\<bar> in if a < 0 \<longleftrightarrow> b < 0 then q else - q)"

lemma go_div_nonneg: "0 \<le> a \<Longrightarrow> 0 < b \<Longrightarrow> go_div a b = a div b"
  by (simp add: go_div_def)

lemma go_div_neg: "a \<le> 0 \<Longrightarrow> 0 < b \<Longrightarrow> go_div a b = - ((- a) div b)"
  by (cases "a = 0") (simp_all add: go_div_def Let_def)

text \<open>Floor division against a multiple of the divisor.\<close>

lemma le_div_int_iff: "0 < d \<Longrightarrow> k \<le> n div d \<longleftrightarrow> k * d \<le> n" for d k n :: int
proof
  assume d: "0 < d" and "k \<le> n div d"
  then have "k * d \<le> n div d * d" by (intro mult_right_mono) simp_all
  also have "\<dots> \<le> n" using d minus_mod_eq_div_mult [of n d] pos_mod_sign [of d n] by linarith
  finally show "k * d \<le> n" .
next
  assume d: "0 < d" and "k * d \<le> n"
  then have "k * d div d \<le> n div d" by (intro zdiv_mono1)
  with d show "k \<le> n div d" by simp
qed

lemma div_less_int_iff: "0 < d \<Longrightarrow> n div d < k \<longleftrightarrow> n < k * d" for d k n :: int
  using le_div_int_iff [of d k n] by linarith

section \<open>Slices\<close>

definition slice :: "nat \<Rightarrow> nat \<Rightarrow> 'a list \<Rightarrow> 'a list" where
  "slice i j xs = take (j - i) (drop i xs)"

lemma length_slice [simp]: "j \<le> length xs \<Longrightarrow> length (slice i j xs) = j - i"
  by (simp add: slice_def)

lemma slice_append:
  "slice i j (xs @ ys) =
     (if j \<le> length xs then slice i j xs
      else if length xs \<le> i then slice (i - length xs) (j - length xs) ys
      else drop i xs @ take (j - length xs) ys)"
  by (auto simp: slice_def)

lemma slice_all [simp]: "slice 0 (length xs) xs = xs"
  by (simp add: slice_def)

lemma slice_split: "i \<le> j \<Longrightarrow> j \<le> k \<Longrightarrow> slice i j xs @ slice j k xs = slice i k xs"
proof -
  assume "i \<le> j" "j \<le> k"
  then have "drop j xs = drop (j - i) (drop i xs)" by simp
  moreover have "k - i = (j - i) + (k - j)" using \<open>i \<le> j\<close> \<open>j \<le> k\<close> by simp
  ultimately show ?thesis by (simp add: slice_def take_add)
qed

lemma slice_head: "length xs = n \<Longrightarrow> 0 < n \<Longrightarrow> xs ! 0 # slice 1 n xs = xs"
  by (cases xs) (simp_all add: slice_def)

lemma slice_whole: "length xs = n \<Longrightarrow> slice 0 n xs = xs"
  by (simp add: slice_def)

section \<open>Little and big endian integers\<close>

fun int_le :: "nat \<Rightarrow> int \<Rightarrow> bytes" where
  "int_le 0 x = []"
| "int_le (Suc n) x = word_of_int x # int_le n (x div 256)"

fun le_int :: "bytes \<Rightarrow> int" where
  "le_int [] = 0"
| "le_int (b # bs) = uint b + 256 * le_int bs"

definition be_int :: "bytes \<Rightarrow> int" where
  "be_int bs = le_int (rev bs)"

lemma length_int_le [simp]: "length (int_le n x) = n"
  by (induction n arbitrary: x) auto

lemma uint_bounds:
  "uint (a :: 8 word) < 256" "uint (b :: 16 word) < 65536"
  "uint (c :: 32 word) < 4294967296" "uint (d :: 64 word) < 18446744073709551616"
  using uint_lt2p [of a] uint_lt2p [of b] uint_lt2p [of c] uint_lt2p [of d]
  by simp_all

lemma unat_bounds:
  "unat (a :: 8 word) < 256" "unat (b :: 16 word) < 65536"
  "unat (c :: 32 word) < 4294967296" "unat (d :: 64 word) < 18446744073709551616"
  using unsigned_less [of a, where 'a = nat] unsigned_less [of b, where 'a = nat]
    unsigned_less [of c, where 'a = nat] unsigned_less [of d, where 'a = nat]
  by simp_all

lemma le_int_bound: "0 \<le> le_int bs \<and> le_int bs < 256 ^ length bs"
proof (induction bs)
  case Nil
  then show ?case by simp
next
  case (Cons b bs)
  with uint_bounds(1) [of b] show ?case by simp
qed

lemma le_int_int_le [simp]: "le_int (int_le n x) = x mod 256 ^ n"
proof (induction n arbitrary: x)
  case 0
  then show ?case by simp
next
  case (Suc n)
  have "uint (word_of_int x :: byte) = x mod 256" by (simp add: uint_word_of_int)
  then show ?case by (simp add: Suc.IH zmod_zmult2_eq)
qed

lemma int_le_le_int: "length bs = n \<Longrightarrow> int_le n (le_int bs) = bs"
proof (induction bs arbitrary: n)
  case Nil
  then show ?case by simp
next
  case (Cons b bs)
  have b: "0 \<le> uint b" "uint b < 256" by (simp, rule uint_bounds)
  have "word_of_int (uint b + 256 * le_int bs) = (b :: byte)"
    by (simp only: word_uint_eq_iff uint_word_of_int) (simp add: b)
  moreover have "(uint b + 256 * le_int bs) div 256 = le_int bs" using b by simp
  ultimately show ?case using Cons by (cases n) auto
qed

lemma and_128_eq_0: "0 \<le> x \<Longrightarrow> x < 256 \<Longrightarrow> x AND 128 = 0 \<longleftrightarrow> x < 128" for x :: int
proof -
  assume "0 \<le> x" "x < 256"
  then have "x div 128 = (if x < 128 then 0 else 1)" by auto
  then show ?thesis using and_exp_eq_0_iff_not_bit [of x 7] by (simp add: bit_iff_odd split: if_splits)
qed

lemma byte_high: "(u :: byte) AND 0x80 = 0 \<longleftrightarrow> uint u < 128"
proof -
  have "u AND 0x80 = 0 \<longleftrightarrow> uint u AND 128 = 0" by (simp add: word_uint_eq_iff uint_and)
  also have "\<dots> \<longleftrightarrow> uint u < 128" by (rule and_128_eq_0) (simp, rule uint_bounds)
  finally show ?thesis .
qed

lemma byte_low: "(u :: byte) AND 0x7f = 0 \<longleftrightarrow> uint u = 0 \<or> uint u = 128"
proof -
  have "u AND 0x7f = 0 \<longleftrightarrow> uint u AND mask 7 = 0" by (simp add: word_uint_eq_iff uint_and mask_eq_exp_minus_1)
  also have "\<dots> \<longleftrightarrow> uint u mod 128 = 0" by (simp add: take_bit_eq_mod flip: take_bit_eq_mask)
  also have "\<dots> \<longleftrightarrow> uint u = 0 \<or> uint u = 128" using uint_bounds(1) [of u] uint_nonnegative [of u] by presburger
  finally show ?thesis .
qed

lemma byte_or: "uint (u :: byte) < 128 \<Longrightarrow> uint (u OR 0x80) = uint u + 128"
proof -
  assume "uint u < 128"
  then have "uint u AND 128 = 0" by (simp add: and_128_eq_0)
  then show ?thesis by (simp add: uint_or disjunctive_add_eq_or)
qed

lemma le_int_snoc: "le_int (bs @ [u]) = le_int bs + 256 ^ length bs * uint u"
  by (induction bs) (simp_all add: algebra_simps)

text \<open>\<^verbatim>\<open>binary.LittleEndian.PutUint16/32/64\<close> and \<^verbatim>\<open>Uint16/32/64\<close>.\<close>

definition PutUint16 :: "16 word \<Rightarrow> bytes" where "PutUint16 w = int_le 2 (uint w)"
definition PutUint32 :: "32 word \<Rightarrow> bytes" where "PutUint32 w = int_le 4 (uint w)"
definition PutUint64 :: "64 word \<Rightarrow> bytes" where "PutUint64 w = int_le 8 (uint w)"

definition Uint16 :: "bytes \<Rightarrow> 16 word" where "Uint16 bs = word_of_int (le_int (take 2 bs))"
definition Uint32 :: "bytes \<Rightarrow> 32 word" where "Uint32 bs = word_of_int (le_int (take 4 bs))"
definition Uint64 :: "bytes \<Rightarrow> 64 word" where "Uint64 bs = word_of_int (le_int (take 8 bs))"

lemma length_PutUint [simp, size_simps]:
  "length (PutUint16 a) = 2" "length (PutUint32 b) = 4" "length (PutUint64 c) = 8"
  by (simp_all add: PutUint16_def PutUint32_def PutUint64_def)

lemma Uint_PutUint [simp]:
  "Uint16 (PutUint16 a) = a" "Uint32 (PutUint32 b) = b" "Uint64 (PutUint64 c) = c"
  using uint_bounds(2) [of a] uint_bounds(3) [of b] uint_bounds(4) [of c]
  by (simp_all add: PutUint16_def PutUint32_def PutUint64_def Uint16_def Uint32_def Uint64_def)

lemma PutUint_Uint:
  "length xs = 2 \<Longrightarrow> PutUint16 (Uint16 xs) = xs"
  "length xs = 4 \<Longrightarrow> PutUint32 (Uint32 xs) = xs"
  "length xs = 8 \<Longrightarrow> PutUint64 (Uint64 xs) = xs"
  using le_int_bound [of xs]
  by (simp_all add: PutUint16_def PutUint32_def PutUint64_def Uint16_def Uint32_def Uint64_def
      uint_word_of_int int_le_le_int)

lemma PutUint_inj [simp]:
  "PutUint16 a = PutUint16 a' \<longleftrightarrow> a = a'"
  "PutUint32 b = PutUint32 b' \<longleftrightarrow> b = b'"
  "PutUint64 c = PutUint64 c' \<longleftrightarrow> c = c'"
  by (metis Uint_PutUint)+

end
