(* ===== verification/Wire_Common.thy ===== *)
theory Wire_Common
  imports Prelude
begin

text \<open>
  The primitives of package wire (\<^verbatim>\<open>node/wire/common.go\<close>) and the outpoint codec of
  \<^verbatim>\<open>node/wire/msgtx.go\<close>: reading from and writing to byte streams, variable length integers,
  byte strings, and the interfaces every codec of the package obeys.

  A reader is a function from the remaining bytes to an error or a value with the bytes left over.
  A writer into a \<^verbatim>\<open>bytes.Buffer\<close> or a hash never fails, so an encoder is the bytes it appends.
  The interface \<open>codec\<close> states the law of an encoder and its decoder as one equivalence: decoding
  succeeds on exactly the encodings of well-formed values, followed by arbitrary bytes.  It gives the
  round trip, the canonicity of accepted encodings and their unambiguity.  \<open>slab_codec\<close> is the same
  law for readers that take their scripts out of the shared 4 MiB slab of \<open>scriptPool\<close>.
\<close>

section \<open>Errors of package wire\<close>

text \<open>
  \<open>EOF\<close> and \<open>UnexpectedEOF\<close> are the errors of \<^verbatim>\<open>io.ReadFull\<close>; \<open>MessageError\<close> is
  \<^verbatim>\<open>wire.MessageError\<close>; \<open>PlainError\<close> stands for \<^verbatim>\<open>errors.New\<close> and \<^verbatim>\<open>fmt.Errorf\<close>; \<open>Panic\<close> is a
  run-time panic (a slice bound out of range).
\<close>

datatype wireError = EOF | UnexpectedEOF | MessageError | PlainError | Panic

type_synonym 'a reader = "bytes \<Rightarrow> wireError + 'a \<times> bytes"

definition readFull :: "nat \<Rightarrow> bytes reader" where
  "readFull n r =
     (if n \<le> length r then Inr (take n r, drop n r)
      else if r = [] then Inl EOF else Inl UnexpectedEOF)"

lemma readFull_iff [reader_iff]: "readFull n r = Inr (x, r') \<longleftrightarrow> r = x @ r' \<and> length x = n"
  by (auto simp: readFull_def)

lemma readFull_append [simp, reader_run]: "length x = n \<Longrightarrow> readFull n (x @ r) = Inr (x, r)"
  by (simp add: readFull_def)

lemma readFull_short: "length r < n \<Longrightarrow> readFull n r = Inl (if r = [] then EOF else UnexpectedEOF)"
  by (simp add: readFull_def)

text \<open>A structure of fixed size is read in one go, checked, and taken apart by offsets.\<close>

locale fixed_layout =
  fixes n :: nat
    and ok :: "bytes \<Rightarrow> bool"
    and fields :: "bytes \<Rightarrow> 'a"
    and enc :: "'a \<Rightarrow> bytes"
    and wf :: "'a \<Rightarrow> bool"
  assumes enc_fields: "length d = n \<Longrightarrow> ok d \<Longrightarrow> enc (fields d) = d"
    and wf_fields: "length d = n \<Longrightarrow> wf (fields d)"
    and fields_enc: "wf x \<Longrightarrow> fields (enc x) = x"
    and length_enc: "wf x \<Longrightarrow> length (enc x) = n"
    and ok_enc: "wf x \<Longrightarrow> ok (enc x)"
begin

lemma layout_iff: "length d = n \<and> ok d \<and> fields d = x \<longleftrightarrow> wf x \<and> d = enc x"
proof
  assume "length d = n \<and> ok d \<and> fields d = x"
  then show "wf x \<and> d = enc x" using enc_fields [of d] wf_fields [of d] by auto
next
  assume "wf x \<and> d = enc x"
  then show "length d = n \<and> ok d \<and> fields d = x" by (auto simp: fields_enc length_enc ok_enc)
qed

lemma readFull_layout:
  "bindE (readFull n bs) (\<lambda>(buf, r). if \<not> ok buf then Inl e else Inr (fields buf, r)) = Inr (x, r') \<longleftrightarrow>
    wf x \<and> bs = enc x @ r'"
proof -
  have "bindE (readFull n bs) (\<lambda>(buf, r). if \<not> ok buf then Inl e else Inr (fields buf, r)) = Inr (x, r') \<longleftrightarrow>
      (\<exists>buf. bs = buf @ r' \<and> (length buf = n \<and> ok buf \<and> fields buf = x))"
    by (auto simp: readFull_iff split: if_splits)
  then show ?thesis unfolding layout_iff by blast
qed

end

definition readUint16 :: "16 word reader" where
  "readUint16 r = bindE (readFull 2 r) (\<lambda>(b, r). Inr (Uint16 b, r))"

definition readUint32 :: "32 word reader" where
  "readUint32 r = bindE (readFull 4 r) (\<lambda>(b, r). Inr (Uint32 b, r))"

definition readUint64 :: "64 word reader" where
  "readUint64 r = bindE (readFull 8 r) (\<lambda>(b, r). Inr (Uint64 b, r))"

lemma readUint_iff [reader_iff]:
  "readUint16 r = Inr (a, r') \<longleftrightarrow> r = PutUint16 a @ r'"
  "readUint32 r = Inr (b, r') \<longleftrightarrow> r = PutUint32 b @ r'"
  "readUint64 r = Inr (c, r') \<longleftrightarrow> r = PutUint64 c @ r'"
  by (auto simp: readUint16_def readUint32_def readUint64_def readFull_iff PutUint_Uint
      intro: exI [of _ "PutUint16 a"] exI [of _ "PutUint32 b"] exI [of _ "PutUint64 c"])

lemma readUint_Put [simp, reader_run]:
  "readUint16 (PutUint16 a @ r) = Inr (a, r)"
  "readUint32 (PutUint32 b @ r) = Inr (b, r)"
  "readUint64 (PutUint64 c @ r) = Inr (c, r)"
  by (simp_all add: readUint_iff)

section \<open>The codec interfaces\<close>

locale codec =
  fixes enc :: "'a \<Rightarrow> bytes"
    and dec :: "'a reader"
    and wf :: "'a \<Rightarrow> bool"
  assumes dec_iff: "dec bs = Inr (x, r) \<longleftrightarrow> wf x \<and> bs = enc x @ r"
begin

lemma dec_enc: "wf x \<Longrightarrow> dec (enc x @ r) = Inr (x, r)"
  by (simp add: dec_iff)

lemma dec_sound: "dec bs = Inr (x, r) \<Longrightarrow> wf x"
  by (simp add: dec_iff)

lemma dec_canonical: "dec bs = Inr (x, r) \<Longrightarrow> bs = enc x @ r"
  by (simp add: dec_iff)

text \<open>Encodings are unambiguous, even when other data follows them.\<close>

lemma enc_unambiguous:
  assumes "wf x" "wf y" "enc x @ r = enc y @ s"
  shows "x = y \<and> r = s"
proof -
  have "dec (enc x @ r) = Inr (x, r)" using assms(1) by (rule dec_enc)
  moreover have "dec (enc x @ r) = Inr (y, s)" unfolding assms(3) using assms(2) by (rule dec_enc)
  ultimately show ?thesis by simp
qed

lemma enc_inj: "wf x \<Longrightarrow> wf y \<Longrightarrow> enc x = enc y \<longleftrightarrow> x = y"
  using enc_unambiguous [of x y "[]" "[]"] by auto

end

text \<open>
  The loops \<^verbatim>\<open>for i := uint64(0); i < count; i++\<close> of the package: \<open>count\<close> elements are read one after
  the other.  Each element takes \<open>weight x\<close> bytes of the shared slab, of which \<open>cap\<close> are left.
\<close>

fun readN :: "(int \<Rightarrow> 'a reader) \<Rightarrow> ('a \<Rightarrow> nat) \<Rightarrow> nat \<Rightarrow> int \<Rightarrow> ('a list \<times> int) reader" where
  "readN dec weight 0 cap r = Inr (([], cap), r)"
| "readN dec weight (Suc n) cap r =
     bindE (dec cap r) (\<lambda>(x, r).
     bindE (readN dec weight n (cap - int (weight x)) r) (\<lambda>((xs, cap), r). Inr ((x # xs, cap), r)))"

locale slab_codec =
  fixes enc :: "'a \<Rightarrow> bytes"
    and dec :: "int \<Rightarrow> 'a reader"
    and wf :: "'a \<Rightarrow> bool"
    and weight :: "'a \<Rightarrow> nat"
  assumes slab_dec_iff: "0 \<le> cap \<Longrightarrow> dec cap bs = Inr (x, r) \<longleftrightarrow> wf x \<and> int (weight x) \<le> cap \<and> bs = enc x @ r"
begin

lemma readN_iff:
  "0 \<le> cap \<Longrightarrow> readN dec weight n cap bs = Inr ((xs, cap'), r) \<longleftrightarrow>
     length xs = n \<and> (\<forall>x\<in>set xs. wf x) \<and> int (sum_list (map weight xs)) \<le> cap \<and>
     cap' = cap - int (sum_list (map weight xs)) \<and> bs = concat (map enc xs) @ r"
proof (induction n arbitrary: cap bs xs)
  case 0
  then show ?case by auto
next
  case (Suc n)
  show ?case
  proof (cases xs)
    case Nil
    then show ?thesis by auto
  next
    case (Cons x ys)
    have "readN dec weight (Suc n) cap bs = Inr ((xs, cap'), r) \<longleftrightarrow>
        (\<exists>b. dec cap bs = Inr (x, b) \<and> readN dec weight n (cap - int (weight x)) b = Inr ((ys, cap'), r))"
      unfolding Cons by auto
    with Suc.prems Cons show ?thesis
      by (cases "int (weight x) \<le> cap") (auto simp: slab_dec_iff Suc.IH)
  qed
qed

end

text \<open>
  \<^verbatim>\<open>io.LimitReader(r, n)\<close>: a reader that sees only the next \<open>n\<close> bytes.  When the encodings fit, it obeys the
  same law.
\<close>

definition limitReader :: "nat \<Rightarrow> 'a reader \<Rightarrow> 'a reader" where
  "limitReader n dec r = bindE (dec (take n r)) (\<lambda>(x, rest). Inr (x, rest @ drop n r))"

context codec
begin

lemma limitReader_iff:
  assumes "wf x \<Longrightarrow> length (enc x) \<le> n"
  shows "limitReader n dec bs = Inr (x, r) \<longleftrightarrow> wf x \<and> bs = enc x @ r"
proof
  assume "limitReader n dec bs = Inr (x, r)"
  then obtain rest where "wf x" "take n bs = enc x @ rest" "r = rest @ drop n bs"
    by (auto simp: limitReader_def dec_iff)
  then show "wf x \<and> bs = enc x @ r" by (metis append.assoc append_take_drop_id)
next
  assume "wf x \<and> bs = enc x @ r"
  with assms show "limitReader n dec bs = Inr (x, r)"
    by (simp add: limitReader_def dec_enc)
qed

end

text \<open>Elements without scripts are the case of weight zero.\<close>

abbreviation readList :: "'a reader \<Rightarrow> nat \<Rightarrow> bytes \<Rightarrow> wireError + ('a list \<times> int) \<times> bytes" where
  "readList dec n \<equiv> readN (\<lambda>_. dec) (\<lambda>_. 0) n 0"

sublocale codec \<subseteq> plain: slab_codec enc "\<lambda>_. dec" wf "\<lambda>_. 0"
  by unfold_locales (simp add: dec_iff)

interpretation uint16_codec: codec PutUint16 readUint16 "\<lambda>_. True"
  by unfold_locales (simp add: readUint_iff)

interpretation uint32_codec: codec PutUint32 readUint32 "\<lambda>_. True"
  by unfold_locales (simp add: readUint_iff)

interpretation uint64_codec: codec PutUint64 readUint64 "\<lambda>_. True"
  by unfold_locales (simp add: readUint_iff)

section \<open>Variable length integers\<close>

definition WriteVarInt :: "64 word \<Rightarrow> bytes" where
  "WriteVarInt val =
     (if val < 0xfd then [ucast val]
      else if val \<le> 0xffff then 0xfd # PutUint16 (ucast val)
      else if val \<le> 0xffffffff then 0xfe # PutUint32 (ucast val)
      else 0xff # PutUint64 val)"

definition ReadVarInt :: "64 word reader" where
  "ReadVarInt r =
     bindE (readFull 1 r) (\<lambda>(buf, r). let discriminant = buf ! 0 in
       if discriminant = 0xff then
         bindE (readFull 8 r) (\<lambda>(buf, r). let rv = Uint64 buf in
           if rv < 0x100000000 then Inl MessageError else Inr (rv, r))
       else if discriminant = 0xfe then
         bindE (readFull 4 r) (\<lambda>(buf, r). let rv = ucast (Uint32 buf) in
           if rv < 0x10000 then Inl MessageError else Inr (rv, r))
       else if discriminant = 0xfd then
         bindE (readFull 2 r) (\<lambda>(buf, r). let rv = ucast (Uint16 buf) in
           if rv < 0xfd then Inl MessageError else Inr (rv, r))
       else Inr (ucast discriminant, r))"

definition VarIntSerializeSize :: "64 word \<Rightarrow> nat" where
  "VarIntSerializeSize val =
     (if val < 0xfd then 1 else if val \<le> 0xffff then 3 else if val \<le> 0xffffffff then 5 else 9)"

lemma length_WriteVarInt [simp, size_simps]: "length (WriteVarInt v) = VarIntSerializeSize v"
  by (simp add: WriteVarInt_def VarIntSerializeSize_def)

text \<open>The four ranges, on the natural number the word denotes.\<close>

lemma unat_ucast_up:
  "unat (ucast (a :: 8 word) :: 64 word) = unat a"
  "unat (ucast (b :: 16 word) :: 64 word) = unat b"
  "unat (ucast (c :: 32 word) :: 64 word) = unat c"
  using unat_bounds(1) [of a] unat_bounds(2) [of b] unat_bounds(3) [of c]
  by (simp_all add: unsigned_ucast_eq take_bit_eq_mod)

lemma uint_ucast_up:
  "uint (ucast (a :: 8 word) :: 64 word) = uint a"
  "uint (ucast (b :: 16 word) :: 64 word) = uint b"
  "uint (ucast (c :: 32 word) :: 64 word) = uint c"
  using uint_bounds(1) [of a] uint_bounds(2) [of b] uint_bounds(3) [of c]
  by (simp_all add: unsigned_ucast_eq take_bit_eq_mod)

lemma unat_ucast_down:
  "unat (ucast (v :: 64 word) :: 8 word) = unat v mod 256"
  "unat (ucast (v :: 64 word) :: 16 word) = unat v mod 65536"
  "unat (ucast (v :: 64 word) :: 32 word) = unat v mod 4294967296"
  by (simp_all add: unsigned_ucast_eq take_bit_eq_mod)

lemmas word_nat_simps = word_unat_eq_iff word_less_nat_alt word_le_nat_alt
  unat_ucast_up unat_ucast_down

lemma ReadVarInt_WriteVarInt [reader_run]: "ReadVarInt (WriteVarInt v @ r) = Inr (v, r)"
proof -
  have v: "unat v < 18446744073709551616" by (rule unat_bounds)
  consider "unat v < 253" | "253 \<le> unat v" "unat v < 65536"
    | "65536 \<le> unat v" "unat v < 4294967296" | "4294967296 \<le> unat v" by linarith
  then show ?thesis
  proof cases
    case 1
    then show ?thesis by (simp add: ReadVarInt_def WriteVarInt_def readFull_def word_nat_simps)
  next
    case 2
    then show ?thesis
      by (simp add: ReadVarInt_def WriteVarInt_def readFull_def word_nat_simps)
  next
    case 3
    then show ?thesis
      by (simp add: ReadVarInt_def WriteVarInt_def readFull_def word_nat_simps)
  next
    case 4
    then show ?thesis
      by (simp add: ReadVarInt_def WriteVarInt_def readFull_def word_nat_simps)
  qed
qed

lemma WriteVarInt_cases:
  "253 \<le> unat (a :: 16 word) \<Longrightarrow> WriteVarInt (ucast a) = 0xfd # PutUint16 a"
  "65536 \<le> unat (b :: 32 word) \<Longrightarrow> WriteVarInt (ucast b) = 0xfe # PutUint32 b"
  "4294967296 \<le> unat c \<Longrightarrow> WriteVarInt c = 0xff # PutUint64 c"
  "unat (d :: 8 word) < 253 \<Longrightarrow> WriteVarInt (ucast d) = [d]"
  using unat_bounds(2) [of a] unat_bounds(3) [of b]
  by (simp_all add: WriteVarInt_def word_nat_simps)

lemma ReadVarInt_Cons:
  "ReadVarInt [] = Inl EOF"
  "ReadVarInt (d # s) =
     (if d = 0xff then
         bindE (readFull 8 s) (\<lambda>(buf, r). let rv = Uint64 buf in
           if rv < 0x100000000 then Inl MessageError else Inr (rv, r))
       else if d = 0xfe then
         bindE (readFull 4 s) (\<lambda>(buf, r). let rv = ucast (Uint32 buf) in
           if rv < 0x10000 then Inl MessageError else Inr (rv, r))
       else if d = 0xfd then
         bindE (readFull 2 s) (\<lambda>(buf, r). let rv = ucast (Uint16 buf) in
           if rv < 0xfd then Inl MessageError else Inr (rv, r))
       else Inr (ucast d, s))"
  by (simp_all add: ReadVarInt_def readFull_def)

lemma ReadVarInt_canonical:
  assumes "ReadVarInt bs = Inr (v, r)"
  shows "bs = WriteVarInt v @ r"
proof (cases bs)
  case Nil
  with assms show ?thesis by (simp add: ReadVarInt_Cons)
next
  case (Cons d s)
  have "unat d < 253" if "d \<noteq> 0xff" "d \<noteq> 0xfe" "d \<noteq> 0xfd"
    using that unat_bounds(1) [of d] by (auto simp: word_unat_eq_iff)
  with assms show ?thesis
    unfolding Cons ReadVarInt_Cons
    by (auto simp: readFull_iff Let_def WriteVarInt_cases PutUint_Uint word_less_nat_alt
        unat_ucast_up not_less split: if_splits)
qed

lemma ReadVarInt_iff [reader_iff]: "ReadVarInt bs = Inr (v, r) \<longleftrightarrow> bs = WriteVarInt v @ r"
  using ReadVarInt_canonical ReadVarInt_WriteVarInt by blast

interpretation varint_codec: codec WriteVarInt ReadVarInt "\<lambda>_. True"
  by unfold_locales (simp add: ReadVarInt_iff)

section \<open>Variable length byte strings\<close>

text \<open>\<^verbatim>\<open>uint64(len(x))\<close>\<close>

definition lenU64 :: "'a list \<Rightarrow> 64 word" where
  "lenU64 xs = word_of_int (int (length xs))"

definition WriteVarBytes :: "bytes \<Rightarrow> bytes" where
  "WriteVarBytes b = WriteVarInt (lenU64 b) @ b"

definition ReadVarBytes :: "32 word \<Rightarrow> bytes reader" where
  "ReadVarBytes maxAllowed r =
     bindE (ReadVarInt r) (\<lambda>(count, r).
       if count > ucast maxAllowed then Inl MessageError else readFull (unat count) r)"

definition MaxMessagePayload :: int where
  "MaxMessagePayload = 1024 * 1024 * 32"

definition WriteVarString :: "bytes \<Rightarrow> bytes" where
  "WriteVarString str = WriteVarInt (lenU64 str) @ str"

definition ReadVarString :: "bytes reader" where
  "ReadVarString r =
     bindE (ReadVarInt r) (\<lambda>(count, r).
       if uint count > MaxMessagePayload then Inl MessageError else readFull (unat count) r)"

lemma length_WriteVarBytes [size_simps]:
  "length (WriteVarBytes b) = VarIntSerializeSize (lenU64 b) + length b"
  by (simp add: WriteVarBytes_def)

lemma uint_lenU64: "int (length xs) < 2 ^ 64 \<Longrightarrow> uint (lenU64 xs) = int (length xs)"
  unfolding lenU64_def uint_word_of_int by simp

lemma unat_lenU64: "int (length xs) < 2 ^ 64 \<Longrightarrow> unat (lenU64 xs) = length xs"
  by (simp add: unat_eq_nat_uint uint_lenU64)

text \<open>
  A count read from the wire, bounded by \<open>m\<close> before anything is allocated, and that many elements.
\<close>

definition readMany ::
  "int \<Rightarrow> (int \<Rightarrow> 'a reader) \<Rightarrow> ('a \<Rightarrow> nat) \<Rightarrow> 64 word \<Rightarrow> int \<Rightarrow> ('a list \<times> int) reader" where
  "readMany m dec weight count cap r =
     (if uint count > m then Inl MessageError else readN dec weight (unat count) cap r)"

lemma count_eq_iff:
  "uint count \<le> m \<and> length xs = unat count \<longleftrightarrow> count = lenU64 xs \<and> int (length xs) \<le> m" if "m < 2 ^ 64"
proof
  assume "uint count \<le> m \<and> length xs = unat count"
  then show "count = lenU64 xs \<and> int (length xs) \<le> m" by (simp add: lenU64_def)
next
  assume "count = lenU64 xs \<and> int (length xs) \<le> m"
  with that show "uint count \<le> m \<and> length xs = unat count" by (simp add: uint_lenU64 unat_lenU64)
qed

context slab_codec
begin

lemma readMany_iff:
  assumes "m < 2 ^ 64" and "0 \<le> cap"
  shows "readMany m dec weight count cap bs = Inr ((xs, cap'), r) \<longleftrightarrow>
     count = lenU64 xs \<and> int (length xs) \<le> m \<and> (\<forall>x\<in>set xs. wf x) \<and>
     int (sum_list (map weight xs)) \<le> cap \<and> cap' = cap - int (sum_list (map weight xs)) \<and>
     bs = concat (map enc xs) @ r"
  using count_eq_iff [OF assms(1), of count xs]
  by (auto simp: readMany_def readN_iff [OF assms(2)] not_less)

lemma readMany_run:
  assumes "m < 2 ^ 64" and "0 \<le> cap"
    and "int (length xs) \<le> m" and "\<forall>x\<in>set xs. wf x" and "int (sum_list (map weight xs)) \<le> cap"
  shows "readMany m dec weight (lenU64 xs) cap (concat (map enc xs) @ r) =
     Inr ((xs, cap - int (sum_list (map weight xs))), r)"
  using assms by (simp add: readMany_iff)

end

text \<open>A length prefix followed by that many bytes, with the bound a reader puts on the length.\<close>

lemma count_prefix_iff:
  assumes "m < 2 ^ 64"
  shows "(\<exists>count. r = WriteVarInt count @ x \<and> uint count \<le> m \<and> length xs = unat count) \<longleftrightarrow>
         int (length xs) \<le> m \<and> r = WriteVarInt (lenU64 xs) @ x"
  unfolding count_eq_iff [OF assms] by auto

lemma ReadVarBytes_iff [reader_iff]:
  "ReadVarBytes m r = Inr (x, r') \<longleftrightarrow> int (length x) \<le> uint m \<and> r = WriteVarBytes x @ r'"
proof -
  have m: "uint m < 2 ^ 64" using uint_bounds(3) [of m] by simp
  have "ReadVarBytes m r = Inr (x, r') \<longleftrightarrow>
      (\<exists>count. r = WriteVarInt count @ x @ r' \<and> uint count \<le> uint m \<and> length x = unat count)"
    by (auto simp: ReadVarBytes_def reader_iff word_le_def uint_ucast_up not_less split: if_splits)
  then show ?thesis by (simp add: count_prefix_iff [OF m] WriteVarBytes_def)
qed

lemma ReadVarString_iff [reader_iff]:
  "ReadVarString r = Inr (x, r') \<longleftrightarrow> int (length x) \<le> MaxMessagePayload \<and> r = WriteVarString x @ r'"
proof -
  have m: "MaxMessagePayload < 2 ^ 64" by (simp add: MaxMessagePayload_def)
  have "ReadVarString r = Inr (x, r') \<longleftrightarrow>
      (\<exists>count. r = WriteVarInt count @ x @ r' \<and> uint count \<le> MaxMessagePayload \<and> length x = unat count)"
    by (auto simp: ReadVarString_def reader_iff not_less split: if_splits)
  then show ?thesis by (simp add: count_prefix_iff [OF m] WriteVarString_def)
qed

lemmas [reader_run] = ReadVarBytes_iff [THEN iffD2, OF conjI, OF _ refl]
  ReadVarString_iff [THEN iffD2, OF conjI, OF _ refl]

interpretation varbytes_codec: codec WriteVarBytes "ReadVarBytes m" "\<lambda>b. int (length b) \<le> uint m" for m
  by unfold_locales (simp add: ReadVarBytes_iff)

interpretation varstring_codec:
  codec WriteVarString ReadVarString "\<lambda>b. int (length b) \<le> MaxMessagePayload"
  by unfold_locales (simp add: ReadVarString_iff)

section \<open>Properties\<close>

text \<open>
  A variable length integer is read from exactly its canonical encoding, whatever follows it: the reader
  inverts the writer, and it rejects every longer encoding of the same number.
\<close>

theorem ReadVarInt_accepts: "ReadVarInt bs = Inr (v, r) \<longleftrightarrow> bs = WriteVarInt v @ r"
  by (rule ReadVarInt_iff)

end
