(* ===== verification/Chainhash.thy ===== *)
theory Chainhash
  imports Prelude
begin

text \<open>
  Package chainhash (\<^verbatim>\<open>node/chaincfg/chainhash\<close>): the 32-byte hash type and the double SHA-256
  digests that identify blocks and transactions.  SHA-256 itself is Go's \<^verbatim>\<open>crypto/sha256\<close>; it is
  modelled here from FIPS 180-4, so that every digest of the development is a computable function.
\<close>

section \<open>SHA-256\<close>

text \<open>
  The constants of the algorithm are the first 32 bits of the fractional parts of the square roots of the
  first eight primes and of the cube roots of the first 64 primes.  \<open>int_root k b n a\<close> finds the integer
  \<open>k\<close>-th root of \<open>n\<close> bit by bit, starting from \<open>a\<close> with \<open>b\<close> bits to go.
\<close>

definition sha256_primes :: "int list" where
  "sha256_primes = [
     2, 3, 5, 7, 11, 13, 17, 19, 23, 29, 31, 37, 41, 43, 47, 53,
     59, 61, 67, 71, 73, 79, 83, 89, 97, 101, 103, 107, 109, 113, 127, 131,
     137, 139, 149, 151, 157, 163, 167, 173, 179, 181, 191, 193, 197, 199, 211, 223,
     227, 229, 233, 239, 241, 251, 257, 263, 269, 271, 277, 281, 283, 293, 307, 311]"

fun int_root :: "nat \<Rightarrow> nat \<Rightarrow> int \<Rightarrow> int \<Rightarrow> int" where
  "int_root k 0 n a = a"
| "int_root k (Suc b) n a = (let a' = a + 2 ^ b in int_root k b n (if a' ^ k \<le> n then a' else a))"

definition root_bits :: "nat \<Rightarrow> int \<Rightarrow> 32 word" where
  "root_bits k p = word_of_int (int_root k 40 (p * 2 ^ (32 * k)) 0)"

definition sha256_H0 :: "32 word list" where
  "sha256_H0 = map (root_bits 2) (take 8 sha256_primes)"

definition sha256_K :: "32 word list" where
  "sha256_K = map (root_bits 3) sha256_primes"

definition sigma0 :: "32 word \<Rightarrow> 32 word" where
  "sigma0 x = word_rotr 7 x XOR word_rotr 18 x XOR drop_bit 3 x"

definition sigma1 :: "32 word \<Rightarrow> 32 word" where
  "sigma1 x = word_rotr 17 x XOR word_rotr 19 x XOR drop_bit 10 x"

definition Sigma0 :: "32 word \<Rightarrow> 32 word" where
  "Sigma0 x = word_rotr 2 x XOR word_rotr 13 x XOR word_rotr 22 x"

definition Sigma1 :: "32 word \<Rightarrow> 32 word" where
  "Sigma1 x = word_rotr 6 x XOR word_rotr 11 x XOR word_rotr 25 x"

definition sha_Ch :: "32 word \<Rightarrow> 32 word \<Rightarrow> 32 word \<Rightarrow> 32 word" where
  "sha_Ch x y z = (x AND y) XOR (NOT x AND z)"

definition sha_Maj :: "32 word \<Rightarrow> 32 word \<Rightarrow> 32 word \<Rightarrow> 32 word" where
  "sha_Maj x y z = (x AND (y OR z)) OR (y AND z)"

text \<open>
  The 64 rounds keep a window of the last sixteen message schedule words; the state is the list of the
  eight working variables.
\<close>

fun sha256_round :: "32 word \<Rightarrow> 32 word \<Rightarrow> 32 word list \<Rightarrow> 32 word list" where
  "sha256_round k w [a, b, c, d, e, f, g, h] =
     (let t1 = h + Sigma1 e + sha_Ch e f g + k + w;
          t2 = Sigma0 a + sha_Maj a b c
      in [t1 + t2, a, b, c, d + t1, e, f, g])"
| "sha256_round k w st = st"

fun sha256_rounds :: "32 word list \<Rightarrow> 32 word list \<Rightarrow> 32 word list \<Rightarrow> 32 word list" where
  "sha256_rounds [] ws st = st"
| "sha256_rounds (k # ks) ws st =
     sha256_rounds ks
       (tl ws @ [sigma1 (ws ! 14) + ws ! 9 + sigma0 (ws ! 1) + ws ! 0])
       (sha256_round k (ws ! 0) st)"

definition sha256_block :: "32 word list \<Rightarrow> bytes \<Rightarrow> 32 word list" where
  "sha256_block H blk =
     map2 (+) H (sha256_rounds sha256_K
       (map (\<lambda>i. word_of_int (be_int (slice (4 * i) (4 * i + 4) blk))) [0..<16]) H)"

definition sha256_pad :: "bytes \<Rightarrow> bytes" where
  "sha256_pad m =
     m @ [0x80] @ replicate ((119 - length m mod 64) mod 64) 0 @ rev (int_le 8 (8 * int (length m)))"

fun sha256_blocks :: "nat \<Rightarrow> 32 word list \<Rightarrow> bytes \<Rightarrow> 32 word list" where
  "sha256_blocks 0 H m = H"
| "sha256_blocks (Suc n) H m = sha256_blocks n (sha256_block H (take 64 m)) (drop 64 m)"

definition Sum256 :: "bytes \<Rightarrow> bytes" where
  "Sum256 m =
     (let p = sha256_pad m
      in concat (map (\<lambda>w. rev (PutUint32 w)) (sha256_blocks (length p div 64) sha256_H0 p)))"

section \<open>Digests of package chainhash\<close>

type_synonym hash = bytes

definition HashSize :: nat where "HashSize = 32"

abbreviation wf_hash :: "hash \<Rightarrow> bool" where
  "wf_hash h \<equiv> length h = 32"

definition HashB :: "bytes \<Rightarrow> bytes" where
  "HashB b = Sum256 b"

definition HashH :: "bytes \<Rightarrow> hash" where
  "HashH b = Sum256 b"

definition DoubleHashB :: "bytes \<Rightarrow> bytes" where
  "DoubleHashB b = (let first = Sum256 b; second = Sum256 first in second)"

definition DoubleHashH :: "bytes \<Rightarrow> hash" where
  "DoubleHashH b = (let first = Sum256 b in Sum256 first)"

text \<open>The serialiser passed to \<^verbatim>\<open>DoubleHashRaw\<close> is the bytes it writes into the hash.\<close>

definition DoubleHashRaw :: "bytes \<Rightarrow> hash" where
  "DoubleHashRaw serialized = (let first = Sum256 serialized; res = Sum256 first in res)"

definition zeroHash :: hash where
  "zeroHash = replicate 32 0"

lemma length_sha256_round: "length st = 8 \<Longrightarrow> length (sha256_round k w st) = 8"
  by (cases "(k, w, st)" rule: sha256_round.cases) (auto simp: Let_def)

lemma length_sha256_rounds: "length st = 8 \<Longrightarrow> length (sha256_rounds ks ws st) = 8"
  by (induction ks ws st rule: sha256_rounds.induct) (auto simp: length_sha256_round)

lemma length_sha256_block: "length H = 8 \<Longrightarrow> length (sha256_block H b) = 8"
  by (simp add: sha256_block_def length_sha256_rounds)

lemma length_sha256_blocks: "length H = 8 \<Longrightarrow> length (sha256_blocks n H m) = 8"
  by (induction n H m rule: sha256_blocks.induct) (auto simp: length_sha256_block)

lemma length_concat_const: "(\<forall>x\<in>set xs. length (f x) = n) \<Longrightarrow> length (concat (map f xs)) = n * length xs"
  by (induction xs) auto

lemma length_Sum256 [simp]: "length (Sum256 m) = 32"
proof -
  have "length (sha256_blocks n sha256_H0 p) = 8" for n p
    by (rule length_sha256_blocks) (simp add: sha256_H0_def sha256_primes_def)
  then show ?thesis by (simp add: Sum256_def Let_def length_concat_const [where n = 4])
qed

lemma length_digests [simp]:
  "length (HashB b) = 32" "length (HashH b) = 32" "length (DoubleHashB b) = 32"
  "length (DoubleHashH b) = 32" "length (DoubleHashRaw b) = 32" "length zeroHash = 32"
  by (simp_all add: HashB_def HashH_def DoubleHashB_def DoubleHashH_def DoubleHashRaw_def
      zeroHash_def Let_def)

text \<open>The padded message is a whole number of 64-byte blocks, so the loop consumes all of it.\<close>

lemma pad_mod_low: "a \<le> 55 \<Longrightarrow> (119 - a) mod 64 = 55 - (a :: nat)"
proof -
  assume "a \<le> 55"
  then have "119 - a = 55 - a + 64" by linarith
  then have "(119 - a) mod 64 = (55 - a + 64) mod 64" by (simp only:)
  also have "\<dots> = (55 - a) mod 64" by (rule mod_add_self2)
  also have "\<dots> = 55 - a" by (rule mod_less) linarith
  finally show ?thesis .
qed

lemma pad_mod_high: "\<not> a \<le> 55 \<Longrightarrow> (119 - a) mod 64 = 119 - (a :: nat)"
  by (rule mod_less) linarith

lemma pad_dvd: "a < 64 \<Longrightarrow> 64 dvd a + 9 + (119 - a) mod (64 :: nat)"
proof (cases "a \<le> 55")
  case True
  then have "a + 9 + (55 - a) = 64" by linarith
  then show ?thesis unfolding pad_mod_low [OF True] by (simp only: dvd_refl)
next
  case False
  assume "a < 64"
  then have "a + 9 + (119 - a) = 64 * 2" by linarith
  then show ?thesis unfolding pad_mod_high [OF False] by (simp only: dvd_triv_left)
qed

lemma sha256_pad_blocks: "64 dvd length (sha256_pad m)"
proof -
  define a where "a = length m mod 64"
  have "length (sha256_pad m) = length m + 9 + (119 - a) mod 64"
    unfolding a_def sha256_pad_def
    by (simp only: length_append length_replicate length_rev length_int_le list.size)
  also have "\<dots> = 64 * (length m div 64) + (a + 9 + (119 - a) mod 64)"
    using mult_div_mod_eq [of 64 "length m"] unfolding a_def by linarith
  finally show ?thesis
    using pad_dvd [of a] by (simp only: a_def dvd_add dvd_triv_left mod_less_divisor zero_less_numeral)
qed

end
