(* ===== verification/Wire_Tx.thy ===== *)
theory Wire_Tx
  imports Wire_Common Chainhash
begin

text \<open>
  Transactions and their wire format (\<^verbatim>\<open>node/wire/msgtx.go\<close>).

  The records have the fields of the Go structs: \<open>Version\<close> and \<open>Value\<close> are the two's complement words
  of \<^verbatim>\<open>int32\<close> and \<^verbatim>\<open>int64\<close> (read with \<open>sint\<close>), a fixed-size Go array is a byte list of that length.

  \<open>prlDecode\<close> takes every script out of one slab of 4 MiB; the argument \<open>sbuf\<close> of a reader is the number of
  bytes the slab has left.  A script longer than that makes the slice expression \<^verbatim>\<open>s[:count]\<close> panic.  The
  lemmas show that decoding accepts exactly the encodings of the well-formed transactions, that the size
  functions count the bytes written, and when the decoder panics.
\<close>

section \<open>Data\<close>

record OutPoint =
  Hash :: hash
  Index :: "32 word"

record TxIn =
  PreviousOutPoint :: OutPoint
  SignatureScript :: bytes
  Witness :: "bytes list"
  Sequence :: "32 word"

record TxOut =
  Value :: "64 word"
  PkScript :: bytes

record MsgTx =
  Version :: "32 word"
  TxIn :: "TxIn list"
  TxOut :: "TxOut list"
  LockTime :: "32 word"

datatype MessageEncoding = BaseEncoding | WitnessEncoding

definition TxVersion :: "32 word" where "TxVersion = 1"
definition TxVersionInference :: "32 word" where "TxVersionInference = 3"
definition TxVersionInferenceProof :: "32 word" where "TxVersionInferenceProof = 4"
definition TxVersionInferenceGo :: "32 word" where "TxVersionInferenceGo = 5"
definition MaxTxInSequenceNum :: "32 word" where "MaxTxInSequenceNum = 0xffffffff"
definition MaxPrevOutIndex :: "32 word" where "MaxPrevOutIndex = 0xffffffff"

definition minTxInPayload :: int where "minTxInPayload = 9 + 32"
definition maxTxInPerMessage :: int where "maxTxInPerMessage = MaxMessagePayload div minTxInPayload + 1"
definition MinTxOutPayload :: int where "MinTxOutPayload = 9"
definition maxTxOutPerMessage :: int where "maxTxOutPerMessage = MaxMessagePayload div MinTxOutPayload + 1"
definition maxWitnessItemsPerInput :: int where "maxWitnessItemsPerInput = 4000000"
definition maxWitnessItemSize :: int where "maxWitnessItemSize = 4000000"

text \<open>The size of a \<^verbatim>\<open>scriptSlab\<close>, \<^verbatim>\<open>1 << 22\<close> bytes.\<close>

definition scriptSlabSize :: int where "scriptSlabSize = 4194304"

definition TxFlagMarker :: byte where "TxFlagMarker = 0"
definition WitnessFlag :: byte where "WitnessFlag = 1"

section \<open>Outpoints\<close>

definition writeOutPoint :: "OutPoint \<Rightarrow> bytes" where
  "writeOutPoint op = Hash op @ PutUint32 (Index op)"

definition readOutPoint :: "OutPoint reader" where
  "readOutPoint r =
     bindE (readFull HashSize r) (\<lambda>(h, r).
     bindE (readUint32 r) (\<lambda>(i, r). Inr (\<lparr>Hash = h, Index = i\<rparr>, r)))"

definition wf_outpoint :: "OutPoint \<Rightarrow> bool" where
  "wf_outpoint op \<longleftrightarrow> length (Hash op) = HashSize"

section \<open>Scripts\<close>

definition readScript :: "int \<Rightarrow> bytes reader" where
  "readScript s r =
     bindE (ReadVarInt r) (\<lambda>(count, r).
       if uint count > maxWitnessItemSize then Inl MessageError
       else if uint count > s then Inl Panic
       else readFull (unat count) r)"

section \<open>Inputs and outputs\<close>

definition readTxIn :: "int \<Rightarrow> TxIn reader" where
  "readTxIn s r =
     bindE (readOutPoint r) (\<lambda>(op, r).
     bindE (readScript s r) (\<lambda>(script, r).
     bindE (readUint32 r) (\<lambda>(sequence, r).
       Inr (\<lparr>PreviousOutPoint = op, SignatureScript = script, Witness = [], Sequence = sequence\<rparr>, r))))"

definition writeTxIn :: "TxIn \<Rightarrow> bytes" where
  "writeTxIn ti =
     writeOutPoint (PreviousOutPoint ti) @ WriteVarBytes (SignatureScript ti) @ PutUint32 (Sequence ti)"

definition readTxOut :: "int \<Rightarrow> TxOut reader" where
  "readTxOut s r =
     bindE (readUint64 r) (\<lambda>(value, r).
     bindE (readScript s r) (\<lambda>(script, r).
       Inr (\<lparr>Value = value, PkScript = script\<rparr>, r)))"

definition WriteTxOut :: "TxOut \<Rightarrow> bytes" where
  "WriteTxOut to = PutUint64 (Value to) @ WriteVarBytes (PkScript to)"

definition writeTxWitness :: "bytes list \<Rightarrow> bytes" where
  "writeTxWitness wit = WriteVarInt (lenU64 wit) @ concat (map WriteVarBytes wit)"

definition readTxWitness :: "int \<Rightarrow> bytes list reader" where
  "readTxWitness s r =
     bindE (ReadVarInt r) (\<lambda>(witCount, r).
     bindE (readMany maxWitnessItemsPerInput readScript length witCount s r) (\<lambda>((wit, s), r).
       Inr (wit, r)))"

section \<open>Transactions\<close>

definition HasWitness :: "MsgTx \<Rightarrow> bool" where
  "HasWitness msg \<longleftrightarrow> list_ex (\<lambda>txIn. Witness txIn \<noteq> []) (TxIn msg)"

definition prlEncode :: "MessageEncoding \<Rightarrow> MsgTx \<Rightarrow> bytes" where
  "prlEncode enc msg =
     (let doWitness = enc = WitnessEncoding \<and> HasWitness msg in
      PutUint32 (Version msg) @
      (if doWitness then [TxFlagMarker, WitnessFlag] else []) @
      WriteVarInt (lenU64 (TxIn msg)) @ concat (map writeTxIn (TxIn msg)) @
      WriteVarInt (lenU64 (TxOut msg)) @ concat (map WriteTxOut (TxOut msg)) @
      (if doWitness then concat (map (\<lambda>ti. writeTxWitness (Witness ti)) (TxIn msg)) else []) @
      PutUint32 (LockTime msg))"

text \<open>
  The end of \<open>prlDecode\<close> copies all scripts into one buffer of \<open>totalScriptSize\<close> bytes and makes every
  script field a slice of it.  \<open>copyScripts\<close> is the copying (\<^verbatim>\<open>copy(scripts[offset:], script)\<close>),
  \<open>resliceScripts\<close> the slices \<^verbatim>\<open>scripts[offset:end:end]\<close>, seen after all the copying is done; the order is
  the code's: for each input its signature script and its witness items, then the output scripts.
\<close>

fun copyScripts :: "bytes \<Rightarrow> nat \<Rightarrow> bytes list \<Rightarrow> bytes" where
  "copyScripts buf offset [] = buf"
| "copyScripts buf offset (s # ss) =
     copyScripts (take offset buf @ take (length buf - offset) s @ drop (offset + length s) buf)
       (offset + length s) ss"

fun resliceScripts :: "bytes \<Rightarrow> nat \<Rightarrow> bytes list \<Rightarrow> bytes list" where
  "resliceScripts buf offset [] = []"
| "resliceScripts buf offset (s # ss) =
     slice offset (offset + length s) buf # resliceScripts buf (offset + length s) ss"

definition scriptsOf :: "TxIn list \<Rightarrow> TxOut list \<Rightarrow> bytes list" where
  "scriptsOf ins outs = concat (map (\<lambda>ti. SignatureScript ti # Witness ti) ins) @ map PkScript outs"

fun setInScripts :: "TxIn list \<Rightarrow> bytes list \<Rightarrow> TxIn list \<times> bytes list" where
  "setInScripts [] ss = ([], ss)"
| "setInScripts (ti # tis) ss =
     (let n = length (Witness ti);
          (tis', rest) = setInScripts tis (drop (Suc n) ss)
      in (ti\<lparr>SignatureScript := hd ss, Witness := take n (tl ss)\<rparr> # tis', rest))"

definition contiguousScripts :: "nat \<Rightarrow> TxIn list \<Rightarrow> TxOut list \<Rightarrow> TxIn list \<times> TxOut list" where
  "contiguousScripts totalScriptSize ins outs =
     (let scripts = scriptsOf ins outs;
          buf = copyScripts (replicate totalScriptSize 0) 0 scripts;
          (ins', rest) = setInScripts ins (resliceScripts buf 0 scripts)
      in (ins', map2 (\<lambda>to s. to\<lparr>PkScript := s\<rparr>) outs rest))"

definition witnessSize :: "bytes list \<Rightarrow> nat" where
  "witnessSize wit = sum_list (map length wit)"

definition setWitness :: "TxIn \<Rightarrow> bytes list \<Rightarrow> TxIn" where
  "setWitness ti wit = ti\<lparr>Witness := wit\<rparr>"

text \<open>The three phases of \<open>prlDecode\<close> that depend on the encoding: the input count with the flag before it.\<close>

definition readTxInCount :: "MessageEncoding \<Rightarrow> (byte \<times> 64 word) reader" where
  "readTxInCount enc r =
     bindE (ReadVarInt r) (\<lambda>(count, r).
     if count = ucast TxFlagMarker \<and> enc = WitnessEncoding
     then bindE (readFull 1 r) (\<lambda>(flag, r).
       if flag ! 0 \<noteq> WitnessFlag then Inl MessageError
       else bindE (ReadVarInt r) (\<lambda>(count, r). Inr ((flag ! 0, count), r)))
     else Inr ((0, count), r))"

text \<open>The witness stacks of the inputs, present when the flag was.\<close>

definition readWitnesses :: "MessageEncoding \<Rightarrow> byte \<Rightarrow> int \<Rightarrow> TxIn list \<Rightarrow> TxIn list reader" where
  "readWitnesses enc flag sbuf ins r =
     (if flag \<noteq> 0 \<and> enc = WitnessEncoding
      then bindE (readN readTxWitness witnessSize (length ins) sbuf r) (\<lambda>((wits, sbuf), r).
        let ins = map2 setWitness ins wits in
        if list_ex (\<lambda>ti. Witness ti \<noteq> []) ins then Inr (ins, r) else Inl PlainError)
      else Inr (ins, r))"

definition prlDecodeBuf :: "MessageEncoding \<Rightarrow> int \<Rightarrow> MsgTx reader" where
  "prlDecodeBuf enc sbuf r =
     bindE (readUint32 r) (\<lambda>(version, r).
     bindE (readTxInCount enc r) (\<lambda>((flag, count), r).
     bindE (readMany maxTxInPerMessage readTxIn (\<lambda>ti. length (SignatureScript ti)) count sbuf r) (\<lambda>((ins, sbuf), r).
     bindE (ReadVarInt r) (\<lambda>(count, r).
     bindE (readMany maxTxOutPerMessage readTxOut (\<lambda>to. length (PkScript to)) count sbuf r) (\<lambda>((outs, sbuf), r).
     bindE (readWitnesses enc flag sbuf ins r) (\<lambda>(ins, r).
     bindE (readUint32 r) (\<lambda>(lockTime, r).
     let totalScriptSize = sum_list (map length (scriptsOf ins outs));
         (ins, outs) = contiguousScripts totalScriptSize ins outs
     in Inr (\<lparr>Version = version, TxIn = ins, TxOut = outs, LockTime = lockTime\<rparr>, r))))))))"

definition PrlDecode :: "MessageEncoding \<Rightarrow> MsgTx reader" where
  "PrlDecode enc r = prlDecodeBuf enc scriptSlabSize r"

definition Serialize :: "MsgTx \<Rightarrow> bytes" where
  "Serialize msg = prlEncode WitnessEncoding msg"

definition SerializeNoWitness :: "MsgTx \<Rightarrow> bytes" where
  "SerializeNoWitness msg = prlEncode BaseEncoding msg"

definition Deserialize :: "MsgTx reader" where
  "Deserialize r = PrlDecode WitnessEncoding r"

definition DeserializeNoWitness :: "MsgTx reader" where
  "DeserializeNoWitness r = PrlDecode BaseEncoding r"

definition TxHash :: "MsgTx \<Rightarrow> hash" where
  "TxHash msg = DoubleHashRaw (SerializeNoWitness msg)"

definition WitnessHash :: "MsgTx \<Rightarrow> hash" where
  "WitnessHash msg = (if HasWitness msg then DoubleHashRaw (Serialize msg) else TxHash msg)"

text \<open>Sizes.\<close>

definition TxIn_SerializeSize :: "TxIn \<Rightarrow> nat" where
  "TxIn_SerializeSize t = 40 + VarIntSerializeSize (lenU64 (SignatureScript t)) + length (SignatureScript t)"

definition TxWitness_SerializeSize :: "bytes list \<Rightarrow> nat" where
  "TxWitness_SerializeSize t =
     foldl (\<lambda>n witItem. n + VarIntSerializeSize (lenU64 witItem) + length witItem)
       (VarIntSerializeSize (lenU64 t)) t"

definition TxOut_SerializeSize :: "TxOut \<Rightarrow> nat" where
  "TxOut_SerializeSize t = 8 + VarIntSerializeSize (lenU64 (PkScript t)) + length (PkScript t)"

definition baseSize :: "MsgTx \<Rightarrow> nat" where
  "baseSize msg =
     (let n = 8 + VarIntSerializeSize (lenU64 (TxIn msg)) + VarIntSerializeSize (lenU64 (TxOut msg));
          n = foldl (\<lambda>n txIn. n + TxIn_SerializeSize txIn) n (TxIn msg)
      in foldl (\<lambda>n txOut. n + TxOut_SerializeSize txOut) n (TxOut msg))"

definition SerializeSize :: "MsgTx \<Rightarrow> nat" where
  "SerializeSize msg =
     (let n = baseSize msg in
      if HasWitness msg
      then foldl (\<lambda>n txin. n + TxWitness_SerializeSize (Witness txin)) (n + 2) (TxIn msg) else n)"

definition SerializeSizeStripped :: "MsgTx \<Rightarrow> nat" where
  "SerializeSizeStripped msg = baseSize msg"

section \<open>The contiguous script buffer changes no script\<close>

lemma copyScripts_eq:
  "offset + sum_list (map length ss) \<le> length buf \<Longrightarrow>
   copyScripts buf offset ss =
     take offset buf @ concat ss @ drop (offset + sum_list (map length ss)) buf"
proof (induction ss arbitrary: buf offset)
  case Nil
  then show ?case by simp
next
  case (Cons s ss)
  let ?buf = "take offset buf @ s @ drop (offset + length s) buf"
  from Cons.prems have "copyScripts buf offset (s # ss) = copyScripts ?buf (offset + length s) ss"
    by simp
  also have "\<dots> = take (offset + length s) ?buf @ concat ss
      @ drop (offset + length s + sum_list (map length ss)) ?buf"
    using Cons.prems by (intro Cons.IH) simp
  finally show ?case using Cons.prems by (simp add: add_ac)
qed

lemma resliceScripts_eq: "resliceScripts (p @ concat ss @ q) (length p) ss = ss"
proof (induction ss arbitrary: p)
  case Nil
  then show ?case by simp
next
  case (Cons s ss)
  from Cons.IH [of "p @ s"] show ?case by (simp add: slice_def)
qed

lemma setInScripts_eq:
  "setInScripts ins (concat (map (\<lambda>ti. SignatureScript ti # Witness ti) ins) @ rest) = (ins, rest)"
  by (induction ins) simp_all

lemma contiguousScripts_eq:
  assumes "totalScriptSize = sum_list (map length (scriptsOf ins outs))"
  shows "contiguousScripts totalScriptSize ins outs = (ins, outs)"
proof -
  let ?ss = "scriptsOf ins outs"
  have "copyScripts (replicate totalScriptSize 0) 0 ?ss = concat ?ss"
    using assms by (simp add: copyScripts_eq)
  moreover have "resliceScripts (concat ?ss) 0 ?ss = ?ss"
    using resliceScripts_eq [of "[]" ?ss "[]"] by simp
  moreover have "setInScripts ins ?ss = (ins, map PkScript outs)"
    unfolding scriptsOf_def by (rule setInScripts_eq)
  moreover have "map2 (\<lambda>to s. to\<lparr>PkScript := s\<rparr>) outs (map PkScript outs) = outs"
    by (induction outs) simp_all
  ultimately show ?thesis by (simp add: contiguousScripts_def)
qed

section \<open>Codecs of the parts\<close>

lemma readOutPoint_write [reader_run]:
  "wf_outpoint op \<Longrightarrow> readOutPoint (writeOutPoint op @ r) = Inr (op, r)"
  by (simp add: readOutPoint_def writeOutPoint_def wf_outpoint_def)

lemma readOutPoint_iff [reader_iff]:
  "readOutPoint r = Inr (op, r') \<longleftrightarrow> wf_outpoint op \<and> r = writeOutPoint op @ r'"
proof
  assume "readOutPoint r = Inr (op, r')"
  then show "wf_outpoint op \<and> r = writeOutPoint op @ r'"
    by (auto simp: readOutPoint_def writeOutPoint_def wf_outpoint_def reader_iff)
qed (auto simp: reader_run)

definition wf_script :: "bytes \<Rightarrow> bool" where
  "wf_script x \<longleftrightarrow> int (length x) \<le> maxWitnessItemSize"

lemma readScript_iff [reader_iff]:
  "readScript s r = Inr (x, r') \<longleftrightarrow> wf_script x \<and> int (length x) \<le> s \<and> r = WriteVarBytes x @ r'"
proof -
  let ?m = "min maxWitnessItemSize s"
  have m: "?m < 2 ^ 64" by (simp add: maxWitnessItemSize_def)
  have "readScript s r = Inr (x, r') \<longleftrightarrow>
      (\<exists>count. r = WriteVarInt count @ x @ r' \<and> uint count \<le> ?m \<and> length x = unat count)"
    by (auto simp: readScript_def reader_iff not_less split: if_splits)
  also have "\<dots> \<longleftrightarrow> int (length x) \<le> ?m \<and> r = WriteVarInt (lenU64 x) @ x @ r'"
    using m by (rule count_prefix_iff)
  finally show ?thesis by (simp add: WriteVarBytes_def wf_script_def)
qed

lemma readScript_write [reader_run]:
  "wf_script x \<Longrightarrow> int (length x) \<le> s \<Longrightarrow> readScript s (WriteVarBytes x @ r) = Inr (x, r)"
  by (simp add: readScript_iff)

definition wf_txin :: "TxIn \<Rightarrow> bool" where
  "wf_txin ti \<longleftrightarrow> wf_outpoint (PreviousOutPoint ti) \<and> wf_script (SignatureScript ti)"

lemma readTxIn_iff [reader_iff]:
  "readTxIn s r = Inr (ti, r') \<longleftrightarrow>
     (wf_txin ti \<and> Witness ti = []) \<and> int (length (SignatureScript ti)) \<le> s \<and> r = writeTxIn ti @ r'"
    (is "_ \<longleftrightarrow> ?enc")
proof
  assume "readTxIn s r = Inr (ti, r')"
  then show ?enc by (auto simp: readTxIn_def writeTxIn_def wf_txin_def reader_iff)
qed (auto simp: readTxIn_def writeTxIn_def wf_txin_def reader_run)

lemma readTxOut_iff [reader_iff]:
  "readTxOut s r = Inr (to, r') \<longleftrightarrow>
     wf_script (PkScript to) \<and> int (length (PkScript to)) \<le> s \<and> r = WriteTxOut to @ r'"
    (is "_ \<longleftrightarrow> ?enc")
proof
  assume "readTxOut s r = Inr (to, r')"
  then show ?enc by (auto simp: readTxOut_def WriteTxOut_def reader_iff)
qed (auto simp: readTxOut_def WriteTxOut_def reader_run)

interpretation outpoint_codec: codec writeOutPoint readOutPoint wf_outpoint
  by unfold_locales (simp add: readOutPoint_iff)

interpretation script_codec: slab_codec WriteVarBytes readScript wf_script length
  by unfold_locales (simp add: readScript_iff)

interpretation txin_codec: slab_codec writeTxIn readTxIn "\<lambda>ti. wf_txin ti \<and> Witness ti = []"
    "\<lambda>ti. length (SignatureScript ti)"
  by unfold_locales (simp add: readTxIn_iff)

interpretation txout_codec: slab_codec WriteTxOut readTxOut "\<lambda>to. wf_script (PkScript to)"
    "\<lambda>to. length (PkScript to)"
  by unfold_locales (simp add: readTxOut_iff)

definition wf_witness :: "bytes list \<Rightarrow> bool" where
  "wf_witness wit \<longleftrightarrow> int (length wit) \<le> maxWitnessItemsPerInput \<and> (\<forall>item\<in>set wit. wf_script item)"

lemma readTxWitness_iff:
  assumes "0 \<le> s"
  shows "readTxWitness s r = Inr (wit, r') \<longleftrightarrow>
    wf_witness wit \<and> int (witnessSize wit) \<le> s \<and> r = writeTxWitness wit @ r'"
proof -
  have m: "maxWitnessItemsPerInput < 2 ^ 64" by (simp add: maxWitnessItemsPerInput_def)
  show ?thesis
    by (auto simp: readTxWitness_def writeTxWitness_def wf_witness_def witnessSize_def ReadVarInt_iff
        script_codec.readMany_iff [OF m assms])
qed

interpretation witness_codec: slab_codec writeTxWitness readTxWitness wf_witness witnessSize
  by unfold_locales (rule readTxWitness_iff)

section \<open>Transactions: decoding accepts exactly the encodings\<close>

lemma WriteVarInt_0 [simp]: "WriteVarInt 0 = [0]"
  by (simp add: WriteVarInt_def)

lemma readTxInCount_iff:
  "readTxInCount enc r = Inr ((flag, count), r') \<longleftrightarrow>
     (if flag = 0 then (enc = WitnessEncoding \<longrightarrow> count \<noteq> 0) \<and> r = WriteVarInt count @ r'
      else flag = 1 \<and> enc = WitnessEncoding \<and> r = [TxFlagMarker, WitnessFlag] @ WriteVarInt count @ r')"
    (is "?read \<longleftrightarrow> ?enc")
proof
  assume ?read
  then show ?enc
    by (auto simp: readTxInCount_def ReadVarInt_iff readFull_iff TxFlagMarker_def WitnessFlag_def
        length_Suc_conv split: if_splits)
next
  assume ?enc
  moreover have "ReadVarInt (0 # x) = Inr (0, x)" for x
    using ReadVarInt_WriteVarInt [of 0 x] by simp
  moreover have "readFull (Suc 0) (1 # x) = Inr ([1], x)" for x
    by (simp add: readFull_def)
  ultimately show ?read
    by (auto simp: readTxInCount_def ReadVarInt_WriteVarInt TxFlagMarker_def WitnessFlag_def
        split: if_splits intro!: exI [of _ "[1]"])
qed

text \<open>An input without its witness, as \<open>readTxIn\<close> returns it.\<close>

abbreviation stripWitness :: "TxIn \<Rightarrow> TxIn" where
  "stripWitness ti \<equiv> ti\<lparr>Witness := []\<rparr>"

lemma setWitness_iff:
  "(\<forall>ti\<in>set ins. Witness ti = []) \<Longrightarrow> length wits = length ins \<Longrightarrow>
   map2 setWitness ins wits = ins' \<longleftrightarrow> ins = map stripWitness ins' \<and> wits = map Witness ins'"
proof (induction ins arbitrary: wits ins')
  case Nil
  then show ?case by auto
next
  case (Cons ti ins)
  then obtain w ws where wits: "wits = w # ws" by (cases wits) auto
  have "setWitness ti w = ti' \<longleftrightarrow> ti = stripWitness ti' \<and> w = Witness ti'" for ti'
    using Cons.prems by (auto simp: setWitness_def)
  with Cons wits show ?case by (cases ins') auto
qed

lemma writeTxIn_strip [simp]: "writeTxIn (ti\<lparr>Witness := w\<rparr>) = writeTxIn ti"
  by (simp add: writeTxIn_def)

lemma readWitnesses_iff:
  assumes "0 \<le> sbuf" and strip: "\<forall>ti\<in>set ins. Witness ti = []"
  shows "readWitnesses enc flag sbuf ins r = Inr (ins', r') \<longleftrightarrow>
     (if flag \<noteq> 0 \<and> enc = WitnessEncoding
      then ins = map stripWitness ins' \<and> (\<forall>ti\<in>set ins'. wf_witness (Witness ti)) \<and>
        int (sum_list (map (\<lambda>ti. witnessSize (Witness ti)) ins')) \<le> sbuf \<and>
        list_ex (\<lambda>ti. Witness ti \<noteq> []) ins' \<and>
        r = concat (map (\<lambda>ti. writeTxWitness (Witness ti)) ins') @ r'
      else ins' = ins \<and> r' = r)"
proof (cases "flag \<noteq> 0 \<and> enc = WitnessEncoding")
  case True
  have set: "length wits = length ins \<and> map2 setWitness ins wits = ins' \<longleftrightarrow>
      ins = map stripWitness ins' \<and> wits = map Witness ins'" for wits
    using setWitness_iff [OF strip, of wits ins'] by auto
  have "readWitnesses enc flag sbuf ins r = Inr (ins', r') \<longleftrightarrow>
     (\<exists>wits. (length wits = length ins \<and> map2 setWitness ins wits = ins') \<and> (\<forall>w\<in>set wits. wf_witness w) \<and>
        int (sum_list (map witnessSize wits)) \<le> sbuf \<and> list_ex (\<lambda>ti. Witness ti \<noteq> []) ins' \<and>
        r = concat (map writeTxWitness wits) @ r')"
    using True by (auto simp: readWitnesses_def witness_codec.readN_iff [OF assms(1)] Let_def split: if_splits)
  also have "\<dots> \<longleftrightarrow> ins = map stripWitness ins' \<and> (\<forall>w\<in>set (map Witness ins'). wf_witness w) \<and>
        int (sum_list (map witnessSize (map Witness ins'))) \<le> sbuf \<and> list_ex (\<lambda>ti. Witness ti \<noteq> []) ins' \<and>
        r = concat (map writeTxWitness (map Witness ins')) @ r'"
    unfolding set by blast
  finally show ?thesis using True by (simp add: comp_def)
qed (auto simp: readWitnesses_def)

definition wf_MsgTx :: "MessageEncoding \<Rightarrow> MsgTx \<Rightarrow> bool" where
  "wf_MsgTx enc msg \<longleftrightarrow>
     int (length (TxIn msg)) \<le> maxTxInPerMessage \<and> int (length (TxOut msg)) \<le> maxTxOutPerMessage \<and>
     (\<forall>ti\<in>set (TxIn msg). wf_txin ti \<and> wf_witness (Witness ti)) \<and>
     (\<forall>to\<in>set (TxOut msg). wf_script (PkScript to)) \<and>
     (case enc of BaseEncoding \<Rightarrow> \<not> HasWitness msg | WitnessEncoding \<Rightarrow> TxIn msg \<noteq> [])"

definition scriptBytes :: "MsgTx \<Rightarrow> nat" where
  "scriptBytes msg = sum_list (map length (scriptsOf (TxIn msg) (TxOut msg)))"

lemma scriptBytes_split:
  "scriptBytes msg = sum_list (map (\<lambda>ti. length (SignatureScript ti)) (TxIn msg)) +
     (sum_list (map (\<lambda>to. length (PkScript to)) (TxOut msg)) +
      sum_list (map (\<lambda>ti. witnessSize (Witness ti)) (TxIn msg)))"
proof -
  have "sum_list (map length (concat (map (\<lambda>ti. SignatureScript ti # Witness ti) ins))) =
      sum_list (map (\<lambda>ti. length (SignatureScript ti)) ins) +
      sum_list (map (\<lambda>ti. witnessSize (Witness ti)) ins)" for ins
    by (induction ins) (simp_all add: witnessSize_def)
  then show ?thesis by (simp add: scriptBytes_def scriptsOf_def comp_def)
qed

lemma no_witness_iff: "\<not> HasWitness msg \<longleftrightarrow> (\<forall>ti\<in>set (TxIn msg). Witness ti = [])"
  by (auto simp: HasWitness_def list_ex_iff)

lemma no_witness_size:
  "(\<forall>ti\<in>set ins. P ti \<and> Witness ti = []) \<Longrightarrow> sum_list (map (\<lambda>ti. witnessSize (Witness ti)) ins) = 0"
  by (induction ins) (simp_all add: witnessSize_def)

lemma count_bounds: "maxTxInPerMessage < 2 ^ 64" "maxTxOutPerMessage < 2 ^ 64"
  by (simp_all add: maxTxInPerMessage_def maxTxOutPerMessage_def MaxMessagePayload_def
      minTxInPayload_def MinTxOutPayload_def)

lemma map_strip_wf:
  "(\<forall>x\<in>set (map stripWitness ins). wf_txin x \<and> Witness x = []) \<longleftrightarrow> (\<forall>ti\<in>set ins. wf_txin ti)"
  by (auto simp: wf_txin_def)

lemmas txins_iff = txin_codec.readMany_iff [OF count_bounds(1)]
lemmas txouts_iff = txout_codec.readMany_iff [OF count_bounds(2)]

abbreviation sigBytes :: "TxIn list \<Rightarrow> int" where
  "sigBytes ins \<equiv> int (sum_list (map (\<lambda>ti. length (SignatureScript ti)) ins))"

abbreviation pkBytes :: "TxOut list \<Rightarrow> int" where
  "pkBytes outs \<equiv> int (sum_list (map (\<lambda>to. length (PkScript to)) outs))"

lemma prlDecodeBuf_sound:
  assumes "0 \<le> sbuf" and "prlDecodeBuf enc sbuf r = Inr (msg, r')"
  shows "wf_MsgTx enc msg \<and> int (scriptBytes msg) \<le> sbuf \<and> r = prlEncode enc msg @ r'"
proof -
  from assms(2) obtain r1 flag count ins sbuf1 r2 r3 count' outs sbuf2 r4 where
    r: "r = PutUint32 (Version msg) @ r1"
    and count: "readTxInCount enc r1 = Inr ((flag, count), r2)"
    and "readMany maxTxInPerMessage readTxIn (\<lambda>ti. length (SignatureScript ti)) count sbuf r2
          = Inr ((ins, sbuf1), WriteVarInt count' @ r3)"
    and "readMany maxTxOutPerMessage readTxOut (\<lambda>to. length (PkScript to)) count' sbuf1 r3
          = Inr ((TxOut msg, sbuf2), r4)"
    and wits: "readWitnesses enc flag sbuf2 ins r4 = Inr (TxIn msg, PutUint32 (LockTime msg) @ r')"
    by (auto simp: prlDecodeBuf_def contiguousScripts_eq readUint_iff ReadVarInt_iff Let_def)
  then have ins: "count = lenU64 ins" "int (length ins) \<le> maxTxInPerMessage"
      "\<forall>ti\<in>set ins. wf_txin ti \<and> Witness ti = []" "0 \<le> sbuf1" "sbuf1 = sbuf - sigBytes ins"
      "r2 = concat (map writeTxIn ins) @ WriteVarInt count' @ r3"
    and outs: "count' = lenU64 (TxOut msg)" "int (length (TxOut msg)) \<le> maxTxOutPerMessage"
      "\<forall>to\<in>set (TxOut msg). wf_script (PkScript to)" "0 \<le> sbuf2" "sbuf2 = sbuf1 - pkBytes (TxOut msg)"
      "r3 = concat (map WriteTxOut (TxOut msg)) @ r4"
    using assms(1) by (auto simp: txins_iff txouts_iff)
  show ?thesis
  proof (cases "flag = 0")
    case True
    with wits have "TxIn msg = ins" "r4 = PutUint32 (LockTime msg) @ r'"
      by (simp_all add: readWitnesses_def)
    moreover have "wf_witness []" by (simp add: wf_witness_def maxWitnessItemsPerInput_def)
    moreover have "\<not> HasWitness msg" using ins calculation by (simp add: no_witness_iff)
    moreover have "enc = WitnessEncoding \<longrightarrow> ins \<noteq> []" "r1 = WriteVarInt count @ r2"
      using count True ins(1) by (auto simp: readTxInCount_iff lenU64_def)
    moreover have "int (scriptBytes msg) = sigBytes ins + pkBytes (TxOut msg)"
      using ins(3) calculation(1) by (simp add: scriptBytes_split no_witness_size)
    ultimately show ?thesis using r ins outs
      by (simp add: wf_MsgTx_def prlEncode_def split: MessageEncoding.split)
  next
    case False
    with count have enc: "enc = WitnessEncoding" "r1 = [TxFlagMarker, WitnessFlag] @ WriteVarInt count @ r2"
      by (auto simp: readTxInCount_iff)
    with wits False ins outs have w: "ins = map stripWitness (TxIn msg)" "HasWitness msg"
        "\<forall>ti\<in>set (TxIn msg). wf_witness (Witness ti)"
        "int (sum_list (map (\<lambda>ti. witnessSize (Witness ti)) (TxIn msg))) \<le> sbuf2"
        "r4 = concat (map (\<lambda>ti. writeTxWitness (Witness ti)) (TxIn msg)) @ PutUint32 (LockTime msg) @ r'"
      by (auto simp: readWitnesses_iff HasWitness_def)
    have "lenU64 ins = lenU64 (TxIn msg)" "map writeTxIn ins = map writeTxIn (TxIn msg)"
        "sigBytes ins = sigBytes (TxIn msg)"
      by (simp_all add: w(1) lenU64_def comp_def)
    then have "r = prlEncode enc msg @ r'" "int (scriptBytes msg) \<le> sbuf"
      using r enc w(2,4,5) ins(1,5,6) outs(1,5,6)
      by (simp_all only: prlEncode_def Let_def scriptBytes_split) simp_all
    moreover have "\<forall>ti\<in>set (TxIn msg). wf_txin ti" "TxIn msg \<noteq> []" "length ins = length (TxIn msg)"
      using ins(3) w(1,2) by (auto simp: wf_txin_def HasWitness_def)
    ultimately show ?thesis using ins(2) outs(2,3) w(3) enc(1) by (simp add: wf_MsgTx_def)
  qed
qed

lemma prlDecodeBuf_complete:
  assumes "wf_MsgTx enc msg" and "int (scriptBytes msg) \<le> sbuf"
  shows "prlDecodeBuf enc sbuf (prlEncode enc msg @ r') = Inr (msg, r')"
proof -
  define ins where "ins = map stripWitness (TxIn msg)"
  define flag :: byte where "flag = (if enc = WitnessEncoding \<and> HasWitness msg then 1 else 0)"
  define r4 where "r4 = (if flag = 1 then concat (map (\<lambda>ti. writeTxWitness (Witness ti)) (TxIn msg)) else [])
    @ PutUint32 (LockTime msg) @ r'"
  let ?r2 = "concat (map writeTxIn ins) @ WriteVarInt (lenU64 (TxOut msg)) @ concat (map WriteTxOut (TxOut msg)) @ r4"
  let ?r1 = "(if flag = 1 then [TxFlagMarker, WitnessFlag] else []) @ WriteVarInt (lenU64 ins) @ ?r2"
  have ins: "int (length ins) \<le> maxTxInPerMessage" "\<forall>ti\<in>set ins. wf_txin ti \<and> Witness ti = []"
      "sigBytes ins = sigBytes (TxIn msg)" "lenU64 ins = lenU64 (TxIn msg)"
      "map writeTxIn ins = map writeTxIn (TxIn msg)"
    using assms(1) by (auto simp: ins_def wf_MsgTx_def wf_txin_def comp_def lenU64_def)
  have bytes: "prlEncode enc msg @ r' = PutUint32 (Version msg) @ ?r1"
    by (simp add: prlEncode_def flag_def r4_def ins Let_def)
  have "lenU64 ins \<noteq> 0" if "enc = WitnessEncoding"
    using that ins(1) assms(1) uint_lenU64 [of ins] count_bounds(1)
    by (auto simp: wf_MsgTx_def ins_def)
  then have count: "readTxInCount enc ?r1 = Inr ((flag, lenU64 ins), ?r2)"
    unfolding readTxInCount_iff by (simp add: flag_def)
  have left: "sigBytes ins + pkBytes (TxOut msg) + int (sum_list (map (\<lambda>ti. witnessSize (Witness ti)) (TxIn msg)))
      \<le> sbuf"
    using assms(2) ins(3) by (simp add: scriptBytes_split)
  have wits: "readWitnesses enc flag (sbuf - sigBytes ins - pkBytes (TxOut msg)) ins r4
      = Inr (TxIn msg, PutUint32 (LockTime msg) @ r')"
  proof (cases "flag = 1")
    case True
    then have "enc = WitnessEncoding" "HasWitness msg" by (auto simp: flag_def split: if_splits)
    then show ?thesis
      using True assms(1) left ins(2) readWitnesses_iff [of "sbuf - sigBytes ins - pkBytes (TxOut msg)" ins]
      by (simp add: r4_def HasWitness_def wf_MsgTx_def ins_def [symmetric])
  next
    case False
    with assms(1) have "\<not> HasWitness msg" "flag = 0"
      by (cases enc; simp add: flag_def wf_MsgTx_def split: if_splits)+
    moreover from this have "ins = TxIn msg"
      unfolding ins_def no_witness_iff by (intro map_idI) simp
    ultimately show ?thesis by (simp add: readWitnesses_def r4_def)
  qed
  have "readMany maxTxInPerMessage readTxIn (\<lambda>ti. length (SignatureScript ti)) (lenU64 ins) sbuf ?r2 =
      Inr ((ins, sbuf - sigBytes ins), WriteVarInt (lenU64 (TxOut msg)) @ concat (map WriteTxOut (TxOut msg)) @ r4)"
    using left ins(1,2) by (simp add: txins_iff)
  moreover have "readMany maxTxOutPerMessage readTxOut (\<lambda>to. length (PkScript to)) (lenU64 (TxOut msg))
      (sbuf - sigBytes ins) (concat (map WriteTxOut (TxOut msg)) @ r4) =
      Inr ((TxOut msg, sbuf - sigBytes ins - pkBytes (TxOut msg)), r4)"
    using left assms(1) by (simp add: txouts_iff wf_MsgTx_def)
  ultimately show ?thesis
    unfolding bytes prlDecodeBuf_def
    by (simp add: count wits ReadVarInt_WriteVarInt contiguousScripts_eq)
qed

lemma scriptSlabSize_nonneg: "0 \<le> scriptSlabSize"
  by (simp add: scriptSlabSize_def)

lemma PrlDecode_iff:
  "PrlDecode enc r = Inr (msg, r') \<longleftrightarrow>
     (wf_MsgTx enc msg \<and> int (scriptBytes msg) \<le> scriptSlabSize) \<and> r = prlEncode enc msg @ r'"
  using prlDecodeBuf_sound [OF scriptSlabSize_nonneg] prlDecodeBuf_complete
  by (auto simp: PrlDecode_def)

text \<open>The transactions a node can receive and store.\<close>

definition valid_MsgTx :: "MsgTx \<Rightarrow> bool" where
  "valid_MsgTx msg \<longleftrightarrow> wf_MsgTx WitnessEncoding msg \<and> int (scriptBytes msg) \<le> scriptSlabSize"

interpretation tx_codec: codec Serialize Deserialize valid_MsgTx
  by unfold_locales (simp add: Deserialize_def Serialize_def PrlDecode_iff valid_MsgTx_def)

interpretation base_tx_codec: codec SerializeNoWitness DeserializeNoWitness
    "\<lambda>msg. wf_MsgTx BaseEncoding msg \<and> int (scriptBytes msg) \<le> scriptSlabSize"
  by unfold_locales (simp add: DeserializeNoWitness_def SerializeNoWitness_def PrlDecode_iff)

section \<open>Sizes\<close>

lemma foldl_sum: "foldl (\<lambda>n x. n + f x) n xs = n + sum_list (map f xs)" for n :: nat
  by (induction xs arbitrary: n) simp_all

lemma length_concat_map: "length (concat (map f xs)) = sum_list (map (\<lambda>x. length (f x)) xs)"
  by (induction xs) simp_all

lemma length_writeTxIn [size_simps]:
  "wf_outpoint (PreviousOutPoint ti) \<Longrightarrow> length (writeTxIn ti) = TxIn_SerializeSize ti"
  by (simp add: writeTxIn_def writeOutPoint_def TxIn_SerializeSize_def wf_outpoint_def HashSize_def size_simps)

lemma length_WriteTxOut [size_simps]: "length (WriteTxOut to) = TxOut_SerializeSize to"
  by (simp add: WriteTxOut_def TxOut_SerializeSize_def size_simps)

lemma length_writeTxWitness [size_simps]: "length (writeTxWitness wit) = TxWitness_SerializeSize wit"
  by (simp add: writeTxWitness_def TxWitness_SerializeSize_def foldl_sum [of "\<lambda>x. VarIntSerializeSize (lenU64 x) + length x"]
      length_concat_map size_simps add.assoc)

lemma length_writeTxIns:
  "\<forall>ti\<in>set ins. wf_outpoint (PreviousOutPoint ti) \<Longrightarrow>
   sum_list (map (\<lambda>ti. length (writeTxIn ti)) ins) = sum_list (map TxIn_SerializeSize ins)"
  by (induction ins) (simp_all add: size_simps)

lemma baseSize_eq:
  "baseSize msg = 8 + VarIntSerializeSize (lenU64 (TxIn msg)) + VarIntSerializeSize (lenU64 (TxOut msg)) +
     sum_list (map TxIn_SerializeSize (TxIn msg)) + sum_list (map TxOut_SerializeSize (TxOut msg))"
  by (simp add: baseSize_def foldl_sum)

lemma length_Serialize:
  assumes "\<forall>ti\<in>set (TxIn msg). wf_outpoint (PreviousOutPoint ti)"
  shows "length (Serialize msg) = SerializeSize msg"
    and "length (SerializeNoWitness msg) = SerializeSizeStripped msg"
  using assms
  by (simp_all add: Serialize_def SerializeNoWitness_def prlEncode_def SerializeSize_def
      SerializeSizeStripped_def baseSize_eq length_writeTxIns length_concat_map foldl_sum size_simps Let_def)

section \<open>What the transaction id commits to\<close>

abbreviation stripTx :: "MsgTx \<Rightarrow> MsgTx" where
  "stripTx msg \<equiv> msg\<lparr>TxIn := map stripWitness (TxIn msg)\<rparr>"

lemma SerializeNoWitness_strip: "SerializeNoWitness (stripTx msg) = SerializeNoWitness msg"
  by (simp add: SerializeNoWitness_def prlEncode_def lenU64_def comp_def)

lemma wf_stripTx:
  assumes "valid_MsgTx msg"
  shows "wf_MsgTx BaseEncoding (stripTx msg) \<and> int (scriptBytes (stripTx msg)) \<le> scriptSlabSize"
proof
  have "wf_witness []" by (simp add: wf_witness_def maxWitnessItemsPerInput_def)
  with assms show "wf_MsgTx BaseEncoding (stripTx msg)"
    by (auto simp: valid_MsgTx_def wf_MsgTx_def wf_txin_def no_witness_iff)
  from assms show "int (scriptBytes (stripTx msg)) \<le> scriptSlabSize"
    by (simp add: valid_MsgTx_def scriptBytes_split comp_def witnessSize_def)
qed

lemma SerializeNoWitness_eq_iff:
  assumes "valid_MsgTx a" "valid_MsgTx b"
  shows "SerializeNoWitness a = SerializeNoWitness b \<longleftrightarrow> stripTx a = stripTx b"
  using base_tx_codec.enc_inj [OF wf_stripTx [OF assms(1)] wf_stripTx [OF assms(2)]]
  by (simp only: SerializeNoWitness_strip)

section \<open>Panics\<close>

lemma readScript_panic:
  "uint count \<le> maxWitnessItemSize \<Longrightarrow> s < uint count \<Longrightarrow> readScript s (WriteVarInt count @ r) = Inl Panic"
  by (simp add: readScript_def reader_run)

lemma readTxIn_panic:
  assumes "wf_outpoint op" "uint count \<le> maxWitnessItemSize" "s < uint count"
  shows "readTxIn s (writeOutPoint op @ WriteVarInt count @ r) = Inl Panic"
  using assms by (simp add: readTxIn_def readOutPoint_write readScript_panic)

text \<open>
  The length bound of one script (4,000,000) and the size of the slab all scripts of a transaction share
  (4,194,304) do not fit together: after a script of more than 194,304 bytes, a declared length within the
  bound still exceeds what the slab has left.
\<close>

lemma slab_panic:
  assumes "wf_txin ti" "Witness ti = []" "wf_outpoint op" "uint count \<le> maxWitnessItemSize"
    and "int (length (SignatureScript ti)) + uint count > scriptSlabSize"
  shows "PrlDecode enc (PutUint32 v @ WriteVarInt 2 @ writeTxIn ti @ writeOutPoint op @ WriteVarInt count @ r)
    = Inl Panic"
proof -
  have fits: "int (length (SignatureScript ti)) \<le> scriptSlabSize"
    using assms(1) by (simp add: wf_txin_def wf_script_def maxWitnessItemSize_def scriptSlabSize_def)
  have "readTxInCount enc (WriteVarInt 2 @ x) = Inr ((0, 2), x)" for x
    by (simp add: readTxInCount_iff)
  moreover have "readTxIn scriptSlabSize (writeTxIn ti @ x) = Inr (ti, x)" for x
    using assms(1,2) fits by (simp add: readTxIn_iff)
  then have "readN readTxIn (\<lambda>ti. length (SignatureScript ti)) 2 scriptSlabSize
      (writeTxIn ti @ writeOutPoint op @ WriteVarInt count @ r) = Inl Panic"
    using assms(3-5) by (simp only: numeral_2_eq_2 readN.simps) (simp add: readTxIn_panic)
  moreover have "\<not> maxTxInPerMessage < 2"
    by (simp add: maxTxInPerMessage_def MaxMessagePayload_def minTxInPayload_def)
  ultimately show ?thesis by (simp add: PrlDecode_def prlDecodeBuf_def readMany_def)
qed

section \<open>Properties\<close>

text \<open>
  C26. Deserialising a transaction succeeds on exactly the serialisations of the transactions within the
  bounds of the code (at least one input, counts, script and witness sizes, and the shared slab), whatever
  follows them, and returns the transaction and the bytes that follow.  So serialisation round-trips, no
  transaction has a second accepted encoding, and two different transactions never share one.
\<close>

theorem Deserialize_Serialize:
  "Deserialize bs = Inr (msg, r) \<longleftrightarrow> valid_MsgTx msg \<and> bs = Serialize msg @ r"
  by (rule tx_codec.dec_iff)

text \<open>
  \<open>SerializeSize\<close> and \<open>SerializeSizeStripped\<close> are the lengths of the two serialisations, which is
  what the block and transaction size limits are computed from.
\<close>

theorem SerializeSize_exact:
  assumes "\<forall>ti\<in>set (TxIn msg). wf_outpoint (PreviousOutPoint ti)"
  shows "length (Serialize msg) = SerializeSize msg \<and>
    length (SerializeNoWitness msg) = SerializeSizeStripped msg"
  using length_Serialize [OF assms] by simp

theorem SerializeSize_exact_witness:
  "length (Serialize \<lparr>Version = 1,
      TxIn = [\<lparr>PreviousOutPoint = \<lparr>Hash = replicate 32 7, Index = 0\<rparr>, SignatureScript = [],
               Witness = [[1, 2]], Sequence = 0\<rparr>],
      TxOut = [\<lparr>Value = 5, PkScript = [0x51]\<rparr>], LockTime = 0\<rparr>) = 67"
  using SerializeSize_exact [of "\<lparr>Version = 1,
      TxIn = [\<lparr>PreviousOutPoint = \<lparr>Hash = replicate 32 7, Index = 0\<rparr>, SignatureScript = [],
               Witness = [[1, 2]], Sequence = 0\<rparr>],
      TxOut = [\<lparr>Value = 5, PkScript = [0x51]\<rparr>], LockTime = 0\<rparr>"]
  by (simp add: wf_outpoint_def HashSize_def SerializeSize_def baseSize_def HasWitness_def
      TxIn_SerializeSize_def TxOut_SerializeSize_def TxWitness_SerializeSize_def VarIntSerializeSize_def
      lenU64_def)

text \<open>
  C40. A peer can make the decoder panic: after an input with a signature script of length \<open>l\<close>, a second input
  that only declares a script length of at most 4,000,000 and more than 4,194,304 - \<open>l\<close> runs into the slice
  expression \<^verbatim>\<open>s[:count]\<close> of \<open>readScriptBuf\<close> beyond the capacity of the slab.
\<close>

theorem PrlDecode_panics:
  assumes "wf_txin ti" "Witness ti = []" "wf_outpoint op" "uint count \<le> maxWitnessItemSize"
    and "int (length (SignatureScript ti)) + uint count > scriptSlabSize"
  shows "PrlDecode enc (PutUint32 v @ WriteVarInt 2 @ writeTxIn ti @ writeOutPoint op @ WriteVarInt count @ r)
    = Inl Panic"
  using assms by (rule slab_panic)

theorem PrlDecode_panics_witness:
  "PrlDecode WitnessEncoding (PutUint32 1 @ WriteVarInt 2 @
     writeTxIn \<lparr>PreviousOutPoint = \<lparr>Hash = replicate 32 7, Index = 0\<rparr>, SignatureScript = replicate 200000 0,
               Witness = [], Sequence = 0\<rparr> @
     writeOutPoint \<lparr>Hash = replicate 32 7, Index = 1\<rparr> @ WriteVarInt 4000000 @ []) = Inl Panic"
  by (rule PrlDecode_panics)
    (simp_all add: wf_txin_def wf_outpoint_def HashSize_def wf_script_def maxWitnessItemSize_def
      scriptSlabSize_def)

text \<open>
  C28. The transaction id commits to everything but the witnesses.  Two transactions that agree up to their
  witnesses have the same id; two transactions with the same id agree up to their witnesses, unless their
  serialisations are a collision of double SHA-256.
\<close>

theorem TxHash_commits:
  assumes "valid_MsgTx a" "valid_MsgTx b"
  shows "TxHash a = TxHash b \<longleftrightarrow> stripTx a = stripTx b \<or>
    SerializeNoWitness a \<noteq> SerializeNoWitness b \<and>
    DoubleHashRaw (SerializeNoWitness a) = DoubleHashRaw (SerializeNoWitness b)"
  using SerializeNoWitness_eq_iff [OF assms] by (auto simp: TxHash_def)

theorem TxHash_commits_witness:
  "TxHash \<lparr>Version = 1,
      TxIn = [\<lparr>PreviousOutPoint = \<lparr>Hash = replicate 32 7, Index = 0\<rparr>, SignatureScript = [],
               Witness = [[1, 2]], Sequence = 0\<rparr>], TxOut = [], LockTime = 0\<rparr> =
   TxHash \<lparr>Version = 1,
      TxIn = [\<lparr>PreviousOutPoint = \<lparr>Hash = replicate 32 7, Index = 0\<rparr>, SignatureScript = [],
               Witness = [[3]], Sequence = 0\<rparr>], TxOut = [], LockTime = 0\<rparr>"
  by (subst TxHash_commits)
    (simp_all add: valid_MsgTx_def wf_MsgTx_def wf_txin_def wf_outpoint_def HashSize_def wf_script_def
      wf_witness_def maxWitnessItemSize_def maxWitnessItemsPerInput_def maxTxInPerMessage_def
      maxTxOutPerMessage_def MaxMessagePayload_def minTxInPayload_def MinTxOutPayload_def
      scriptBytes_def scriptsOf_def scriptSlabSize_def)

end
