(* ===== verification/Wire_Inference.thy ===== *)
theory Wire_Inference
  imports Wire_Tx
begin

text \<open>
  The payloads of the inference transactions (\<^verbatim>\<open>node/wire/msginferencetx.go\<close>,
  \<^verbatim>\<open>node/wire/msginferencego.go\<close>): the request of a version 3 transaction, the result proof of a
  version 4 transaction, the issue of a version 5 transaction, each carried in an OP_RETURN output.

  The Go code fills a fixed-size buffer by copying each field to its offset; as the fields are Go arrays of
  exactly those sizes, the buffer is their concatenation.  The interface \<open>op_return_carrier\<close> states what the
  three framings promise: parsing accepts exactly the script built from a well-formed payload.
\<close>

section \<open>Data\<close>

record InferencePayload =
  PromptHash :: bytes
  ResultAddress :: bytes
  ModelVersion :: "16 word"
  MaxTokens :: "16 word"
  Nonce :: "64 word"
  CoordinatorPubKey :: bytes

record InferenceResultProof =
  CommitmentHash :: bytes
  ResultHash :: bytes
  WorkerAddress :: bytes
  BlockHash :: hash
  Signature :: bytes
  CoordinatorSignature :: bytes

record InferenceGoPayload =
  Amount :: "64 word"
  Destination :: bytes
  GoSignature :: bytes

definition InferenceProofWindowBlocks :: int where "InferenceProofWindowBlocks = 5"
definition MaxInferenceTokens :: "16 word" where "MaxInferenceTokens = 65535"
definition inferencePayloadVersion :: byte where "inferencePayloadVersion = 2"
definition inferencePayloadSize :: nat where "inferencePayloadSize = 141"
definition inferenceProofSize :: nat where "inferenceProofSize = 258"
definition inferenceGoPayloadVersion :: byte where "inferenceGoPayloadVersion = 1"
definition InferenceGoPayloadSize :: nat where "InferenceGoPayloadSize = 1 + 8 + 32 + 64"
definition inferenceOpReturnPrefix :: bytes where "inferenceOpReturnPrefix = [0x6a, 0x4c, 0x8d]"
definition inferenceProofOpReturnPrefix :: bytes where "inferenceProofOpReturnPrefix = [0x6a, 0x4d, 0x02, 0x01]"
definition inferenceGoOpReturnPrefix :: bytes where
  "inferenceGoOpReturnPrefix = [0x6a, 0x4c, word_of_int (int InferenceGoPayloadSize)]"

section \<open>The inference request\<close>

definition wf_InferencePayload :: "InferencePayload \<Rightarrow> bool" where
  "wf_InferencePayload p \<longleftrightarrow>
     length (PromptHash p) = 32 \<and> length (ResultAddress p) = 64 \<and> length (CoordinatorPubKey p) = 32"

definition InferencePayload_Serialise :: "InferencePayload \<Rightarrow> bytes" where
  "InferencePayload_Serialise p =
     inferencePayloadVersion # PromptHash p @ ResultAddress p @ PutUint16 (ModelVersion p) @
     PutUint16 (MaxTokens p) @ PutUint64 (Nonce p) @ CoordinatorPubKey p"

text \<open>The fields at their offsets in the 141 bytes.\<close>

definition InferencePayload_fields :: "bytes \<Rightarrow> InferencePayload" where
  "InferencePayload_fields d =
     \<lparr>PromptHash = slice 1 33 d, ResultAddress = slice 33 97 d, ModelVersion = Uint16 (slice 97 99 d),
      MaxTokens = Uint16 (slice 99 101 d), Nonce = Uint64 (slice 101 109 d),
      CoordinatorPubKey = slice 109 141 d\<rparr>"

definition InferencePayload_Deserialise :: "InferencePayload reader" where
  "InferencePayload_Deserialise r =
     bindE (readFull 141 r) (\<lambda>(buf, r).
       if buf ! 0 \<noteq> inferencePayloadVersion then Inl PlainError
       else Inr (InferencePayload_fields buf, r))"

definition parseInferenceOpReturn :: "bytes \<Rightarrow> InferencePayload option" where
  "parseInferenceOpReturn pkScript =
     (if length pkScript \<noteq> 3 + inferencePayloadSize then None
      else if pkScript ! 0 \<noteq> 0x6a then None
      else if pkScript ! 1 \<noteq> 0x4c then None
      else if uint (pkScript ! 2) \<noteq> int inferencePayloadSize then None
      else let d = drop 3 pkScript in
        if length d \<noteq> inferencePayloadSize then None
        else if d ! 0 \<noteq> inferencePayloadVersion then None
        else Some (InferencePayload_fields d))"

definition hasInferencePayloadOutput :: "MsgTx \<Rightarrow> bool" where
  "hasInferencePayloadOutput tx \<longleftrightarrow> list_ex (\<lambda>out. parseInferenceOpReturn (PkScript out) \<noteq> None) (TxOut tx)"

definition IsInferenceTx :: "MsgTx \<Rightarrow> bool" where
  "IsInferenceTx tx \<longleftrightarrow>
     Version tx = TxVersionInference \<and> 1 \<le> length (TxOut tx) \<and> hasInferencePayloadOutput tx"

definition ExtractInferencePayload :: "MsgTx \<Rightarrow> wireError + InferencePayload" where
  "ExtractInferencePayload tx =
     (if Version tx \<noteq> TxVersionInference then Inl PlainError
      else case firstSome (\<lambda>out. parseInferenceOpReturn (PkScript out)) (TxOut tx) of
        Some payload \<Rightarrow> Inr payload | None \<Rightarrow> Inl PlainError)"

section \<open>The result proof\<close>

definition wf_InferenceResultProof :: "InferenceResultProof \<Rightarrow> bool" where
  "wf_InferenceResultProof p \<longleftrightarrow>
     length (CommitmentHash p) = 32 \<and> length (ResultHash p) = 32 \<and> length (WorkerAddress p) = 34 \<and>
     length (BlockHash p) = 32 \<and> length (Signature p) = 64 \<and> length (CoordinatorSignature p) = 64"

definition InferenceResultProof_Serialise :: "InferenceResultProof \<Rightarrow> bytes" where
  "InferenceResultProof_Serialise p =
     CommitmentHash p @ ResultHash p @ WorkerAddress p @ BlockHash p @ Signature p @ CoordinatorSignature p"

definition InferenceResultProof_fields :: "bytes \<Rightarrow> InferenceResultProof" where
  "InferenceResultProof_fields d =
     \<lparr>CommitmentHash = slice 0 32 d, ResultHash = slice 32 64 d, WorkerAddress = slice 64 98 d,
      BlockHash = slice 98 130 d, Signature = slice 130 194 d, CoordinatorSignature = slice 194 258 d\<rparr>"

definition InferenceResultProof_Deserialise :: "InferenceResultProof reader" where
  "InferenceResultProof_Deserialise r =
     bindE (readFull 258 r) (\<lambda>(buf, r). Inr (InferenceResultProof_fields buf, r))"

definition parseInferenceProofOpReturn :: "bytes \<Rightarrow> InferenceResultProof option" where
  "parseInferenceProofOpReturn pkScript =
     (if length pkScript \<noteq> 4 + inferenceProofSize then None
      else if pkScript ! 0 \<noteq> 0x6a then None
      else if pkScript ! 1 \<noteq> 0x4d then None
      else if uint (Uint16 (slice 2 4 pkScript)) \<noteq> int inferenceProofSize then None
      else let data = drop 4 pkScript in
        if length data \<noteq> inferenceProofSize then None
        else Some (InferenceResultProof_fields data))"

definition hasInferenceProofOutput :: "MsgTx \<Rightarrow> bool" where
  "hasInferenceProofOutput tx \<longleftrightarrow>
     list_ex (\<lambda>out. parseInferenceProofOpReturn (PkScript out) \<noteq> None) (TxOut tx)"

definition IsInferenceProofTx :: "MsgTx \<Rightarrow> bool" where
  "IsInferenceProofTx tx \<longleftrightarrow>
     Version tx = TxVersionInferenceProof \<and> 1 \<le> length (TxOut tx) \<and> hasInferenceProofOutput tx"

definition ExtractInferenceResultProof :: "MsgTx \<Rightarrow> wireError + InferenceResultProof" where
  "ExtractInferenceResultProof tx =
     (if Version tx \<noteq> TxVersionInferenceProof then Inl PlainError
      else case firstSome (\<lambda>out. parseInferenceProofOpReturn (PkScript out)) (TxOut tx) of
        Some proof \<Rightarrow> Inr proof | None \<Rightarrow> Inl PlainError)"

section \<open>The issue\<close>

definition wf_InferenceGoPayload :: "InferenceGoPayload \<Rightarrow> bool" where
  "wf_InferenceGoPayload p \<longleftrightarrow> length (Destination p) = 32 \<and> length (GoSignature p) = 64"

definition HasDestination :: "InferenceGoPayload \<Rightarrow> bool" where
  "HasDestination p \<longleftrightarrow> Destination p \<noteq> replicate 32 0"

definition InferenceGoPayload_Serialise :: "InferenceGoPayload \<Rightarrow> bytes" where
  "InferenceGoPayload_Serialise p =
     inferenceGoPayloadVersion # PutUint64 (Amount p) @ Destination p @ GoSignature p"

definition InferenceGoPayload_fields :: "bytes \<Rightarrow> InferenceGoPayload" where
  "InferenceGoPayload_fields buf =
     \<lparr>Amount = Uint64 (slice 1 9 buf), Destination = slice 9 41 buf, GoSignature = slice 41 105 buf\<rparr>"

definition InferenceGoPayload_Deserialise :: "InferenceGoPayload reader" where
  "InferenceGoPayload_Deserialise r =
     bindE (readFull InferenceGoPayloadSize r) (\<lambda>(buf, r).
       if buf ! 0 \<noteq> inferenceGoPayloadVersion then Inl PlainError
       else Inr (InferenceGoPayload_fields buf, r))"

definition SignedBytes :: "InferenceGoPayload \<Rightarrow> bytes" where
  "SignedBytes p = inferenceGoPayloadVersion # PutUint64 (Amount p) @ Destination p"

definition parseInferenceGoOpReturn :: "bytes \<Rightarrow> InferenceGoPayload option" where
  "parseInferenceGoOpReturn pkScript =
     (if length pkScript \<noteq> length inferenceGoOpReturnPrefix + InferenceGoPayloadSize then None
      else if take (length inferenceGoOpReturnPrefix) pkScript \<noteq> inferenceGoOpReturnPrefix then None
      else case InferenceGoPayload_Deserialise (drop (length inferenceGoOpReturnPrefix) pkScript) of
        Inl err \<Rightarrow> None | Inr (p, r) \<Rightarrow> Some p)"

definition BuildInferenceGoOpReturn :: "InferenceGoPayload \<Rightarrow> bytes" where
  "BuildInferenceGoOpReturn p = inferenceGoOpReturnPrefix @ InferenceGoPayload_Serialise p"

definition hasInferenceGoPayloadOutput :: "MsgTx \<Rightarrow> bool" where
  "hasInferenceGoPayloadOutput tx \<longleftrightarrow>
     list_ex (\<lambda>out. parseInferenceGoOpReturn (PkScript out) \<noteq> None) (TxOut tx)"

definition IsInferenceGoTx :: "MsgTx \<Rightarrow> bool" where
  "IsInferenceGoTx tx \<longleftrightarrow>
     Version tx = TxVersionInferenceGo \<and> 1 \<le> length (TxOut tx) \<and> hasInferenceGoPayloadOutput tx"

definition ExtractInferenceGoPayload :: "MsgTx \<Rightarrow> wireError + InferenceGoPayload" where
  "ExtractInferenceGoPayload tx =
     (if Version tx \<noteq> TxVersionInferenceGo then Inl PlainError
      else case firstSome (\<lambda>out. parseInferenceGoOpReturn (PkScript out)) (TxOut tx) of
        Some payload \<Rightarrow> Inr payload | None \<Rightarrow> Inl PlainError)"

definition CountInferenceGoPayloadOutputs :: "MsgTx \<Rightarrow> nat" where
  "CountInferenceGoPayloadOutputs tx =
     foldl (\<lambda>n out. if parseInferenceGoOpReturn (PkScript out) \<noteq> None then n + 1 else n) 0 (TxOut tx)"

definition InferenceGoP2TRScript :: "bytes \<Rightarrow> bytes" where
  "InferenceGoP2TRScript outputKey = [0x51, 0x20] @ outputKey"

section \<open>The OP_RETURN interface\<close>

locale op_return_carrier =
  fixes build :: "'p \<Rightarrow> bytes"
    and parse :: "bytes \<Rightarrow> 'p option"
    and wf :: "'p \<Rightarrow> bool"
  assumes parse_iff: "parse s = Some p \<longleftrightarrow> wf p \<and> s = build p"
begin

lemma parse_build: "wf p \<Longrightarrow> parse (build p) = Some p"
  by (simp add: parse_iff)

lemma build_inj: "wf p \<Longrightarrow> wf q \<Longrightarrow> build p = build q \<longleftrightarrow> p = q"
  by (metis parse_build option.inject)

lemma carries_iff: "parse s \<noteq> None \<longleftrightarrow> (\<exists>p. wf p \<and> s = build p)"
  by (simp add: parse_iff)

lemma parse_None_iff: "parse s = None \<longleftrightarrow> (\<forall>q. wf q \<longrightarrow> s \<noteq> build q)"
  using carries_iff [of s] by auto

text \<open>The payload of a transaction is the one of the first output that carries one.\<close>

lemma first_payload_iff:
  "firstSome (\<lambda>out. parse (PkScript out)) outs = Some p \<longleftrightarrow>
     (\<exists>before out after. outs = before @ out # after \<and> wf p \<and> PkScript out = build p \<and>
        (\<forall>o'\<in>set before. \<forall>q. wf q \<longrightarrow> PkScript o' \<noteq> build q))"
  by (simp only: firstSome_Some_iff parse_iff parse_None_iff conj_assoc)

lemma unique_payload:
  assumes "wf p" "out \<in> set outs" "PkScript out = build p"
    and "\<And>out' q. out' \<in> set outs \<Longrightarrow> wf q \<Longrightarrow> PkScript out' = build q \<Longrightarrow> q = p"
  shows "firstSome (\<lambda>out. parse (PkScript out)) outs = Some p"
proof (cases "firstSome (\<lambda>out. parse (PkScript out)) outs")
  case None
  then have "parse (PkScript out) = None" using assms(2) by (simp add: firstSome_None_iff)
  with assms(1,3) show ?thesis by (simp add: parse_build)
next
  case (Some q)
  then have "q = p" using assms(4) by (elim firstSome_SomeE) (auto simp: parse_iff)
  with Some show ?thesis by simp
qed

end

section \<open>The payloads obey it\<close>

text \<open>Each structure is the concatenation of its fields, and each field is found again at its offset.\<close>

lemma fields_Serialise:
  "wf_InferencePayload p \<Longrightarrow> InferencePayload_fields (InferencePayload_Serialise p) = p"
  "wf_InferenceResultProof q \<Longrightarrow> InferenceResultProof_fields (InferenceResultProof_Serialise q) = q"
  "wf_InferenceGoPayload g \<Longrightarrow> InferenceGoPayload_fields (InferenceGoPayload_Serialise g) = g"
    apply (cases p; simp add: InferencePayload_fields_def InferencePayload_Serialise_def wf_InferencePayload_def slice_def)
   apply (cases q; simp add: InferenceResultProof_fields_def InferenceResultProof_Serialise_def
      wf_InferenceResultProof_def slice_def)
  apply (cases g; simp add: InferenceGoPayload_fields_def InferenceGoPayload_Serialise_def wf_InferenceGoPayload_def
      slice_def)
  done

lemma length_Serialise [simp]:
  "wf_InferencePayload p \<Longrightarrow> length (InferencePayload_Serialise p) = 141"
  "wf_InferenceResultProof q \<Longrightarrow> length (InferenceResultProof_Serialise q) = 258"
  "wf_InferenceGoPayload g \<Longrightarrow> length (InferenceGoPayload_Serialise g) = 105"
  by (simp_all add: InferencePayload_Serialise_def wf_InferencePayload_def InferenceResultProof_Serialise_def
      wf_InferenceResultProof_def InferenceGoPayload_Serialise_def wf_InferenceGoPayload_def)

lemma version_Serialise [simp]:
  "InferencePayload_Serialise p ! 0 = inferencePayloadVersion"
  "InferenceGoPayload_Serialise g ! 0 = inferenceGoPayloadVersion"
  by (simp_all add: InferencePayload_Serialise_def InferenceGoPayload_Serialise_def)

lemma Serialise_fields:
  "length d = 141 \<Longrightarrow> InferencePayload_Serialise (InferencePayload_fields d) = inferencePayloadVersion # slice 1 141 d"
  "length d = 258 \<Longrightarrow> InferenceResultProof_Serialise (InferenceResultProof_fields d) = d"
  "length d = 105 \<Longrightarrow> InferenceGoPayload_Serialise (InferenceGoPayload_fields d) = inferenceGoPayloadVersion # slice 1 105 d"
  by (simp_all add: InferencePayload_Serialise_def InferencePayload_fields_def
      InferenceResultProof_Serialise_def InferenceResultProof_fields_def
      InferenceGoPayload_Serialise_def InferenceGoPayload_fields_def PutUint_Uint slice_split slice_whole)

lemma wf_payload_fields:
  "length d = 141 \<Longrightarrow> wf_InferencePayload (InferencePayload_fields d)"
  "length d = 258 \<Longrightarrow> wf_InferenceResultProof (InferenceResultProof_fields d)"
  "length d = 105 \<Longrightarrow> wf_InferenceGoPayload (InferenceGoPayload_fields d)"
  by (simp_all add: wf_InferencePayload_def InferencePayload_fields_def wf_InferenceResultProof_def
      InferenceResultProof_fields_def wf_InferenceGoPayload_def InferenceGoPayload_fields_def)

interpretation payload_layout: fixed_layout 141 "\<lambda>d. d ! 0 = inferencePayloadVersion"
    InferencePayload_fields InferencePayload_Serialise wf_InferencePayload
proof unfold_locales
  show "InferencePayload_Serialise (InferencePayload_fields d) = d"
    if "length d = 141" "d ! 0 = inferencePayloadVersion" for d
    using slice_head [of d 141] that by (simp only: Serialise_fields)
qed (simp_all add: fields_Serialise wf_payload_fields)

interpretation proof_layout: fixed_layout 258 "\<lambda>d. True"
    InferenceResultProof_fields InferenceResultProof_Serialise wf_InferenceResultProof
  by unfold_locales (simp_all add: fields_Serialise Serialise_fields wf_payload_fields)

interpretation go_layout: fixed_layout 105 "\<lambda>d. d ! 0 = inferenceGoPayloadVersion"
    InferenceGoPayload_fields InferenceGoPayload_Serialise wf_InferenceGoPayload
proof unfold_locales
  show "InferenceGoPayload_Serialise (InferenceGoPayload_fields d) = d"
    if "length d = 105" "d ! 0 = inferenceGoPayloadVersion" for d
    using slice_head [of d 105] that by (simp only: Serialise_fields)
qed (simp_all add: fields_Serialise wf_payload_fields)

lemma GoPayloadSize [simp]: "InferenceGoPayloadSize = 105"
  by (simp add: InferenceGoPayloadSize_def)

interpretation payload_codec: codec InferencePayload_Serialise InferencePayload_Deserialise wf_InferencePayload
  by unfold_locales (simp only: InferencePayload_Deserialise_def payload_layout.readFull_layout)

interpretation proof_codec:
  codec InferenceResultProof_Serialise InferenceResultProof_Deserialise wf_InferenceResultProof
  using proof_layout.readFull_layout
  by unfold_locales (simp add: InferenceResultProof_Deserialise_def)

interpretation go_codec: codec InferenceGoPayload_Serialise InferenceGoPayload_Deserialise wf_InferenceGoPayload
  by unfold_locales (simp only: InferenceGoPayload_Deserialise_def GoPayloadSize go_layout.readFull_layout)

section \<open>The three framings\<close>

lemma take_prefix_iff:
  "3 \<le> length s \<Longrightarrow> s ! 0 = a \<and> s ! 1 = b \<and> s ! 2 = c \<longleftrightarrow> take 3 s = [a, b, c]"
  "4 \<le> length s \<Longrightarrow> s ! 0 = a \<and> s ! 1 = b \<and> slice 2 4 s = [c, d] \<longleftrightarrow> take 4 s = [a, b, c, d]"
  by (cases s; cases "tl s"; cases "tl (tl s)"; cases "tl (tl (tl s))"; auto simp: slice_def)+

lemma framing_iff:
  assumes "length pre = k" and "good p \<Longrightarrow> length (enc p) = n"
  shows "length s = k + n \<and> take k s = pre \<and> good p \<and> drop k s = enc p \<longleftrightarrow> good p \<and> s = pre @ enc p"
proof
  assume "length s = k + n \<and> take k s = pre \<and> good p \<and> drop k s = enc p"
  then show "good p \<and> s = pre @ enc p" by (metis append_take_drop_id)
next
  assume "good p \<and> s = pre @ enc p"
  with assms show "length s = k + n \<and> take k s = pre \<and> good p \<and> drop k s = enc p" by auto
qed

lemma parseInferenceOpReturn_iff:
  "parseInferenceOpReturn s = Some p \<longleftrightarrow>
     wf_InferencePayload p \<and> s = inferenceOpReturnPrefix @ InferencePayload_Serialise p"
proof -
  have len: "uint (s ! 2) = 141 \<longleftrightarrow> s ! 2 = 0x8d"
    by (simp add: word_uint_eq_iff)
  have "parseInferenceOpReturn s = Some p \<longleftrightarrow>
      length s = 3 + 141 \<and> (s ! 0 = 0x6a \<and> s ! 1 = 0x4c \<and> s ! 2 = 0x8d) \<and>
      (length (drop 3 s) = 141 \<and> drop 3 s ! 0 = inferencePayloadVersion \<and> InferencePayload_fields (drop 3 s) = p)"
    by (auto simp: parseInferenceOpReturn_def inferencePayloadSize_def Let_def len split: if_splits)
  also have "\<dots> \<longleftrightarrow> length s = 3 + 141 \<and> take 3 s = inferenceOpReturnPrefix \<and>
      wf_InferencePayload p \<and> drop 3 s = InferencePayload_Serialise p"
    unfolding payload_layout.layout_iff inferenceOpReturnPrefix_def
    by (rule conj_cong [OF refl], subst take_prefix_iff(1)) simp_all
  also have "\<dots> \<longleftrightarrow> wf_InferencePayload p \<and> s = inferenceOpReturnPrefix @ InferencePayload_Serialise p"
    by (rule framing_iff) (simp_all add: inferenceOpReturnPrefix_def)
  finally show ?thesis .
qed

lemma parseInferenceProofOpReturn_iff:
  "parseInferenceProofOpReturn s = Some p \<longleftrightarrow>
     wf_InferenceResultProof p \<and> s = inferenceProofOpReturnPrefix @ InferenceResultProof_Serialise p"
proof -
  have len: "uint (Uint16 x) = 258 \<longleftrightarrow> x = [2, 1]" if "length x = 2" for x
  proof -
    have "uint (Uint16 x) = 258 \<longleftrightarrow> Uint16 x = Uint16 [2, 1]"
      by (simp add: word_uint_eq_iff Uint16_def)
    also have "\<dots> \<longleftrightarrow> x = [2, 1]"
      using PutUint_Uint(1) [OF that] PutUint_Uint(1) [of "[2, 1]"] by (metis length_Cons list.size(3) numeral_2_eq_2)
    finally show ?thesis .
  qed
  have "parseInferenceProofOpReturn s = Some p \<longleftrightarrow>
      length s = 4 + 258 \<and> (s ! 0 = 0x6a \<and> s ! 1 = 0x4d \<and> slice 2 4 s = [2, 1]) \<and>
      (length (drop 4 s) = 258 \<and> True \<and> InferenceResultProof_fields (drop 4 s) = p)"
    by (auto simp: parseInferenceProofOpReturn_def inferenceProofSize_def Let_def len split: if_splits)
  also have "\<dots> \<longleftrightarrow> length s = 4 + 258 \<and> take 4 s = inferenceProofOpReturnPrefix \<and>
      wf_InferenceResultProof p \<and> drop 4 s = InferenceResultProof_Serialise p"
    unfolding proof_layout.layout_iff inferenceProofOpReturnPrefix_def
    by (rule conj_cong [OF refl], subst take_prefix_iff(2)) simp_all
  also have "\<dots> \<longleftrightarrow> wf_InferenceResultProof p \<and>
      s = inferenceProofOpReturnPrefix @ InferenceResultProof_Serialise p"
    by (rule framing_iff) (simp_all add: inferenceProofOpReturnPrefix_def)
  finally show ?thesis .
qed

lemma parseInferenceGoOpReturn_iff:
  "parseInferenceGoOpReturn s = Some p \<longleftrightarrow> wf_InferenceGoPayload p \<and> s = BuildInferenceGoOpReturn p"
proof -
  let ?pre = inferenceGoOpReturnPrefix
  have exact: "length x = 105 \<Longrightarrow> (\<exists>r. x = InferenceGoPayload_Serialise p @ r) \<longleftrightarrow> x = InferenceGoPayload_Serialise p"
    if "wf_InferenceGoPayload p" for x
    using length_Serialise(3) [OF that] by auto
  have "parseInferenceGoOpReturn s = Some p \<longleftrightarrow>
      length s = length ?pre + 105 \<and> take (length ?pre) s = ?pre \<and>
      (\<exists>r. InferenceGoPayload_Deserialise (drop (length ?pre) s) = Inr (p, r))"
    by (auto simp: parseInferenceGoOpReturn_def split: if_splits sum.splits)
  also have "\<dots> \<longleftrightarrow> length s = length ?pre + 105 \<and> take (length ?pre) s = ?pre \<and>
      wf_InferenceGoPayload p \<and> drop (length ?pre) s = InferenceGoPayload_Serialise p"
    using exact [of "drop (length ?pre) s"] by (auto simp: go_codec.dec_iff)
  also have "\<dots> \<longleftrightarrow> wf_InferenceGoPayload p \<and> s = ?pre @ InferenceGoPayload_Serialise p"
    by (rule framing_iff) simp_all
  finally show ?thesis by (simp add: BuildInferenceGoOpReturn_def)
qed

interpretation request_carrier: op_return_carrier
    "\<lambda>p. inferenceOpReturnPrefix @ InferencePayload_Serialise p" parseInferenceOpReturn wf_InferencePayload
  by unfold_locales (rule parseInferenceOpReturn_iff)

interpretation proof_carrier: op_return_carrier
    "\<lambda>p. inferenceProofOpReturnPrefix @ InferenceResultProof_Serialise p" parseInferenceProofOpReturn
    wf_InferenceResultProof
  by unfold_locales (rule parseInferenceProofOpReturn_iff)

interpretation issue_carrier: op_return_carrier
    BuildInferenceGoOpReturn parseInferenceGoOpReturn wf_InferenceGoPayload
  by unfold_locales (rule parseInferenceGoOpReturn_iff)

lemma CountInferenceGoPayloadOutputs_eq:
  "CountInferenceGoPayloadOutputs tx =
     length (filter (\<lambda>out. parseInferenceGoOpReturn (PkScript out) \<noteq> None) (TxOut tx))"
proof -
  have "foldl (\<lambda>n out. if P out then n + 1 else n) k outs = k + length (filter P outs)"
    for P and k :: nat and outs :: "TxOut list"
    by (induction outs arbitrary: k) auto
  then show ?thesis unfolding CountInferenceGoPayloadOutputs_def by simp
qed

lemma ExtractInferencePayload_iff:
  "ExtractInferencePayload tx = Inr p \<longleftrightarrow>
     Version tx = TxVersionInference \<and>
     firstSome (\<lambda>out. parseInferenceOpReturn (PkScript out)) (TxOut tx) = Some p"
  by (auto simp: ExtractInferencePayload_def split: option.splits)

lemma ExtractInferenceResultProof_iff:
  "ExtractInferenceResultProof tx = Inr p \<longleftrightarrow>
     Version tx = TxVersionInferenceProof \<and>
     firstSome (\<lambda>out. parseInferenceProofOpReturn (PkScript out)) (TxOut tx) = Some p"
  by (auto simp: ExtractInferenceResultProof_def split: option.splits)

lemma ExtractInferenceGoPayload_iff:
  "ExtractInferenceGoPayload tx = Inr p \<longleftrightarrow>
     Version tx = TxVersionInferenceGo \<and>
     firstSome (\<lambda>out. parseInferenceGoOpReturn (PkScript out)) (TxOut tx) = Some p"
  by (auto simp: ExtractInferenceGoPayload_def split: option.splits)

lemma IsInferenceTx_iff: "IsInferenceTx tx \<longleftrightarrow> (\<exists>p. ExtractInferencePayload tx = Inr p)"
proof -
  have "hasInferencePayloadOutput tx \<longleftrightarrow>
      firstSome (\<lambda>out. parseInferenceOpReturn (PkScript out)) (TxOut tx) \<noteq> None"
    by (auto simp: hasInferencePayloadOutput_def list_ex_iff firstSome_None_iff)
  moreover have "hasInferencePayloadOutput tx \<Longrightarrow> 1 \<le> length (TxOut tx)"
    by (cases "TxOut tx") (auto simp: hasInferencePayloadOutput_def)
  ultimately show ?thesis by (auto simp: IsInferenceTx_def ExtractInferencePayload_iff)
qed

section \<open>Properties\<close>

text \<open>
  The OP_RETURN framings are exact: a script parses as an inference request, a result proof or an issue
  precisely when it is the prefix of that kind followed by the serialisation of a payload with fields of the
  right sizes, and parsing returns that payload.
\<close>

theorem op_return_framing:
  "(parseInferenceOpReturn s = Some p \<longleftrightarrow>
      wf_InferencePayload p \<and> s = inferenceOpReturnPrefix @ InferencePayload_Serialise p) \<and>
   (parseInferenceProofOpReturn s = Some q \<longleftrightarrow>
      wf_InferenceResultProof q \<and> s = inferenceProofOpReturnPrefix @ InferenceResultProof_Serialise q) \<and>
   (parseInferenceGoOpReturn s = Some g \<longleftrightarrow> wf_InferenceGoPayload g \<and> s = BuildInferenceGoOpReturn g)"
  by (simp add: request_carrier.parse_iff proof_carrier.parse_iff issue_carrier.parse_iff)

end
