(* ===== verification/Schnorr.thy ===== *)
theory Schnorr
  imports Chainhash Wire_Common
begin

text \<open>
  Schnorr signatures (\<^verbatim>\<open>node/btcec/schnorr\<close>), the tagged hashes they use (\<^verbatim>\<open>node/chaincfg/chainhash/hash.go\<close>) and the
  tweaking of taproot keys (\<^verbatim>\<open>node/txscript/taproot.go\<close>).

  The arithmetic of the curve is a package outside the repository.  Its operations are the fields of the record \<open>Secp\<close>, a
  parameter of the model; field elements and scalars are integers, reduced as the package documents.  The predicate
  \<open>secp_laws\<close> collects what the package documents about them: the multiples of the generator form a cyclic group of the
  given order, a point and its inverse share the first coordinate and differ in the parity of the second, and the
  compressed encoding holds the first coordinate and that parity.
\<close>

section \<open>Tagged hashes\<close>

definition ascii :: "string \<Rightarrow> bytes" where
  "ascii s = map of_char s"

definition TagBIP0340Challenge :: bytes where "TagBIP0340Challenge = ascii ''BIP0340/challenge''"
definition TagBIP0340Aux :: bytes where "TagBIP0340Aux = ascii ''BIP0340/aux''"
definition TagBIP0340Nonce :: bytes where "TagBIP0340Nonce = ascii ''BIP0340/nonce''"
definition TagTapTweak :: bytes where "TagTapTweak = ascii ''TapTweak''"

definition TaggedHash :: "bytes \<Rightarrow> bytes list \<Rightarrow> hash" where
  "TaggedHash tag msgs = (let shaTag = Sum256 tag in Sum256 (shaTag @ shaTag @ concat msgs))"

section \<open>The curve\<close>

record 'p Secp =
  fieldPrime :: int
  groupOrder :: int
  parseCompressed :: "bytes \<Rightarrow> 'p option"
  serializeCompressed :: "'p \<Rightarrow> bytes"
  isOnCurve :: "'p \<Rightarrow> bool"
  scalarBaseMult :: "int \<Rightarrow> 'p"
  scalarMult :: "int \<Rightarrow> 'p \<Rightarrow> 'p"
  addPoints :: "'p \<Rightarrow> 'p \<Rightarrow> 'p"
  isInfinity :: "'p \<Rightarrow> bool"
  affineX :: "'p \<Rightarrow> int"
  affineY :: "'p \<Rightarrow> int"

text \<open>32 bytes, big endian.\<close>

definition be32 :: "int \<Rightarrow> bytes" where
  "be32 x = rev (int_le 32 x)"

text \<open>The reduced scalar of 32 bytes, and whether the bytes stood for a larger number.\<close>

definition scalarSetBytes :: "'p Secp \<Rightarrow> bytes \<Rightarrow> int \<times> bool" where
  "scalarSetBytes S b = (be_int b mod groupOrder S, be_int b \<ge> groupOrder S)"

definition scalarNegate :: "'p Secp \<Rightarrow> int \<Rightarrow> int" where
  "scalarNegate S k = (- k) mod groupOrder S"

definition secp_laws :: "'p Secp \<Rightarrow> bool" where
  "secp_laws S \<longleftrightarrow>
     1 < groupOrder S \<and> groupOrder S \<le> 2 ^ 256 \<and> fieldPrime S \<le> 2 ^ 256 \<and>
     (\<forall>a b. addPoints S (scalarBaseMult S a) (scalarBaseMult S b) = scalarBaseMult S ((a + b) mod groupOrder S)) \<and>
     (\<forall>a b. scalarMult S a (scalarBaseMult S b) = scalarBaseMult S (a * b mod groupOrder S)) \<and>
     (\<forall>a. 0 < a \<and> a < groupOrder S \<longrightarrow>
        (let P = scalarBaseMult S a; N = scalarBaseMult S (groupOrder S - a) in
         \<not> isInfinity S P \<and> isOnCurve S P \<and> 0 \<le> affineX S P \<and> affineX S P < fieldPrime S \<and>
         affineX S N = affineX S P \<and> (odd (affineY S N) \<longleftrightarrow> even (affineY S P)) \<and>
         serializeCompressed S P = (if odd (affineY S P) then 3 else 2) # be32 (affineX S P) \<and>
         parseCompressed S (2 # be32 (affineX S P)) = Some (if odd (affineY S P) then N else P)))"

section \<open>Keys and signatures\<close>

datatype sigError = ErrSigTooShort | ErrSigTooLong | ErrSigRTooBig | ErrInvalidHashLen | ErrPubKey | ErrPubKeyNotOnCurve |
  ErrSigRNotOnCurve | ErrSigRYIsOdd | ErrUnequalRValues | ErrSchnorrHashValue | ErrPrivateKeyIsZero

definition PubKeyBytesLen :: nat where "PubKeyBytesLen = 32"
definition SignatureSize :: nat where "SignatureSize = 64"
definition scalarSize :: nat where "scalarSize = 32"

definition ParsePubKey :: "'p Secp \<Rightarrow> bytes \<Rightarrow> (sigError, 'p) result" where
  "ParsePubKey S pubKeyStr =
     (if length pubKeyStr \<noteq> PubKeyBytesLen then Inl ErrPubKey
      else case parseCompressed S (2 # pubKeyStr) of None \<Rightarrow> Inl ErrPubKey | Some P \<Rightarrow> Inr P)"

definition SerializePubKey :: "'p Secp \<Rightarrow> 'p \<Rightarrow> bytes" where
  "SerializePubKey S pub = drop 1 (serializeCompressed S pub)"

record SchnorrSig =
  sigR :: int
  sigS :: int

definition SchnorrSig_Serialize :: "SchnorrSig \<Rightarrow> bytes" where
  "SchnorrSig_Serialize sig = be32 (sigR sig) @ be32 (sigS sig)"

definition ParseSignature :: "'p Secp \<Rightarrow> bytes \<Rightarrow> (sigError, SchnorrSig) result" where
  "ParseSignature S sig =
     (if length sig < SignatureSize then Inl ErrSigTooShort
      else if length sig > SignatureSize then Inl ErrSigTooLong
      else let r = be_int (slice 0 32 sig) in
        if r \<ge> fieldPrime S then Inl ErrSigRTooBig
        else let (s, _) = scalarSetBytes S (slice 32 64 sig) in Inr \<lparr>sigR = r, sigS = s\<rparr>)"

definition SchnorrSig_IsEqual :: "SchnorrSig \<Rightarrow> SchnorrSig \<Rightarrow> bool" where
  "SchnorrSig_IsEqual sig otherSig \<longleftrightarrow> sigR sig = sigR otherSig \<and> sigS sig = sigS otherSig"

definition schnorrVerify :: "'p Secp \<Rightarrow> SchnorrSig \<Rightarrow> bytes \<Rightarrow> bytes \<Rightarrow> (sigError, unit) result" where
  "schnorrVerify S sig msg pubKeyBytes =
     (if length msg \<noteq> scalarSize then Inl ErrInvalidHashLen
      else bindE (ParsePubKey S pubKeyBytes) (\<lambda>pubKey.
        if \<not> isOnCurve S pubKey then Inl ErrPubKeyNotOnCurve
        else let rBytes = be32 (sigR sig);
                 pBytes = SerializePubKey S pubKey;
                 commitment = TaggedHash TagBIP0340Challenge [rBytes, pBytes, msg];
                 (e, _) = scalarSetBytes S commitment;
                 e = scalarNegate S e;
                 sG = scalarBaseMult S (sigS sig);
                 eP = scalarMult S e pubKey;
                 R = addPoints S sG eP in
             if isInfinity S R then Inl ErrSigRNotOnCurve
             else if odd (affineY S R) then Inl ErrSigRYIsOdd
             else if sigR sig \<noteq> affineX S R then Inl ErrUnequalRValues
             else Inr ()))"

definition SchnorrSig_Verify :: "'p Secp \<Rightarrow> SchnorrSig \<Rightarrow> bytes \<Rightarrow> 'p \<Rightarrow> bool" where
  "SchnorrSig_Verify S sig msg pubKey \<longleftrightarrow> schnorrVerify S sig msg (SerializePubKey S pubKey) = Inr ()"

section \<open>Signing\<close>

record signOptions =
  fastSign :: bool
  authNonce :: "bytes option"

definition schnorrSign :: "'p Secp \<Rightarrow> int \<Rightarrow> int \<Rightarrow> 'p \<Rightarrow> bytes \<Rightarrow> signOptions \<Rightarrow> (sigError, SchnorrSig) result" where
  "schnorrSign S privKey nonce pubKey msg opts =
     (let R = scalarBaseMult S nonce;
          k = (if odd (affineY S R) then scalarNegate S nonce else nonce);
          pBytes = SerializePubKey S pubKey;
          commitment = TaggedHash TagBIP0340Challenge [be32 (affineX S R), pBytes, msg];
          (e, overflow) = scalarSetBytes S commitment in
      if overflow then Inl ErrSchnorrHashValue
      else let s = (e * privKey mod groupOrder S + k) mod groupOrder S;
               sig = \<lparr>sigR = affineX S R, sigS = s\<rparr> in
           if \<not> fastSign opts
           then bindE (schnorrVerify S sig msg pBytes) (\<lambda>_. Inr sig)
           else Inr sig)"

definition PubKeyFormatCompressedOdd :: byte where "PubKeyFormatCompressedOdd = 3"

definition rfc6979ExtraDataV0 :: bytes where
  "rfc6979ExtraDataV0 =
     [0xa3, 0xeb, 0x4c, 0x18, 0x2f, 0xae, 0x7e, 0xf4, 0xe8, 0x10, 0xc6, 0xee, 0x13, 0xb0, 0xe9, 0x26,
      0x68, 0x6d, 0x71, 0xe8, 0x7f, 0x39, 0x4f, 0x79, 0x9c, 0x00, 0xa5, 0x21, 0x03, 0xcb, 0x4e, 0x17]"

text \<open>The loop over nonces; the generator of nonces is a parameter.\<close>

partial_function (option) signLoop ::
  "'p Secp \<Rightarrow> (bytes \<Rightarrow> bytes \<Rightarrow> bytes \<Rightarrow> int \<Rightarrow> int) \<Rightarrow> int \<Rightarrow> 'p \<Rightarrow> bytes \<Rightarrow> signOptions \<Rightarrow> int \<Rightarrow> SchnorrSig option" where
  "signLoop S nonceRFC6979 privKey pub msg opts iteration =
     (let k = nonceRFC6979 (be32 privKey) msg rfc6979ExtraDataV0 iteration in
      case schnorrSign S privKey k pub msg opts of
        Inl e \<Rightarrow> signLoop S nonceRFC6979 privKey pub msg opts ((iteration + 1) mod 2 ^ 32)
      | Inr sig \<Rightarrow> Some sig)"

text \<open>\<open>None\<close> when the loop never ends.\<close>

definition Sign ::
  "'p Secp \<Rightarrow> (bytes \<Rightarrow> bytes \<Rightarrow> bytes \<Rightarrow> int \<Rightarrow> int) \<Rightarrow> int \<Rightarrow> bytes \<Rightarrow> signOptions \<Rightarrow> (sigError, SchnorrSig) result option" where
  "Sign S nonceRFC6979 privKey msg opts =
     (if length msg \<noteq> scalarSize then Some (Inl ErrInvalidHashLen)
      else if privKey = 0 then Some (Inl ErrPrivateKeyIsZero)
      else let pub = scalarBaseMult S privKey;
               pubKeyBytes = serializeCompressed S pub;
               d = (if pubKeyBytes ! 0 = PubKeyFormatCompressedOdd then scalarNegate S privKey else privKey) in
        case authNonce opts of
          Some a \<Rightarrow>
            let t = map2 (XOR) (TaggedHash TagBIP0340Aux [a]) (be32 d);
                rand = TaggedHash TagBIP0340Nonce [t, drop 1 pubKeyBytes, msg];
                (kPrime, _) = scalarSetBytes S rand in
            if kPrime = 0 then Some (Inl ErrSchnorrHashValue)
            else Some (schnorrSign S d kPrime pub msg opts)
        | None \<Rightarrow> map_option Inr (signLoop S nonceRFC6979 d pub msg opts 0))"

section \<open>Taproot keys\<close>

text \<open>The internal key is parsed again from its serialisation; on a key that does not parse the code faults.\<close>

definition ComputeTaprootOutputKey :: "'p Secp \<Rightarrow> 'p \<Rightarrow> bytes \<Rightarrow> 'p option" where
  "ComputeTaprootOutputKey S pubKey scriptRoot =
     (case ParsePubKey S (SerializePubKey S pubKey) of
        Inl _ \<Rightarrow> None
      | Inr internalKey \<Rightarrow>
          let tapTweakHash = TaggedHash TagTapTweak [SerializePubKey S internalKey, scriptRoot];
              (tweakScalar, _) = scalarSetBytes S tapTweakHash;
              tPoint = scalarBaseMult S tweakScalar
          in Some (addPoints S internalKey tPoint))"

definition ComputeTaprootKeyNoScript :: "'p Secp \<Rightarrow> 'p \<Rightarrow> 'p option" where
  "ComputeTaprootKeyNoScript S internalKey = ComputeTaprootOutputKey S internalKey []"

section \<open>Lemmas\<close>

lemma length_be32 [simp]: "length (be32 x) = 32"
  by (simp add: be32_def)

lemma be_int_be32: "0 \<le> x \<Longrightarrow> x < 2 ^ 256 \<Longrightarrow> be_int (be32 x) = x"
  by (simp add: be_int_def be32_def)

lemma be32_be_int: "length b = 32 \<Longrightarrow> be32 (be_int b) = b"
  using int_le_le_int [of "rev b" 32] by (simp add: be32_def be_int_def)

lemma secp_lawsD:
  assumes "secp_laws S" "0 < a" "a < groupOrder S"
  shows "\<not> isInfinity S (scalarBaseMult S a)" "isOnCurve S (scalarBaseMult S a)"
    "0 \<le> affineX S (scalarBaseMult S a)" "affineX S (scalarBaseMult S a) < fieldPrime S"
    "affineX S (scalarBaseMult S (groupOrder S - a)) = affineX S (scalarBaseMult S a)"
    "odd (affineY S (scalarBaseMult S (groupOrder S - a))) \<longleftrightarrow> even (affineY S (scalarBaseMult S a))"
    "serializeCompressed S (scalarBaseMult S a) =
       (if odd (affineY S (scalarBaseMult S a)) then 3 else 2) # be32 (affineX S (scalarBaseMult S a))"
    "parseCompressed S (2 # be32 (affineX S (scalarBaseMult S a))) =
       Some (scalarBaseMult S (if odd (affineY S (scalarBaseMult S a)) then groupOrder S - a else a))"
  using assms by (auto simp: secp_laws_def Let_def)

lemma secp_laws_group:
  assumes "secp_laws S"
  shows "addPoints S (scalarBaseMult S a) (scalarBaseMult S b) = scalarBaseMult S ((a + b) mod groupOrder S)"
    and "scalarMult S a (scalarBaseMult S b) = scalarBaseMult S (a * b mod groupOrder S)"
    and "1 < groupOrder S" and "groupOrder S \<le> 2 ^ 256" and "fieldPrime S \<le> 2 ^ 256"
  using assms by (simp_all add: secp_laws_def)

text \<open>The key, or its negation, whose point has an even second coordinate.\<close>

definition evenKey :: "'p Secp \<Rightarrow> int \<Rightarrow> int" where
  "evenKey S a = (if odd (affineY S (scalarBaseMult S a)) then groupOrder S - a else a)"

lemma evenKey:
  assumes "secp_laws S" "0 < a" "a < groupOrder S"
  shows "0 < evenKey S a" "evenKey S a < groupOrder S" "even (affineY S (scalarBaseMult S (evenKey S a)))"
    "affineX S (scalarBaseMult S (evenKey S a)) = affineX S (scalarBaseMult S a)"
    "(if odd (affineY S (scalarBaseMult S a)) then scalarNegate S a else a) = evenKey S a"
    "ParsePubKey S (SerializePubKey S (scalarBaseMult S a)) = Inr (scalarBaseMult S (evenKey S a))"
    "SerializePubKey S (scalarBaseMult S (evenKey S a)) = SerializePubKey S (scalarBaseMult S a)"
proof -
  note l = secp_lawsD [OF assms]
  have neg: "scalarNegate S a = groupOrder S - a" using assms by (simp add: scalarNegate_def zmod_zminus1_eq_if)
  show b: "0 < evenKey S a" "evenKey S a < groupOrder S" using assms by (auto simp: evenKey_def)
  show "even (affineY S (scalarBaseMult S (evenKey S a)))" using l(6) by (auto simp: evenKey_def)
  show x: "affineX S (scalarBaseMult S (evenKey S a)) = affineX S (scalarBaseMult S a)" using l(5) by (simp add: evenKey_def)
  show "(if odd (affineY S (scalarBaseMult S a)) then scalarNegate S a else a) = evenKey S a" using neg by (simp add: evenKey_def)
  show "ParsePubKey S (SerializePubKey S (scalarBaseMult S a)) = Inr (scalarBaseMult S (evenKey S a))"
    using l(7,8) by (simp add: ParsePubKey_def SerializePubKey_def PubKeyBytesLen_def evenKey_def)
  show "SerializePubKey S (scalarBaseMult S (evenKey S a)) = SerializePubKey S (scalarBaseMult S a)"
    using l(7) secp_lawsD(7) [OF assms(1) b] x by (simp add: SerializePubKey_def)
qed

text \<open>The equation behind verification: subtracting the challenge times the key leaves the nonce.\<close>

lemma cancel_challenge:
  fixes e d k n :: int
  assumes "0 \<le> k" "k < n"
  shows "((e * d mod n + k) mod n + (- e) mod n * d mod n) mod n = k"
proof -
  have "((e * d mod n + k) mod n + (- e) mod n * d mod n) mod n = ((e * d + k) + (- e) * d) mod n"
    by (simp only: mod_add_eq mod_mult_left_eq mod_add_left_eq mod_add_right_eq)
  also have "(e * d + k) + (- e) * d = k" by (simp add: algebra_simps)
  finally show ?thesis using assms by simp
qed

lemma schnorrVerify_sound:
  assumes "secp_laws S" "0 < a" "a < groupOrder S" "0 < k" "k < groupOrder S" "length msg = 32"
  defines "R \<equiv> scalarBaseMult S k"
  defines "e \<equiv> be_int (TaggedHash TagBIP0340Challenge [be32 (affineX S R), SerializePubKey S (scalarBaseMult S a), msg]) mod groupOrder S"
  shows "schnorrVerify S \<lparr>sigR = affineX S R, sigS = (e * evenKey S a mod groupOrder S + evenKey S k) mod groupOrder S\<rparr> msg
    (SerializePubKey S (scalarBaseMult S a)) = Inr ()"
proof -
  note A = evenKey [OF assms(1-3)] and K = evenKey [OF assms(1,4,5)] and g = secp_laws_group [OF assms(1)]
  have "isOnCurve S (scalarBaseMult S (evenKey S a))" using secp_lawsD(2) [OF assms(1) A(1,2)] .
  moreover have "\<not> isInfinity S (scalarBaseMult S (evenKey S k))" using secp_lawsD(1) [OF assms(1) K(1,2)] .
  moreover have "addPoints S (scalarBaseMult S ((e * evenKey S a mod groupOrder S + evenKey S k) mod groupOrder S))
      (scalarMult S (scalarNegate S e) (scalarBaseMult S (evenKey S a))) = scalarBaseMult S (evenKey S k)"
    using K(1,2) by (simp add: g scalarNegate_def cancel_challenge)
  ultimately show ?thesis using A K assms(6)
    by (simp add: schnorrVerify_def scalarSize_def scalarSetBytes_def e_def R_def Let_def)
qed

section \<open>Properties\<close>

text \<open>
  C31. Signing is correct for every private key and nonce: unless the challenge hash overflows the group order, which is
  reported as an error so that the caller tries another nonce, the signature verifies under the public key of the signer.
  The final self check of the signing routine therefore never fails, and the option that skips it changes nothing.
\<close>

theorem schnorrSign_verifies:
  assumes "secp_laws S" "0 < a" "a < groupOrder S" "0 < k" "k < groupOrder S" "length msg = 32"
  defines "pub \<equiv> scalarBaseMult S a"
  defines "privKey \<equiv> if odd (affineY S pub) then scalarNegate S a else a"
  shows "\<exists>sig. SchnorrSig_Verify S sig msg pub \<and> sigR sig < fieldPrime S \<and> 0 \<le> sigS sig \<and> sigS sig < groupOrder S \<and>
    schnorrSign S privKey k pub msg opts =
     (if groupOrder S \<le> be_int (TaggedHash TagBIP0340Challenge [be32 (sigR sig), SerializePubKey S pub, msg])
      then Inl ErrSchnorrHashValue else Inr sig)"
proof -
  define R where "R = scalarBaseMult S k"
  define e where "e = be_int (TaggedHash TagBIP0340Challenge [be32 (affineX S R), SerializePubKey S pub, msg]) mod groupOrder S"
  define sig where "sig = \<lparr>sigR = affineX S R, sigS = (e * evenKey S a mod groupOrder S + evenKey S k) mod groupOrder S\<rparr>"
  have v: "schnorrVerify S sig msg (SerializePubKey S pub) = Inr ()"
    unfolding sig_def e_def R_def pub_def by (rule schnorrVerify_sound [OF assms(1-6)])
  have pk: "privKey = evenKey S a" unfolding privKey_def pub_def by (rule evenKey(5) [OF assms(1-3)])
  have nk: "(if odd (affineY S R) then scalarNegate S k else k) = evenKey S k" unfolding R_def by (rule evenKey(5) [OF assms(1,4,5)])
  have "schnorrSign S privKey k pub msg opts =
     (if groupOrder S \<le> be_int (TaggedHash TagBIP0340Challenge [be32 (sigR sig), SerializePubKey S pub, msg])
      then Inl ErrSchnorrHashValue else Inr sig)"
    using v by (simp add: schnorrSign_def nk pk scalarSetBytes_def Let_def sig_def e_def bindE_def flip: R_def)
  moreover have "SchnorrSig_Verify S sig msg pub" using v by (simp add: SchnorrSig_Verify_def)
  moreover have "sigR sig < fieldPrime S" using secp_lawsD(4) [OF assms(1,4,5)] by (simp add: sig_def R_def)
  ultimately show ?thesis using secp_laws_group(3) [OF assms(1)] by (intro exI [of _ sig]) (simp add: sig_def)
qed

text \<open>A group that satisfies the laws: the residues modulo 7, with the residues above 3 taken as the odd ones.\<close>

definition exampleSecp :: "int Secp" where
  "exampleSecp = \<lparr>fieldPrime = 11, groupOrder = 7,
     parseCompressed = (\<lambda>b. if hd b = 2 then Some (be_int (tl b)) else if hd b = 3 then Some (7 - be_int (tl b)) else None),
     serializeCompressed = (\<lambda>k. (if k \<le> 3 then 2 else 3) # be32 (if k \<le> 3 then k else 7 - k)),
     isOnCurve = (\<lambda>_. True), scalarBaseMult = (\<lambda>k. k mod 7), scalarMult = (\<lambda>k P. k * P mod 7),
     addPoints = (\<lambda>P Q. (P + Q) mod 7), isInfinity = (\<lambda>P. P = 0),
     affineX = (\<lambda>k. if k \<le> 3 then k else 7 - k), affineY = (\<lambda>k. if k \<le> 3 then 2 else 5)\<rparr>"

lemma exampleSecp_laws: "secp_laws exampleSecp"
  unfolding secp_laws_def exampleSecp_def
  by (auto simp: Let_def be_int_be32 mod_simps mod_mult_right_eq) presburger+

theorem schnorrSign_verifies_witness:
  "\<exists>sig. SchnorrSig_Verify exampleSecp sig (replicate 32 1) 3"
proof -
  have a: "0 < (3 :: int)" "3 < groupOrder exampleSecp" "0 < (2 :: int)" "2 < groupOrder exampleSecp" "length (replicate 32 1 :: bytes) = 32"
    "scalarBaseMult exampleSecp 3 = 3" by (simp_all add: exampleSecp_def)
  show ?thesis using schnorrSign_verifies [OF exampleSecp_laws a(1-5)] a(6) by auto
qed

text \<open>
  A signature that is serialised parses to itself.  The converse fails: the second half of a signature is reduced
  modulo the group order instead of being checked, so a number and the number plus the group order parse to the same
  signature and both encodings verify.
\<close>

theorem ParseSignature_reduces:
  assumes "secp_laws S" "0 \<le> r" "r < fieldPrime S" "0 \<le> s" "s < groupOrder S"
  shows "ParseSignature S (SchnorrSig_Serialize \<lparr>sigR = r, sigS = s\<rparr>) = Inr \<lparr>sigR = r, sigS = s\<rparr> \<and>
    (s + groupOrder S < 2 ^ 256 \<longrightarrow>
       ParseSignature S (be32 r @ be32 (s + groupOrder S)) = Inr \<lparr>sigR = r, sigS = s\<rparr> \<and>
       be32 r @ be32 (s + groupOrder S) \<noteq> SchnorrSig_Serialize \<lparr>sigR = r, sigS = s\<rparr>)"
proof -
  note g = secp_laws_group [OF assms(1)]
  have r: "be_int (be32 r) = r" using assms g by (intro be_int_be32) simp_all
  have parse: "ParseSignature S (be32 r @ be32 x) = Inr \<lparr>sigR = r, sigS = x mod groupOrder S\<rparr>" if "0 \<le> x" "x < 2 ^ 256" for x
    using that r assms(3) by (simp add: ParseSignature_def SignatureSize_def slice_def scalarSetBytes_def be_int_be32)
  have "be32 s \<noteq> be32 (s + groupOrder S)" if "s + groupOrder S < 2 ^ 256"
    using be_int_be32 [of s] be_int_be32 [of "s + groupOrder S"] that assms g by auto
  then show ?thesis using parse [of s] parse [of "s + groupOrder S"] assms g by (auto simp: SchnorrSig_Serialize_def)
qed

theorem ParseSignature_reduces_witness:
  "ParseSignature exampleSecp (be32 5 @ be32 (4 + 7)) = Inr \<lparr>sigR = 5, sigS = 4\<rparr> \<and>
   ParseSignature exampleSecp (be32 5 @ be32 4) = Inr \<lparr>sigR = 5, sigS = 4\<rparr>"
proof -
  have a: "groupOrder exampleSecp = 7" "fieldPrime exampleSecp = 11" by (simp_all add: exampleSecp_def)
  show ?thesis using ParseSignature_reduces [OF exampleSecp_laws, of 5 4] by (simp add: a SchnorrSig_Serialize_def)
qed

end
