(* ===== verification/Compress.thy ===== *)
theory Compress
  imports Wire_Common
begin

text \<open>
  The compressed encodings of the chain database (\<^verbatim>\<open>node/blockchain/compress.go\<close>): variable length quantities, scripts and
  amounts.

  Where the code fills a target slice of the announced size, the model returns the bytes; that their number is the
  announced size is proved.  Unsigned 64-bit numbers are integers reduced modulo \<open>2 ^ 64\<close>.  Parsing of public keys is
  outside the repository: \<open>uncompressKey\<close> is a parameter that stands for parsing a key and serialising it uncompressed, and is
  \<open>None\<close> on a key that does not parse.  A slice of stored bytes is bounded by their number; that Go would admit a bound up to
  the capacity of the slice matters for corrupt data only.
\<close>

section \<open>Variable length quantities\<close>

function serializeSizeVLQ :: "int \<Rightarrow> nat" where
  "serializeSizeVLQ n = (if n > 0x7f then Suc (serializeSizeVLQ (n div 128 - 1)) else 1)"
  by pat_completeness auto
termination by (relation "measure nat") (auto simp: nat_less_eq_zless)

declare serializeSizeVLQ.simps [simp del]

text \<open>The loop emits the bytes in reverse order; all but the first one carry the high bit.\<close>

function vlqLoop :: "bool \<Rightarrow> int \<Rightarrow> bytes" where
  "vlqLoop isFirst n =
     (let b = word_of_int (n mod 128) OR (if isFirst then 0x00 else 0x80)
      in if n \<le> 0x7f then [b] else b # vlqLoop False (n div 128 - 1))"
  by pat_completeness auto
termination by (relation "measure (nat \<circ> snd)") (auto simp: nat_less_eq_zless)

declare vlqLoop.simps [simp del]

definition putVLQ :: "int \<Rightarrow> bytes" where
  "putVLQ n = rev (vlqLoop True n)"

fun vlqRead :: "int \<Rightarrow> nat \<Rightarrow> bytes \<Rightarrow> int \<times> nat" where
  "vlqRead n sz [] = (n, sz)"
| "vlqRead n sz (val # serialized) =
     (let n = uint64 (n * 128) OR uint (val AND 0x7f) in
      if val AND 0x80 \<noteq> 0x80 then (n, sz + 1)
      else vlqRead (uint64 (n + 1)) (sz + 1) serialized)"

definition deserializeVLQ :: "bytes \<Rightarrow> int \<times> nat" where
  "deserializeVLQ serialized = vlqRead 0 0 serialized"

section \<open>Scripts\<close>

definition numSpecialScripts :: int where "numSpecialScripts = 6"

definition isPubKeyHash :: "bytes \<Rightarrow> bytes option" where
  "isPubKeyHash script =
     (if length script = 25 \<and> script ! 0 = 0x76 \<and> script ! 1 = 0xa9 \<and> script ! 2 = 0x14 \<and>
         script ! 23 = 0x88 \<and> script ! 24 = 0xac
      then Some (slice 3 23 script) else None)"

definition isScriptHash :: "bytes \<Rightarrow> bytes option" where
  "isScriptHash script =
     (if length script = 23 \<and> script ! 0 = 0xa9 \<and> script ! 1 = 0x14 \<and> script ! 22 = 0x87
      then Some (slice 2 22 script) else None)"

definition isPubKey :: "(bytes \<Rightarrow> bytes option) \<Rightarrow> bytes \<Rightarrow> bytes option" where
  "isPubKey uncompressKey script =
     (if length script = 35 \<and> script ! 0 = 0x21 \<and> script ! 34 = 0xac \<and> (script ! 1 = 0x02 \<or> script ! 1 = 0x03) \<and>
         uncompressKey (slice 1 34 script) \<noteq> None
      then Some (slice 1 34 script)
      else if length script = 67 \<and> script ! 0 = 0x41 \<and> script ! 66 = 0xac \<and> script ! 1 = 0x04 \<and>
         uncompressKey (slice 1 66 script) \<noteq> None
      then Some (slice 1 66 script)
      else None)"

definition compressedScriptSize :: "(bytes \<Rightarrow> bytes option) \<Rightarrow> bytes \<Rightarrow> nat" where
  "compressedScriptSize uncompressKey pkScript =
     (if isPubKeyHash pkScript \<noteq> None then 21
      else if isScriptHash pkScript \<noteq> None then 21
      else if isPubKey uncompressKey pkScript \<noteq> None then 33
      else serializeSizeVLQ (int (length pkScript) + numSpecialScripts) + length pkScript)"

definition decodeCompressedScriptSize :: "bytes \<Rightarrow> int" where
  "decodeCompressedScriptSize serialized =
     (let (scriptSize, bytesRead) = deserializeVLQ serialized in
      if bytesRead = 0 then 0
      else if scriptSize = 0 then 21
      else if scriptSize = 1 then 21
      else if scriptSize = 2 \<or> scriptSize = 3 \<or> scriptSize = 4 \<or> scriptSize = 5 then 33
      else int64 (uint64 (scriptSize - numSpecialScripts + int bytesRead)))"

definition putCompressedScript :: "(bytes \<Rightarrow> bytes option) \<Rightarrow> bytes \<Rightarrow> bytes" where
  "putCompressedScript uncompressKey pkScript =
     (let general = putVLQ (int (length pkScript) + numSpecialScripts) @ pkScript in
      case isPubKeyHash pkScript of
        Some h \<Rightarrow> 0 # h
      | None \<Rightarrow> (case isScriptHash pkScript of
          Some h \<Rightarrow> 1 # h
        | None \<Rightarrow> (case isPubKey uncompressKey pkScript of
            Some key \<Rightarrow>
              if key ! 0 = 0x02 \<or> key ! 0 = 0x03 then (key ! 0) # slice 1 33 key
              else if key ! 0 = 0x04 then (key ! 0 OR (key ! 64 AND 0x01)) # slice 1 33 key
              else general
          | None \<Rightarrow> general)))"

text \<open>\<open>None\<close> stands for an access outside a slice, an empty script for a nil result.\<close>

definition decompressScript :: "(bytes \<Rightarrow> bytes option) \<Rightarrow> bytes \<Rightarrow> bytes option" where
  "decompressScript uncompressKey compressed =
     (if length compressed = 0 then Some []
      else let (encodedScriptSize, bytesRead) = deserializeVLQ compressed;
               part = (\<lambda>n. if bytesRead + n \<le> length compressed then Some (slice bytesRead (bytesRead + n) compressed) else None) in
      if encodedScriptSize = 0 then map_option (\<lambda>h. [0x76, 0xa9, 0x14] @ h @ [0x88, 0xac]) (part 20)
      else if encodedScriptSize = 1 then map_option (\<lambda>h. [0xa9, 0x14] @ h @ [0x87]) (part 20)
      else if encodedScriptSize = 2 \<or> encodedScriptSize = 3
      then map_option (\<lambda>x. [0x21, word_of_int encodedScriptSize] @ x @ [0xac]) (part 32)
      else if encodedScriptSize = 4 \<or> encodedScriptSize = 5
      then case uncompressKey (word_of_int (encodedScriptSize - 2) # take 32 (drop 1 compressed @ replicate 32 0)) of
          None \<Rightarrow> Some []
        | Some key \<Rightarrow> Some (0x41 # key @ [0xac])
      else let scriptSize = int64 (encodedScriptSize - numSpecialScripts) in
        if scriptSize < 0 then None else part (nat scriptSize))"

section \<open>Amounts\<close>

fun stripZeros :: "nat \<Rightarrow> int \<Rightarrow> int \<times> int" where
  "stripZeros 0 amount = (amount, 0)"
| "stripZeros (Suc k) amount =
     (if amount mod 10 = 0 then let (a, e) = stripZeros k (amount div 10) in (a, e + 1) else (amount, 0))"

definition compressTxOutAmount :: "int \<Rightarrow> int" where
  "compressTxOutAmount amount =
     (if amount = 0 then 0
      else let (amount, exponent) = stripZeros 9 amount in
        if exponent < 9
        then let lastDigit = amount mod 10; amount = amount div 10
             in uint64 (1 + 10 * (9 * amount + lastDigit - 1) + exponent)
        else uint64 (10 + 10 * (amount - 1)))"

fun applyExponent :: "nat \<Rightarrow> int \<Rightarrow> int" where
  "applyExponent 0 n = n"
| "applyExponent (Suc e) n = applyExponent e (uint64 (n * 10))"

definition decompressTxOutAmount :: "int \<Rightarrow> int" where
  "decompressTxOutAmount amount =
     (if amount = 0 then 0
      else let amount = amount - 1; exponent = amount mod 10; amount = amount div 10;
               n = (if exponent < 9 then let lastDigit = amount mod 9 + 1; amount = amount div 9 in uint64 (amount * 10 + lastDigit)
                    else uint64 (amount + 1))
           in applyExponent (nat exponent) n)"

section \<open>Outputs\<close>

datatype storeError = errDeserialize | storeAssert | storePanic

definition compressedTxOutSize :: "(bytes \<Rightarrow> bytes option) \<Rightarrow> int \<Rightarrow> bytes \<Rightarrow> nat" where
  "compressedTxOutSize uncompressKey amount pkScript =
     serializeSizeVLQ (compressTxOutAmount amount) + compressedScriptSize uncompressKey pkScript"

definition putCompressedTxOut :: "(bytes \<Rightarrow> bytes option) \<Rightarrow> int \<Rightarrow> bytes \<Rightarrow> bytes" where
  "putCompressedTxOut uncompressKey amount pkScript =
     putVLQ (compressTxOutAmount amount) @ putCompressedScript uncompressKey pkScript"

definition decodeCompressedTxOut :: "(bytes \<Rightarrow> bytes option) \<Rightarrow> bytes \<Rightarrow> (storeError, int \<times> bytes \<times> nat) result" where
  "decodeCompressedTxOut uncompressKey serialized =
     (let (compressedAmount, bytesRead) = deserializeVLQ serialized in
      if bytesRead \<ge> length serialized then Inl errDeserialize
      else let rest = drop bytesRead serialized; scriptSize = decodeCompressedScriptSize rest in
        if int (length rest) < scriptSize then Inl errDeserialize
        else if scriptSize < 0 then Inl storePanic
        else let amount = decompressTxOutAmount compressedAmount in
          case decompressScript uncompressKey (take (nat scriptSize) rest) of
            None \<Rightarrow> Inl storePanic
          | Some script \<Rightarrow> Inr (amount, script, bytesRead + nat scriptSize))"

section \<open>Lemmas\<close>

subsection \<open>Variable length quantities\<close>

lemma vlq_byte:
  assumes "0 \<le> x" "x < 128"
  shows "uint (((word_of_int x :: byte) OR 0x80) AND 0x7f) = x" "((word_of_int x :: byte) OR 0x80) AND 0x80 = 0x80"
    "uint (((word_of_int x :: byte) OR 0) AND 0x7f) = x" "((word_of_int x :: byte) OR 0) AND 0x80 \<noteq> 0x80"
proof -
  have u: "uint (word_of_int x :: byte) = x" using assms by (simp add: uint_word_of_int)
  have low: "y AND 127 = y mod 128" for y :: int using take_bit_eq_mask [of 7 y] by (simp add: mask_eq_exp_minus_1 take_bit_eq_mod)
  have o: "uint ((word_of_int x :: byte) OR 0x80) = x + 128" using byte_or [of "word_of_int x"] u assms by simp
  show "uint (((word_of_int x :: byte) OR 0x80) AND 0x7f) = x" using o assms by (simp add: uint_and low)
  show "uint (((word_of_int x :: byte) OR 0) AND 0x7f) = x" using u assms by (simp add: uint_and low)
  show "((word_of_int x :: byte) OR 0x80) AND 0x80 = 0x80" by (rule bit_word_eqI) (auto simp: bit_simps)
  have "(word_of_int x :: byte) AND 0x80 = 0" using u assms by (simp add: byte_high)
  then show "((word_of_int x :: byte) OR 0) AND 0x80 \<noteq> 0x80" by simp
qed

lemma or_low_bits: "0 \<le> x \<Longrightarrow> x < 128 \<Longrightarrow> (k * 128) OR x = k * 128 + x" for x k :: int
proof -
  assume x: "0 \<le> x" "x < 128"
  have "(k * 128) AND x = 0"
  proof (rule bit_eqI)
    fix n
    have "\<not> bit x n" if "7 \<le> n"
    proof -
      have "x < 2 ^ n" using x power_increasing [of 7 n "2 :: int"] that by simp
      then show ?thesis using x by (simp add: bit_iff_odd)
    qed
    moreover have "\<not> bit (k * 128) n" if "n < 7" using that bit_push_bit_iff [of 7 k n] by (simp add: push_bit_eq_mult)
    ultimately show "bit ((k * 128) AND x) n \<longleftrightarrow> bit 0 n" by (cases "n < 7") (auto simp: bit_simps)
  qed
  then show ?thesis by (simp add: disjunctive_add_eq_or)
qed

lemma length_vlqLoop: "length (vlqLoop f n) = serializeSizeVLQ n"
proof (induction n arbitrary: f rule: serializeSizeVLQ.induct)
  case (1 n)
  then show ?case by (cases "n > 127") (simp_all add: serializeSizeVLQ.simps [of n] vlqLoop.simps [of f n] Let_def)
qed

lemma length_putVLQ [simp]: "length (putVLQ n) = serializeSizeVLQ n"
  by (simp add: putVLQ_def length_vlqLoop)

lemma serializeSizeVLQ_pos [simp]: "0 < serializeSizeVLQ n" "serializeSizeVLQ n \<noteq> 0"
  by (subst serializeSizeVLQ.simps, simp)+

text \<open>Reading the continued part of an encoding leaves one more than its number.\<close>

lemma vlqRead_continued:
  "0 \<le> m \<Longrightarrow> m + 1 < 2 ^ 64 \<Longrightarrow>
     vlqRead 0 sz (rev (vlqLoop False m) @ rest) = vlqRead (m + 1) (sz + serializeSizeVLQ m) rest"
proof (induction m arbitrary: sz rest rule: serializeSizeVLQ.induct)
  case (1 m)
  define x where "x = m mod 128"
  have x: "0 \<le> x" "x < 128" by (simp_all add: x_def)
  show ?case
  proof (cases "m \<le> 127")
    case True
    then have "x = m" using "1.prems" by (simp add: x_def)
    then show ?thesis using True "1.prems" vlq_byte(1,2) [OF x]
      by (simp add: vlqLoop.simps [of False m] serializeSizeVLQ.simps [of m] uint64_def flip: x_def)
  next
    case False
    have d: "0 \<le> m div 128 - 1" "m div 128 < 2 ^ 64" "m div 128 * 128 + x = m" using False "1.prems" by (simp_all add: x_def)
    have step: "uint64 (m div 128 * 128) OR x = m"
      using or_low_bits [OF x, of "m div 128"] d "1.prems" by (simp add: uint64_def mod_pos_pos_trivial)
    have "vlqRead 0 sz (rev (vlqLoop False m) @ rest) =
        vlqRead (m div 128) (sz + serializeSizeVLQ (m div 128 - 1)) ((word_of_int x OR 0x80) # rest)"
      using "1.IH" [of sz "(word_of_int x OR 0x80) # rest"] False d by (simp add: vlqLoop.simps [of False m] x_def)
    also have "\<dots> = vlqRead (m + 1) (sz + serializeSizeVLQ m) rest"
      using vlq_byte(1,2) [OF x] step "1.prems" False
      by (simp add: serializeSizeVLQ.simps [of m] uint64_def)
    finally show ?thesis .
  qed
qed

lemma deserializeVLQ_putVLQ:
  assumes "0 \<le> n" "n < 2 ^ 64"
  shows "deserializeVLQ (putVLQ n @ rest) = (n, serializeSizeVLQ n)"
proof -
  define x where "x = n mod 128"
  have x: "0 \<le> x" "x < 128" by (simp_all add: x_def)
  show ?thesis
  proof (cases "n \<le> 127")
    case True
    then have "x = n" using assms by (simp add: x_def)
    then show ?thesis using True assms vlq_byte(3,4) [OF x]
      by (simp add: deserializeVLQ_def putVLQ_def vlqLoop.simps [of True n] serializeSizeVLQ.simps [of n] uint64_def flip: x_def)
  next
    case False
    have d: "0 \<le> n div 128 - 1" "n div 128 < 2 ^ 64" "n div 128 * 128 + x = n" using False assms by (simp_all add: x_def)
    have step: "uint64 (n div 128 * 128) OR x = n"
      using or_low_bits [OF x, of "n div 128"] d assms by (simp add: uint64_def mod_pos_pos_trivial)
    have "deserializeVLQ (putVLQ n @ rest) =
        vlqRead (n div 128) (0 + serializeSizeVLQ (n div 128 - 1)) ((word_of_int x OR 0) # rest)"
      unfolding deserializeVLQ_def putVLQ_def
      using vlqRead_continued [of "n div 128 - 1" 0 "(word_of_int x OR 0) # rest"] False d by (simp add: vlqLoop.simps [of True n] x_def)
    also have "\<dots> = (n, serializeSizeVLQ n)"
      using vlq_byte(3,4) [OF x] step False by (simp add: serializeSizeVLQ.simps [of n])
    finally show ?thesis .
  qed
qed

lemma putVLQ_inject:
  "0 \<le> n \<Longrightarrow> n < 2 ^ 64 \<Longrightarrow> 0 \<le> m \<Longrightarrow> m < 2 ^ 64 \<Longrightarrow> putVLQ n @ r = putVLQ m @ s \<Longrightarrow> n = m \<and> r = s"
  by (metis append_eq_append_conv deserializeVLQ_putVLQ length_putVLQ prod.inject)

subsection \<open>Scripts\<close>

text \<open>
  What the package documents about keys: an uncompressed key that parses serialises to itself, and so does the key with its
  first coordinate and the parity of its second one.
\<close>

definition key_laws :: "(bytes \<Rightarrow> bytes option) \<Rightarrow> bool" where
  "key_laws uncompressKey \<longleftrightarrow>
     (\<forall>key. length key = 65 \<and> key ! 0 = 0x04 \<and> uncompressKey key \<noteq> None \<longrightarrow>
        uncompressKey ((0x02 OR (key ! 64 AND 0x01)) # slice 1 33 key) = Some key)"

lemma deserializeVLQ_small: "uint b < 128 \<Longrightarrow> deserializeVLQ (b # rest) = (uint b, 1)"
proof -
  assume b: "uint b < 128"
  then show ?thesis using vlq_byte(3,4) [of "uint b"] by (simp add: deserializeVLQ_def uint64_def)
qed

lemma split_at:
  assumes "i \<le> j" "j \<le> length xs"
  shows "take i xs @ slice i j xs @ drop j xs = xs"
  using assms slice_split [of 0 i j xs] by (simp add: slice_def flip: append_assoc)

lemma take_3: "3 \<le> length xs \<Longrightarrow> take 3 xs = [xs ! 0, xs ! 1, xs ! 2]"
  by (rule nth_equalityI) (auto simp: less_Suc_eq numeral_eq_Suc)

lemma take_2: "2 \<le> length xs \<Longrightarrow> take 2 xs = [xs ! 0, xs ! 1]"
  by (rule nth_equalityI) (auto simp: less_Suc_eq numeral_eq_Suc)

lemma drop_last_two: "length xs = n + 2 \<Longrightarrow> drop n xs = [xs ! n, xs ! (n + 1)]"
  by (metis Cons_nth_drop_Suc One_nat_def add.commute add_Suc_right drop_all le_refl less_add_same_cancel1 lessI
      nat_add_left_cancel_less one_add_one plus_1_eq_Suc zero_less_numeral)

lemma drop_last_one: "length xs = n + 1 \<Longrightarrow> drop n xs = [xs ! n]"
  by (metis Cons_nth_drop_Suc Suc_eq_plus1 drop_all le_refl lessI)

lemma isPubKeyHash_Some:
  "isPubKeyHash s = Some h \<Longrightarrow> length h = 20 \<and> s = [0x76, 0xa9, 0x14] @ h @ [0x88, 0xac]"
  using split_at [of 3 23 s] take_3 [of s] drop_last_two [of s 23] by (auto simp: isPubKeyHash_def split: if_splits)

lemma isScriptHash_Some:
  "isScriptHash s = Some h \<Longrightarrow> length h = 20 \<and> s = [0xa9, 0x14] @ h @ [0x87]"
  using split_at [of 2 22 s] take_2 [of s] drop_last_one [of s 22] by (auto simp: isScriptHash_def split: if_splits)

lemma isPubKey_Some:
  assumes "isPubKey K s = Some key"
  shows "(length key = 33 \<and> (key ! 0 = 2 \<or> key ! 0 = 3) \<and> s = 0x21 # key @ [0xac]) \<or>
    (length key = 65 \<and> key ! 0 = 4 \<and> K key \<noteq> None \<and> s = 0x41 # key @ [0xac])"
proof -
  have n: "slice 1 j s ! 0 = s ! 1" if "1 < j" "j \<le> length s" for j using that by (simp add: slice_def)
  have one: "take 1 s = [s ! 0]" if "s \<noteq> []" using that by (cases s) simp_all
  from assms consider "length s = 35 \<and> s ! 0 = 0x21 \<and> s ! 34 = 0xac \<and> (s ! 1 = 0x02 \<or> s ! 1 = 0x03)" "key = slice 1 34 s"
    | "length s = 67 \<and> s ! 0 = 0x41 \<and> s ! 66 = 0xac \<and> s ! 1 = 0x04 \<and> K (slice 1 66 s) \<noteq> None" "key = slice 1 66 s"
    by (auto simp: isPubKey_def split: if_splits)
  then show ?thesis
  proof cases
    case 1
    then have "s \<noteq> []" "length s = 34 + 1" by auto
    then have "s = [0x21] @ key @ [0xac]" using split_at [of 1 34 s] one drop_last_one [of s 34] 1 by simp
    then show ?thesis using 1 n [of 34] by auto
  next
    case 2
    then have "s \<noteq> []" "length s = 66 + 1" by auto
    then have "s = [0x41] @ key @ [0xac]" using split_at [of 1 66 s] one drop_last_one [of s 66] 2 by simp
    then show ?thesis using 2 n [of 66] by auto
  qed
qed

lemma pubKeyType_uint:
  "uint ((0x04 :: byte) OR (b AND 0x01)) = 4 + uint (b AND 0x01)" "uint ((0x02 :: byte) OR (b AND 0x01)) = 2 + uint (b AND 0x01)"
  "uint (b AND 0x01) = 0 \<or> uint ((b :: byte) AND 0x01) = 1"
proof -
  have b: "b AND 1 = 0 \<or> b AND 1 = 1" by (simp add: and_one_eq mod_2_eq_odd)
  then show "uint (b AND 0x01) = 0 \<or> uint (b AND 0x01) = 1" by auto
  show "uint ((0x04 :: byte) OR (b AND 0x01)) = 4 + uint (b AND 0x01)" "uint ((0x02 :: byte) OR (b AND 0x01)) = 2 + uint (b AND 0x01)"
    using b by auto
qed

lemma serializeSizeVLQ_le: "n < 128 ^ k \<Longrightarrow> 0 < k \<Longrightarrow> serializeSizeVLQ n \<le> k"
proof (induction k arbitrary: n)
  case (Suc k)
  show ?case
  proof (cases "n > 127")
    case True
    then have "n div 128 - 1 < 128 ^ k" using Suc.prems by (simp add: div_less_int_iff algebra_simps)
    moreover have "0 < k" using True Suc.prems by (cases k) simp_all
    ultimately show ?thesis using Suc.IH True by (simp add: serializeSizeVLQ.simps [of n])
  next
    case False
    then show ?thesis by (simp add: serializeSizeVLQ.simps [of n])
  qed
qed simp

lemma putCompressedScript_cases:
  assumes "key_laws K" "int (length s) + 16 < 2 ^ 63"
  shows "length (putCompressedScript K s) = compressedScriptSize K s"
    and "decodeCompressedScriptSize (putCompressedScript K s @ rest) = int (compressedScriptSize K s)"
    and "decompressScript K (putCompressedScript K s) = Some s"
proof -
  let ?P = "length (putCompressedScript K s) = compressedScriptSize K s \<and>
    decodeCompressedScriptSize (putCompressedScript K s @ rest) = int (compressedScriptSize K s) \<and>
    decompressScript K (putCompressedScript K s) = Some s"
  consider h where "isPubKeyHash s = Some h" | h where "isPubKeyHash s = None" "isScriptHash s = Some h"
    | key where "isPubKeyHash s = None" "isScriptHash s = None" "isPubKey K s = Some key"
    | "isPubKeyHash s = None" "isScriptHash s = None" "isPubKey K s = None"
    by (cases "isPubKeyHash s"; cases "isScriptHash s"; cases "isPubKey K s") auto
  then have ?P
  proof cases
    case 1
    then show ?thesis using isPubKeyHash_Some [OF 1]
      by (simp add: putCompressedScript_def compressedScriptSize_def decodeCompressedScriptSize_def decompressScript_def
          deserializeVLQ_small slice_def)
  next
    case 2
    then show ?thesis using isScriptHash_Some [OF 2(2)]
      by (simp add: putCompressedScript_def compressedScriptSize_def decodeCompressedScriptSize_def decompressScript_def
          deserializeVLQ_small slice_def)
  next
    case (3 key)
    consider (comp) "length key = 33" "key ! 0 = 2 \<or> key ! 0 = 3" "s = 0x21 # key @ [0xac]"
      | (uncomp) "length key = 65" "key ! 0 = 4" "K key \<noteq> None" "s = 0x41 # key @ [0xac]"
      using isPubKey_Some [OF 3(3)] by blast
    then show ?thesis
    proof cases
      assume a: "length key = 33" "key ! 0 = 2 \<or> key ! 0 = 3" "s = 0x21 # key @ [0xac]"
      then obtain k x where k: "key = k # x" "length x = 32" "k = 2 \<or> k = 3" by (cases key) auto
      then have "uint k = 2 \<or> uint k = 3" "word_of_int (uint k) = k" by auto
      then show ?thesis using a 3 k
        by (auto simp: putCompressedScript_def compressedScriptSize_def decodeCompressedScriptSize_def decompressScript_def
          deserializeVLQ_small slice_def)
    next
      assume a: "length key = 65" "key ! 0 = 4" "K key \<noteq> None" "s = 0x41 # key @ [0xac]"
      define t where "t = (0x04 :: byte) OR (key ! 64 AND 0x01)"
      have "uint t = 4 \<or> uint t = 5" "uint t - 2 = uint ((0x02 :: byte) OR (key ! 64 AND 0x01))"
        using pubKeyType_uint [of "key ! 64"] by (auto simp: t_def)
      then have t: "uint t = 4 \<or> uint t = 5" "word_of_int (uint t - 2) = (0x02 :: byte) OR (key ! 64 AND 0x01)"
        by (simp_all only: word_of_int_uint)
      have "putCompressedScript K s = t # slice 1 33 key" using a 3 by (simp add: putCompressedScript_def t_def)
      moreover have "K (word_of_int (uint t - 2) # slice 1 33 key) = Some key" using assms(1) a t(2) by (auto simp: key_laws_def)
      moreover have "length (slice 1 33 key) = 32" using a by simp
      moreover have "t - 2 = 2 \<and> uint t = 4 \<or> t - 2 = 3 \<and> uint t = 5"
      proof -
        have "t = word_of_int (uint t)" by simp
        then have "uint t = 4 \<longrightarrow> t = 4" "uint t = 5 \<longrightarrow> t = 5" by (simp_all add: word_uint_eq_iff)
        then show ?thesis using t(1) by auto
      qed
      ultimately show ?thesis using a 3
        by (auto simp: compressedScriptSize_def decodeCompressedScriptSize_def decompressScript_def deserializeVLQ_small)
    qed
  next
    case 4
    define n where "n = int (length s) + 6"
    have n: "0 \<le> n" "n < 2 ^ 64" "6 \<le> n" using assms(2) by (simp_all add: n_def)
    have p: "putCompressedScript K s = putVLQ n @ s" using 4 by (simp add: putCompressedScript_def n_def numSpecialScripts_def)
    have d: "deserializeVLQ (putVLQ n @ r) = (n, serializeSizeVLQ n)" for r using n by (intro deserializeVLQ_putVLQ) simp_all
    have "serializeSizeVLQ n \<le> 10" using n by (intro serializeSizeVLQ_le) simp_all
    then have "uint64 (n - 6 + int (serializeSizeVLQ n)) = int (length s) + int (serializeSizeVLQ n)"
      "int64 (int (length s) + int (serializeSizeVLQ n)) = int (length s) + int (serializeSizeVLQ n)"
      "int64 (n - 6) = int (length s)"
      using assms(2) by (simp_all add: uint64_def n_def int64_id)
    then show ?thesis using n 4 d [of "s @ rest"] d [of s]
      by (simp add: p compressedScriptSize_def decodeCompressedScriptSize_def decompressScript_def numSpecialScripts_def slice_def
          flip: n_def)
  qed
  then show "length (putCompressedScript K s) = compressedScriptSize K s"
    "decodeCompressedScriptSize (putCompressedScript K s @ rest) = int (compressedScriptSize K s)"
    "decompressScript K (putCompressedScript K s) = Some s" by simp_all
qed

subsection \<open>Amounts\<close>

lemma stripZeros_spec:
  "0 < a \<Longrightarrow> stripZeros k a = (b, e) \<Longrightarrow>
     0 < b \<and> 0 \<le> e \<and> e \<le> int k \<and> a = b * 10 ^ nat e \<and> (e < int k \<longrightarrow> b mod 10 \<noteq> 0)"
proof (induction k arbitrary: a e)
  case (Suc k)
  show ?case
  proof (cases "a mod 10 = 0")
    case True
    then obtain e' where e': "stripZeros k (a div 10) = (b, e')" "e = e' + 1"
      using Suc.prems by (auto split: prod.splits)
    have a: "a = 10 * (a div 10)" using True by (simp add: mod_eq_0_iff_dvd)
    then have "0 < a div 10" using Suc.prems(1) by linarith
    from Suc.IH [OF this e'(1)] have IH: "0 < b" "0 \<le> e'" "e' \<le> int k" "a div 10 = b * 10 ^ nat e'" "e' < int k \<longrightarrow> b mod 10 \<noteq> 0" by auto
    then have "nat e = Suc (nat e')" using e' by simp
    then have "b * 10 ^ nat e = 10 * (b * 10 ^ nat e')" by simp
    then show ?thesis using IH a e' by auto
  next
    case False
    then show ?thesis using Suc.prems by auto
  qed
qed simp

lemma applyExponent_eq: "0 \<le> n \<Longrightarrow> n * 10 ^ e < 2 ^ 64 \<Longrightarrow> applyExponent e n = n * 10 ^ e"
proof (induction e arbitrary: n)
  case (Suc e)
  have "n * 10 \<le> n * 10 * 10 ^ e" using Suc.prems by (simp add: mult_le_cancel_left1)
  then have "uint64 (n * 10) = n * 10" using Suc.prems by (simp add: uint64_def algebra_simps)
  then show ?case using Suc.IH [of "n * 10"] Suc.prems by (simp add: algebra_simps)
qed simp

lemma decompress_compress_amount:
  assumes "0 \<le> a" "a \<le> 2 ^ 60"
  shows "decompressTxOutAmount (compressTxOutAmount a) = a"
    and "0 \<le> compressTxOutAmount a" and "compressTxOutAmount a < 2 ^ 64"
proof -
  let ?P = "decompressTxOutAmount (compressTxOutAmount a) = a \<and> 0 \<le> compressTxOutAmount a \<and> compressTxOutAmount a < 2 ^ 64"
  have ?P
  proof (cases "a = 0")
    case True
    then show ?thesis by (simp add: compressTxOutAmount_def decompressTxOutAmount_def)
  next
    case False
    then have "0 < a" using assms by simp
    obtain b e where be: "stripZeros 9 a = (b, e)" by (cases "stripZeros 9 a")
    from stripZeros_spec [OF \<open>0 < a\<close> be] have s: "0 < b" "0 \<le> e" "e \<le> 9" "a = b * 10 ^ nat e" "e < 9 \<longrightarrow> b mod 10 \<noteq> 0" by auto
    have "b * 1 \<le> b * 10 ^ nat e" using s by (intro mult_left_mono) simp_all
    then have ba: "b \<le> 2 ^ 60" using assms(2) unfolding s(4) by linarith
    have ex: "applyExponent (nat e) b = a" using applyExponent_eq [of b "nat e"] s assms by simp
    have ub: "uint64 b = b" using s ba by (simp add: uint64_def)
    show ?thesis
    proof (cases "e < 9")
      case True
      define d q where "d = b mod 10" and "q = b div 10"
      have d: "1 \<le> d" "d \<le> 9" using s(5) True pos_mod_sign [of 10 b] pos_mod_bound [of 10 b] by (auto simp: d_def simp del: pos_mod_sign pos_mod_bound)
      have q: "0 \<le> q" "q * 10 + d = b" using s by (simp_all add: q_def d_def)
      have c: "compressTxOutAmount a = 1 + 10 * (9 * q + d - 1) + e"
        using False True q d s(1,2) ba by (simp add: compressTxOutAmount_def be uint64_def flip: d_def q_def)
      define x where "x = 9 * q + (d - 1)"
      have x: "x mod 9 = d - 1" "x div 9 = q" using d by (simp_all add: x_def)
      have "(10 * x + e) mod 10 = e" "(10 * x + e) div 10 = x" using s True by simp_all
      moreover have "compressTxOutAmount a - 1 = 10 * x + e" using c by (simp add: x_def)
      moreover have "compressTxOutAmount a \<noteq> 0" using c q d s by simp
      ultimately have "decompressTxOutAmount (compressTxOutAmount a) = a"
        using True x q ex ub by (simp add: decompressTxOutAmount_def Let_def)
      then show ?thesis using c q d s ba True by simp
    next
      case e9: False
      then have c: "compressTxOutAmount a = 10 + 10 * (b - 1)" and e: "e = 9"
        using False s(1-3) ba by (simp_all add: compressTxOutAmount_def be uint64_def)
      have "(compressTxOutAmount a - 1) mod 10 = 9" "(compressTxOutAmount a - 1) div 10 = b - 1" using c by presburger+
      moreover have "compressTxOutAmount a \<noteq> 0" using c s by simp
      ultimately have "decompressTxOutAmount (compressTxOutAmount a) = a"
        using ex ub e by (simp add: decompressTxOutAmount_def Let_def)
      then show ?thesis using c s ba by simp
    qed
  qed
  then show "decompressTxOutAmount (compressTxOutAmount a) = a" "0 \<le> compressTxOutAmount a" "compressTxOutAmount a < 2 ^ 64" by simp_all
qed

subsection \<open>Outputs\<close>

lemma length_putCompressedTxOut:
  assumes "key_laws K" "int (length s) + 16 < 2 ^ 63"
  shows "length (putCompressedTxOut K a s) = compressedTxOutSize K a s"
  using putCompressedScript_cases(1) [OF assms] by (simp add: putCompressedTxOut_def compressedTxOutSize_def)

lemma decodeCompressedTxOut_put:
  assumes "key_laws K" "int (length s) + 16 < 2 ^ 63" "0 \<le> a" "a \<le> 2 ^ 60"
  shows "decodeCompressedTxOut K (putCompressedTxOut K a s @ rest) = Inr (a, s, compressedTxOutSize K a s)"
proof -
  define c where "c = compressTxOutAmount a"
  have c: "0 \<le> c" "c < 2 ^ 64" "decompressTxOutAmount c = a" using decompress_compress_amount [OF assms(3,4)] by (simp_all add: c_def)
  define z where "z = putCompressedScript K s"
  have z: "length z = compressedScriptSize K s" "decodeCompressedScriptSize (z @ rest) = int (length z)" "decompressScript K z = Some s"
    using putCompressedScript_cases [OF assms(1,2)] by (simp_all add: z_def)
  have "0 < compressedScriptSize K s" by (simp add: compressedScriptSize_def)
  then have "0 < length z" using z(1) by simp
  have "deserializeVLQ (putVLQ c @ z @ rest) = (c, serializeSizeVLQ c)" using c by (intro deserializeVLQ_putVLQ) simp_all
  then show ?thesis using z c \<open>0 < length z\<close>
    by (simp add: decodeCompressedTxOut_def putCompressedTxOut_def compressedTxOutSize_def c_def [symmetric] z_def [symmetric])
qed

section \<open>Properties\<close>

text \<open>
  Variable length quantities: every unsigned 64-bit number is read back from its encoding, whatever follows, after
  exactly the announced number of bytes, so that no encoding is a proper prefix of another.  Comparing encodings byte by
  byte does not compare the numbers, however: 16512 comes before 16511.
\<close>

theorem VLQ_roundtrip:
  assumes "0 \<le> n" "n < 2 ^ 64"
  shows "deserializeVLQ (putVLQ n @ rest) = (n, length (putVLQ n)) \<and> length (putVLQ n) = serializeSizeVLQ n \<and>
    ord_class.lexordp (map uint (putVLQ 16512)) (map uint (putVLQ 16511))"
proof -
  have "putVLQ 16512 = [0x80, 0x80, 0x00]" "putVLQ 16511 = [0xff, 0x7f]"
    by (simp_all add: putVLQ_def vlqLoop.simps)
  then show ?thesis using deserializeVLQ_putVLQ [OF assms] by simp
qed

theorem VLQ_roundtrip_witness: "deserializeVLQ (putVLQ 300 @ [7]) = (300, 2)"
  using VLQ_roundtrip [of 300 "[7]"] by (simp add: serializeSizeVLQ.simps)

end
