(* ===== verification/Wire_Header.thy ===== *)
theory Wire_Header
  imports Wire_Tx
begin

text \<open>
  Block headers and certificates (\<^verbatim>\<open>node/wire/blockheader.go\<close>, \<^verbatim>\<open>certificate.go\<close>,
  \<^verbatim>\<open>certificate_zk.go\<close>).

  A Go \<^verbatim>\<open>time.Time\<close> is the number of nanoseconds since the epoch, \<open>Unix\<close> the seconds.  The
  interface \<^verbatim>\<open>BlockCertificate\<close> has one implementation, so a certificate is an optional
  \<open>ZKCertificate\<close> (\<open>None\<close> is Go's nil).  The decoder reads it through an \<^verbatim>\<open>io.LimitReader\<close>.
\<close>

section \<open>Time\<close>

definition Unix :: "int \<Rightarrow> int" where
  "Unix t = t div 1000000000"

definition unixTime :: "int \<Rightarrow> int" where
  "unixTime s = s * 1000000000"

lemma Unix_unixTime [simp]: "Unix (unixTime s) = s"
  by (simp add: Unix_def unixTime_def)

section \<open>Block headers\<close>

record BlockHeader =
  Version :: "32 word"
  PrevBlock :: hash
  MerkleRoot :: hash
  Timestamp :: int
  Bits :: "32 word"
  ProofCommitment :: hash

definition MaxBlockHeaderPayload :: nat where
  "MaxBlockHeaderPayload = 12 + HashSize * 3"

definition readBlockHeader :: "BlockHeader reader" where
  "readBlockHeader r =
     bindE (readUint32 r) (\<lambda>(version, r).
     bindE (readFull HashSize r) (\<lambda>(prevBlock, r).
     bindE (readFull HashSize r) (\<lambda>(merkleRoot, r).
     bindE (readUint32 r) (\<lambda>(timestamp, r).
     bindE (readUint32 r) (\<lambda>(bits, r).
     bindE (readFull HashSize r) (\<lambda>(commitment, r).
       Inr (\<lparr>Version = version, PrevBlock = prevBlock, MerkleRoot = merkleRoot,
             Timestamp = unixTime (uint timestamp), Bits = bits, ProofCommitment = commitment\<rparr>, r)))))))"

definition writeBlockHeader :: "BlockHeader \<Rightarrow> bytes" where
  "writeBlockHeader bh =
     PutUint32 (Version bh) @ PrevBlock bh @ MerkleRoot bh @
     PutUint32 (word_of_int (Unix (Timestamp bh))) @ PutUint32 (Bits bh) @ ProofCommitment bh"

definition BlockHash :: "BlockHeader \<Rightarrow> hash" where
  "BlockHash h = DoubleHashRaw (writeBlockHeader h)"

text \<open>A header of the wire: 32-byte hashes and a time in whole seconds of the unsigned 32-bit range.\<close>

definition wf_header :: "BlockHeader \<Rightarrow> bool" where
  "wf_header h \<longleftrightarrow> length (PrevBlock h) = HashSize \<and> length (MerkleRoot h) = HashSize \<and>
     length (ProofCommitment h) = HashSize \<and>
     Timestamp h = unixTime (Unix (Timestamp h)) \<and> 0 \<le> Unix (Timestamp h) \<and> Unix (Timestamp h) < 2 ^ 32"

definition auxPowMask :: "32 word" where "auxPowMask = 0x1101"

definition IsAuxPowBlock :: "BlockHeader \<Rightarrow> bool" where
  "IsAuxPowBlock header \<longleftrightarrow> Version header AND auxPowMask = auxPowMask"

section \<open>Certificates\<close>

record ZKCertificate =
  CertHash :: hash
  PublicData :: bytes
  ProofData :: bytes

definition PublicDataSize :: nat where "PublicDataSize = 164"
definition MaxZKProofSize :: int where "MaxZKProofSize = 60000"
definition CertificateMaxSize :: nat where "CertificateMaxSize = 65000"
definition CertificateVersionNull :: "32 word" where "CertificateVersionNull = 0"
definition CertificateVersionZK :: "32 word" where "CertificateVersionZK = 1"

text \<open>\<^verbatim>\<open>uint32(len(x))\<close>\<close>

definition lenU32 :: "'a list \<Rightarrow> 32 word" where
  "lenU32 xs = word_of_int (int (length xs))"

definition ZKCertificate_ProofCommitment :: "ZKCertificate \<Rightarrow> hash" where
  "ZKCertificate_ProofCommitment c = DoubleHashH (PutUint32 CertificateVersionZK @ PublicData c)"

definition ZKCertificate_Serialize :: "ZKCertificate \<Rightarrow> bytes" where
  "ZKCertificate_Serialize c = CertHash c @ PublicData c @ PutUint32 (lenU32 (ProofData c)) @ ProofData c"

definition ZKCertificate_Deserialize :: "ZKCertificate reader" where
  "ZKCertificate_Deserialize r =
     bindE (readFull HashSize r) (\<lambda>(h, r).
     bindE (readFull PublicDataSize r) (\<lambda>(pub, r).
     bindE (readUint32 r) (\<lambda>(proofLen, r).
     if uint proofLen > MaxZKProofSize then Inl PlainError
     else bindE (readFull (unat proofLen) r) (\<lambda>(prf, r).
       Inr (\<lparr>CertHash = h, PublicData = pub, ProofData = prf\<rparr>, r)))))"

definition ZKCertificate_SerializedSize :: "ZKCertificate \<Rightarrow> nat" where
  "ZKCertificate_SerializedSize c = 32 + PublicDataSize + 4 + length (ProofData c)"

definition IsCertVersionAllowed :: "32 word \<Rightarrow> bool" where
  "IsCertVersionAllowed v \<longleftrightarrow> v = CertificateVersionZK"

type_synonym MsgCertificate = "ZKCertificate option"

definition MsgCertificate_SerializeSize :: "MsgCertificate \<Rightarrow> nat" where
  "MsgCertificate_SerializeSize m = (case m of None \<Rightarrow> 4 | Some c \<Rightarrow> 4 + ZKCertificate_SerializedSize c)"

definition MsgCertificate_PrlEncode :: "MsgCertificate \<Rightarrow> wireError + bytes" where
  "MsgCertificate_PrlEncode m = (case m of
     None \<Rightarrow> Inr (PutUint32 CertificateVersionNull)
   | Some c \<Rightarrow>
       if MsgCertificate_SerializeSize m > CertificateMaxSize then Inl PlainError
       else Inr (PutUint32 CertificateVersionZK @ ZKCertificate_Serialize c))"

definition MsgCertificate_PrlDecode :: "MsgCertificate reader" where
  "MsgCertificate_PrlDecode r =
     bindE (readUint32 r) (\<lambda>(version, r).
     if version = CertificateVersionNull then Inr (None, r)
     else if version = CertificateVersionZK then
       bindE (limitReader CertificateMaxSize ZKCertificate_Deserialize r) (\<lambda>(c, r). Inr (Some c, r))
     else Inl PlainError)"

definition wf_cert :: "ZKCertificate \<Rightarrow> bool" where
  "wf_cert c \<longleftrightarrow> length (CertHash c) = HashSize \<and> length (PublicData c) = PublicDataSize \<and>
     int (length (ProofData c)) \<le> MaxZKProofSize"

definition wf_MsgCertificate :: "MsgCertificate \<Rightarrow> bool" where
  "wf_MsgCertificate m \<longleftrightarrow> (case m of None \<Rightarrow> True | Some c \<Rightarrow> wf_cert c)"

section \<open>Codec laws\<close>

lemma uint_lenU32: "int (length xs) < 2 ^ 32 \<Longrightarrow> uint (lenU32 xs) = int (length xs)"
  unfolding lenU32_def uint_word_of_int by simp

lemma unat_lenU32: "int (length xs) < 2 ^ 32 \<Longrightarrow> unat (lenU32 xs) = length xs"
  by (simp add: unat_eq_nat_uint uint_lenU32)

lemma count32_iff:
  "uint count \<le> m \<and> length xs = unat count \<longleftrightarrow> count = lenU32 xs \<and> int (length xs) \<le> m" if "m < 2 ^ 32"
proof
  assume "uint count \<le> m \<and> length xs = unat count"
  then show "count = lenU32 xs \<and> int (length xs) \<le> m" by (simp add: lenU32_def)
next
  assume "count = lenU32 xs \<and> int (length xs) \<le> m"
  with that show "uint count \<le> m \<and> length xs = unat count" by (simp add: uint_lenU32 unat_lenU32)
qed

lemma readBlockHeader_iff [reader_iff]:
  "readBlockHeader r = Inr (h, r') \<longleftrightarrow> wf_header h \<and> r = writeBlockHeader h @ r'"
    (is "_ \<longleftrightarrow> ?enc")
proof
  assume "readBlockHeader r = Inr (h, r')"
  then show ?enc
    using uint_bounds(3)
    by (auto simp: readBlockHeader_def writeBlockHeader_def wf_header_def reader_iff)
next
  assume ?enc
  then show "readBlockHeader r = Inr (h, r')"
    by (simp add: readBlockHeader_def writeBlockHeader_def wf_header_def uint_word_of_int)
qed

lemma MaxZKProofSize_bound: "MaxZKProofSize < 2 ^ 32"
  by (simp add: MaxZKProofSize_def)

lemma ZKCertificate_Deserialize_iff [reader_iff]:
  "ZKCertificate_Deserialize r = Inr (c, r') \<longleftrightarrow> wf_cert c \<and> r = ZKCertificate_Serialize c @ r'"
    (is "_ \<longleftrightarrow> ?enc")
proof
  assume "ZKCertificate_Deserialize r = Inr (c, r')"
  then obtain proofLen where "uint proofLen \<le> MaxZKProofSize" "length (ProofData c) = unat proofLen"
      "length (CertHash c) = HashSize" "length (PublicData c) = PublicDataSize"
      "r = CertHash c @ PublicData c @ PutUint32 proofLen @ ProofData c @ r'"
    by (auto simp: ZKCertificate_Deserialize_def reader_iff not_less split: if_splits)
  with count32_iff [OF MaxZKProofSize_bound, of proofLen "ProofData c"] show ?enc
    by (simp add: wf_cert_def ZKCertificate_Serialize_def)
next
  assume ?enc
  with count32_iff [OF MaxZKProofSize_bound, of "lenU32 (ProofData c)" "ProofData c"]
  show "ZKCertificate_Deserialize r = Inr (c, r')"
    by (simp add: ZKCertificate_Deserialize_def wf_cert_def ZKCertificate_Serialize_def)
qed

lemma length_ZKCertificate_Serialize [size_simps]:
  "wf_cert c \<Longrightarrow> length (ZKCertificate_Serialize c) = ZKCertificate_SerializedSize c"
  by (simp add: ZKCertificate_Serialize_def ZKCertificate_SerializedSize_def wf_cert_def HashSize_def)

lemma cert_fits: "wf_cert c \<Longrightarrow> 4 + ZKCertificate_SerializedSize c \<le> CertificateMaxSize"
  by (simp add: wf_cert_def ZKCertificate_SerializedSize_def CertificateMaxSize_def PublicDataSize_def
      MaxZKProofSize_def)

text \<open>A well-formed certificate is never refused by the size check of the encoder.\<close>

lemma MsgCertificate_PrlEncode_wf:
  "wf_MsgCertificate m \<Longrightarrow> MsgCertificate_PrlEncode m = Inr (case m of
     None \<Rightarrow> PutUint32 CertificateVersionNull
   | Some c \<Rightarrow> PutUint32 CertificateVersionZK @ ZKCertificate_Serialize c)"
  by (cases m) (auto simp: MsgCertificate_PrlEncode_def wf_MsgCertificate_def
      MsgCertificate_SerializeSize_def not_less dest: cert_fits)

abbreviation certBytes :: "MsgCertificate \<Rightarrow> bytes" where
  "certBytes m \<equiv> projr (MsgCertificate_PrlEncode m)"

interpretation zkcert_codec: codec ZKCertificate_Serialize ZKCertificate_Deserialize wf_cert
  by unfold_locales (rule ZKCertificate_Deserialize_iff)

lemma limited_cert_iff [reader_iff]:
  "limitReader CertificateMaxSize ZKCertificate_Deserialize r = Inr (c, r') \<longleftrightarrow>
     wf_cert c \<and> r = ZKCertificate_Serialize c @ r'"
proof (rule zkcert_codec.limitReader_iff)
  assume "wf_cert c"
  then show "length (ZKCertificate_Serialize c) \<le> CertificateMaxSize"
    using cert_fits [of c] length_ZKCertificate_Serialize [of c] by simp
qed

lemma MsgCertificate_PrlDecode_iff [reader_iff]:
  "MsgCertificate_PrlDecode r = Inr (m, r') \<longleftrightarrow> wf_MsgCertificate m \<and> r = certBytes m @ r'"
proof
  assume "MsgCertificate_PrlDecode r = Inr (m, r')"
  then show "wf_MsgCertificate m \<and> r = certBytes m @ r'"
    by (auto simp: MsgCertificate_PrlDecode_def MsgCertificate_PrlEncode_wf wf_MsgCertificate_def
        readUint_iff limited_cert_iff split: if_splits)
next
  assume "wf_MsgCertificate m \<and> r = certBytes m @ r'"
  then have m: "wf_MsgCertificate m" and r: "r = certBytes m @ r'" by simp_all
  show "MsgCertificate_PrlDecode r = Inr (m, r')"
    unfolding r using m
    by (cases m) (simp_all add: MsgCertificate_PrlDecode_def MsgCertificate_PrlEncode_wf wf_MsgCertificate_def
        limited_cert_iff CertificateVersionNull_def CertificateVersionZK_def)
qed

interpretation header_codec: codec writeBlockHeader readBlockHeader wf_header
  by unfold_locales (rule readBlockHeader_iff)

interpretation cert_codec: codec certBytes MsgCertificate_PrlDecode wf_MsgCertificate
  by unfold_locales (rule MsgCertificate_PrlDecode_iff)

lemma length_writeBlockHeader:
  "wf_header h \<Longrightarrow> length (writeBlockHeader h) = MaxBlockHeaderPayload"
  by (simp add: writeBlockHeader_def wf_header_def MaxBlockHeaderPayload_def)

end
