(* ===== verification/Wire_AuxPow.thy ===== *)
theory Wire_AuxPow
  imports Wire_Header
begin

text \<open>
  Merged-mining data (\<^verbatim>\<open>node/wire/auxpow.go\<close>): the wire format of \<open>AuxPowData\<close>, the commitment of
  the modelOS header to it, the coinbase Merkle branch, and the search for the commitment marker in the
  parent's coinbase script.

  BLAKE3 is the third-party package \<^verbatim>\<open>github.com/zeebo/blake3\<close>; it is the parameter \<open>blake3\<close> of the
  definitions that use it.
\<close>

section \<open>Data\<close>

record AuxPowMerkleNode =
  NodeHash :: hash
  IsLeft :: bool

record AuxPowData =
  PearlHeader :: bytes
  ModelOSStateHash :: hash
  PearlHeight :: "32 word"
  PearlPublicData :: bytes
  PearlProofData :: bytes
  PearlCoinbaseTx :: bytes
  CoinbaseBranch :: "AuxPowMerkleNode list"

definition PearlHeaderSize :: nat where "PearlHeaderSize = 108"
definition pearlHdrMerkleRootOffset :: nat where "pearlHdrMerkleRootOffset = 36"
definition pearlHdrBitsOffset :: nat where "pearlHdrBitsOffset = 72"
definition AuxPowMagic :: bytes where "AuxPowMagic = [0x4d, 0x44, 0x4c, 0x2a]"
definition MaxCoinbaseBranchDepth :: nat where "MaxCoinbaseBranchDepth = 32"
definition maxPearlHeight :: int where "maxPearlHeight = 1000000000"
definition maxCoinbaseTxLen :: int where "maxCoinbaseTxLen = 1000000"

definition PearlMerkleRoot :: "AuxPowData \<Rightarrow> hash" where
  "PearlMerkleRoot a = slice pearlHdrMerkleRootOffset (pearlHdrMerkleRootOffset + 32) (PearlHeader a)"

definition headerBits :: "bytes \<Rightarrow> 32 word" where
  "headerBits header = Uint32 (slice pearlHdrBitsOffset (pearlHdrBitsOffset + 4) header)"

definition PearlHeaderBits :: "AuxPowData \<Rightarrow> 32 word" where
  "PearlHeaderBits a = headerBits (PearlHeader a)"

definition PearlBlockHash :: "(bytes \<Rightarrow> hash) \<Rightarrow> AuxPowData \<Rightarrow> hash" where
  "PearlBlockHash blake3 a = blake3 (PearlHeader a)"

section \<open>Wire format\<close>

definition AuxPow_SerialiseSize :: "AuxPowData \<Rightarrow> nat" where
  "AuxPow_SerialiseSize a = PearlHeaderSize + 32 + 4 + PublicDataSize + 4 + length (PearlProofData a) +
     4 + length (PearlCoinbaseTx a) + 1 + length (CoinbaseBranch a) * 33"

definition writeMerkleNode :: "AuxPowMerkleNode \<Rightarrow> bytes" where
  "writeMerkleNode node = NodeHash node @ [if IsLeft node then 1 else 0]"

definition AuxPow_Serialise :: "AuxPowData \<Rightarrow> bytes" where
  "AuxPow_Serialise a =
     PearlHeader a @ ModelOSStateHash a @ PutUint32 (PearlHeight a) @ PearlPublicData a @
     PutUint32 (lenU32 (PearlProofData a)) @ PearlProofData a @
     PutUint32 (lenU32 (PearlCoinbaseTx a)) @ PearlCoinbaseTx a @
     [word_of_int (int (length (CoinbaseBranch a)))] @ concat (map writeMerkleNode (CoinbaseBranch a))"

definition readMerkleNode :: "AuxPowMerkleNode reader" where
  "readMerkleNode r =
     bindE (readFull 33 r) (\<lambda>(nodeBuf, r).
       Inr (\<lparr>NodeHash = slice 0 32 nodeBuf, IsLeft = nodeBuf ! 32 \<noteq> 0\<rparr>, r))"

definition AuxPow_Deserialise :: "AuxPowData reader" where
  "AuxPow_Deserialise r =
     bindE (readFull PearlHeaderSize r) (\<lambda>(header, r). let bits = headerBits header in
     if bits = 0 then Inl PlainError
     else if bits AND 0x00800000 \<noteq> 0 then Inl PlainError
     else bindE (readFull HashSize r) (\<lambda>(stateHash, r).
     bindE (readUint32 r) (\<lambda>(height, r).
     if sint height \<le> 0 then Inl PlainError
     else if sint height > maxPearlHeight then Inl PlainError
     else bindE (readFull PublicDataSize r) (\<lambda>(pub, r).
     bindE (readUint32 r) (\<lambda>(proofLen, r).
     if proofLen = 0 then Inl PlainError
     else if uint proofLen > MaxZKProofSize then Inl PlainError
     else bindE (readFull (unat proofLen) r) (\<lambda>(proofData, r).
     bindE (readUint32 r) (\<lambda>(cbLen, r).
     if uint cbLen > maxCoinbaseTxLen then Inl PlainError
     else bindE (readFull (unat cbLen) r) (\<lambda>(coinbaseTx, r).
     bindE (readFull 1 r) (\<lambda>(branchLenBuf, r). let branchLen = unat (branchLenBuf ! 0) in
     if branchLen > MaxCoinbaseBranchDepth then Inl PlainError
     else bindE (readList readMerkleNode branchLen r) (\<lambda>((branch, _), r).
       Inr (\<lparr>PearlHeader = header, ModelOSStateHash = stateHash, PearlHeight = height,
             PearlPublicData = pub, PearlProofData = proofData, PearlCoinbaseTx = coinbaseTx,
             CoinbaseBranch = branch\<rparr>, r)))))))))))"

definition AuxPowProofCommitment :: "(bytes \<Rightarrow> hash) \<Rightarrow> AuxPowData \<Rightarrow> 32 word \<Rightarrow> hash" where
  "AuxPowProofCommitment blake3 auxPow network =
     blake3 (PutUint32 network @ [0, 0, 0, 0] @ AuxPow_Serialise auxPow)"

section \<open>The coinbase branch and the commitment marker\<close>

definition VerifyCoinbaseMerkleRoot :: "AuxPowData \<Rightarrow> hash \<Rightarrow> hash" where
  "VerifyCoinbaseMerkleRoot auxPow coinbaseTxid =
     foldl (\<lambda>current node. if IsLeft node then DoubleHashH (NodeHash node @ current)
                           else DoubleHashH (current @ NodeHash node)) coinbaseTxid (CoinbaseBranch auxPow)"

text \<open>
  The loop of \<open>ContainsModelosCommitment\<close> from offset \<open>i\<close>: \<open>found\<close> and \<open>magicCount\<close> are its variables, and
  the argument is what is left of the script.
\<close>

fun commitmentLoop :: "hash \<Rightarrow> int \<Rightarrow> nat \<Rightarrow> int \<Rightarrow> bytes \<Rightarrow> int" where
  "commitmentLoop sigma found magicCount i [] = found"
| "commitmentLoop sigma found magicCount i (b # rest) =
     (if length rest < 3 then found
      else if take 4 (b # rest) = AuxPowMagic then
        (let magicCount = magicCount + 1 in
         if magicCount > 1 then -1
         else if 36 \<le> length (b # rest) \<and> slice 4 36 (b # rest) = sigma
         then commitmentLoop sigma i magicCount (i + 1) rest
         else commitmentLoop sigma found magicCount (i + 1) rest)
      else commitmentLoop sigma found magicCount (i + 1) rest)"

definition ContainsModelosCommitment :: "bytes \<Rightarrow> hash \<Rightarrow> int" where
  "ContainsModelosCommitment scriptSig sigmaModelos = commitmentLoop sigmaModelos (-1) 0 0 scriptSig"

section \<open>The wire format\<close>

definition wf_AuxPow :: "AuxPowData \<Rightarrow> bool" where
  "wf_AuxPow a \<longleftrightarrow>
     length (PearlHeader a) = PearlHeaderSize \<and> PearlHeaderBits a \<noteq> 0 \<and> PearlHeaderBits a AND 0x00800000 = 0 \<and>
     length (ModelOSStateHash a) = HashSize \<and> 0 < sint (PearlHeight a) \<and> sint (PearlHeight a) \<le> maxPearlHeight \<and>
     length (PearlPublicData a) = PublicDataSize \<and>
     PearlProofData a \<noteq> [] \<and> int (length (PearlProofData a)) \<le> MaxZKProofSize \<and>
     int (length (PearlCoinbaseTx a)) \<le> maxCoinbaseTxLen \<and>
     length (CoinbaseBranch a) \<le> MaxCoinbaseBranchDepth \<and>
     (\<forall>node\<in>set (CoinbaseBranch a). length (NodeHash node) = 32)"

text \<open>
  The decoder takes any non-zero byte for a set \<open>IsLeft\<close> flag.  \<open>AuxPow_bytes a flags\<close> is the encoding of \<open>a\<close>
  with the given flag bytes; \<open>Serialise\<close> writes the flags 0 and 1.
\<close>

definition AuxPow_bytes :: "AuxPowData \<Rightarrow> bytes \<Rightarrow> bytes" where
  "AuxPow_bytes a flags =
     PearlHeader a @ ModelOSStateHash a @ PutUint32 (PearlHeight a) @ PearlPublicData a @
     PutUint32 (lenU32 (PearlProofData a)) @ PearlProofData a @
     PutUint32 (lenU32 (PearlCoinbaseTx a)) @ PearlCoinbaseTx a @
     [word_of_int (int (length (CoinbaseBranch a)))] @
     concat (map2 (\<lambda>node flag. NodeHash node @ [flag]) (CoinbaseBranch a) flags)"

definition flags_of :: "AuxPowMerkleNode list \<Rightarrow> bytes \<Rightarrow> bool" where
  "flags_of branch flags \<longleftrightarrow> list_all2 (\<lambda>node flag. IsLeft node \<longleftrightarrow> flag \<noteq> 0) branch flags"

lemma AuxPow_Serialise_bytes:
  "AuxPow_Serialise a = AuxPow_bytes a (map (\<lambda>node. if IsLeft node then 1 else 0) (CoinbaseBranch a))"
proof -
  have "concat (map writeMerkleNode ns) =
      concat (map2 (\<lambda>node flag. NodeHash node @ [flag]) ns (map (\<lambda>node. if IsLeft node then 1 else 0) ns))" for ns
    by (induction ns) (simp_all add: writeMerkleNode_def)
  then show ?thesis by (simp add: AuxPow_Serialise_def AuxPow_bytes_def)
qed

lemma flags_of_canonical: "flags_of ns (map (\<lambda>node. if IsLeft node then 1 else 0) ns)"
  by (auto simp: flags_of_def list_all2_conv_all_nth)

lemma readMerkleNode_iff:
  "readMerkleNode r = Inr (node, r') \<longleftrightarrow>
     (\<exists>flag. r = NodeHash node @ [flag] @ r' \<and> length (NodeHash node) = 32 \<and> (IsLeft node \<longleftrightarrow> flag \<noteq> 0))"
proof
  assume "readMerkleNode r = Inr (node, r')"
  then obtain buf where "r = buf @ r'" "length buf = 33" "node = \<lparr>NodeHash = slice 0 32 buf, IsLeft = buf ! 32 \<noteq> 0\<rparr>"
    by (auto simp: readMerkleNode_def readFull_iff)
  moreover have "buf = slice 0 32 buf @ [buf ! 32]" if "length buf = 33"
    using that take_Suc_conv_app_nth [of 32 buf] by (simp add: slice_def)
  ultimately show "\<exists>flag. r = NodeHash node @ [flag] @ r' \<and> length (NodeHash node) = 32 \<and> (IsLeft node \<longleftrightarrow> flag \<noteq> 0)"
    by (intro exI [of _ "buf ! 32"]) (auto simp: slice_def)
next
  assume "\<exists>flag. r = NodeHash node @ [flag] @ r' \<and> length (NodeHash node) = 32 \<and> (IsLeft node \<longleftrightarrow> flag \<noteq> 0)"
  then show "readMerkleNode r = Inr (node, r')"
    by (cases node) (auto simp: readMerkleNode_def readFull_def slice_def nth_append)
qed

abbreviation branchBytes :: "AuxPowMerkleNode list \<Rightarrow> bytes \<Rightarrow> bytes" where
  "branchBytes branch flags \<equiv> concat (map2 (\<lambda>node flag. NodeHash node @ [flag]) branch flags)"

lemma readBranch_run:
  assumes "flags_of branch flags" "\<forall>node\<in>set branch. length (NodeHash node) = 32"
  shows "readList readMerkleNode (length branch) (branchBytes branch flags @ r) = Inr ((branch, 0), r)"
  using assms unfolding flags_of_def
proof (induction branch flags rule: list_all2_induct)
  case Nil
  show ?case by simp
next
  case (Cons node ns flag flags)
  then have "readMerkleNode (NodeHash node @ [flag] @ x) = Inr (node, x)" for x
    unfolding readMerkleNode_iff by (intro exI [of _ flag]) simp
  with Cons show ?case by simp
qed

lemma readBranch_sound:
  assumes "readList readMerkleNode n r = Inr ((branch, c), r')"
  shows "length branch = n \<and> (\<forall>node\<in>set branch. length (NodeHash node) = 32) \<and>
    (\<exists>flags. flags_of branch flags \<and> r = branchBytes branch flags @ r')"
  using assms
proof (induction n arbitrary: r branch)
  case 0
  then show ?case by (simp add: flags_of_def)
next
  case (Suc n)
  then obtain node b ns where read: "readMerkleNode r = Inr (node, b)"
    "readList readMerkleNode n b = Inr ((ns, c), r')" "branch = node # ns"
    by auto
  from read(1) obtain flag where flag: "r = NodeHash node @ [flag] @ b" "length (NodeHash node) = 32"
    "IsLeft node \<longleftrightarrow> flag \<noteq> 0" unfolding readMerkleNode_iff by blast
  from Suc.IH [OF read(2)] obtain fs where fs: "flags_of ns fs" "b = branchBytes ns fs @ r'" "length ns = n"
    "\<forall>node\<in>set ns. length (NodeHash node) = 32" by blast
  show ?case
    using flag fs read(3) by (intro conjI exI [of _ "flag # fs"]) (simp_all add: flags_of_def)
qed

lemma AuxPow_Deserialise_sound:
  assumes "AuxPow_Deserialise r = Inr (a, r')"
  shows "wf_AuxPow a \<and> (\<exists>flags. flags_of (CoinbaseBranch a) flags \<and> r = AuxPow_bytes a flags @ r')"
proof -
  from assms obtain proofLen cbLen lenBuf c r1 where
    a: "length (PearlHeader a) = PearlHeaderSize" "PearlHeaderBits a \<noteq> 0" "PearlHeaderBits a AND 0x00800000 = 0"
      "length (ModelOSStateHash a) = HashSize" "0 < sint (PearlHeight a)" "sint (PearlHeight a) \<le> maxPearlHeight"
      "length (PearlPublicData a) = PublicDataSize"
      "proofLen \<noteq> 0" "uint proofLen \<le> MaxZKProofSize" "length (PearlProofData a) = unat proofLen"
      "uint cbLen \<le> maxCoinbaseTxLen" "length (PearlCoinbaseTx a) = unat cbLen"
      "length lenBuf = 1" "unat (lenBuf ! 0) \<le> MaxCoinbaseBranchDepth"
    and branch: "readList readMerkleNode (unat (lenBuf ! 0)) r1 = Inr ((CoinbaseBranch a, c), r')"
    and r: "r = PearlHeader a @ ModelOSStateHash a @ PutUint32 (PearlHeight a) @ PearlPublicData a @
      PutUint32 proofLen @ PearlProofData a @ PutUint32 cbLen @ PearlCoinbaseTx a @ lenBuf @ r1"
    by (auto simp: AuxPow_Deserialise_def PearlHeaderBits_def readFull_iff readUint_iff Let_def not_less not_le
        simp del: readN.simps split: if_splits)
  have "proofLen = lenU32 (PearlProofData a) \<and> int (length (PearlProofData a)) \<le> MaxZKProofSize"
    using count32_iff [OF MaxZKProofSize_bound, of proofLen "PearlProofData a"] a(9,10) by simp
  moreover have "cbLen = lenU32 (PearlCoinbaseTx a) \<and> int (length (PearlCoinbaseTx a)) \<le> maxCoinbaseTxLen"
    using count32_iff [of maxCoinbaseTxLen cbLen "PearlCoinbaseTx a"] a(11,12) by (simp add: maxCoinbaseTxLen_def)
  moreover have "PearlProofData a \<noteq> []" using a(8,10) by (auto simp: unat_eq_zero)
  moreover obtain b where b: "lenBuf = [b]" using a(13) by (auto simp: length_Suc_conv)
  moreover note branch' = readBranch_sound [OF branch]
  moreover have "b = word_of_int (int (length (CoinbaseBranch a)))"
    using branch' b by simp
  ultimately show ?thesis
    using a r by (auto simp: wf_AuxPow_def AuxPow_bytes_def)
qed

lemma AuxPow_Deserialise_run:
  assumes "wf_AuxPow a" "flags_of (CoinbaseBranch a) flags"
  shows "AuxPow_Deserialise (AuxPow_bytes a flags @ r) = Inr (a, r)"
proof -
  have "uint (lenU32 (PearlProofData a)) \<le> MaxZKProofSize \<and> unat (lenU32 (PearlProofData a)) = length (PearlProofData a)"
    using assms(1) count32_iff [OF MaxZKProofSize_bound, of "lenU32 (PearlProofData a)" "PearlProofData a"]
    by (simp add: wf_AuxPow_def)
  moreover from this have "lenU32 (PearlProofData a) \<noteq> 0"
    using assms(1) by (auto simp: wf_AuxPow_def unat_eq_zero)
  moreover have "uint (lenU32 (PearlCoinbaseTx a)) \<le> maxCoinbaseTxLen \<and>
      unat (lenU32 (PearlCoinbaseTx a)) = length (PearlCoinbaseTx a)"
    using assms(1) count32_iff [of maxCoinbaseTxLen "lenU32 (PearlCoinbaseTx a)" "PearlCoinbaseTx a"]
    by (simp add: wf_AuxPow_def maxCoinbaseTxLen_def)
  moreover have "unat (word_of_int (int (length (CoinbaseBranch a))) :: byte) = length (CoinbaseBranch a)"
    using assms(1) by (simp add: wf_AuxPow_def MaxCoinbaseBranchDepth_def unat_eq_nat_uint uint_word_of_int
        del: of_int_of_nat_eq)
  moreover have "readFull (Suc 0) (b # s) = Inr ([b], s)" for b :: byte and s
    by (simp add: readFull_def)
  moreover have "readList readMerkleNode (length (CoinbaseBranch a)) (branchBytes (CoinbaseBranch a) flags @ r)
      = Inr ((CoinbaseBranch a, 0), r)"
    using assms by (intro readBranch_run) (simp_all add: wf_AuxPow_def)
  ultimately show ?thesis
    using assms(1)
    by (simp add: AuxPow_Deserialise_def AuxPow_bytes_def wf_AuxPow_def PearlHeaderBits_def Let_def not_less not_le
        del: readN.simps of_int_of_nat_eq)
qed

lemma length_AuxPow_Serialise:
  assumes "wf_AuxPow a"
  shows "length (AuxPow_Serialise a) = AuxPow_SerialiseSize a"
proof -
  have "length (concat (map writeMerkleNode ns)) = length ns * 33"
    if "\<forall>node\<in>set ns. length (NodeHash node) = 32" for ns
    using that by (induction ns) (simp_all add: writeMerkleNode_def)
  with assms show ?thesis
    by (simp add: AuxPow_Serialise_def AuxPow_SerialiseSize_def wf_AuxPow_def HashSize_def)
qed

section \<open>The commitment marker\<close>

text \<open>The offsets at which the marker occurs.\<close>

definition magicOffsets :: "bytes \<Rightarrow> nat list" where
  "magicOffsets s = filter (\<lambda>j. take 4 (drop j s) = AuxPowMagic) [0..<length s]"

lemma magicOffsets_Nil [simp]: "magicOffsets [] = []"
  by (simp add: magicOffsets_def)

lemma magicOffsets_Cons:
  "magicOffsets (b # s) = (if take 4 (b # s) = AuxPowMagic then [0] else []) @ map Suc (magicOffsets s)"
proof -
  have "[0..<length (b # s)] = 0 # map Suc [0..<length s]"
    by (simp only: length_Cons upt_conv_Cons [OF zero_less_Suc] map_Suc_upt)
  then show ?thesis
    by (simp add: magicOffsets_def filter_map comp_def)
qed

lemma magicOffsets_short: "length s < 4 \<Longrightarrow> magicOffsets s = []"
  by (auto simp: magicOffsets_def AuxPowMagic_def filter_empty_conv dest: arg_cong [of _ _ length])

definition committedAt :: "hash \<Rightarrow> bytes \<Rightarrow> nat \<Rightarrow> bool" where
  "committedAt sigma s j \<longleftrightarrow> slice (j + 4) (j + 36) s = sigma"

lemma commitmentLoop_eq:
  assumes "length sigma = 32"
  shows "commitmentLoop sigma found n i s =
    (if magicOffsets s = [] then found
     else if n = 0 \<and> length (magicOffsets s) = 1
     then (if committedAt sigma s (hd (magicOffsets s)) then i + int (hd (magicOffsets s)) else found)
     else -1)"
proof (induction s arbitrary: found n i)
  case Nil
  then show ?case by simp
next
  case (Cons b rest)
  have first: "36 \<le> length (b # rest) \<and> slice 4 36 (b # rest) = sigma \<longleftrightarrow> committedAt sigma (b # rest) 0"
    using assms by (auto simp: committedAt_def slice_def)
  have later: "committedAt sigma (b # rest) (Suc j) \<longleftrightarrow> committedAt sigma rest j" for j
    by (simp only: committedAt_def slice_def add_Suc drop_Suc_Cons diff_Suc_Suc)
  show ?case
  proof (cases "length rest < 3")
    case True
    then show ?thesis by (simp add: magicOffsets_short)
  next
    case long: False
    show ?thesis
    proof (cases "take 4 (b # rest) = AuxPowMagic")
      case True
      then have off: "magicOffsets (b # rest) = 0 # map Suc (magicOffsets rest)"
        by (simp add: magicOffsets_Cons)
      show ?thesis
        using True long Cons.IH first
        by (simp only: commitmentLoop.simps off first Let_def if_False if_True refl list.sel) auto
    next
      case False
      then have off: "magicOffsets (b # rest) = map Suc (magicOffsets rest)"
        by (simp add: magicOffsets_Cons)
      have "magicOffsets rest \<noteq> [] \<Longrightarrow> hd (map Suc (magicOffsets rest)) = Suc (hd (magicOffsets rest))"
        by (simp add: hd_map)
      then show ?thesis
        using False long Cons.IH
        by (simp only: commitmentLoop.simps off if_False if_True map_is_Nil_conv length_map) (simp add: later)
    qed
  qed
qed

section \<open>Properties\<close>

text \<open>
  Merged-mining data round-trips, and the decoder accepts exactly the encodings of well-formed data up to
  the flag bytes of the Merkle branch, for which every non-zero byte counts as set.  So a block with a branch
  node on the left has 255 byte strings that decode to it.
\<close>

theorem AuxPow_Deserialise_accepts:
  "AuxPow_Deserialise bs = Inr (a, r) \<longleftrightarrow>
     wf_AuxPow a \<and> (\<exists>flags. flags_of (CoinbaseBranch a) flags \<and> bs = AuxPow_bytes a flags @ r)"
  using AuxPow_Deserialise_sound AuxPow_Deserialise_run by blast

text \<open>
  The search for the merged-mining commitment finds it exactly when the marker occurs once in the script and
  the 32 bytes after that occurrence are the expected hash; it then returns the offset of the marker, and -1 in
  every other case, so a script with two markers never commits to anything.
\<close>

theorem ContainsModelosCommitment_spec:
  assumes "length sigma = 32"
  shows "ContainsModelosCommitment scriptSig sigma =
    (case magicOffsets scriptSig of
       [j] \<Rightarrow> if slice (j + 4) (j + 36) scriptSig = sigma then int j else -1
     | _ \<Rightarrow> -1)"
  using commitmentLoop_eq [OF assms, of "-1" 0 0 scriptSig]
  by (auto simp: ContainsModelosCommitment_def committedAt_def split: list.split)

theorem ContainsModelosCommitment_spec_witness:
  "ContainsModelosCommitment ([7] @ AuxPowMagic @ replicate 32 9 @ [8]) (replicate 32 9) = 1"
proof -
  have "magicOffsets ([7] @ AuxPowMagic @ replicate 32 9 @ [8]) = [1]"
    "slice (1 + 4) (1 + 36) ([7] @ AuxPowMagic @ replicate 32 9 @ [8]) = replicate 32 9"
    by code_simp+
  then show ?thesis
    by (subst ContainsModelosCommitment_spec) simp_all
qed

end
