(* ===== verification/Wire_Block.thy ===== *)
theory Wire_Block
  imports Wire_AuxPow
begin

text \<open>
  Header and block messages (\<^verbatim>\<open>node/wire/msgheaders.go\<close>, \<^verbatim>\<open>node/wire/msgblock.go\<close>): a header with its
  certificate, the batch of headers a peer sends, and the block with its merged-mining data and transactions.
  The lemmas give the codec laws and the sizes.
\<close>

section \<open>Headers with certificates\<close>

record MsgHeader =
  Certificate :: MsgCertificate
  Header :: BlockHeader

definition MsgHeader_PrlDecode :: "MsgHeader reader" where
  "MsgHeader_PrlDecode r =
     bindE (MsgCertificate_PrlDecode r) (\<lambda>(cert, r).
     bindE (readBlockHeader r) (\<lambda>(h, r). Inr (\<lparr>Certificate = cert, Header = h\<rparr>, r)))"

definition MsgHeader_PrlEncode :: "MsgHeader \<Rightarrow> wireError + bytes" where
  "MsgHeader_PrlEncode mh =
     bindE (MsgCertificate_PrlEncode (Certificate mh)) (\<lambda>c. Inr (c @ writeBlockHeader (Header mh)))"

definition MsgHeader_SerializeSize :: "MsgHeader \<Rightarrow> nat" where
  "MsgHeader_SerializeSize mh = MaxBlockHeaderPayload + MsgCertificate_SerializeSize (Certificate mh)"

section \<open>Header batches\<close>

definition MaxBlockHeadersPerMsg :: int where "MaxBlockHeadersPerMsg = 100"

definition HasInconsistentCertificates :: "MsgHeader list \<Rightarrow> bool" where
  "HasInconsistentCertificates headers \<longleftrightarrow>
     list_ex (\<lambda>h. \<not> IsAuxPowBlock (Header h) \<and> Certificate h = None) headers"

definition AddBlockHeader :: "MsgHeader list \<Rightarrow> BlockHeader \<Rightarrow> MsgCertificate \<Rightarrow> wireError + MsgHeader list" where
  "AddBlockHeader headers bh cert =
     (if int (length headers) + 1 > MaxBlockHeadersPerMsg then Inl MessageError
      else Inr (headers @ [\<lparr>Certificate = cert, Header = bh\<rparr>]))"

definition MsgHeaders_PrlDecode :: "MsgHeader list reader" where
  "MsgHeaders_PrlDecode r =
     bindE (ReadVarInt r) (\<lambda>(count, r).
     bindE (readMany MaxBlockHeadersPerMsg (\<lambda>_. MsgHeader_PrlDecode) (\<lambda>_. 0) count 0 r) (\<lambda>((headers, _), r).
     if HasInconsistentCertificates headers then Inl MessageError else Inr (headers, r)))"

fun concatE :: "('a \<Rightarrow> 'e + bytes) \<Rightarrow> 'a list \<Rightarrow> 'e + bytes" where
  "concatE f [] = Inr []"
| "concatE f (x # xs) = bindE (f x) (\<lambda>b. bindE (concatE f xs) (\<lambda>bs. Inr (b @ bs)))"

definition MsgHeaders_PrlEncode :: "MsgHeader list \<Rightarrow> wireError + bytes" where
  "MsgHeaders_PrlEncode headers =
     (if int (length headers) > MaxBlockHeadersPerMsg then Inl MessageError
      else bindE (concatE MsgHeader_PrlEncode headers) (\<lambda>bs. Inr (WriteVarInt (lenU64 headers) @ bs)))"

section \<open>Blocks\<close>

record MsgBlock =
  BlockMsgHeader :: MsgHeader
  AuxPow :: "AuxPowData option"
  Transactions :: "MsgTx list"

definition MaxBlockPayload :: int where "MaxBlockPayload = 4000000"
definition minTxPayload :: int where "minTxPayload = 10"
definition maxTxPerBlock :: int where "maxTxPerBlock = MaxBlockPayload div minTxPayload + 1"

definition MsgBlock_BlockHeader :: "MsgBlock \<Rightarrow> BlockHeader" where
  "MsgBlock_BlockHeader msg = Header (BlockMsgHeader msg)"

definition MsgBlock_PrlDecode :: "MessageEncoding \<Rightarrow> MsgBlock reader" where
  "MsgBlock_PrlDecode enc r =
     bindE (MsgHeader_PrlDecode r) (\<lambda>(mh, r).
     bindE (if IsAuxPowBlock (Header mh)
            then (case AuxPow_Deserialise r of Inl err \<Rightarrow> Inl MessageError | Inr (a, r) \<Rightarrow> Inr (Some a, r))
            else Inr (None, r)) (\<lambda>(aux, r).
     bindE (ReadVarInt r) (\<lambda>(txCount, r).
     bindE (readMany maxTxPerBlock (\<lambda>_. PrlDecode enc) (\<lambda>_. 0) txCount 0 r) (\<lambda>((txs, _), r).
       Inr (\<lparr>BlockMsgHeader = mh, AuxPow = aux, Transactions = txs\<rparr>, r)))))"

definition MsgBlock_PrlEncode :: "MessageEncoding \<Rightarrow> MsgBlock \<Rightarrow> wireError + bytes" where
  "MsgBlock_PrlEncode enc msg =
     bindE (MsgHeader_PrlEncode (BlockMsgHeader msg)) (\<lambda>h.
     bindE (if IsAuxPowBlock (MsgBlock_BlockHeader msg)
            then (case AuxPow msg of None \<Rightarrow> Inl MessageError | Some a \<Rightarrow> Inr (AuxPow_Serialise a))
            else Inr []) (\<lambda>a.
     Inr (h @ a @ WriteVarInt (lenU64 (Transactions msg)) @ concat (map (prlEncode enc) (Transactions msg)))))"

definition MsgBlock_Serialize :: "MsgBlock \<Rightarrow> wireError + bytes" where
  "MsgBlock_Serialize msg = MsgBlock_PrlEncode WitnessEncoding msg"

definition MsgBlock_Deserialize :: "MsgBlock reader" where
  "MsgBlock_Deserialize r = MsgBlock_PrlDecode WitnessEncoding r"

definition MsgBlock_SerializeSize :: "MsgBlock \<Rightarrow> nat" where
  "MsgBlock_SerializeSize msg =
     (let n = MsgHeader_SerializeSize (BlockMsgHeader msg) + VarIntSerializeSize (lenU64 (Transactions msg));
          n = (case AuxPow msg of None \<Rightarrow> n | Some a \<Rightarrow> n + AuxPow_SerialiseSize a)
      in foldl (\<lambda>n tx. n + SerializeSize tx) n (Transactions msg))"

definition MsgBlock_SerializeSizeStripped :: "MsgBlock \<Rightarrow> nat" where
  "MsgBlock_SerializeSizeStripped msg =
     foldl (\<lambda>n tx. n + SerializeSizeStripped tx)
       (MaxBlockHeaderPayload + VarIntSerializeSize (lenU64 (Transactions msg))) (Transactions msg)"

definition SerializeWitnessSize :: "MsgBlock \<Rightarrow> nat" where
  "SerializeWitnessSize msg =
     foldl (\<lambda>n tx. n + (SerializeSize tx - SerializeSizeStripped tx)) 0 (Transactions msg)"

definition MsgBlock_BlockHash :: "MsgBlock \<Rightarrow> hash" where
  "MsgBlock_BlockHash msg = BlockHash (MsgBlock_BlockHeader msg)"

definition TxHashes :: "MsgBlock \<Rightarrow> hash list" where
  "TxHashes msg = map TxHash (Transactions msg)"

section \<open>Codec laws\<close>

definition wf_MsgHeader :: "MsgHeader \<Rightarrow> bool" where
  "wf_MsgHeader mh \<longleftrightarrow> wf_MsgCertificate (Certificate mh) \<and> wf_header (Header mh)"

abbreviation msgHeaderBytes :: "MsgHeader \<Rightarrow> bytes" where
  "msgHeaderBytes mh \<equiv> certBytes (Certificate mh) @ writeBlockHeader (Header mh)"

lemma MsgHeader_PrlEncode_wf:
  "wf_MsgHeader mh \<Longrightarrow> MsgHeader_PrlEncode mh = Inr (msgHeaderBytes mh)"
  by (simp add: MsgHeader_PrlEncode_def wf_MsgHeader_def MsgCertificate_PrlEncode_wf)

lemma MsgHeader_PrlDecode_iff [reader_iff]:
  "MsgHeader_PrlDecode r = Inr (mh, r') \<longleftrightarrow> wf_MsgHeader mh \<and> r = msgHeaderBytes mh @ r'"
proof
  assume "MsgHeader_PrlDecode r = Inr (mh, r')"
  then show "wf_MsgHeader mh \<and> r = msgHeaderBytes mh @ r'"
    by (auto simp: MsgHeader_PrlDecode_def wf_MsgHeader_def MsgCertificate_PrlDecode_iff readBlockHeader_iff)
next
  assume "wf_MsgHeader mh \<and> r = msgHeaderBytes mh @ r'"
  then show "MsgHeader_PrlDecode r = Inr (mh, r')"
    by (auto simp: MsgHeader_PrlDecode_def wf_MsgHeader_def cert_codec.dec_enc header_codec.dec_enc)
qed

interpretation msgheader_codec: codec msgHeaderBytes MsgHeader_PrlDecode wf_MsgHeader
  by unfold_locales (rule MsgHeader_PrlDecode_iff)

lemma concatE_wf:
  "(\<forall>x\<in>set xs. f x = Inr (g x)) \<Longrightarrow> concatE f xs = Inr (concat (map g xs))"
  by (induction xs) auto

lemma MaxBlockHeadersPerMsg_bound: "MaxBlockHeadersPerMsg < 2 ^ 64"
  by (simp add: MaxBlockHeadersPerMsg_def)

definition wf_MsgHeaders :: "MsgHeader list \<Rightarrow> bool" where
  "wf_MsgHeaders headers \<longleftrightarrow> int (length headers) \<le> MaxBlockHeadersPerMsg \<and>
     (\<forall>mh\<in>set headers. wf_MsgHeader mh) \<and> \<not> HasInconsistentCertificates headers"

abbreviation msgHeadersBytes :: "MsgHeader list \<Rightarrow> bytes" where
  "msgHeadersBytes headers \<equiv> WriteVarInt (lenU64 headers) @ concat (map msgHeaderBytes headers)"

lemma MsgHeaders_PrlEncode_wf:
  "wf_MsgHeaders headers \<Longrightarrow> MsgHeaders_PrlEncode headers = Inr (msgHeadersBytes headers)"
  by (simp add: MsgHeaders_PrlEncode_def wf_MsgHeaders_def not_less
      concatE_wf [where g = msgHeaderBytes] MsgHeader_PrlEncode_wf)

lemma MsgHeaders_PrlDecode_iff:
  "MsgHeaders_PrlDecode r = Inr (headers, r') \<longleftrightarrow> wf_MsgHeaders headers \<and> r = msgHeadersBytes headers @ r'"
proof
  assume "MsgHeaders_PrlDecode r = Inr (headers, r')"
  then show "wf_MsgHeaders headers \<and> r = msgHeadersBytes headers @ r'"
    by (auto simp: MsgHeaders_PrlDecode_def wf_MsgHeaders_def ReadVarInt_iff
        msgheader_codec.plain.readMany_iff [OF MaxBlockHeadersPerMsg_bound order.refl] split: if_splits)
next
  assume "wf_MsgHeaders headers \<and> r = msgHeadersBytes headers @ r'"
  then show "MsgHeaders_PrlDecode r = Inr (headers, r')"
    by (auto simp: MsgHeaders_PrlDecode_def wf_MsgHeaders_def ReadVarInt_WriteVarInt
        msgheader_codec.plain.readMany_run [OF MaxBlockHeadersPerMsg_bound order.refl])
qed

interpretation msgheaders_codec: codec msgHeadersBytes MsgHeaders_PrlDecode wf_MsgHeaders
  by unfold_locales (rule MsgHeaders_PrlDecode_iff)

definition wf_MsgBlock :: "MsgBlock \<Rightarrow> bool" where
  "wf_MsgBlock msg \<longleftrightarrow> wf_MsgHeader (BlockMsgHeader msg) \<and>
     (if IsAuxPowBlock (MsgBlock_BlockHeader msg) then \<exists>a. AuxPow msg = Some a \<and> wf_AuxPow a
      else AuxPow msg = None) \<and>
     int (length (Transactions msg)) \<le> maxTxPerBlock \<and> (\<forall>tx\<in>set (Transactions msg). valid_MsgTx tx)"

text \<open>The bytes of a block, given the bytes of its merged-mining data.\<close>

definition blockBytes :: "MsgBlock \<Rightarrow> bytes \<Rightarrow> bytes" where
  "blockBytes msg aux = msgHeaderBytes (BlockMsgHeader msg) @ aux @
     WriteVarInt (lenU64 (Transactions msg)) @ concat (map Serialize (Transactions msg))"

definition aux_encodings :: "MsgBlock \<Rightarrow> bytes \<Rightarrow> bool" where
  "aux_encodings msg aux \<longleftrightarrow> (case AuxPow msg of
     None \<Rightarrow> aux = []
   | Some a \<Rightarrow> \<exists>flags. flags_of (CoinbaseBranch a) flags \<and> aux = AuxPow_bytes a flags)"

lemma maxTxPerBlock_bound: "maxTxPerBlock < 2 ^ 64"
  by (simp add: maxTxPerBlock_def MaxBlockPayload_def minTxPayload_def)

lemma tx_reader: "PrlDecode WitnessEncoding = Deserialize"
  by (simp add: Deserialize_def fun_eq_iff)

lemma tx_writer: "prlEncode WitnessEncoding = Serialize"
  by (simp add: Serialize_def fun_eq_iff)

lemmas block_txs_iff = tx_codec.plain.readMany_iff [OF maxTxPerBlock_bound order.refl]
lemmas block_txs_run = tx_codec.plain.readMany_run [OF maxTxPerBlock_bound order.refl]

lemma MsgBlock_Deserialize_sound:
  assumes "MsgBlock_Deserialize r = Inr (msg, r')"
  shows "wf_MsgBlock msg \<and> (\<exists>aux. aux_encodings msg aux \<and> r = blockBytes msg aux @ r')"
proof -
  from assms obtain r1 count r2 c where
    mh: "wf_MsgHeader (BlockMsgHeader msg)" "r = msgHeaderBytes (BlockMsgHeader msg) @ r1"
    and aux: "(if IsAuxPowBlock (MsgBlock_BlockHeader msg)
      then (case AuxPow_Deserialise r1 of Inl err \<Rightarrow> Inl MessageError | Inr (a, r) \<Rightarrow> Inr (Some a, r))
      else Inr (None, r1)) = Inr (AuxPow msg, WriteVarInt count @ r2)"
    and txs: "readMany maxTxPerBlock (\<lambda>_. Deserialize) (\<lambda>_. 0) count 0 r2 = Inr ((Transactions msg, c), r')"
    by (auto simp: MsgBlock_Deserialize_def MsgBlock_PrlDecode_def MsgBlock_BlockHeader_def tx_reader
        MsgHeader_PrlDecode_iff ReadVarInt_iff)
  from txs have t: "count = lenU64 (Transactions msg)" "int (length (Transactions msg)) \<le> maxTxPerBlock"
    "\<forall>tx\<in>set (Transactions msg). valid_MsgTx tx" "r2 = concat (map Serialize (Transactions msg)) @ r'"
    by (simp_all add: block_txs_iff)
  show ?thesis
  proof (cases "IsAuxPowBlock (MsgBlock_BlockHeader msg)")
    case True
    with aux obtain a where a: "AuxPow msg = Some a" "AuxPow_Deserialise r1 = Inr (a, WriteVarInt count @ r2)"
      by (cases "AuxPow msg"; cases "AuxPow_Deserialise r1") auto
    from AuxPow_Deserialise_sound [OF a(2)] obtain flags where
      wf: "wf_AuxPow a" and "flags_of (CoinbaseBranch a) flags" "r1 = AuxPow_bytes a flags @ WriteVarInt count @ r2"
      by blast
    then have "aux_encodings msg (AuxPow_bytes a flags)" "r = blockBytes msg (AuxPow_bytes a flags) @ r'"
      using a mh(2) t by (auto simp: aux_encodings_def blockBytes_def)
    with True a(1) wf mh(1) t show ?thesis by (auto simp: wf_MsgBlock_def)
  next
    case False
    with aux mh t show ?thesis by (simp add: wf_MsgBlock_def aux_encodings_def blockBytes_def)
  qed
qed

lemma MsgBlock_Deserialize_run:
  assumes "wf_MsgBlock msg" "aux_encodings msg aux"
  shows "MsgBlock_Deserialize (blockBytes msg aux @ r) = Inr (msg, r)"
proof -
  have "MsgHeader_PrlDecode (msgHeaderBytes (BlockMsgHeader msg) @ x) = Inr (BlockMsgHeader msg, x)" for x
    using assms(1) by (intro msgheader_codec.dec_enc) (simp add: wf_MsgBlock_def)
  moreover have "readMany maxTxPerBlock (\<lambda>_. Deserialize) (\<lambda>_. 0) (lenU64 (Transactions msg)) 0
      (concat (map Serialize (Transactions msg)) @ r) = Inr ((Transactions msg, 0), r)"
    using assms(1) by (subst block_txs_run) (simp_all add: wf_MsgBlock_def)
  moreover have "(if IsAuxPowBlock (Header (BlockMsgHeader msg))
      then (case AuxPow_Deserialise (aux @ x) of Inl err \<Rightarrow> Inl MessageError | Inr (a, r) \<Rightarrow> Inr (Some a, r))
      else Inr (None, aux @ x)) = Inr (AuxPow msg, x)" for x
    using assms by (auto simp: wf_MsgBlock_def aux_encodings_def MsgBlock_BlockHeader_def
        AuxPow_Deserialise_run split: if_splits)
  ultimately show ?thesis
    by (simp add: MsgBlock_Deserialize_def MsgBlock_PrlDecode_def blockBytes_def tx_reader ReadVarInt_WriteVarInt)
qed

lemma MsgBlock_Serialize_wf:
  assumes "wf_MsgBlock msg"
  shows "MsgBlock_Serialize msg =
    Inr (blockBytes msg (case AuxPow msg of None \<Rightarrow> [] | Some a \<Rightarrow> AuxPow_Serialise a))"
  using assms
  by (auto simp: MsgBlock_Serialize_def MsgBlock_PrlEncode_def wf_MsgBlock_def blockBytes_def
      MsgHeader_PrlEncode_wf tx_writer split: if_splits)

lemma aux_encodings_canonical:
  "aux_encodings msg (case AuxPow msg of None \<Rightarrow> [] | Some a \<Rightarrow> AuxPow_Serialise a)"
  by (auto simp: aux_encodings_def AuxPow_Serialise_bytes intro: flags_of_canonical split: option.split)

section \<open>Sizes\<close>

lemma length_msgHeaderBytes:
  "wf_MsgHeader mh \<Longrightarrow> length (msgHeaderBytes mh) = MsgHeader_SerializeSize mh"
  by (auto simp: wf_MsgHeader_def MsgCertificate_PrlEncode_wf wf_MsgCertificate_def MsgHeader_SerializeSize_def
      MsgCertificate_SerializeSize_def length_writeBlockHeader length_ZKCertificate_Serialize split: option.splits)

lemma length_txs:
  "\<forall>tx\<in>set txs. valid_MsgTx tx \<Longrightarrow> length (concat (map Serialize txs)) = sum_list (map SerializeSize txs)"
  by (induction txs) (simp_all add: length_Serialize valid_MsgTx_def wf_MsgTx_def wf_txin_def)

lemma SerializeSizeStripped_le: "SerializeSizeStripped tx \<le> SerializeSize tx"
  by (simp add: SerializeSizeStripped_def SerializeSize_def foldl_sum Let_def)

lemma SerializeWitnessSize_eq:
  "SerializeWitnessSize msg + sum_list (map SerializeSizeStripped (Transactions msg)) =
     sum_list (map SerializeSize (Transactions msg))"
proof -
  have "sum_list (map (\<lambda>tx. SerializeSize tx - SerializeSizeStripped tx) txs) +
      sum_list (map SerializeSizeStripped txs) = sum_list (map SerializeSize txs)" for txs
  proof (induction txs)
    case Nil
    show ?case by simp
  next
    case (Cons tx txs)
    with SerializeSizeStripped_le [of tx] show ?case by simp
  qed
  then show ?thesis by (simp add: SerializeWitnessSize_def foldl_sum)
qed

section \<open>Properties\<close>

text \<open>
  A header batch is decoded from exactly the encoding of at most 100 well-formed headers of which every
  header without a certificate is a merged-mining header; the encoder never refuses such a batch.
\<close>

theorem MsgHeaders_roundtrip:
  "(MsgHeaders_PrlDecode bs = Inr (headers, r) \<longleftrightarrow>
      wf_MsgHeaders headers \<and> (\<exists>e. MsgHeaders_PrlEncode headers = Inr e \<and> bs = e @ r))"
  using MsgHeaders_PrlEncode_wf [of headers] by (auto simp: msgheaders_codec.dec_iff)

text \<open>
  C27. A well-formed block serialises without error to as many bytes as \<open>SerializeSize\<close> says, and deserialising
  them gives the block back, whatever follows; the block is the header and certificate, the merged-mining data
  exactly when the version says so, and the transactions.
\<close>

theorem MsgBlock_roundtrip:
  assumes "wf_MsgBlock msg"
  shows "\<exists>e. MsgBlock_Serialize msg = Inr e \<and> length e = MsgBlock_SerializeSize msg \<and>
    MsgBlock_Deserialize (e @ r) = Inr (msg, r)"
proof -
  let ?aux = "case AuxPow msg of None \<Rightarrow> [] | Some a \<Rightarrow> AuxPow_Serialise a"
  have "length ?aux = (case AuxPow msg of None \<Rightarrow> 0 | Some a \<Rightarrow> AuxPow_SerialiseSize a)"
    using assms by (auto simp: wf_MsgBlock_def length_AuxPow_Serialise split: option.split if_splits)
  then have "length (blockBytes msg ?aux) = MsgBlock_SerializeSize msg"
    using assms length_msgHeaderBytes [of "BlockMsgHeader msg"] length_txs [of "Transactions msg"]
    by (auto simp: blockBytes_def MsgBlock_SerializeSize_def wf_MsgBlock_def foldl_sum Let_def split: option.splits)
  with assms show ?thesis
    using MsgBlock_Serialize_wf MsgBlock_Deserialize_run aux_encodings_canonical by blast
qed

theorem MsgBlock_roundtrip_witness:
  "\<exists>e. MsgBlock_Serialize \<lparr>BlockMsgHeader = \<lparr>Certificate = None, Header = \<lparr>Version = 0, PrevBlock = replicate 32 0,
      MerkleRoot = replicate 32 1, Timestamp = unixTime 1700000000, Bits = 0x1b00ffff,
      ProofCommitment = replicate 32 2\<rparr>\<rparr>, AuxPow = None, Transactions = []\<rparr> = Inr e \<and> length e = 113"
proof -
  let ?b = "\<lparr>BlockMsgHeader = \<lparr>Certificate = None, Header = \<lparr>Version = 0, PrevBlock = replicate 32 0,
      MerkleRoot = replicate 32 1, Timestamp = unixTime 1700000000, Bits = 0x1b00ffff,
      ProofCommitment = replicate 32 2\<rparr>\<rparr>, AuxPow = None, Transactions = []\<rparr>"
  have "wf_MsgBlock ?b"
    by (simp add: wf_MsgBlock_def wf_MsgHeader_def wf_MsgCertificate_def wf_header_def HashSize_def
        IsAuxPowBlock_def MsgBlock_BlockHeader_def auxPowMask_def maxTxPerBlock_def MaxBlockPayload_def minTxPayload_def)
  from MsgBlock_roundtrip [OF this, of "[]"] show ?thesis
    by (simp add: MsgBlock_SerializeSize_def MsgHeader_SerializeSize_def MsgCertificate_SerializeSize_def
        MaxBlockHeaderPayload_def HashSize_def VarIntSerializeSize_def lenU64_def) blast
qed

end
