(* ===== verification/Tx_Basics.thy ===== *)
theory Tx_Basics
  imports Wire_Block
begin

text \<open>
  Facts about single transactions and blocks that the consensus rules share: amounts (\<^verbatim>\<open>node/btcutil/const.go\<close>),
  coinbases and finality (\<^verbatim>\<open>node/blockchain/validate.go\<close>), and virtual sizes (\<^verbatim>\<open>node/blockchain/vsize.go\<close>).

  The wrappers \<^verbatim>\<open>btcutil.Tx\<close> and \<^verbatim>\<open>btcutil.Block\<close>, which cache hashes, are the messages they wrap.  Amounts are the
  signed values of the 64-bit fields.
\<close>

section \<open>Amounts\<close>

definition GrainPerMDL :: int where "GrainPerMDL = 100000000"
definition MaxGrain :: int where "MaxGrain = 210000000 * GrainPerMDL"
definition MinInferenceFeeGrains :: int where "MinInferenceFeeGrains = 1000000"

abbreviation outValue :: "TxOut \<Rightarrow> int" where
  "outValue txOut \<equiv> sint (Value txOut)"

section \<open>Coinbases and finality\<close>

definition isNullOutpoint :: "OutPoint \<Rightarrow> bool" where
  "isNullOutpoint outpoint \<longleftrightarrow> Index outpoint = 0xffffffff \<and> Hash outpoint = zeroHash"

definition IsCoinBaseTx :: "MsgTx \<Rightarrow> bool" where
  "IsCoinBaseTx msgTx =
     (if length (TxIn msgTx) \<noteq> 1 then False
      else let prevOut = PreviousOutPoint (TxIn msgTx ! 0)
           in if Index prevOut \<noteq> 0xffffffff \<or> Hash prevOut \<noteq> zeroHash then False else True)"

definition LockTimeThreshold :: int where "LockTimeThreshold = 500000000"

definition IsFinalizedTransaction :: "MsgTx \<Rightarrow> int \<Rightarrow> int \<Rightarrow> bool" where
  "IsFinalizedTransaction msgTx blockHeight blockTime =
     (let lockTime = uint (LockTime msgTx) in
      if lockTime = 0 then True
      else let blockTimeOrHeight = (if lockTime < LockTimeThreshold then blockHeight else Unix blockTime)
           in if lockTime < blockTimeOrHeight then True
              else list_all (\<lambda>txIn. Sequence txIn = 0xffffffff) (TxIn msgTx))"

section \<open>Virtual sizes\<close>

definition MaxBlockVsize :: int where "MaxBlockVsize = 1000000"
definition WitnessScaleFactor :: int where "WitnessScaleFactor = 4"

definition CalcVsize :: "int \<Rightarrow> int \<Rightarrow> int" where
  "CalcVsize base wit = base + go_div (wit + WitnessScaleFactor - 1) WitnessScaleFactor"

definition GetTransactionVsize :: "MsgTx \<Rightarrow> int" where
  "GetTransactionVsize msgTx =
     (let base = int (SerializeSizeStripped msgTx); wit = int (SerializeSize msgTx) - base
      in CalcVsize base wit)"

definition GetBlockVsize :: "MsgBlock \<Rightarrow> int" where
  "GetBlockVsize msgBlock =
     CalcVsize (int (MsgBlock_SerializeSizeStripped msgBlock)) (int (SerializeWitnessSize msgBlock))"

section \<open>Lemmas\<close>

lemma IsCoinBaseTx_iff:
  "IsCoinBaseTx msgTx \<longleftrightarrow> (\<exists>txIn. TxIn msgTx = [txIn] \<and> isNullOutpoint (PreviousOutPoint txIn))"
  by (cases "TxIn msgTx") (auto simp: IsCoinBaseTx_def isNullOutpoint_def Let_def)

lemma CalcVsize_ceiling:
  assumes "0 \<le> w"
  shows "4 * (CalcVsize b w - b) \<ge> w \<and> 4 * (CalcVsize b w - b) < w + 4"
  using assms by (simp add: CalcVsize_def WitnessScaleFactor_def go_div_nonneg) linarith

text \<open>Once a transaction is final it stays final: at greater heights and later times.\<close>

lemma IsFinalizedTransaction_mono:
  assumes "IsFinalizedTransaction msgTx h t" "h \<le> h'" "t \<le> t'"
  shows "IsFinalizedTransaction msgTx h' t'"
proof -
  have "Unix t \<le> Unix t'" using assms(3) by (simp add: Unix_def zdiv_mono1)
  with assms show ?thesis by (auto simp: IsFinalizedTransaction_def Let_def split: if_splits)
qed

end
