(* ===== verification/Script.thy ===== *)
theory Script
  imports Wire_Common
begin

text \<open>
  Scripts as byte strings (\<^verbatim>\<open>node/txscript\<close>): the tokenizer, the predicates on script classes, the numbers of the
  script language and the script builder.  The engine that executes scripts is not part of this theory.

  A tokenizer is modelled by the opcodes it delivers: \<open>nextToken\<close> is one successful or failing call of \<open>Next\<close> on the
  rest of the script, and \<open>tokenize\<close> the sequence of calls until \<open>Next\<close> returns false, with the error it leaves.  Data
  that is absent and data that is empty are both the empty list.
\<close>

section \<open>Opcodes\<close>

definition OP_0 :: byte where "OP_0 = 0x00"
definition OP_DATA_1 :: byte where "OP_DATA_1 = 0x01"
definition OP_DATA_32 :: byte where "OP_DATA_32 = 0x20"
definition OP_DATA_75 :: byte where "OP_DATA_75 = 0x4b"
definition OP_PUSHDATA1 :: byte where "OP_PUSHDATA1 = 0x4c"
definition OP_PUSHDATA2 :: byte where "OP_PUSHDATA2 = 0x4d"
definition OP_PUSHDATA4 :: byte where "OP_PUSHDATA4 = 0x4e"
definition OP_1NEGATE :: byte where "OP_1NEGATE = 0x4f"
definition OP_1 :: byte where "OP_1 = 0x51"
definition OP_2 :: byte where "OP_2 = 0x52"
definition OP_16 :: byte where "OP_16 = 0x60"
definition OP_RETURN :: byte where "OP_RETURN = 0x6a"

lemmas opcode_defs = OP_0_def OP_DATA_1_def OP_DATA_32_def OP_DATA_75_def OP_PUSHDATA1_def OP_PUSHDATA2_def
  OP_PUSHDATA4_def OP_1NEGATE_def OP_1_def OP_2_def OP_16_def OP_RETURN_def

definition MaxScriptSize :: nat where "MaxScriptSize = 10000"
definition MaxScriptElementSize :: nat where "MaxScriptElementSize = 520"

datatype scriptError = ErrMalformedPush | ErrMinimalData | ErrNumberTooBig | ErrScriptNotCanonical

section \<open>The tokenizer\<close>

text \<open>The field \<open>length\<close> of the opcode table.\<close>

definition opLength :: "byte \<Rightarrow> int" where
  "opLength op =
     (if OP_DATA_1 \<le> op \<and> op \<le> OP_DATA_75 then uint op + 1
      else if op = OP_PUSHDATA1 then - 1 else if op = OP_PUSHDATA2 then - 2 else if op = OP_PUSHDATA4 then - 4
      else 1)"

text \<open>An opcode with its data and the bytes of the script it was read from.\<close>

type_synonym token = "byte \<times> bytes \<times> bytes"

definition nextToken :: "bytes \<Rightarrow> (scriptError, token \<times> bytes) result" where
  "nextToken script =
     (let op = hd script; len = opLength op in
      if len = 1 then Inr ((op, [], take 1 script), drop 1 script)
      else if len > 1
      then if int (length script) < len then Inl ErrMalformedPush
           else Inr ((op, slice 1 (nat len) script, take (nat len) script), drop (nat len) script)
      else let rest = drop 1 script; n = nat (- len) in
           if length rest < n then Inl ErrMalformedPush
           else let dataLen = int32 (le_int (take n rest)); rest = drop n rest in
                if dataLen > int (length rest) \<or> dataLen < 0 then Inl ErrMalformedPush
                else let k = 1 + n + nat dataLen
                     in Inr ((op, take (nat dataLen) rest, take k script), drop k script))"

lemma nextToken_shorter: "nextToken script = Inr (t, rest) \<Longrightarrow> script \<noteq> [] \<Longrightarrow> length rest < length script"
  by (cases script) (auto simp: nextToken_def Let_def split: if_splits)

function tokenize :: "bytes \<Rightarrow> token list \<times> scriptError option" where
  "tokenize script =
     (if script = [] then ([], None)
      else case nextToken script of
          Inl e \<Rightarrow> ([], Some e)
        | Inr (t, rest) \<Rightarrow> let (ts, e) = tokenize rest in (t # ts, e))"
  by pat_completeness auto
termination by (relation "measure length") (auto dest: nextToken_shorter)

declare tokenize.simps [simp del]

definition checkScriptParses :: "bytes \<Rightarrow> scriptError option" where
  "checkScriptParses script = snd (tokenize script)"

definition IsPushOnlyScript :: "bytes \<Rightarrow> bool" where
  "IsPushOnlyScript script =
     (let (ts, e) = tokenize script in if list_ex (\<lambda>(op, _, _). op > OP_16) ts then False else e = None)"

definition IsUnspendable :: "bytes \<Rightarrow> bool" where
  "IsUnspendable pkScript =
     (if length pkScript > 0 \<and> pkScript ! 0 = OP_RETURN then True
      else if length pkScript > MaxScriptSize then True
      else checkScriptParses pkScript \<noteq> None)"

text \<open>The opcodes that make a script succeed, as the table lists them.\<close>

definition successOpcodes :: "byte list" where
  "successOpcodes = [80, 98, 127, 128, 129, 131, 132, 133, 134, 137, 138, 141, 142, 149, 150, 151, 152, 153] @
     map (word_of_nat) ([187..<222] @ [223..<255])"

definition ScriptHasOpSuccess :: "bytes \<Rightarrow> bool" where
  "ScriptHasOpSuccess witnessScript = list_ex (\<lambda>(op, _, _). op \<in> set successOpcodes) (fst (tokenize witnessScript))"

text \<open>The pushed data: the items of opcodes that carry data, and an empty item for \<open>OP_0\<close>.\<close>

definition PushedData :: "bytes \<Rightarrow> (scriptError, bytes list) result" where
  "PushedData script =
     (let (ts, e) = tokenize script in
      case e of
        Some err \<Rightarrow> Inl err
      | None \<Rightarrow> Inr (map (\<lambda>(_, data, _). data) (filter (\<lambda>(op, _, _). opLength op \<noteq> 1 \<or> op = OP_0) ts)))"

section \<open>Removing opcodes\<close>

text \<open>
  One turn of the loops: \<open>result\<close> is \<open>None\<close> until the first match, when the part of the script before the match is copied;
  \<open>prevOffset\<close> is the offset of the opcode.
\<close>

definition removeStep :: "bytes \<Rightarrow> (token \<Rightarrow> bool) \<Rightarrow> bytes option \<times> nat \<times> bool \<Rightarrow> token \<Rightarrow> bytes option \<times> nat \<times> bool" where
  "removeStep script matches st t =
     (case (st, t) of ((result, prevOffset, found), (_, _, raw)) \<Rightarrow>
       let byteIndex = prevOffset + length raw in
       if matches t
       then (Some (case result of None \<Rightarrow> take prevOffset script | Some r \<Rightarrow> r), byteIndex, True)
       else (map_option (\<lambda>r. r @ slice prevOffset byteIndex script) result, byteIndex, found))"

definition removeOpcodeRaw :: "bytes \<Rightarrow> byte \<Rightarrow> bytes" where
  "removeOpcodeRaw script opcode =
     (if length script = 0 then script
      else case foldl (removeStep script (\<lambda>(op, _, _). op = opcode)) (None, 0, False) (fst (tokenize script)) of
          (None, _, _) \<Rightarrow> script | (Some result, _, _) \<Rightarrow> result)"

definition isCanonicalPush :: "byte \<Rightarrow> bytes \<Rightarrow> bool" where
  "isCanonicalPush opcode data =
     (let dataLen = length data in
      if opcode > OP_16 then True
      else if opcode < OP_PUSHDATA1 \<and> opcode > OP_0 \<and> (dataLen = 1 \<and> data ! 0 \<le> 16) then False
      else if opcode = OP_PUSHDATA1 \<and> dataLen < 0x4c then False
      else if opcode = OP_PUSHDATA2 \<and> dataLen \<le> 0xff then False
      else if opcode = OP_PUSHDATA4 \<and> int dataLen \<le> 0xffff then False
      else True)"

definition removeOpcodeByData :: "bytes \<Rightarrow> bytes \<Rightarrow> bytes \<times> bool" where
  "removeOpcodeByData script dataToRemove =
     (if length script = 0 \<or> length dataToRemove = 0 then (script, False)
      else case foldl (removeStep script (\<lambda>(op, data, _). isCanonicalPush op data \<and> data = dataToRemove))
                  (None, 0, False) (fst (tokenize script)) of
          (result, _, found) \<Rightarrow> (case result of None \<Rightarrow> script | Some r \<Rightarrow> r, found))"

section \<open>Script classes\<close>

definition IsSmallInt :: "byte \<Rightarrow> bool" where
  "IsSmallInt op \<longleftrightarrow> op = OP_0 \<or> (op \<ge> OP_1 \<and> op \<le> OP_16)"

definition AsSmallInt :: "byte \<Rightarrow> int" where
  "AsSmallInt op = (if op = OP_0 then 0 else uint (op - (OP_1 - 1)))"

definition extractWitnessProgramInfo :: "bytes \<Rightarrow> (int \<times> bytes) option" where
  "extractWitnessProgramInfo script =
     (if length script < 4 \<or> length script > 42 then None
      else case nextToken script of
          Inl _ \<Rightarrow> None
        | Inr ((op, _, _), rest) \<Rightarrow>
            if \<not> IsSmallInt op then None
            else if rest = [] then None
            else case nextToken rest of
                Inl _ \<Rightarrow> None
              | Inr ((op', program, _), rest') \<Rightarrow>
                  if \<not> isCanonicalPush op' program then None
                  else if rest' = [] then Some (AsSmallInt op, program) else None)"

definition extractWitnessV1KeyBytes :: "bytes \<Rightarrow> bytes option" where
  "extractWitnessV1KeyBytes script =
     (if length script = 34 \<and> script ! 0 = OP_1 \<and> script ! 1 = OP_DATA_32 then Some (slice 2 34 script) else None)"

definition extractWitnessV2MerkleRootBytes :: "bytes \<Rightarrow> bytes option" where
  "extractWitnessV2MerkleRootBytes script =
     (if length script = 34 \<and> script ! 0 = OP_2 \<and> script ! 1 = OP_DATA_32 then Some (slice 2 34 script) else None)"

definition isNullDataScript :: "bytes \<Rightarrow> bool" where
  "isNullDataScript script \<longleftrightarrow> length script \<ge> 1 \<and> script ! 0 = OP_RETURN"

datatype ScriptClass = NonStandardTy | NullDataTy | WitnessV1TaprootTy | WitnessV2MerkleRootTy

definition GetScriptClass :: "bytes \<Rightarrow> ScriptClass" where
  "GetScriptClass script =
     (if isNullDataScript script then NullDataTy
      else if extractWitnessV1KeyBytes script \<noteq> None then WitnessV1TaprootTy
      else if extractWitnessV2MerkleRootBytes script \<noteq> None then WitnessV2MerkleRootTy
      else NonStandardTy)"

text \<open>The names of the classes; the class is the byte of the code, and \<open>None\<close> a read outside the table.\<close>

definition scriptClassToName :: "string list" where
  "scriptClassToName = [''nonstandard'', ''nulldata'', ''witness_v1_taproot'', ''witness_v2_merkleroot'']"

definition ScriptClass_String :: "byte \<Rightarrow> string option" where
  "ScriptClass_String t =
     (if uint t > int (length scriptClassToName) \<or> uint t < 0 then Some ''Invalid''
      else if uint t < int (length scriptClassToName) then Some (scriptClassToName ! unat t) else None)"

definition NewScriptClass :: "string \<Rightarrow> nat option" where
  "NewScriptClass name = firstSome (\<lambda>(i, n). if n = name then Some i else None) (enumerate 0 scriptClassToName)"

section \<open>Numbers\<close>

definition checkMinimalDataEncoding :: "bytes \<Rightarrow> (scriptError, unit) result" where
  "checkMinimalDataEncoding v =
     (if length v = 0 then Inr ()
      else guardE (v ! (length v - 1) AND 0x7f = 0 \<and> (length v = 1 \<or> v ! (length v - 2) AND 0x80 = 0))
             ErrMinimalData)"

text \<open>The loop that emits little endian bytes while the number is positive.\<close>

function numBytes :: "int \<Rightarrow> bytes" where
  "numBytes n = (if n > 0 then word_of_int (n AND 0xff) # numBytes (drop_bit 8 n) else [])"
  by pat_completeness auto
termination by (relation "measure nat") (auto simp: drop_bit_eq_div)

declare numBytes.simps [simp del]

text \<open>The negation of the least number wraps to itself, the loop does not run and the access to the last byte fails.\<close>

definition scriptNum_Bytes :: "int \<Rightarrow> bytes option" where
  "scriptNum_Bytes n =
     (if n = 0 then Some []
      else let isNegative = n < 0; n = (if isNegative then int64 (- n) else n); result = numBytes n in
           if result = [] then None
           else if last result AND 0x80 \<noteq> 0 then Some (result @ [if isNegative then 0x80 else 0x00])
           else if isNegative then Some (butlast result @ [last result OR 0x80])
           else Some result)"

definition scriptNum_Int32 :: "int \<Rightarrow> int" where
  "scriptNum_Int32 n = (if n > 2 ^ 31 - 1 then 2 ^ 31 - 1 else if n < - (2 ^ 31) then - (2 ^ 31) else n)"

text \<open>The decoding loop; the shift is computed in 8 bits and a shift by 64 or more leaves nothing.\<close>

definition shiftInt64 :: "int \<Rightarrow> nat \<Rightarrow> int" where
  "shiftInt64 val i = int64 (push_bit ((8 * i) mod 256) val)"

fun decodeNum :: "nat \<Rightarrow> bytes \<Rightarrow> int \<Rightarrow> int" where
  "decodeNum i [] result = result"
| "decodeNum i (val # v) result = decodeNum (i + 1) v (result OR shiftInt64 (uint val) i)"

definition MakeScriptNum :: "bytes \<Rightarrow> bool \<Rightarrow> nat \<Rightarrow> (scriptError, int) result" where
  "MakeScriptNum v requireMinimal scriptNumLen =
     bindE (guardE (length v > scriptNumLen) ErrNumberTooBig) (\<lambda>_.
     bindE (if requireMinimal then checkMinimalDataEncoding v else Inr ()) (\<lambda>_.
     if length v = 0 then Inr 0
     else let result = decodeNum 0 v 0 in
          if last v AND 0x80 \<noteq> 0
          then Inr (int64 (- (result AND NOT (shiftInt64 0x80 (length v - 1)))))
          else Inr result))"

section \<open>The builder\<close>

record ScriptBuilder =
  bscript :: bytes
  berr :: "scriptError option"

definition NewScriptBuilder :: ScriptBuilder where "NewScriptBuilder = \<lparr>bscript = [], berr = None\<rparr>"

definition AddOp :: "ScriptBuilder \<Rightarrow> byte \<Rightarrow> ScriptBuilder" where
  "AddOp b opcode =
     (if berr b \<noteq> None then b
      else if length (bscript b) + 1 > MaxScriptSize then b\<lparr>berr := Some ErrScriptNotCanonical\<rparr>
      else b\<lparr>bscript := bscript b @ [opcode]\<rparr>)"

definition AddOps :: "ScriptBuilder \<Rightarrow> bytes \<Rightarrow> ScriptBuilder" where
  "AddOps b opcodes =
     (if berr b \<noteq> None then b
      else if length (bscript b) + length opcodes > MaxScriptSize then b\<lparr>berr := Some ErrScriptNotCanonical\<rparr>
      else b\<lparr>bscript := bscript b @ opcodes\<rparr>)"

definition canonicalDataSize :: "bytes \<Rightarrow> nat" where
  "canonicalDataSize data =
     (let dataLen = length data in
      if dataLen = 0 then 1
      else if dataLen = 1 \<and> data ! 0 \<le> 16 then 1
      else if dataLen = 1 \<and> data ! 0 = 0x81 then 1
      else if dataLen < 0x4c then 1 + dataLen
      else if dataLen \<le> 0xff then 2 + dataLen
      else if int dataLen \<le> 0xffff then 3 + dataLen
      else 5 + dataLen)"

text \<open>The bytes \<open>addData\<close> appends.\<close>

definition pushBytes :: "bytes \<Rightarrow> bytes" where
  "pushBytes data =
     (let dataLen = length data in
      if dataLen = 0 \<or> dataLen = 1 \<and> data ! 0 = 0 then [OP_0]
      else if dataLen = 1 \<and> data ! 0 \<le> 16 then [OP_1 - 1 + data ! 0]
      else if dataLen = 1 \<and> data ! 0 = 0x81 then [OP_1NEGATE]
      else if dataLen < 0x4c then word_of_int (int dataLen) # data
      else if dataLen \<le> 0xff then [OP_PUSHDATA1, word_of_int (int dataLen)] @ data
      else if int dataLen \<le> 0xffff then OP_PUSHDATA2 # PutUint16 (word_of_int (int dataLen)) @ data
      else OP_PUSHDATA4 # PutUint32 (word_of_int (int dataLen)) @ data)"

definition AddFullData :: "ScriptBuilder \<Rightarrow> bytes \<Rightarrow> ScriptBuilder" where
  "AddFullData b data = (if berr b \<noteq> None then b else b\<lparr>bscript := bscript b @ pushBytes data\<rparr>)"

definition AddData :: "ScriptBuilder \<Rightarrow> bytes \<Rightarrow> ScriptBuilder" where
  "AddData b data =
     (if berr b \<noteq> None then b
      else if length (bscript b) + canonicalDataSize data > MaxScriptSize then b\<lparr>berr := Some ErrScriptNotCanonical\<rparr>
      else if length data > MaxScriptElementSize then b\<lparr>berr := Some ErrScriptNotCanonical\<rparr>
      else b\<lparr>bscript := bscript b @ pushBytes data\<rparr>)"

definition AddInt64 :: "ScriptBuilder \<Rightarrow> int \<Rightarrow> ScriptBuilder option" where
  "AddInt64 b val =
     (if berr b \<noteq> None then Some b
      else if length (bscript b) + 1 > MaxScriptSize then Some (b\<lparr>berr := Some ErrScriptNotCanonical\<rparr>)
      else if val = 0 then Some (b\<lparr>bscript := bscript b @ [OP_0]\<rparr>)
      else if val = - 1 \<or> (val \<ge> 1 \<and> val \<le> 16) then Some (b\<lparr>bscript := bscript b @ [word_of_int (80 + val)]\<rparr>)
      else map_option (AddData b) (scriptNum_Bytes val))"

definition ScriptBuilder_Script :: "ScriptBuilder \<Rightarrow> (scriptError, bytes) result" where
  "ScriptBuilder_Script b = (case berr b of None \<Rightarrow> Inr (bscript b) | Some e \<Rightarrow> Inl e)"

definition payToWitnessTaprootScript :: "bytes \<Rightarrow> (scriptError, bytes) result" where
  "payToWitnessTaprootScript rawKey = ScriptBuilder_Script (AddData (AddOp NewScriptBuilder OP_1) rawKey)"

definition payToMerkleRootScript :: "bytes \<Rightarrow> (scriptError, bytes) result" where
  "payToMerkleRootScript merkleRoot = ScriptBuilder_Script (AddData (AddOp NewScriptBuilder OP_2) merkleRoot)"

section \<open>Lemmas\<close>

subsection \<open>The tokenizer\<close>

text \<open>A well formed token: the data has the length its opcode announces, and the bytes are their encoding.\<close>

definition wf_token :: "token \<Rightarrow> bool" where
  "wf_token t = (case t of (op, data, raw) \<Rightarrow>
     if opLength op = 1 then data = [] \<and> raw = [op]
     else if opLength op > 1 then int (length data) + 1 = opLength op \<and> raw = op # data
     else let n = nat (- opLength op) in
          int (length data) < 2 ^ 31 \<and> int (length data) < 256 ^ n \<and> raw = op # int_le n (int (length data)) @ data)"

definition tokenBytes :: "token \<Rightarrow> bytes" where
  "tokenBytes t = snd (snd t)"

lemma opLength_cases:
  "opLength op = 1 \<or> opLength op > 1 \<or> opLength op = - 1 \<or> opLength op = - 2 \<or> opLength op = - 4"
proof -
  have "OP_DATA_1 \<le> op \<Longrightarrow> uint op + 1 > 1" by (simp add: OP_DATA_1_def word_le_def)
  then show ?thesis by (auto simp: opLength_def)
qed

lemma int32_le_int:
  assumes "length bs \<le> 4"
  shows "0 \<le> int32 (le_int bs) \<longleftrightarrow> le_int bs < 2 ^ 31"
proof
  assume "le_int bs < 2 ^ 31"
  then show "0 \<le> int32 (le_int bs)" using le_int_bound [of bs] by (simp add: int32_id)
next
  assume nn: "0 \<le> int32 (le_int bs)"
  have "(256 :: int) ^ length bs \<le> 256 ^ 4" using assms by (intro power_increasing) simp_all
  then have "le_int bs < 256 ^ 4" using le_int_bound [of bs] by linarith
  then have small: "le_int bs < 4294967296" by simp
  show "le_int bs < 2 ^ 31"
  proof (rule ccontr)
    assume "\<not> le_int bs < 2 ^ 31"
    then have "le_int bs div 2147483648 = 1" using small by simp
    then have "bit (le_int bs) 31" by (simp add: bit_iff_odd)
    then have "int32 (le_int bs) < 0" by (simp add: int32_def signed_take_bit_negative_iff)
    with nn show False by simp
  qed
qed

lemma nextToken_wf:
  assumes "nextToken s = Inr (t, rest)" "s \<noteq> []"
  shows "wf_token t \<and> s = tokenBytes t @ rest"
proof -
  obtain op xs where s: "s = op # xs" using assms(2) by (cases s) auto
  consider "opLength op = 1" | "opLength op > 1" | "opLength op < 0 \<and> - opLength op \<le> 4" using opLength_cases [of op] by auto
  then show ?thesis
  proof cases
    case 1
    then show ?thesis using assms(1) by (auto simp: nextToken_def s wf_token_def tokenBytes_def)
  next
    case 2
    define k where "k = nat (opLength op - 1)"
    have k: "opLength op = int k + 1" "nat (int k + 1) = Suc k" using 2 by (simp_all add: k_def)
    have "k \<noteq> 0" using 2 k by simp
    have r: "k \<le> length xs" "t = (op, take k xs, op # take k xs)" "rest = drop k xs"
      using assms(1) \<open>k \<noteq> 0\<close> by (auto simp: nextToken_def s slice_def Let_def k split: if_splits)
    then show ?thesis using \<open>k \<noteq> 0\<close> by (simp add: s wf_token_def tokenBytes_def k)
  next
    case 3
    define n where "n = nat (- opLength op)"
    have n: "n \<le> 4" "0 < n" "\<not> 1 < opLength op" "opLength op \<noteq> 1" using 3 by (auto simp: n_def)
    define d where "d = int32 (le_int (take n xs))"
    have r: "n \<le> length xs" "0 \<le> d" "d \<le> int (length xs - n)"
      "t = (op, take (nat d) (drop n xs), op # take (n + nat d) xs)" "rest = drop (n + nat d) xs"
      using assms(1) n by (auto simp: nextToken_def s Let_def n_def d_def split: if_splits)
    have "le_int (take n xs) < 2 ^ 31" using r(2) int32_le_int [of "take n xs"] n by (simp add: d_def)
    then have d: "d = le_int (take n xs)" using le_int_bound [of "take n xs"] by (simp add: d_def int32_id)
    have "int_le n d = take n xs" unfolding d by (rule int_le_le_int) (simp add: r)
    moreover have "d < 256 ^ n" using le_int_bound [of "take n xs"] r(1) by (simp add: d min.absorb2)
    moreover have "take n xs @ take (nat d) (drop n xs) @ drop (n + nat d) xs = xs"
      by (metis append_assoc append_take_drop_id take_add)
    ultimately show ?thesis using r n \<open>le_int (take n xs) < 2 ^ 31\<close>
      by (auto simp: wf_token_def tokenBytes_def s Let_def take_add simp flip: n_def d)
  qed
qed


lemma wf_token_not_Nil [simp]: "wf_token t \<Longrightarrow> tokenBytes t \<noteq> []"
  by (auto simp: wf_token_def tokenBytes_def Let_def split: prod.splits if_splits)


lemma tokenize_prefix:
  "tokenize s = (ts, e) \<Longrightarrow>
     list_all wf_token ts \<and> (\<exists>rest. s = concat (map tokenBytes ts) @ rest \<and> (e = None \<longrightarrow> rest = []))"
proof (induction s arbitrary: ts rule: tokenize.induct)
  case (1 s)
  show ?case
  proof (cases "s = []")
    case True
    then show ?thesis using "1.prems" by (auto simp: tokenize.simps [of "[]"])
  next
    case False
    show ?thesis
    proof (cases "nextToken s")
      case (Inl e')
      then show ?thesis using "1.prems" False by (auto simp: tokenize.simps [of s])
    next
      case (Inr p)
      obtain t rest where p: "p = (t, rest)" by (cases p)
      obtain ts' where ts: "tokenize rest = (ts', e)" "ts = t # ts'"
        using "1.prems" False Inr by (auto simp: tokenize.simps [of s] p split: prod.splits)
      with "1.IH" [OF False Inr p [symmetric], of ts'] nextToken_wf [of s t rest] False Inr p show ?thesis by auto
    qed
  qed
qed

subsection \<open>Removing opcodes\<close>

text \<open>After any number of turns the result is the part of the script read so far without the matching tokens.\<close>

lemma foldl_removeStep:
  assumes "list_all wf_token ts" "s = pre @ concat (map tokenBytes ts) @ rest"
  shows "foldl (removeStep s P) (result, length pre, found) ts =
    (if result \<noteq> None \<or> list_ex P ts
     then Some ((case result of None \<Rightarrow> pre | Some r \<Rightarrow> r) @ concat (map tokenBytes (filter (\<lambda>t. \<not> P t) ts))) else None,
     length pre + length (concat (map tokenBytes ts)), found \<or> list_ex P ts)"
  using assms
proof (induction ts arbitrary: pre result found)
  case Nil
  then show ?case by (auto split: option.splits)
next
  case (Cons t ts)
  have s: "s = (pre @ tokenBytes t) @ concat (map tokenBytes ts) @ rest" using Cons.prems by simp
  have step: "removeStep s P (result, length pre, found) t =
    (if P t then Some (case result of None \<Rightarrow> pre | Some r \<Rightarrow> r) else map_option (\<lambda>r. r @ tokenBytes t) result,
     length (pre @ tokenBytes t), P t \<or> found)"
    by (auto simp: removeStep_def s tokenBytes_def slice_append slice_def Let_def split: prod.splits option.splits)
  have "list_all wf_token ts" using Cons.prems by simp
  note IH = Cons.IH [OF this s]
  show ?case unfolding foldl_Cons step IH by (cases result) simp_all
qed

lemma removeOpcode_tokens:
  assumes "tokenize s = (ts, None)"
  shows "foldl (removeStep s P) (None, 0, False) ts =
    (if list_ex P ts then Some (concat (map tokenBytes (filter (\<lambda>t. \<not> P t) ts))) else None, length s, list_ex P ts)"
proof -
  have "list_all wf_token ts" "s = [] @ concat (map tokenBytes ts) @ []" using tokenize_prefix [OF assms] by auto
  from foldl_removeStep [OF this, of P None False] this(2) show ?thesis by auto
qed

lemma filter_no_match: "\<not> list_ex P ts \<Longrightarrow> filter (\<lambda>t. \<not> P t) ts = ts"
  by (induction ts) auto

lemma removeOpcode_result:
  assumes "tokenize s = (ts, None)"
  shows "(case foldl (removeStep s P) (None, 0, False) ts of (result, _, _) \<Rightarrow> case result of None \<Rightarrow> s | Some r \<Rightarrow> r) =
    concat (map tokenBytes (filter (\<lambda>t. \<not> P t) ts))"
proof -
  have "concat (map tokenBytes ts) = s" using tokenize_prefix [OF assms] by auto
  then show ?thesis unfolding removeOpcode_tokens [OF assms] by (simp add: filter_no_match)
qed

subsection \<open>Numbers\<close>

lemma numBytes_le_int: "bs = [] \<or> uint (last bs) \<noteq> 0 \<Longrightarrow> numBytes (le_int bs) = bs"
proof (induction bs)
  case Nil
  then show ?case by (simp add: numBytes.simps)
next
  case (Cons b bs)
  have b: "0 \<le> uint b" "uint b < 256" by (simp, rule uint_bounds)
  have pos: "0 < le_int (b # bs)"
  proof (cases "bs = []")
    case True
    then show ?thesis using Cons.prems b by (simp add: order_less_le)
  next
    case False
    then have "le_int bs \<noteq> 0" using Cons by (metis last_ConsR list.distinct(1) numBytes.simps less_irrefl)
    then have "0 < le_int bs" using le_int_bound [of bs] by linarith
    then show ?thesis unfolding le_int.simps using b by linarith
  qed
  have "word_of_int (le_int (b # bs) AND 255) = b"
  proof -
    have "le_int (b # bs) AND 255 = uint b" using b take_bit_eq_mask [of 8 "le_int (b # bs)"] by (simp add: mask_eq_exp_minus_1 take_bit_eq_mod)
    then show ?thesis by simp
  qed
  moreover have "drop_bit 8 (le_int (b # bs)) = le_int bs" using b by (simp add: drop_bit_eq_div)
  moreover have "numBytes (le_int bs) = bs" using Cons by (cases bs) auto
  ultimately show ?case using pos by (subst numBytes.simps) (simp del: le_int.simps)
qed

lemma numBytes_pos:
  "0 < m \<Longrightarrow> numBytes m \<noteq> [] \<and> uint (last (numBytes m)) \<noteq> 0 \<and> le_int (numBytes m) = m"
proof (induction m rule: numBytes.induct)
  case (1 m)
  have m: "m AND 255 = m mod 256" using take_bit_eq_mask [of 8 m] by (simp add: mask_eq_exp_minus_1 take_bit_eq_mod)
  have d: "drop_bit 8 m = m div 256" by (simp add: drop_bit_eq_div)
  have u: "uint (word_of_int (m mod 256) :: byte) = m mod 256" by (simp add: uint_word_of_int)
  show ?case
  proof (cases "m div 256 = 0")
    case True
    then have "m mod 256 = m" using mult_div_mod_eq [of 256 m] by simp
    then show ?thesis using "1.prems" True u by (simp add: numBytes.simps [of m] numBytes.simps [of 0] m d)
  next
    case False
    then have "0 < m div 256" using "1.prems" pos_imp_zdiv_neg_iff [of 256 m] by linarith
    then show ?thesis using "1.IH" "1.prems" u by (simp add: numBytes.simps [of m] m d)
  qed
qed

lemma or_shift_byte: "uint (b :: byte) OR 256 * m = uint b + 256 * m" for m :: int
proof -
  have "uint b AND push_bit 8 m = 0"
    by (rule bit_eqI) (auto simp: bit_simps dest: bit_imp_le_length)
  from disjunctive_add_eq_or [OF this] show ?thesis by (simp add: push_bit_eq_mult mult.commute)
qed

lemma int64_or: "int64 (a OR b) = int64 a OR int64 b"
  by (rule bit_eqI) (simp add: int64_def bit_simps)

lemma int64_and_not: "int64 (a AND NOT b) = int64 a AND NOT (int64 b)"
  by (rule bit_eqI) (simp add: int64_def bit_simps)

lemma decodeNum_le_int:
  "i + length v \<le> 32 \<Longrightarrow> decodeNum i v (int64 r) = int64 (r OR push_bit (8 * i) (le_int v))"
proof (induction v arbitrary: i r)
  case Nil
  then show ?case by simp
next
  case (Cons b v)
  have "shiftInt64 (uint b) i = int64 (push_bit (8 * i) (uint b))" using Cons.prems by (simp add: shiftInt64_def)
  then have "int64 r OR shiftInt64 (uint b) i = int64 (r OR push_bit (8 * i) (uint b))" by (simp add: int64_or)
  then have "decodeNum i (b # v) (int64 r) = int64 ((r OR push_bit (8 * i) (uint b)) OR push_bit (8 * (i + 1)) (le_int v))"
    using Cons.IH [of "i + 1" "r OR push_bit (8 * i) (uint b)"] Cons.prems by simp
  also have "push_bit (8 * (i + 1)) (le_int v) = push_bit (8 * i) (256 * le_int v)" by (simp add: push_bit_eq_mult power_add algebra_simps)
  also have "(r OR push_bit (8 * i) (uint b)) OR push_bit (8 * i) (256 * le_int v) = r OR push_bit (8 * i) (le_int (b # v))"
    by (simp only: le_int.simps or_shift_byte [symmetric] push_bit_or or.assoc)
  finally show ?case .
qed

lemma decodeNum_all: "length v \<le> 32 \<Longrightarrow> decodeNum 0 v 0 = int64 (le_int v)"
  using decodeNum_le_int [of 0 v 0] by (simp add: int64_def)

text \<open>The number a byte string stands for: the last byte carries the sign.\<close>

definition numValue :: "bytes \<Rightarrow> int" where
  "numValue v = (if v = [] then 0
     else if uint (last v) < 128 then le_int v else - (le_int v - 128 * 256 ^ (length v - 1)))"

definition minimal :: "bytes \<Rightarrow> bool" where
  "minimal v \<longleftrightarrow> v = [] \<or> \<not> (uint (last v) = 0 \<or> uint (last v) = 128) \<or> (length v \<noteq> 1 \<and> 128 \<le> uint (v ! (length v - 2)))"

lemma checkMinimalDataEncoding_iff: "checkMinimalDataEncoding v = Inr () \<longleftrightarrow> minimal v"
  by (auto simp: checkMinimalDataEncoding_def minimal_def guardE_def byte_high byte_low last_conv_nth)

lemma le_int_last:
  assumes "v \<noteq> []"
  shows "le_int v = le_int (butlast v) + 256 ^ (length v - 1) * uint (last v)"
  using le_int_snoc [of "butlast v" "last v"] assms by simp

text \<open>Clearing the sign bit subtracts it.\<close>

lemma clear_sign_bit:
  assumes "v \<noteq> []" "128 \<le> uint (last v)"
  shows "le_int v AND NOT (push_bit (8 * (length v - 1)) 0x80) = le_int v - 128 * 256 ^ (length v - 1)"
proof -
  define k where "k = 8 * (length v - 1) + 7"
  have "(2 :: int) ^ 8 = 256" by simp
  then have p: "(256 :: int) ^ (length v - 1) = 2 ^ (8 * (length v - 1))" by (metis power_mult)
  have e: "push_bit (8 * (length v - 1)) (0x80 :: int) = 2 ^ k" "128 * 256 ^ (length v - 1) = (2 :: int) ^ k"
    by (simp_all only: push_bit_eq_mult k_def p power_add) simp_all
  have "le_int (butlast v) < 256 ^ (length v - 1)" "0 \<le> le_int (butlast v)" using le_int_bound [of "butlast v"] by simp_all
  then have "le_int v div 2 ^ (8 * (length v - 1)) = uint (last v)"
    unfolding p le_int_last [OF assms(1)] by simp
  then have "drop_bit 7 (drop_bit (8 * (length v - 1)) (le_int v)) = uint (last v) div 128" by (simp add: drop_bit_eq_div)
  then have "drop_bit k (le_int v) = uint (last v) div 128" by (simp add: k_def add.commute)
  moreover have "uint (last v) div 128 = 1" using assms(2) uint_bounds(1) [of "last v"] by simp
  ultimately have "bit (le_int v) k" by (simp add: bit_iff_odd_drop_bit)
  then have "le_int v AND 2 ^ k = 2 ^ k" by (intro bit_eqI) (auto simp: bit_simps)
  moreover have "le_int v = (le_int v AND NOT (2 ^ k)) OR (le_int v AND 2 ^ k)" by (rule bit_eqI) (auto simp: bit_simps)
  moreover have "(le_int v AND NOT (2 ^ k)) AND (le_int v AND 2 ^ k) = 0" by (rule bit_eqI) (auto simp: bit_simps)
  ultimately show ?thesis unfolding e by (metis add_diff_cancel_right' disjunctive_add_eq_or)
qed

lemma power_256_le: "k \<le> 7 \<Longrightarrow> (256 :: int) ^ k \<le> 256 ^ 7"
  by (intro power_increasing) simp_all

lemma numValue_bound:
  assumes "length v \<le> 8"
  shows "\<bar>numValue v\<bar> < 2 ^ 63"
proof (cases "v = []")
  case False
  define P where "P = (256 :: int) ^ (length v - 1)"
  have P: "P \<le> 256 ^ 7" "0 < P" using assms power_256_le [of "length v - 1"] by (auto simp: P_def)
  have l: "le_int v = le_int (butlast v) + P * uint (last v)" "le_int (butlast v) < P" "0 \<le> le_int (butlast v)"
    using le_int_last [OF False] le_int_bound [of "butlast v"] by (simp_all add: P_def)
  have main: "le_int (butlast v) + P * x < 128 * P" "0 \<le> le_int (butlast v) + P * x" if "0 \<le> x" "x < 128" for x
  proof -
    have "P * x \<le> P * 127" "0 \<le> P * x" using P that by (intro mult_left_mono, simp_all)
    with l show "le_int (butlast v) + P * x < 128 * P" "0 \<le> le_int (butlast v) + P * x" by linarith+
  qed
  have "128 * P \<le> 2 ^ 63" using P by simp
  moreover have "numValue v = (if uint (last v) < 128 then le_int (butlast v) + P * uint (last v)
      else - (le_int (butlast v) + P * (uint (last v) - 128)))"
    using False l(1) by (simp add: numValue_def P_def algebra_simps)
  ultimately show ?thesis
    using main [of "uint (last v)"] main [of "uint (last v) - 128"] uint_bounds(1) [of "last v"] by auto
qed (simp add: numValue_def)

lemma MakeScriptNum_value:
  assumes "length v \<le> L" "L \<le> 8" "requireMinimal \<longrightarrow> minimal v"
  shows "MakeScriptNum v requireMinimal L = Inr (numValue v)"
proof (cases "v = []")
  case True
  then show ?thesis using assms by (simp add: MakeScriptNum_def numValue_def checkMinimalDataEncoding_def guardE_def bindE_def)
next
  case False
  have b: "\<bar>numValue v\<bar> < 2 ^ 63" using assms by (intro numValue_bound) simp
  have m: "requireMinimal \<longrightarrow> checkMinimalDataEncoding v = Inr ()" using assms by (simp add: checkMinimalDataEncoding_iff)
  have d: "decodeNum 0 v 0 = int64 (le_int v)" using assms by (intro decodeNum_all) simp
  show ?thesis
  proof (cases "uint (last v) < 128")
    case True
    then show ?thesis using False m assms b d
      by (auto simp: MakeScriptNum_def guardE_def bindE_def byte_high Let_def int64_id numValue_def)
  next
    case high: False
    have "shiftInt64 128 (length v - 1) = int64 (push_bit (8 * (length v - 1)) 0x80)" using assms by (simp add: shiftInt64_def)
    then have "int64 (le_int v) AND NOT (shiftInt64 128 (length v - 1)) = int64 (- numValue v)"
      using False high clear_sign_bit [of v] by (simp add: numValue_def flip: int64_and_not)
    moreover have "int64 (- numValue v) = - numValue v" "int64 (numValue v) = numValue v" using b by (simp_all add: int64_id)
    ultimately show ?thesis using False high m assms d
      by (auto simp: MakeScriptNum_def guardE_def bindE_def byte_high Let_def)
  qed
qed

lemma snoc_last_two: "w \<noteq> [] \<Longrightarrow> (w @ [u]) ! (length (w @ [u]) - 2) = last w"
  by (simp add: nth_append last_conv_nth)

text \<open>The encoding of a number other than zero, in terms of the bytes of its absolute value.\<close>

lemma scriptNum_Bytes_cases:
  assumes "n \<noteq> 0" "\<bar>n\<bar> < 2 ^ 63" "w = numBytes \<bar>n\<bar>"
  shows "scriptNum_Bytes n = Some
    (if 128 \<le> uint (last w) then w @ [if n < 0 then 0x80 else 0x00]
     else if n < 0 then butlast w @ [last w OR 0x80] else w)"
proof -
  have "(if n < 0 then int64 (- n) else n) = \<bar>n\<bar>" using assms by (simp add: int64_id)
  moreover have "w \<noteq> []" using numBytes_pos [of "\<bar>n\<bar>"] assms by simp
  ultimately show ?thesis using assms by (auto simp: scriptNum_Bytes_def Let_def byte_high not_less)
qed

lemma scriptNum_Bytes_sound:
  assumes "scriptNum_Bytes n = Some v" "\<bar>n\<bar> < 2 ^ 63"
  shows "minimal v \<and> numValue v = n"
proof (cases "n = 0")
  case True
  then show ?thesis using assms by (simp add: scriptNum_Bytes_def minimal_def numValue_def)
next
  case False
  define w where "w = numBytes \<bar>n\<bar>"
  have w: "w \<noteq> []" "uint (last w) \<noteq> 0" "le_int w = \<bar>n\<bar>" using numBytes_pos [of "\<bar>n\<bar>"] False by (simp_all add: w_def)
  have b: "uint (last w) < 256" by (rule uint_bounds)
  have l: "le_int w = le_int (butlast w) + 256 ^ (length w - 1) * uint (last w)" using w(1) by (rule le_int_last)
  have v: "v = (if 128 \<le> uint (last w) then w @ [if n < 0 then 0x80 else 0x00]
     else if n < 0 then butlast w @ [last w OR 0x80] else w)"
    using scriptNum_Bytes_cases [OF False assms(2) w_def] assms(1) by simp
  consider "128 \<le> uint (last w)" | "uint (last w) < 128" "n < 0" | "uint (last w) < 128" "\<not> n < 0" by linarith
  then show ?thesis
  proof cases
    case 1
    then have "v ! (length v - 2) = last w" unfolding v using snoc_last_two [OF w(1)] by auto
    then show ?thesis using 1 w v by (auto simp: minimal_def numValue_def le_int_snoc)
  next
    case 2
    then have "uint (last w OR 0x80) = uint (last w) + 128" by (intro byte_or)
    moreover have "uint (last w) + 128 \<noteq> 0" using uint_nonnegative [of "last w"] by linarith
    ultimately show ?thesis using 2 w v l by (simp add: minimal_def numValue_def le_int_snoc algebra_simps)
  next
    case 3
    then show ?thesis using w v b by (simp add: minimal_def numValue_def)
  qed
qed

lemma scriptNum_Bytes_complete:
  assumes "minimal v" "length v \<le> 8"
  shows "scriptNum_Bytes (numValue v) = Some v"
proof (cases "v = []")
  case True
  then show ?thesis by (simp add: numValue_def scriptNum_Bytes_def)
next
  case False
  define w u where "w = butlast v" and "u = last v"
  have v: "v = w @ [u]" using False by (simp add: w_def u_def)
  have b: "\<bar>numValue v\<bar> < 2 ^ 63" using assms(2) by (rule numValue_bound)
  define t where "t = (if uint u < 128 then u else u - 128)"
  have u: "uint u < 256" "0 \<le> uint u" by (rule uint_bounds, simp)
  have t: "uint t = (if uint u < 128 then uint u else uint u - 128)" "uint t < 128"
    using u by (simp_all add: t_def uint_sub_if')
  have n: "numValue v = (if uint u < 128 then le_int (w @ [t]) else - le_int (w @ [t]))"
    by (simp add: numValue_def v le_int_snoc t algebra_simps)
  have sgn: "uint u < 128 \<or> t OR 0x80 = u" using t byte_or [of t] by (auto simp: word_uint_eq_iff)
  show ?thesis
  proof (cases "uint t = 0")
    case True
    then have w: "w \<noteq> []" "128 \<le> uint (last w)"
      using assms(1) t u snoc_last_two [of w u] by (auto simp: minimal_def v split: if_splits)
    have u0: "uint u < 128 \<longrightarrow> u = 0" "\<not> uint u < 128 \<longrightarrow> u = 128" using True t(1) by (simp_all add: word_uint_eq_iff split: if_splits)
    have "le_int (w @ [t]) = le_int w" using True by (simp add: le_int_snoc)
    moreover have "0 < le_int w"
      using w le_int_last [of w] le_int_bound [of "butlast w"] by (simp add: add_nonneg_pos)
    moreover have "numBytes (le_int w) = w" using w by (intro numBytes_le_int) auto
    ultimately have "numValue v \<noteq> 0" "w = numBytes \<bar>numValue v\<bar>" "numValue v < 0 \<longleftrightarrow> \<not> uint u < 128" using n by auto
    from scriptNum_Bytes_cases [OF this(1) b this(2)] this(3) show ?thesis using w(2) v u0 by auto
  next
    case False
    have tu: "uint u < 128 \<longrightarrow> t = u" by (simp add: t_def)
    have "numBytes (le_int (w @ [t])) = w @ [t]" using False by (intro numBytes_le_int) simp
    moreover have "0 < le_int (w @ [t])"
      using le_int_bound [of w] uint_nonnegative [of t] False
      by (simp only: le_int_snoc) (intro add_nonneg_pos mult_pos_pos, auto simp: order_less_le)
    ultimately have "numValue v \<noteq> 0" "w @ [t] = numBytes \<bar>numValue v\<bar>" "numValue v < 0 \<longleftrightarrow> \<not> uint u < 128" using n by auto
    from scriptNum_Bytes_cases [OF this(1) b this(2)] this(3) show ?thesis using t(2) v sgn tu by auto
  qed
qed

subsection \<open>The builder\<close>

text \<open>What the engine pushes for a token that only pushes data.\<close>

definition pushedItem :: "token \<Rightarrow> bytes option" where
  "pushedItem t = (case t of (op, data, _) \<Rightarrow>
     if op = OP_0 then Some []
     else if op \<le> OP_PUSHDATA4 then Some data
     else if op = OP_1NEGATE then scriptNum_Bytes (- 1)
     else if OP_1 \<le> op \<and> op \<le> OP_16 then scriptNum_Bytes (uint (op - (OP_1 - 1)))
     else None)"

definition pushToken :: "bytes \<Rightarrow> token" where
  "pushToken data =
     (let raw = pushBytes data in (hd raw, if length raw = 1 then [] else data, raw))"

lemma length_pushBytes: "length (pushBytes data) = canonicalDataSize data"
  by (auto simp: pushBytes_def canonicalDataSize_def Let_def)

lemma small_scriptNum_Bytes: "0 < k \<Longrightarrow> k < 128 \<Longrightarrow> scriptNum_Bytes k = Some [word_of_int k]"
proof -
  assume k: "0 < k" "k < 128"
  then have u: "uint (word_of_int k :: byte) = k" by (simp add: uint_word_of_int)
  have "scriptNum_Bytes (numValue [word_of_int k]) = Some [word_of_int k]"
    by (rule scriptNum_Bytes_complete) (use k u in \<open>simp_all add: minimal_def\<close>)
  then show ?thesis using k u by (simp add: numValue_def)
qed

definition pushCorrect :: "bytes \<Rightarrow> bool" where
  "pushCorrect data \<longleftrightarrow> (let t = pushToken data in
     wf_token t \<and> isCanonicalPush (fst t) (fst (snd t)) \<and> pushedItem t = Some (if data = [0] then [] else data))"

lemma pushCorrect_small:
  assumes "1 \<le> k" "k \<le> 16"
  shows "pushCorrect [word_of_int k]"
proof -
  have "k \<in> {1, 2, 3, 4, 5, 6, 7, 8, 9, 10, 11, 12, 13, 14, 15, 16}"
    using assms unfolding insert_iff empty_iff by presburger
  then have p: "pushBytes [word_of_int k] = [word_of_int (80 + k)]" "(word_of_int k :: byte) \<noteq> 0"
    "opLength (word_of_int (80 + k)) = 1"
    by (auto simp: pushBytes_def opcode_defs opLength_def)
  have u: "uint (word_of_int (80 + k) :: byte) = 80 + k" "(word_of_int (80 + k) :: byte) - (OP_1 - 1) = word_of_int k"
    "uint (word_of_int k :: byte) = k"
    using assms by (simp_all add: uint_word_of_int OP_1_def del: of_int_add) (simp add: OP_1_def)
  have o: "(word_of_int (80 + k) :: byte) \<noteq> OP_0" "\<not> (word_of_int (80 + k) :: byte) \<le> OP_PUSHDATA4" "(word_of_int (80 + k) :: byte) \<noteq> OP_1NEGATE"
    "OP_1 \<le> (word_of_int (80 + k) :: byte)" "(word_of_int (80 + k) :: byte) \<le> OP_16"
    using assms u(1) by (auto simp: word_le_def word_uint_eq_iff opcode_defs simp del: of_int_add)
  then have "pushedItem (pushToken [word_of_int k]) = Some [word_of_int k]"
    using u assms by (simp add: pushedItem_def pushToken_def p small_scriptNum_Bytes del: of_int_add)
  moreover have "isCanonicalPush (word_of_int (80 + k)) []" using o by (auto simp: isCanonicalPush_def opcode_defs simp del: of_int_add)
  ultimately show ?thesis using p by (simp add: pushCorrect_def Let_def pushToken_def wf_token_def del: of_int_add)
qed

lemma scriptNum_Bytes_minus_one: "scriptNum_Bytes (- 1) = Some [0x81]"
  using scriptNum_Bytes_complete [of "[0x81]"] by (simp add: minimal_def numValue_def)

lemma uint_of_length:
  "n < 256 \<Longrightarrow> uint (word_of_nat n :: byte) = int n"
  "n < 65536 \<Longrightarrow> uint (word_of_nat n :: 16 word) = int n"
  "n < 4294967296 \<Longrightarrow> uint (word_of_nat n :: 32 word) = int n"
  by (simp_all add: unsigned_of_nat take_bit_nat_eq_self)

lemma pushCorrect_direct:
  assumes "1 \<le> length data" "length data < 76" "\<not> (length data = 1 \<and> data ! 0 \<le> 16)" "data \<noteq> [0x81]"
  shows "pushCorrect data"
proof -
  have "\<not> (length data = 1 \<and> data ! 0 = 0x81)" using assms by (auto simp: length_Suc_conv)
  then have "pushBytes data = word_of_int (int (length data)) # data" using assms
    by (auto simp: pushBytes_def Let_def)
  then obtain op :: byte where op: "op = word_of_int (int (length data))" "pushBytes data = op # data" by blast
  have u: "uint op = int (length data)" using assms by (simp add: op uint_of_length)
  have l: "opLength op = int (length data) + 1" using assms u by (simp add: opLength_def opcode_defs word_le_def)
  have o: "op \<noteq> OP_0" "op \<le> OP_PUSHDATA4" "op < OP_PUSHDATA1" "\<not> OP_16 < op" "op \<noteq> OP_PUSHDATA1" "op \<noteq> OP_PUSHDATA2" "op \<noteq> OP_PUSHDATA4"
    using assms u by (auto simp: opcode_defs word_le_def word_less_def word_uint_eq_iff)
  then have "isCanonicalPush op data" using assms(3) by (auto simp: isCanonicalPush_def Let_def)
  moreover have "pushToken data = (op, data, op # data)" using assms op(2) by (auto simp: pushToken_def)
  moreover have "data \<noteq> [0]" using assms(3) by auto
  ultimately show ?thesis using assms l o by (simp add: pushCorrect_def wf_token_def pushedItem_def)
qed

lemma pushCorrect_long:
  assumes "76 \<le> length data" "int (length data) < 2 ^ 31"
  shows "pushCorrect data"
proof -
  have d: "\<not> (length data = 0 \<or> length data = 1 \<and> data ! 0 = 0)" "\<not> (length data = 1 \<and> data ! 0 \<le> 16)"
    "\<not> (length data = 1 \<and> data ! 0 = 0x81)" "\<not> length data < 0x4c" "data \<noteq> [0]" using assms by auto
  consider "length data \<le> 0xff" | "\<not> length data \<le> 0xff" "int (length data) \<le> 0xffff" | "\<not> length data \<le> 0xff" "\<not> int (length data) \<le> 0xffff" by linarith
  then show ?thesis
  proof cases
    case 1
    then have "pushBytes data = OP_PUSHDATA1 # int_le 1 (int (length data)) @ data" using d by (simp add: pushBytes_def)
    with 1 d assms show ?thesis
      by (simp add: pushCorrect_def pushToken_def Let_def wf_token_def isCanonicalPush_def pushedItem_def opLength_def opcode_defs)
  next
    case 2
    then have "pushBytes data = OP_PUSHDATA2 # int_le 2 (int (length data)) @ data" using d
      by (simp add: pushBytes_def PutUint16_def uint_of_length)
    with 2 d assms show ?thesis
      by (simp add: pushCorrect_def pushToken_def Let_def wf_token_def isCanonicalPush_def pushedItem_def opLength_def opcode_defs)
  next
    case 3
    then have "pushBytes data = OP_PUSHDATA4 # int_le 4 (int (length data)) @ data" using d assms
      by (simp add: pushBytes_def PutUint32_def uint_of_length)
    with 3 d assms show ?thesis
      by (simp add: pushCorrect_def pushToken_def Let_def wf_token_def isCanonicalPush_def pushedItem_def opLength_def opcode_defs)
  qed
qed

lemma pushCorrect_zero: "pushCorrect []" "pushCorrect [0]" "pushCorrect [0x81]"
  by (simp_all add: pushCorrect_def pushToken_def pushBytes_def wf_token_def opLength_def isCanonicalPush_def pushedItem_def
      opcode_defs scriptNum_Bytes_minus_one)

lemma pushCorrect_all:
  assumes "int (length data) < 2 ^ 31"
  shows "pushCorrect data"
proof -
  consider "data = [] \<or> data = [0] \<or> data = [0x81]" | b where "data = [b]" "b \<noteq> 0" "b \<le> 16"
    | "1 \<le> length data" "length data < 76" "\<not> (length data = 1 \<and> data ! 0 \<le> 16)" "data \<noteq> [0x81]" | "76 \<le> length data"
  proof (cases data rule: list.exhaust)
    case Nil
    then show thesis using that(1) by simp
  next
    case (Cons b bs)
    show thesis
    proof (cases bs)
      case Nil
      then show thesis using that(1,2) that(3) Cons by (cases "b = 0 \<or> b = 0x81 \<or> b \<le> 16") auto
    next
      case (Cons c cs)
      then show thesis using that(3,4) \<open>data = b # bs\<close> by (cases "length data < 76") simp_all
    qed
  qed
  then show ?thesis
  proof cases
    case 2
    then have "uint b \<le> 16" "uint b \<noteq> 0" by (auto simp: word_le_def word_uint_eq_iff)
    then show ?thesis using pushCorrect_small [of "uint b"] uint_nonnegative [of b] 2 by (simp add: order_less_le)
  qed (use assms pushCorrect_zero pushCorrect_direct pushCorrect_long in auto)
qed

subsection \<open>Classes\<close>

lemma ScriptClass_String_fault: "ScriptClass_String t = None \<longleftrightarrow> t = 4"
proof -
  have "uint t = 4 \<longleftrightarrow> t = 4" by (simp add: word_uint_eq_iff)
  then show ?thesis by (auto simp: ScriptClass_String_def scriptClassToName_def)
qed

lemma GetScriptClass_payTo:
  assumes "length key = 32"
  shows "payToWitnessTaprootScript key = Inr (OP_1 # OP_DATA_32 # key)"
    and "GetScriptClass (OP_1 # OP_DATA_32 # key) = WitnessV1TaprootTy"
    and "payToMerkleRootScript key = Inr (OP_2 # OP_DATA_32 # key)"
    and "GetScriptClass (OP_2 # OP_DATA_32 # key) = WitnessV2MerkleRootTy"
  using assms
  by (auto simp: payToWitnessTaprootScript_def payToMerkleRootScript_def ScriptBuilder_Script_def AddData_def AddOp_def
      NewScriptBuilder_def canonicalDataSize_def pushBytes_def MaxScriptSize_def MaxScriptElementSize_def opcode_defs
      GetScriptClass_def isNullDataScript_def extractWitnessV1KeyBytes_def extractWitnessV2MerkleRootBytes_def)

section \<open>Properties\<close>


text \<open>
  Removing an opcode from a script that parses leaves exactly the other opcodes, whether the opcode is given by its
  value or by the data it pushes canonically; in the second case the function also reports whether something matched.
\<close>

theorem removeOpcode_filters:
  assumes "tokenize s = (ts, None)"
  shows "removeOpcodeRaw s opcode = concat (map tokenBytes (filter (\<lambda>(op, _, _). op \<noteq> opcode) ts)) \<and>
    (item \<noteq> [] \<longrightarrow> removeOpcodeByData s item =
      (concat (map tokenBytes (filter (\<lambda>(op, data, _). \<not> (isCanonicalPush op data \<and> data = item)) ts)),
       list_ex (\<lambda>(op, data, _). isCanonicalPush op data \<and> data = item) ts))"
proof -
  define P :: "token \<Rightarrow> bool" where "P = (\<lambda>(op, _, _). op = opcode)"
  define Q :: "token \<Rightarrow> bool" where "Q = (\<lambda>(op, data, _). isCanonicalPush op data \<and> data = item)"
  have neg: "(\<lambda>(op, _, _). op \<noteq> opcode) = (\<lambda>t. \<not> P t)"
    "(\<lambda>(op, data, _). \<not> (isCanonicalPush op data \<and> data = item)) = (\<lambda>t. \<not> Q t)"
    by (auto simp: P_def Q_def)
  have empty: "ts = []" if "s = []" using assms that by (simp add: tokenize.simps [of "[]"])
  have "removeOpcodeRaw s opcode = concat (map tokenBytes (filter (\<lambda>t. \<not> P t) ts))"
    unfolding removeOpcodeRaw_def P_def [symmetric] assms fst_conv
    using removeOpcode_result [OF assms, of P] empty by (auto split: prod.splits option.splits)
  moreover have "removeOpcodeByData s item = (concat (map tokenBytes (filter (\<lambda>t. \<not> Q t) ts)), list_ex Q ts)" if "item \<noteq> []"
    unfolding removeOpcodeByData_def Q_def [symmetric] assms fst_conv
    using removeOpcode_result [OF assms, of Q] removeOpcode_tokens [OF assms, of Q] empty that
    by (auto split: prod.splits option.splits)
  ultimately show ?thesis unfolding neg Q_def [symmetric] by blast
qed

theorem removeOpcode_filters_witness:
  "tokenize [0x01, 0xaa, 0x51] = ([(0x01, [0xaa], [0x01, 0xaa]), (0x51, [], [0x51])], None) \<and>
   removeOpcodeRaw [0x01, 0xaa, 0x51] 0x51 = [0x01, 0xaa] \<and> removeOpcodeByData [0x01, 0xaa, 0x51] [0xaa] = ([0x51], True)"
proof -
  have t: "tokenize [0x01, 0xaa, 0x51] = ([(0x01, [0xaa], [0x01, 0xaa]), (0x51, [], [0x51])], None)" 
    by (simp add: tokenize.simps [of "_ # _"] tokenize.simps [of "[]"] nextToken_def opLength_def opcode_defs slice_def)
  have c: "isCanonicalPush 0x01 [0xaa]" by code_simp
  show ?thesis using removeOpcode_filters [OF t, of "0x51" "[0xaa]"] t c
    by (simp add: tokenBytes_def)
qed

text \<open>
  Script numbers: within the width of a number of at most 8 bytes, the byte strings that decode with the minimality
  check are exactly the encodings of numbers, each of one number; every number but the least 64-bit one has an encoding,
  and for that one the encoder faults.
\<close>

theorem scriptNum_roundtrip:
  assumes "L \<le> 8"
  shows "(MakeScriptNum v True L = Inr n \<longleftrightarrow> \<bar>n\<bar> < 2 ^ 63 \<and> scriptNum_Bytes n = Some v \<and> length v \<le> L) \<and>
    (- (2 ^ 63) \<le> n \<and> n < 2 ^ 63 \<longrightarrow> (scriptNum_Bytes n = None \<longleftrightarrow> n = - (2 ^ 63)))"
proof -
  have decode: "MakeScriptNum v True L = Inr n \<longleftrightarrow> \<bar>n\<bar> < 2 ^ 63 \<and> scriptNum_Bytes n = Some v \<and> length v \<le> L"
  proof
    assume a: "MakeScriptNum v True L = Inr n"
    then have c: "length v \<le> L" "minimal v"
      by (auto simp: MakeScriptNum_def bindE_def guardE_def simp flip: checkMinimalDataEncoding_iff split: if_splits sum.splits)
    then have "n = numValue v" using MakeScriptNum_value [of v L True] assms a by simp
    then show "\<bar>n\<bar> < 2 ^ 63 \<and> scriptNum_Bytes n = Some v \<and> length v \<le> L"
      using c assms numValue_bound [of v] scriptNum_Bytes_complete [of v] by simp
  next
    assume "\<bar>n\<bar> < 2 ^ 63 \<and> scriptNum_Bytes n = Some v \<and> length v \<le> L"
    then show "MakeScriptNum v True L = Inr n" using scriptNum_Bytes_sound [of n v] MakeScriptNum_value [of v L True] assms by simp
  qed
  have least: "scriptNum_Bytes n = None \<longleftrightarrow> n = - (2 ^ 63)" if "- (2 ^ 63) \<le> n" "n < 2 ^ 63"
  proof (cases "n = - (2 ^ 63)")
    case True
    have "scriptNum_Bytes (- (2 ^ 63)) = None" by code_simp
    with True show ?thesis by simp
  next
    case False
    then have "\<bar>n\<bar> < 2 ^ 63" using that by simp
    then show ?thesis using False scriptNum_Bytes_cases [of n] by (cases "n = 0") (simp_all add: scriptNum_Bytes_def)
  qed
  show ?thesis by (intro conjI impI, rule decode, elim conjE, rule least)
qed

theorem scriptNum_roundtrip_witness:
  "MakeScriptNum [0xe8, 0x83] True 4 = Inr (- 1000) \<and> scriptNum_Bytes (- 1000) = Some [0xe8, 0x83] \<and> scriptNum_Bytes (- (2 ^ 63)) = None"
proof -
  have "scriptNum_Bytes (- 1000) = Some [0xe8, 0x83]" by code_simp
  then show ?thesis using scriptNum_roundtrip [of 4 "[0xe8, 0x83]" "- 1000"] scriptNum_roundtrip [of 4 "[]" "- (2 ^ 63)"] by simp
qed

text \<open>
  The builder appends data as one opcode: it parses, its size is the predicted size, its push is canonical and the
  engine pushes the data itself, with the one exception of a single zero byte, for which an empty item is pushed.
\<close>

theorem AddData_pushes:
  assumes "berr b = None" "berr (AddData b data) = None"
  shows "\<exists>t. bscript (AddData b data) = bscript b @ tokenBytes t \<and> wf_token t \<and>
    length (tokenBytes t) = canonicalDataSize data \<and> isCanonicalPush (fst t) (fst (snd t)) \<and>
    pushedItem t = Some (if data = [0] then [] else data) \<and>
    length (bscript (AddData b data)) \<le> MaxScriptSize"
proof -
  have a: "bscript (AddData b data) = bscript b @ pushBytes data" "length data \<le> MaxScriptElementSize"
    "length (bscript b) + canonicalDataSize data \<le> MaxScriptSize"
    using assms by (auto simp: AddData_def split: if_splits)
  then have "pushCorrect data" by (intro pushCorrect_all) (simp add: MaxScriptElementSize_def)
  then show ?thesis using a
    by (intro exI [of _ "pushToken data"]) (auto simp: pushCorrect_def Let_def tokenBytes_def pushToken_def length_pushBytes)
qed

theorem AddData_pushes_witness:
  "\<exists>t. bscript (AddData NewScriptBuilder [1, 2, 3]) = tokenBytes t \<and> wf_token t \<and> pushedItem t = Some [1, 2, 3]"
proof -
  have "berr NewScriptBuilder = None" "bscript NewScriptBuilder = []" by (simp_all add: NewScriptBuilder_def)
  moreover have "berr (AddData NewScriptBuilder [1, 2, 3]) = None" by (simp add: AddData_def NewScriptBuilder_def MaxScriptSize_def canonicalDataSize_def MaxScriptElementSize_def)
  ultimately show ?thesis using AddData_pushes [of NewScriptBuilder "[1, 2, 3]"] by auto
qed

end
