(* ===== verification/Chainio.thy ===== *)
theory Chainio
  imports Compress Tx_Basics Script
begin

text \<open>
  Unspent outputs and spent outputs, and their form in the chain database (\<^verbatim>\<open>node/blockchain/chainio.go\<close>, the entry type
  and its flags from \<^verbatim>\<open>node/blockchain/utxoviewpoint.go\<close>).

  A bucket of the database is a map from byte strings to byte strings; transactions on the database are atomic, so that
  an operation that fails leaves no trace.
\<close>

section \<open>Entries\<close>

definition tfCoinBase :: byte where "tfCoinBase = 0x01"
definition tfSpent :: byte where "tfSpent = 0x02"
definition tfModified :: byte where "tfModified = 0x04"
definition tfFresh :: byte where "tfFresh = 0x08"

record UtxoEntry =
  entryAmount :: int
  entryPkScript :: bytes
  entryHeight :: int
  packedFlags :: byte

definition isModified :: "UtxoEntry \<Rightarrow> bool" where
  "isModified entry \<longleftrightarrow> packedFlags entry AND tfModified = tfModified"

definition isFresh :: "UtxoEntry \<Rightarrow> bool" where
  "isFresh entry \<longleftrightarrow> packedFlags entry AND tfFresh = tfFresh"

definition entryIsCoinBase :: "UtxoEntry \<Rightarrow> bool" where
  "entryIsCoinBase entry \<longleftrightarrow> packedFlags entry AND tfCoinBase = tfCoinBase"

definition IsSpent :: "UtxoEntry \<Rightarrow> bool" where
  "IsSpent entry \<longleftrightarrow> packedFlags entry AND tfSpent = tfSpent"

definition Spend :: "UtxoEntry \<Rightarrow> UtxoEntry" where
  "Spend entry =
     (if IsSpent entry then entry else entry\<lparr>packedFlags := packedFlags entry OR (tfSpent OR tfModified)\<rparr>)"

definition NewUtxoEntry :: "TxOut \<Rightarrow> int \<Rightarrow> bool \<Rightarrow> UtxoEntry" where
  "NewUtxoEntry txOut blockHeight isCoinbase =
     \<lparr>entryAmount = outValue txOut, entryPkScript = PkScript txOut, entryHeight = blockHeight,
      packedFlags = (if isCoinbase then tfCoinBase else 0)\<rparr>"

record SpentTxOut =
  stxoAmount :: int
  stxoPkScript :: bytes
  stxoHeight :: int
  stxoIsCoinBase :: bool

section \<open>The spend journal\<close>

definition spentTxOutHeaderCode :: "SpentTxOut \<Rightarrow> int" where
  "spentTxOutHeaderCode stxo =
     (let headerCode = uint64 (stxoHeight stxo * 2) in if stxoIsCoinBase stxo then headerCode OR 1 else headerCode)"

definition spentTxOutSerializeSize :: "(bytes \<Rightarrow> bytes option) \<Rightarrow> SpentTxOut \<Rightarrow> nat" where
  "spentTxOutSerializeSize K stxo =
     serializeSizeVLQ (spentTxOutHeaderCode stxo) + compressedTxOutSize K (uint64 (stxoAmount stxo)) (stxoPkScript stxo)"

definition putSpentTxOut :: "(bytes \<Rightarrow> bytes option) \<Rightarrow> SpentTxOut \<Rightarrow> bytes" where
  "putSpentTxOut K stxo =
     putVLQ (spentTxOutHeaderCode stxo) @ putCompressedTxOut K (uint64 (stxoAmount stxo)) (stxoPkScript stxo)"

definition decodeSpentTxOut :: "(bytes \<Rightarrow> bytes option) \<Rightarrow> bytes \<Rightarrow> (storeError, SpentTxOut \<times> nat) result" where
  "decodeSpentTxOut K serialized =
     (if length serialized = 0 then Inl errDeserialize
      else let (code, offset) = deserializeVLQ serialized in
        if offset \<ge> length serialized then Inl errDeserialize
        else bindE (decodeCompressedTxOut K (drop offset serialized)) (\<lambda>(amount, script, bytesRead).
          Inr (\<lparr>stxoAmount = int64 amount, stxoPkScript = script, stxoHeight = int32 (code div 2),
                stxoIsCoinBase = (code AND 1 \<noteq> 0)\<rparr>, offset + bytesRead)))"

text \<open>The two nested loops run over the inputs of all transactions from the last to the first.\<close>

fun decodeSpentTxOuts :: "(bytes \<Rightarrow> bytes option) \<Rightarrow> nat \<Rightarrow> bytes \<Rightarrow> SpentTxOut list \<Rightarrow> (storeError, SpentTxOut list) result" where
  "decodeSpentTxOuts K 0 serialized stxos = Inr stxos"
| "decodeSpentTxOuts K (Suc n) serialized stxos =
     bindE (decodeSpentTxOut K serialized) (\<lambda>(stxo, k). decodeSpentTxOuts K n (drop k serialized) (stxo # stxos))"

definition deserializeSpendJournalEntry ::
  "(bytes \<Rightarrow> bytes option) \<Rightarrow> bytes \<Rightarrow> MsgTx list \<Rightarrow> (storeError, SpentTxOut list) result" where
  "deserializeSpendJournalEntry K serialized txns =
     (let numStxos = sum_list (map (\<lambda>tx. length (TxIn tx)) txns) in
      if length serialized = 0
      then if numStxos \<noteq> 0 then Inl storeAssert else Inr []
      else decodeSpentTxOuts K numStxos serialized [])"

definition serializeSpendJournalEntry :: "(bytes \<Rightarrow> bytes option) \<Rightarrow> SpentTxOut list \<Rightarrow> bytes" where
  "serializeSpendJournalEntry K stxos = concat (map (putSpentTxOut K) (rev stxos))"

type_synonym bucket = "bytes \<Rightarrow> bytes option"

definition countSpentOutputs :: "MsgBlock \<Rightarrow> nat" where
  "countSpentOutputs block = sum_list (map (\<lambda>tx. length (TxIn tx)) (drop 1 (Transactions block)))"

definition dbFetchSpendJournalEntry ::
  "(bytes \<Rightarrow> bytes option) \<Rightarrow> bucket \<Rightarrow> hash \<Rightarrow> MsgBlock \<Rightarrow> (storeError, SpentTxOut list) result" where
  "dbFetchSpendJournalEntry K spendBucket blockHash block =
     deserializeSpendJournalEntry K (case spendBucket blockHash of None \<Rightarrow> [] | Some serialized \<Rightarrow> serialized)
       (drop 1 (Transactions block))"

definition dbPutSpendJournalEntry :: "(bytes \<Rightarrow> bytes option) \<Rightarrow> bucket \<Rightarrow> hash \<Rightarrow> SpentTxOut list \<Rightarrow> bucket" where
  "dbPutSpendJournalEntry K spendBucket blockHash stxos = spendBucket(blockHash \<mapsto> serializeSpendJournalEntry K stxos)"

definition dbRemoveSpendJournalEntry :: "bucket \<Rightarrow> hash \<Rightarrow> bucket" where
  "dbRemoveSpendJournalEntry spendBucket blockHash = spendBucket(blockHash := None)"

definition dbPruneSpendJournalEntry :: "bucket \<Rightarrow> hash list \<Rightarrow> bucket" where
  "dbPruneSpendJournalEntry spendBucket blockHashes = foldl (\<lambda>b h. b(h := None)) spendBucket blockHashes"

section \<open>The set of unspent outputs\<close>

definition outpointKey :: "OutPoint \<Rightarrow> bytes" where
  "outpointKey outpoint = Hash outpoint @ putVLQ (uint (Index outpoint))"

definition utxoEntryHeaderCode :: "UtxoEntry \<Rightarrow> (storeError, int) result" where
  "utxoEntryHeaderCode entry =
     (if IsSpent entry then Inl storeAssert
      else let headerCode = uint64 (entryHeight entry * 2) in
        Inr (if entryIsCoinBase entry then headerCode OR 1 else headerCode))"

definition serializeUtxoEntry :: "(bytes \<Rightarrow> bytes option) \<Rightarrow> UtxoEntry \<Rightarrow> (storeError, bytes) result" where
  "serializeUtxoEntry K entry =
     (if IsSpent entry then Inr []
      else bindE (utxoEntryHeaderCode entry) (\<lambda>headerCode.
        Inr (putVLQ headerCode @ putCompressedTxOut K (uint64 (entryAmount entry)) (entryPkScript entry))))"

definition deserializeUtxoEntry :: "(bytes \<Rightarrow> bytes option) \<Rightarrow> bytes \<Rightarrow> (storeError, UtxoEntry) result" where
  "deserializeUtxoEntry K serialized =
     (let (code, offset) = deserializeVLQ serialized in
      if offset \<ge> length serialized then Inl errDeserialize
      else bindE (decodeCompressedTxOut K (drop offset serialized)) (\<lambda>(amount, script, _).
        Inr \<lparr>entryAmount = int64 amount, entryPkScript = script, entryHeight = int32 (code div 2),
             packedFlags = (if code AND 1 \<noteq> 0 then tfCoinBase else 0)\<rparr>))"

definition dbFetchUtxoEntry :: "(bytes \<Rightarrow> bytes option) \<Rightarrow> bucket \<Rightarrow> OutPoint \<Rightarrow> (storeError, UtxoEntry option) result" where
  "dbFetchUtxoEntry K utxoBucket outpoint =
     (case utxoBucket (outpointKey outpoint) of
        None \<Rightarrow> Inr None
      | Some serializedUtxo \<Rightarrow>
          if length serializedUtxo = 0 then Inl storeAssert
          else bindE (deserializeUtxoEntry K serializedUtxo) (\<lambda>entry. Inr (Some entry)))"

definition dbDeleteUtxoEntry :: "bucket \<Rightarrow> OutPoint \<Rightarrow> bucket" where
  "dbDeleteUtxoEntry utxoBucket outpoint = utxoBucket(outpointKey outpoint := None)"

definition dbPutUtxoEntry :: "(bytes \<Rightarrow> bytes option) \<Rightarrow> bucket \<Rightarrow> OutPoint \<Rightarrow> UtxoEntry option \<Rightarrow> (storeError, bucket) result" where
  "dbPutUtxoEntry K utxoBucket outpoint entry =
     (case entry of
        None \<Rightarrow> Inl storeAssert
      | Some entry \<Rightarrow>
          if IsSpent entry then Inl storeAssert
          else bindE (serializeUtxoEntry K entry) (\<lambda>serialized. Inr (utxoBucket(outpointKey outpoint \<mapsto> serialized))))"

section \<open>Lemmas\<close>

subsection \<open>Flags\<close>

lemma flag_bit:
  "w AND tfCoinBase = tfCoinBase \<longleftrightarrow> bit w 0" "w AND tfSpent = tfSpent \<longleftrightarrow> bit w 1"
  "w AND tfModified = tfModified \<longleftrightarrow> bit w 2" "w AND tfFresh = tfFresh \<longleftrightarrow> bit w 3"
proof -
  have p: "w AND 2 ^ k = 2 ^ k \<longleftrightarrow> bit w k" if "k < 8" for k
  proof
    assume "w AND 2 ^ k = 2 ^ k"
    then have "bit (w AND 2 ^ k) k" using that by (simp add: bit_simps)
    then show "bit w k" by (simp add: bit_simps)
  next
    assume "bit w k"
    then show "w AND 2 ^ k = 2 ^ k" by (intro bit_word_eqI) (auto simp: bit_simps)
  qed
  show "w AND tfCoinBase = tfCoinBase \<longleftrightarrow> bit w 0" "w AND tfSpent = tfSpent \<longleftrightarrow> bit w 1"
    "w AND tfModified = tfModified \<longleftrightarrow> bit w 2" "w AND tfFresh = tfFresh \<longleftrightarrow> bit w 3"
    using p [of 0] p [of 1] p [of 2] p [of 3] by (simp_all add: tfCoinBase_def tfSpent_def tfModified_def tfFresh_def)
qed

lemmas entry_flags = isModified_def isFresh_def entryIsCoinBase_def IsSpent_def flag_bit

lemma Spend_simps [simp]:
  "IsSpent (Spend e)" "entryAmount (Spend e) = entryAmount e" "entryPkScript (Spend e) = entryPkScript e"
  "entryHeight (Spend e) = entryHeight e" "entryIsCoinBase (Spend e) = entryIsCoinBase e" "isFresh (Spend e) = isFresh e"
proof -
  have "bit (tfSpent OR tfModified :: byte) 1" "\<not> bit (tfSpent OR tfModified :: byte) 0" "\<not> bit (tfSpent OR tfModified :: byte) 3"
    by (simp_all add: tfSpent_def tfModified_def bit_iff_odd)
  then show "IsSpent (Spend e)" "entryIsCoinBase (Spend e) = entryIsCoinBase e" "isFresh (Spend e) = isFresh e"
    by (auto simp: Spend_def entry_flags bit_or_iff)
qed (simp_all add: Spend_def)

lemma Spend_isModified: "\<not> IsSpent e \<Longrightarrow> isModified (Spend e)"
proof -
  have "bit (tfSpent OR tfModified :: byte) 2" by (simp add: tfSpent_def tfModified_def bit_iff_odd)
  then show "\<not> IsSpent e \<Longrightarrow> isModified (Spend e)" by (auto simp: Spend_def entry_flags bit_or_iff)
qed

text \<open>What an unspent entry is worth, without the flags that concern the cache.\<close>

definition coinOf :: "UtxoEntry \<Rightarrow> SpentTxOut" where
  "coinOf e = \<lparr>stxoAmount = entryAmount e, stxoPkScript = entryPkScript e, stxoHeight = entryHeight e,
     stxoIsCoinBase = entryIsCoinBase e\<rparr>"

text \<open>The coins that can be stored: those of confirmed outputs with an amount in the range of money.\<close>

definition wf_coin :: "SpentTxOut \<Rightarrow> bool" where
  "wf_coin c \<longleftrightarrow> 0 \<le> stxoAmount c \<and> stxoAmount c \<le> 2 ^ 60 \<and> 0 \<le> stxoHeight c \<and> stxoHeight c < 2 ^ 31 \<and>
     int (length (stxoPkScript c)) + 16 < 2 ^ 63"

lemma coinOf_Spend [simp]: "coinOf (Spend e) = coinOf e"
  by (simp add: coinOf_def)

subsection \<open>Header codes\<close>

lemma headerCode:
  fixes cb :: bool and h :: int
  assumes "0 \<le> h" "h < 2 ^ 31"
  defines "code \<equiv> (if cb then uint64 (h * 2) OR 1 else uint64 (h * 2))"
  shows "0 \<le> code" "code < 2 ^ 64" "code div 2 = h" "code AND 1 \<noteq> 0 \<longleftrightarrow> cb" "int32 (code div 2) = h"
proof -
  have "uint64 (h * 2) = h * 2" using assms by (simp add: uint64_def)
  moreover have "(h * 2) OR 1 = h * 2 + 1" by (simp add: or_one_eq)
  ultimately have c: "code = h * 2 + of_bool cb" by (simp add: code_def)
  then show "0 \<le> code" "code < 2 ^ 64" using assms by auto
  show d: "code div 2 = h" using c by simp
  show "code AND 1 \<noteq> 0 \<longleftrightarrow> cb" using c by (simp add: and_one_eq)
  show "int32 (code div 2) = h" using d assms by (simp add: int32_id)
qed

subsection \<open>The spend journal\<close>

lemma length_putSpentTxOut:
  assumes "key_laws K" "wf_coin c"
  shows "length (putSpentTxOut K c) = spentTxOutSerializeSize K c"
  using length_putCompressedTxOut [OF assms(1), of "stxoPkScript c"] assms(2)
  by (simp add: putSpentTxOut_def spentTxOutSerializeSize_def wf_coin_def)

lemma decodeSpentTxOut_put:
  assumes "key_laws K" "wf_coin c"
  shows "decodeSpentTxOut K (putSpentTxOut K c @ rest) = Inr (c, length (putSpentTxOut K c))"
proof -
  define code where "code = spentTxOutHeaderCode c"
  have h: "0 \<le> code" "code < 2 ^ 64" "code AND 1 \<noteq> 0 \<longleftrightarrow> stxoIsCoinBase c" "int32 (code div 2) = stxoHeight c"
    using headerCode [of "stxoHeight c" "stxoIsCoinBase c"] assms(2) by (simp_all add: code_def spentTxOutHeaderCode_def wf_coin_def Let_def)
  define z where "z = putCompressedTxOut K (stxoAmount c) (stxoPkScript c)"
  have a: "uint64 (stxoAmount c) = stxoAmount c" "int64 (stxoAmount c) = stxoAmount c"
    using assms(2) by (simp_all add: wf_coin_def uint64_def int64_id)
  have dz: "decodeCompressedTxOut K (z @ rest) = Inr (stxoAmount c, stxoPkScript c, length z)"
    using decodeCompressedTxOut_put [OF assms(1), of "stxoPkScript c" "stxoAmount c" rest]
      length_putCompressedTxOut [OF assms(1), of "stxoPkScript c" "stxoAmount c"] assms(2)
    by (simp add: z_def wf_coin_def)
  have "0 < length z" by (simp add: z_def putCompressedTxOut_def)
  moreover have "deserializeVLQ (putVLQ code @ z @ rest) = (code, serializeSizeVLQ code)" using h by (intro deserializeVLQ_putVLQ) simp_all
  ultimately show ?thesis using h dz a
    by (simp add: decodeSpentTxOut_def putSpentTxOut_def code_def [symmetric] z_def [symmetric])
qed

lemma decodeSpentTxOuts_concat:
  assumes "key_laws K" "list_all wf_coin cs"
  shows "decodeSpentTxOuts K (length cs) (concat (map (putSpentTxOut K) cs) @ rest) acc = Inr (rev cs @ acc)"
  using assms(2)
proof (induction cs arbitrary: acc)
  case (Cons c cs)
  then show ?case using decodeSpentTxOut_put [OF assms(1), of c "concat (map (putSpentTxOut K) cs) @ rest"] by simp
qed simp

lemma putSpentTxOut_not_Nil [simp]: "putSpentTxOut K c \<noteq> []"
  by (simp add: putSpentTxOut_def flip: length_greater_0_conv)

lemma deserializeSpendJournalEntry_serialize:
  assumes "key_laws K" "list_all wf_coin stxos" "length stxos = countSpentOutputs block"
  shows "deserializeSpendJournalEntry K (serializeSpendJournalEntry K stxos) (drop 1 (Transactions block)) = Inr stxos"
proof -
  have "decodeSpentTxOuts K (length (rev stxos)) (concat (map (putSpentTxOut K) (rev stxos)) @ []) [] = Inr (rev (rev stxos) @ [])"
    using assms by (intro decodeSpentTxOuts_concat) simp_all
  moreover have "concat (map (putSpentTxOut K) (rev stxos)) = [] \<longleftrightarrow> stxos = []" by (cases stxos rule: rev_cases) simp_all
  ultimately show ?thesis using assms(3)
    by (auto simp: deserializeSpendJournalEntry_def serializeSpendJournalEntry_def countSpentOutputs_def Let_def)
qed

subsection \<open>The bucket of unspent outputs\<close>

lemma outpointKey_inject:
  assumes "length (Hash op) = 32" "length (Hash op') = 32"
  shows "outpointKey op = outpointKey op' \<longleftrightarrow> op = op'"
proof
  assume "outpointKey op = outpointKey op'"
  then have h: "Hash op = Hash op'" "putVLQ (uint (Index op)) @ [] = putVLQ (uint (Index op')) @ []"
    using assms by (simp_all add: outpointKey_def)
  have b: "uint (Index op) < 2 ^ 64" "uint (Index op') < 2 ^ 64"
    using uint_bounds(3) [of "Index op"] uint_bounds(3) [of "Index op'"] by simp_all
  from putVLQ_inject [OF uint_nonnegative b(1) uint_nonnegative b(2) h(2)] have "Index op = Index op'" by (simp add: word_uint_eq_iff)
  with h show "op = op'" by simp
qed simp

text \<open>An entry without the flags that concern the cache, as it is read from the database.\<close>

definition storedEntry :: "SpentTxOut \<Rightarrow> UtxoEntry" where
  "storedEntry c = \<lparr>entryAmount = stxoAmount c, entryPkScript = stxoPkScript c, entryHeight = stxoHeight c,
     packedFlags = (if stxoIsCoinBase c then tfCoinBase else 0)\<rparr>"

lemma storedEntry_simps [simp]:
  "coinOf (storedEntry c) = c" "\<not> IsSpent (storedEntry c)" "\<not> isModified (storedEntry c)" "\<not> isFresh (storedEntry c)"
proof -
  have "bit tfCoinBase 0" "\<not> bit tfCoinBase 1" "\<not> bit tfCoinBase 2" "\<not> bit tfCoinBase 3" by (simp_all add: tfCoinBase_def bit_iff_odd)
  then show "coinOf (storedEntry c) = c" "\<not> IsSpent (storedEntry c)" "\<not> isModified (storedEntry c)" "\<not> isFresh (storedEntry c)"
    by (auto simp: coinOf_def storedEntry_def entry_flags)
qed

lemma serializeUtxoEntry_journal: "\<not> IsSpent e \<Longrightarrow> serializeUtxoEntry K e = Inr (putSpentTxOut K (coinOf e))"
  by (simp add: serializeUtxoEntry_def utxoEntryHeaderCode_def putSpentTxOut_def spentTxOutHeaderCode_def coinOf_def Let_def)

lemma deserializeUtxoEntry_journal:
  "s \<noteq> [] \<Longrightarrow> deserializeUtxoEntry K s = bindE (decodeSpentTxOut K s) (\<lambda>(c, _). Inr (storedEntry c))"
  by (auto simp: deserializeUtxoEntry_def decodeSpentTxOut_def storedEntry_def bindE_def split: prod.splits sum.splits)

lemma deserializeUtxoEntry_serialize:
  assumes "key_laws K" "wf_coin c"
  shows "deserializeUtxoEntry K (putSpentTxOut K c) = Inr (storedEntry c)"
  using decodeSpentTxOut_put [OF assms, of "[]"] by (simp add: deserializeUtxoEntry_journal)

lemma dbFetchUtxoEntry_put:
  assumes "key_laws K" "wf_coin (coinOf e)" "\<not> IsSpent e"
  shows "dbPutUtxoEntry K bkt op (Some e) = Inr (bkt(outpointKey op \<mapsto> putSpentTxOut K (coinOf e)))"
    and "dbFetchUtxoEntry K (bkt(outpointKey op \<mapsto> putSpentTxOut K (coinOf e))) op = Inr (Some (storedEntry (coinOf e)))"
  using assms by (simp_all add: dbPutUtxoEntry_def serializeUtxoEntry_journal dbFetchUtxoEntry_def deserializeUtxoEntry_serialize)

lemma dbFetchUtxoEntry_other:
  assumes "length (Hash op) = 32" "length (Hash op') = 32" "op' \<noteq> op"
  shows "dbFetchUtxoEntry K (bkt(outpointKey op := x)) op' = dbFetchUtxoEntry K bkt op'"
  using assms outpointKey_inject [of op' op] by (simp add: dbFetchUtxoEntry_def)

section \<open>Properties\<close>

text \<open>
  C38. The spend journal of a block is read back in full: whatever coins the transactions of a block spend, the entry
  written for them decodes, given only the transactions, to the same coins in the order in which they were spent.
\<close>

theorem spendJournal_roundtrip:
  assumes "key_laws K" "list_all wf_coin stxos" "length stxos = countSpentOutputs block"
  shows "dbFetchSpendJournalEntry K (dbPutSpendJournalEntry K spendBucket blockHash stxos) blockHash block = Inr stxos"
  using deserializeSpendJournalEntry_serialize [OF assms] by (simp add: dbFetchSpendJournalEntry_def dbPutSpendJournalEntry_def)

text \<open>Blocks and coins for the examples; no key parses in them.\<close>

definition noKeys :: "bytes \<Rightarrow> bytes option" where "noKeys = (\<lambda>_. None)"

definition exampleBlock :: "MsgTx list \<Rightarrow> MsgBlock" where
  "exampleBlock txs = \<lparr>BlockMsgHeader = \<lparr>Certificate = None, Header = \<lparr>BlockHeader.Version = 0, PrevBlock = replicate 32 0,
      MerkleRoot = replicate 32 1, Timestamp = unixTime 1700000000, Bits = 0x1b00ffff,
      ProofCommitment = replicate 32 2\<rparr>\<rparr>, AuxPow = None, Transactions = txs\<rparr>"

definition exampleCoin :: SpentTxOut where
  "exampleCoin = \<lparr>stxoAmount = 5000, stxoPkScript = 0x51 # 0x20 # replicate 32 7, stxoHeight = 12, stxoIsCoinBase = True\<rparr>"

definition exampleSpend :: MsgTx where
  "exampleSpend = \<lparr>MsgTx.Version = 1,
     TxIn = [\<lparr>PreviousOutPoint = \<lparr>Hash = replicate 32 3, Index = 0\<rparr>, SignatureScript = [], Witness = [], Sequence = 0\<rparr>],
     TxOut = [\<lparr>Value = 5000, PkScript = 0x51 # 0x20 # replicate 32 8\<rparr>], LockTime = 0\<rparr>"

lemma noKeys_laws: "key_laws noKeys"
  by (simp add: key_laws_def noKeys_def)

theorem spendJournal_roundtrip_witness:
  "dbFetchSpendJournalEntry noKeys (dbPutSpendJournalEntry noKeys Map.empty zeroHash [exampleCoin]) zeroHash
     (exampleBlock [exampleSpend, exampleSpend]) = Inr [exampleCoin]"
  by (rule spendJournal_roundtrip [OF noKeys_laws])
    (simp_all add: wf_coin_def exampleCoin_def countSpentOutputs_def exampleBlock_def exampleSpend_def)

text \<open>
  The database holds the set of unspent outputs as a map: storing an entry that is not spent succeeds and the output
  then reads back with the same amount, script, height and coinbase flag and without the flags that concern only the
  cache; deleting an output makes it absent; and neither operation changes what is read for any other output.
\<close>

theorem utxoBucket_is_map:
  assumes "key_laws K" "wf_coin (coinOf entry)" "\<not> IsSpent entry" "length (Hash op) = 32" "length (Hash op') = 32"
  shows "\<exists>bucket' stored. dbPutUtxoEntry K bkt op (Some entry) = Inr bucket' \<and>
      dbFetchUtxoEntry K bucket' op = Inr (Some stored) \<and> coinOf stored = coinOf entry \<and>
      \<not> IsSpent stored \<and> \<not> isModified stored \<and> \<not> isFresh stored \<and>
      dbFetchUtxoEntry K (dbDeleteUtxoEntry bkt op) op = Inr None \<and>
      (op' \<noteq> op \<longrightarrow> dbFetchUtxoEntry K bucket' op' = dbFetchUtxoEntry K bkt op' \<and>
         dbFetchUtxoEntry K (dbDeleteUtxoEntry bkt op) op' = dbFetchUtxoEntry K bkt op')"
  using dbFetchUtxoEntry_put [OF assms(1-3), of bkt op] dbFetchUtxoEntry_other [OF assms(4,5)]
  by (auto simp: dbDeleteUtxoEntry_def dbFetchUtxoEntry_def)

theorem utxoBucket_is_map_witness:
  "\<exists>bucket' stored. dbPutUtxoEntry noKeys Map.empty \<lparr>Hash = replicate 32 3, Index = 0\<rparr> (Some (storedEntry exampleCoin)) = Inr bucket' \<and>
     dbFetchUtxoEntry noKeys bucket' \<lparr>Hash = replicate 32 3, Index = 0\<rparr> = Inr (Some stored) \<and> coinOf stored = exampleCoin \<and>
     dbFetchUtxoEntry noKeys bucket' \<lparr>Hash = replicate 32 3, Index = 1\<rparr> = Inr None"
proof -
  have w: "wf_coin (coinOf (storedEntry exampleCoin))" by (simp add: wf_coin_def exampleCoin_def)
  show ?thesis
    using utxoBucket_is_map [OF noKeys_laws w, of "\<lparr>Hash = replicate 32 3, Index = 0\<rparr>" "\<lparr>Hash = replicate 32 3, Index = 1\<rparr>" Map.empty]
    by (auto simp: dbFetchUtxoEntry_def [of noKeys Map.empty])
qed

end
