(* ===== verification/Work_Math.thy ===== *)
theory Work_Math
  imports Chainhash
begin

text \<open>
  Difficulty arithmetic (\<^verbatim>\<open>node/blockchain/internal/workmath/difficulty.go\<close>): the compact form of a target,
  its expansion, and the work a target stands for.  Go's \<^verbatim>\<open>big.Int\<close> is \<open>int\<close>; the compact form is the 32-bit
  word of the code, taken apart with the code's masks and shifts.
\<close>

section \<open>Definitions\<close>

definition HashToBig :: "hash \<Rightarrow> int" where
  "HashToBig hash = be_int (rev hash)"

definition CompactToBig :: "32 word \<Rightarrow> int" where
  "CompactToBig compact =
     (let mantissa = compact AND 0x007fffff;
          isNegative = compact AND 0x00800000 \<noteq> 0;
          exponent = unat (drop_bit 24 compact);
          bn = (if exponent \<le> 3 then uint (drop_bit (8 * (3 - exponent)) mantissa)
                else push_bit (8 * (exponent - 3)) (uint mantissa))
      in if isNegative then - bn else bn)"

text \<open>\<^verbatim>\<open>len(n.Bytes())\<close>: the number of bytes of the absolute value.\<close>

function byteLen :: "int \<Rightarrow> nat" where
  "byteLen n = (if n \<le> 0 then 0 else Suc (byteLen (n div 256)))"
  by pat_completeness auto
termination by (relation "measure nat") auto

declare byteLen.simps [simp del]

text \<open>The 32 bits of the number shifted to three bytes.\<close>

definition compactMantissa :: "nat \<Rightarrow> int \<Rightarrow> 32 word" where
  "compactMantissa exponent n =
     (if exponent \<le> 3 then push_bit (8 * (3 - exponent)) (word_of_int \<bar>n\<bar>)
      else word_of_int \<bar>drop_bit (8 * (exponent - 3)) n\<bar>)"

definition BigToCompact :: "int \<Rightarrow> 32 word" where
  "BigToCompact n =
     (if n = 0 then 0
      else let exponent = byteLen \<bar>n\<bar>;
               mantissa = compactMantissa exponent n;
               (mantissa, exponent) =
                 (if mantissa AND 0x00800000 \<noteq> 0 then (drop_bit 8 mantissa, exponent + 1)
                  else (mantissa, exponent));
               compact = word_of_int (push_bit 24 (int exponent)) OR mantissa
           in if n < 0 then compact OR 0x00800000 else compact)"

definition CalcWork :: "32 word \<Rightarrow> int" where
  "CalcWork bits =
     (let difficultyNum = CompactToBig bits in
      if difficultyNum \<le> 0 then 0 else 2 ^ 256 div (difficultyNum + 1))"

section \<open>The compact form on integers\<close>

text \<open>\<open>mant e n\<close> is the mantissa of \<open>n\<close> for the exponent \<open>e\<close>, \<open>unmant e m\<close> the number they stand for.\<close>

definition mant :: "nat \<Rightarrow> int \<Rightarrow> int" where
  "mant e n = (if e \<le> 3 then n * 256 ^ (3 - e) else n div 256 ^ (e - 3))"

definition unmant :: "nat \<Rightarrow> int \<Rightarrow> int" where
  "unmant e m = (if e \<le> 3 then m div 256 ^ (3 - e) else m * 256 ^ (e - 3))"

definition pack :: "nat \<Rightarrow> int \<Rightarrow> 32 word" where
  "pack e m = word_of_int (int e * 2 ^ 24 + m)"

lemma mant_Suc: "mant (Suc e) n = mant e n div 256"
proof (cases "e \<le> 2")
  case True
  then have "3 - e = Suc (3 - Suc e)" by simp
  then have "(256 :: int) ^ (3 - e) = 256 ^ (3 - Suc e) * 256" by simp
  with True show ?thesis by (simp add: mant_def)
next
  case False
  then have "Suc e - 3 = Suc (e - 3)" by simp
  with False show ?thesis by (auto simp: mant_def zdiv_zmult2_eq [symmetric] mult.commute)
qed

lemma unmant_mant: "unmant e (mant e n) = (if e \<le> 3 then n else n div 256 ^ (e - 3) * 256 ^ (e - 3))"
  by (simp add: unmant_def mant_def)

lemma byteLen_bounds: "0 < n \<Longrightarrow> 256 ^ (byteLen n - 1) \<le> n \<and> n < 256 ^ byteLen n \<and> 0 < byteLen n"
proof (induction n rule: byteLen.induct)
  case (1 n)
  show ?case
  proof (cases "n < 256")
    case True
    then have "byteLen (n div 256) = 0" by (simp add: byteLen.simps)
    with 1 True show ?thesis by (subst (1 2 3) byteLen.simps) simp
  next
    case False
    then have IH: "256 ^ (byteLen (n div 256) - 1) \<le> n div 256" "n div 256 < 256 ^ byteLen (n div 256)"
      "0 < byteLen (n div 256)" using 1 by auto
    have len: "byteLen n = Suc (byteLen (n div 256))" using 1 by (simp add: byteLen.simps [of n])
    have "(256 :: int) ^ byteLen (n div 256) = 256 ^ (byteLen (n div 256) - 1) * 256"
      using IH(3) by (simp add: power_eq_if)
    then have "256 ^ byteLen (n div 256) \<le> n" using IH(1) by linarith
    moreover have "n < 256 ^ Suc (byteLen (n div 256))" using IH(2) by simp
    ultimately show ?thesis by (simp add: len)
  qed
qed

text \<open>The mantissa of the byte length has its top byte set.\<close>

lemma mant_byteLen:
  assumes "0 < n"
  shows "2 ^ 16 \<le> mant (byteLen n) n \<and> mant (byteLen n) n < 2 ^ 24"
proof -
  let ?l = "byteLen n"
  have b: "256 ^ (?l - 1) \<le> n" "n < 256 ^ ?l" "0 < ?l" using byteLen_bounds [OF assms] by auto
  show ?thesis
  proof (cases "?l \<le> 3")
    case True
    have "(256 :: int) ^ (?l - 1) * 256 ^ (3 - ?l) = 256 ^ 2" "(256 :: int) ^ ?l * 256 ^ (3 - ?l) = 256 ^ 3"
      using True b(3) by (simp_all add: power_add [symmetric])
    then show ?thesis using True b(1,2)
      by (simp add: mant_def) (metis mult_right_mono mult_strict_right_mono zero_less_power zero_less_numeral
          zero_le_power zero_le_numeral)
  next
    case False
    then have k: "?l - 1 = (?l - 3) + 2" "?l = (?l - 3) + 3" by simp_all
    have "(256 :: int) ^ (?l - 1) = 65536 * 256 ^ (?l - 3)" "(256 :: int) ^ ?l = 16777216 * 256 ^ (?l - 3)"
      by (subst k(1), simp add: power_add) (subst k(2), simp add: power_add)
    then have "65536 * 256 ^ (?l - 3) \<le> n" "n < 16777216 * 256 ^ (?l - 3)" using b by simp_all
    then show ?thesis using False
      by (simp add: mant_def le_div_int_iff div_less_int_iff)
  qed
qed

text \<open>The exponent \<open>BigToCompact\<close> chooses.\<close>

definition cexp :: "int \<Rightarrow> nat" where
  "cexp n = (if mant (byteLen n) n < 2 ^ 23 then byteLen n else Suc (byteLen n))"

lemma cexp_mant: "0 < n \<Longrightarrow> 2 ^ 15 \<le> mant (cexp n) n \<and> mant (cexp n) n < 2 ^ 23 \<and> 0 < cexp n"
  using mant_byteLen [of n] byteLen_bounds [of n] by (auto simp: cexp_def mant_Suc)

text \<open>Only one exponent gives a mantissa in that range.\<close>

lemma mant_antimono:
  assumes "0 \<le> n" "e \<le> e'"
  shows "mant e' n \<le> mant e n"
  using assms(2)
proof (induction rule: dec_induct)
  case base
  show ?case by simp
next
  case (step k)
  have "0 \<le> mant k n" using assms(1) by (simp add: mant_def pos_imp_zdiv_nonneg_iff)
  then have "mant k n div 256 \<le> mant k n" by linarith
  with step show ?case by (simp add: mant_Suc)
qed

lemma cexp_unique:
  assumes "0 < n" "2 ^ 15 \<le> mant e n" "mant e n < 2 ^ 23"
  shows "e = cexp n"
proof (rule ccontr)
  have step: "mant b n < 2 ^ 15" if "mant a n < 2 ^ 23" "a < b" for a b
  proof -
    have "mant b n \<le> mant (Suc a) n" using assms(1) that by (intro mant_antimono) auto
    also have "\<dots> = mant a n div 256" by (rule mant_Suc)
    also have "\<dots> < 2 ^ 15" using that(1) by simp
    finally show ?thesis .
  qed
  assume "e \<noteq> cexp n"
  then consider "e < cexp n" | "cexp n < e" by linarith
  then show False
    using step [of e "cexp n"] step [of "cexp n" e] assms cexp_mant [OF assms(1)] by cases auto
qed

section \<open>Packing and unpacking\<close>

lemma uint_drop_bit: "uint (drop_bit k w) = uint w div 2 ^ k" for w :: "32 word"
  using uint_bounds(3) [of w] by (subst unsigned_drop_bit_eq) (simp add: drop_bit_eq_div take_bit_eq_mod)

lemma pack_parts:
  assumes "e < 256" "0 \<le> m" "m < 2 ^ 23"
  shows "uint (pack e m AND 0x007fffff) = m" "pack e m AND 0x00800000 = 0" "unat (drop_bit 24 (pack e m)) = e"
proof -
  have u: "uint (pack e m) = int e * 2 ^ 24 + m"
    unfolding pack_def uint_word_of_int using assms by simp
  have "uint (pack e m AND 0x007fffff) = uint (pack e m) AND mask 23"
    by (simp add: unsigned_and_eq mask_eq_exp_minus_1)
  also have "\<dots> = (int e * 2 ^ 24 + m) mod 2 ^ 23"
    unfolding u by (simp add: take_bit_eq_mask [symmetric] take_bit_eq_mod)
  also have "\<dots> = (m + (2 * int e) * 2 ^ 23) mod 2 ^ 23" by (simp add: algebra_simps)
  also have "\<dots> = m" using assms by (simp only: mod_mult_self1) simp
  finally show "uint (pack e m AND 0x007fffff) = m" .
  have "uint (pack e m AND 0x00800000) = uint (pack e m) AND 2 ^ 23"
    by (simp add: unsigned_and_eq)
  also have "\<dots> = 0"
  proof -
    have "(int e * 2 ^ 24 + m) div 2 ^ 23 = 2 * int e" using assms by simp
    then show ?thesis unfolding u and_exp_eq_0_iff_not_bit bit_iff_odd by simp
  qed
  finally show "pack e m AND 0x00800000 = 0" by (simp only: uint_0_iff)
  have "uint (drop_bit 24 (pack e m)) = (int e * 2 ^ 24 + m) div 2 ^ 24"
    by (simp only: uint_drop_bit u)
  also have "\<dots> = int e" using assms by simp
  finally show "unat (drop_bit 24 (pack e m)) = e" by (simp add: unat_eq_nat_uint)
qed

lemma CompactToBig_pack:
  assumes "e < 256" "0 \<le> m" "m < 2 ^ 23"
  shows "CompactToBig (pack e m) = unmant e m"
proof -
  have "(2 :: int) ^ (8 * k) = 256 ^ k" for k by (simp add: power_mult)
  then show ?thesis
    by (simp add: CompactToBig_def pack_parts [OF assms] unmant_def push_bit_eq_mult uint_drop_bit Let_def
        del: drop_bit_and)
qed

lemma pack_or:
  assumes "e < 256" "0 \<le> m" "m < 2 ^ 23"
  shows "word_of_int (push_bit 24 (int e)) OR (word_of_int m :: 32 word) = pack e m"
proof -
  have "word_of_int (push_bit 24 (int e)) OR (word_of_int m :: 32 word) = word_of_int (push_bit 24 (int e) OR m)"
    by (rule of_int_or_eq [symmetric])
  also have "push_bit 24 (int e) OR m = concat_bit 24 m (int e)"
    using assms by (simp add: concat_bit_def or.commute take_bit_int_eq_self)
  also have "\<dots> = int e * 2 ^ 24 + m"
    using assms by (simp add: concat_bit_eq take_bit_int_eq_self push_bit_eq_mult)
  finally show ?thesis by (simp only: pack_def)
qed

lemma BigToCompact_pos:
  assumes "0 < n" "cexp n < 256"
  shows "BigToCompact n = pack (cexp n) (mant (cexp n) n)"
proof -
  let ?l = "byteLen n"
  have pow: "(2 :: int) ^ (8 * k) = 256 ^ k" for k by (simp add: power_mult)
  have b: "2 ^ 16 \<le> mant ?l n" "mant ?l n < 2 ^ 24" using mant_byteLen [OF assms(1)] by simp_all
  have powW: "(2 :: 32 word) ^ (8 * k) = 256 ^ k" for k by (simp add: power_mult)
  have m0: "compactMantissa ?l n = word_of_int (mant ?l n)"
    using assms(1)
    by (simp add: compactMantissa_def mant_def push_bit_eq_mult drop_bit_eq_div pow powW pos_imp_zdiv_nonneg_iff)
  have u: "uint (word_of_int x :: 32 word) = x" if "0 \<le> x" "x < 2 ^ 24" for x
    unfolding uint_word_of_int using that by simp
  have top: "word_of_int (mant ?l n) AND 0x00800000 = (0 :: 32 word) \<longleftrightarrow> mant ?l n < 2 ^ 23"
  proof -
    have "word_of_int (mant ?l n) AND 0x00800000 = (0 :: 32 word) \<longleftrightarrow>
        uint (word_of_int (mant ?l n) AND 0x00800000 :: 32 word) = 0" by (rule uint_0_iff [symmetric])
    also have "uint (word_of_int (mant ?l n) AND 0x00800000 :: 32 word) = mant ?l n AND 2 ^ 23"
      using b u [of "mant ?l n"] by (simp add: unsigned_and_eq)
    also have "\<dots> = 0 \<longleftrightarrow> even (mant ?l n div 2 ^ 23)"
      unfolding and_exp_eq_0_iff_not_bit bit_iff_odd by simp
    also have "\<dots> \<longleftrightarrow> mant ?l n < 2 ^ 23"
    proof (cases "mant ?l n < 2 ^ 23")
      case True
      with b show ?thesis by simp
    next
      case False
      then have "mant ?l n div 2 ^ 23 = 1" using b by simp
      with False show ?thesis by simp
    qed
    finally show ?thesis .
  qed
  have half: "drop_bit 8 (word_of_int (mant ?l n) :: 32 word) = word_of_int (mant (Suc ?l) n)"
    using b u [of "mant ?l n"] u [of "mant (Suc ?l) n"]
    by (simp only: word_uint_eq_iff uint_drop_bit mant_Suc) simp
  have c: "0 \<le> mant (cexp n) n" "mant (cexp n) n < 2 ^ 23" using cexp_mant [OF assms(1)] by simp_all
  have "BigToCompact n = word_of_int (push_bit 24 (int (cexp n))) OR word_of_int (mant (cexp n) n)"
    using assms(1) unfolding BigToCompact_def Let_def
    by (simp add: m0 top half cexp_def not_less del: of_int_of_nat_eq push_bit_of_Suc_0 drop_bit_eq_div)
  also have "\<dots> = pack (cexp n) (mant (cexp n) n)"
    using assms(2) c by (rule pack_or)
  finally show ?thesis .
qed

lemma cexp_bound:
  assumes "0 < n" "n < 2 ^ 256"
  shows "cexp n < 256"
proof -
  have "(256 :: int) ^ (byteLen n - 1) < 2 ^ 256"
    using byteLen_bounds [OF assms(1)] assms(2) by linarith
  then have "(2 :: int) ^ (8 * (byteLen n - 1)) < 2 ^ 256" unfolding power_mult by simp
  then have "8 * (byteLen n - 1) < 256" by (rule power_less_imp_less_exp [of "2 :: int", rotated]) simp
  then show ?thesis by (auto simp: cexp_def)
qed

section \<open>Properties\<close>

lemma compact_rounds_down:
  assumes "0 < n" "n < 2 ^ 256"
  shows "CompactToBig (BigToCompact n) \<le> n \<and> 32768 * (n - CompactToBig (BigToCompact n)) < n"
proof -
  have e: "cexp n < 256" using assms by (rule cexp_bound)
  let ?e = "cexp n"
  have m: "2 ^ 15 \<le> mant ?e n" "mant ?e n < 2 ^ 23" using cexp_mant [OF assms(1)] by simp_all
  then have n': "CompactToBig (BigToCompact n) = unmant ?e (mant ?e n)"
    using e assms(1) by (simp add: BigToCompact_pos CompactToBig_pack)
  show ?thesis
  proof (cases "?e \<le> 3")
    case True
    with n' assms(1) show ?thesis by (simp add: unmant_mant)
  next
    case False
    let ?d = "256 ^ (?e - 3) :: int"
    have d: "0 < ?d" by simp
    have eq: "CompactToBig (BigToCompact n) = n div ?d * ?d"
      using False n' by (simp add: unmant_mant)
    have "32768 * ?d \<le> n" using m(1) False by (simp add: mant_def le_div_int_iff)
    moreover have "n - n div ?d * ?d = n mod ?d" by (simp add: minus_div_mult_eq_mod)
    moreover have "n mod ?d < ?d" "0 \<le> n mod ?d" using d by simp_all
    moreover have "q \<le> n \<and> 32768 * (n - q) < n"
      if "32768 * d \<le> n" "n - q = r" "r < d" "0 \<le> r" for q d r using that by auto
    ultimately show ?thesis unfolding eq by blast
  qed
qed

text \<open>
  Compressing a target and expanding it again never makes it larger, and loses less than one part in
  32,768: the required difficulty a node announces in a header is never easier than the one it computed.
\<close>

theorem CompactToBig_BigToCompact:
  assumes "0 < n" "n < 2 ^ 256"
  shows "CompactToBig (BigToCompact n) \<le> n \<and> 32768 * (n - CompactToBig (BigToCompact n)) < n"
  using assms by (rule compact_rounds_down)

theorem CompactToBig_BigToCompact_witness:
  "CompactToBig (BigToCompact (2 ^ 208 - 1)) \<le> 2 ^ 208 - 1 \<and>
   32768 * (2 ^ 208 - 1 - CompactToBig (BigToCompact (2 ^ 208 - 1))) < 2 ^ 208 - 1"
  by (rule CompactToBig_BigToCompact) simp_all

text \<open>
  Compact targets in normal form (a mantissa between 2^15 and 2^23, and no bits that the expansion drops)
  survive expansion and compression unchanged, and compression always produces the normal form: the compact form
  of a target is unique.
\<close>

theorem BigToCompact_CompactToBig:
  assumes "e < 256" "2 ^ 15 \<le> m" "m < 2 ^ 23" "e < 3 \<longrightarrow> m mod 256 ^ (3 - e) = 0" "0 < e"
  shows "BigToCompact (CompactToBig (pack e m)) = pack e m"
proof -
  let ?n = "unmant e m"
  have n: "CompactToBig (pack e m) = ?n" using assms by (intro CompactToBig_pack) simp_all
  have m: "mant e ?n = m"
  proof (cases "e < 3")
    case True
    then show ?thesis using assms(4) minus_mod_eq_div_mult [of m "256 ^ (3 - e)"] by (simp add: mant_def unmant_def)
  next
    case False
    then show ?thesis by (auto simp: mant_def unmant_def)
  qed
  have "0 < ?n"
  proof (cases "e \<le> 3")
    case True
    then have "256 ^ (3 - e) dvd m" using assms(4) by (cases "e = 3") (auto simp: dvd_eq_mod_eq_0)
    then have "256 ^ (3 - e) \<le> m" using assms(2) by (intro zdvd_imp_le) simp_all
    then have "1 \<le> m div 256 ^ (3 - e)" by (simp add: le_div_int_iff)
    with True show ?thesis by (simp add: unmant_def)
  next
    case False
    then show ?thesis using assms(2) by (simp add: unmant_def)
  qed
  moreover have "e = cexp ?n" using calculation assms(2,3) m by (intro cexp_unique) simp_all
  ultimately show ?thesis unfolding n using BigToCompact_pos [of ?n] assms(1) m by simp
qed

theorem BigToCompact_CompactToBig_witness:
  "BigToCompact (CompactToBig (pack 27 0x00ffff)) = pack 27 0x00ffff"
  by (rule BigToCompact_CompactToBig) simp_all

text \<open>
  The work of a block is positive exactly for targets between 1 and 2^256 - 1, and an easier target never
  counts for more work than a harder one.
\<close>

theorem CalcWork_antimono:
  assumes "0 < CompactToBig a" "CompactToBig a \<le> CompactToBig b"
  shows "CalcWork b \<le> CalcWork a \<and> (0 < CalcWork b \<longleftrightarrow> CompactToBig b < 2 ^ 256)"
proof
  have pos: "0 < CompactToBig b" using assms by linarith
  show "CalcWork b \<le> CalcWork a"
    using assms pos by (simp add: CalcWork_def Let_def) (intro zdiv_mono2; simp)
  have "0 < 2 ^ 256 div (CompactToBig b + 1) \<longleftrightarrow> CompactToBig b < 2 ^ 256"
    using pos le_div_int_iff [of "CompactToBig b + 1" 1 "2 ^ 256"]
    by (simp only: int_one_le_iff_zero_less mult_1 add1_zle_eq zle_add1_eq_le less_imp_le)
  then show "0 < CalcWork b \<longleftrightarrow> CompactToBig b < 2 ^ 256"
    using pos by (simp add: CalcWork_def Let_def)
qed

theorem CalcWork_antimono_witness:
  "CalcWork 0x1b00ffff \<le> CalcWork 0x1a00ffff"
proof -
  have "0 < CompactToBig 0x1a00ffff" "CompactToBig 0x1a00ffff \<le> CompactToBig 0x1b00ffff" by code_simp+
  then show ?thesis using CalcWork_antimono by blast
qed

end
