(* ===== verification/Chain_Params.thy ===== *)
theory Chain_Params
  imports Wire_Block Work_Math
begin

text \<open>
  Network parameters (\<^verbatim>\<open>node/chaincfg/params.go\<close>) and the codes of consensus rule violations
  (\<^verbatim>\<open>node/blockchain/error.go\<close>).  Durations are nanoseconds, as in Go's \<^verbatim>\<open>time.Duration\<close>.  The record holds the
  fields the modelled consensus code reads; DNS seeds, address prefixes, deployments and the genesis blocks are
  not part of it.
\<close>

section \<open>Parameters\<close>

definition MainNet :: "32 word" where "MainNet = 0x4D444C4D"
definition RegTest :: "32 word" where "RegTest = 0x4D444C52"
definition TestNet :: "32 word" where "TestNet = 0x4D444C31"
definition TestNet2 :: "32 word" where "TestNet2 = 0x4D444C32"
definition SimNet :: "32 word" where "SimNet = 0x4D444C53"

definition Second :: int where "Second = 1000000000"
definition Minute :: int where "Minute = 60 * Second"
definition Hour :: int where "Hour = 60 * Minute"

record Params =
  Net :: "32 word"
  PowLimit :: int
  PowLimitBits :: "32 word"
  PoWNoRetargeting :: bool
  CoinbaseMaturity :: "16 word"
  TargetTimePerBlock :: int
  WTEMAHalfLife :: int
  ReduceMinDifficulty :: bool
  MinDiffReductionTime :: int
  MaxSupportedTxVersion :: int
  MaxTimeOffsetMinutes :: int
  Checkpoints :: "(int \<times> hash) list"

text \<open>A hash given by its 64 hexadecimal digits, most significant first: the bytes are in the reverse order.\<close>

definition newHashFromStr :: "int \<Rightarrow> hash" where
  "newHashFromStr hex = int_le 32 hex"

definition mainPowLimit :: int where "mainPowLimit = 2 ^ 208 - 1"
definition testPowLimit :: int where "testPowLimit = 2 ^ 208 - 1"
definition regressionPowLimit :: int where "regressionPowLimit = 2 ^ 233 - 1"
definition simNetPowLimit :: int where "simNetPowLimit = 2 ^ 233 - 1"

definition MainNetParams :: Params where
  "MainNetParams = \<lparr>Net = MainNet, PowLimit = mainPowLimit, PowLimitBits = 0x1b00ffff, PoWNoRetargeting = False,
     CoinbaseMaturity = 100, TargetTimePerBlock = Minute * 3 + Second * 14, WTEMAHalfLife = Hour * 168,
     ReduceMinDifficulty = False, MinDiffReductionTime = 0, MaxSupportedTxVersion = 5, MaxTimeOffsetMinutes = 5,
     Checkpoints =
       [(2000, newHashFromStr 0xdb2442bfbcd5a9814135aed51cb9e6337d4880a12ab4230c94b1ce60475694bb),
        (5000, newHashFromStr 0x1e16f1bef355dae580546bdf37116be40683f050abf6f7552fd3ca5146467a26),
        (8000, newHashFromStr 0x76cb6d65a9ce5a787a8fa9a91efcf238e3fd4dc7c0ad2264f6a501bad95d8831),
        (11000, newHashFromStr 0x1a01af1039be3a2f71fa1e330f9be1eccf871180dd1a640a8025c6f92cbb886b),
        (14000, newHashFromStr 0x015eb33ed54a91525408e190ca058c2b47a4473eb660b9c5c198fa3052868fe4),
        (17000, newHashFromStr 0xd7fcd969038ff2842ede030be0df3def62861069ae15a30cca20c659ddc5747b)]\<rparr>"

definition RegressionNetParams :: Params where
  "RegressionNetParams = \<lparr>Net = RegTest, PowLimit = regressionPowLimit, PowLimitBits = 0x1e010000,
     PoWNoRetargeting = True, CoinbaseMaturity = 100, TargetTimePerBlock = Minute * 3 + Second * 14,
     WTEMAHalfLife = Hour * 168, ReduceMinDifficulty = True, MinDiffReductionTime = Minute * 6 + Second * 28,
     MaxSupportedTxVersion = 5, MaxTimeOffsetMinutes = 120, Checkpoints = []\<rparr>"

definition TestNetParams :: Params where
  "TestNetParams = \<lparr>Net = TestNet, PowLimit = testPowLimit, PowLimitBits = 0x1b00ffff, PoWNoRetargeting = False,
     CoinbaseMaturity = 100, TargetTimePerBlock = Minute * 3 + Second * 14, WTEMAHalfLife = Hour * 168,
     ReduceMinDifficulty = True, MinDiffReductionTime = Hour * 4, MaxSupportedTxVersion = 5,
     MaxTimeOffsetMinutes = 5, Checkpoints = []\<rparr>"

definition TestNet2Params :: Params where
  "TestNet2Params = TestNetParams\<lparr>Net := TestNet2\<rparr>"

definition SimNetParams :: Params where
  "SimNetParams = RegressionNetParams\<lparr>Net := SimNet, PowLimit := simNetPowLimit\<rparr>"

section \<open>Rule violations\<close>

datatype ErrorCode =
    ErrDuplicateBlock | ErrBlockTooBig | ErrBlockVersionTooOld | ErrInvalidTime | ErrTimeTooOld | ErrTimeTooNew
  | ErrDifficultyTooLow | ErrUnexpectedDifficulty | ErrHighHash | ErrCertificateTooLarge | ErrCertificateMissing
  | ErrDisallowedCertVersion | ErrBadMerkleRoot | ErrBadCheckpoint | ErrForkTooOld | ErrCheckpointTimeTooOld
  | ErrNoTransactions | ErrNoTxInputs | ErrNoTxOutputs | ErrTxTooBig | ErrBadTxOutValue | ErrDuplicateTxInputs
  | ErrBadTxInput | ErrMissingTxOut | ErrUnfinalizedTx | ErrDuplicateTx | ErrOverwriteTx | ErrImmatureSpend
  | ErrSpendTooHigh | ErrBadFees | ErrInsufficientFee | ErrFirstTxNotCoinbase | ErrMultipleCoinbases
  | ErrBadCoinbaseScriptLen | ErrBadCoinbaseValue | ErrMissingCoinbaseHeight | ErrBadCoinbaseHeight
  | ErrScriptMalformed | ErrScriptValidation | ErrUnexpectedWitness | ErrInvalidWitnessCommitment
  | ErrWitnessCommitmentMismatch | ErrPreviousBlockUnknown | ErrInvalidAncestorBlock | ErrPrevBlockNotBest
  | ErrTimewarpAttack | ErrTooManyTransactions | ErrBadAuxPoW

text \<open>
  How a consensus function fails: a rule violation, an internal error of the code (a failed assertion or an error
  that is not a rule violation), or a run-time panic.
\<close>

datatype chainError = RuleError ErrorCode | AssertError | GoPanic

section \<open>The limits agree\<close>

lemma powLimit_pos [simp]:
  "0 < PowLimit MainNetParams" "0 < PowLimit TestNetParams" "0 < PowLimit RegressionNetParams"
  by (simp_all add: MainNetParams_def TestNetParams_def RegressionNetParams_def mainPowLimit_def testPowLimit_def
      regressionPowLimit_def)

text \<open>
  On the main and test networks the compact limit is the compact form of the limit; on the regression network it
  stands for a target of half the limit.
\<close>

lemma PowLimitBits_main: "BigToCompact (PowLimit MainNetParams) = PowLimitBits MainNetParams"
  by code_simp

lemma PowLimitBits_test: "BigToCompact (PowLimit TestNetParams) = PowLimitBits TestNetParams"
  by code_simp

lemma PowLimitBits_regression:
  "BigToCompact (PowLimit RegressionNetParams) = 0x1e01ffff"
  "2 * CompactToBig (PowLimitBits RegressionNetParams) = PowLimit RegressionNetParams + 1"
  by code_simp+

end
