(* ===== verification/Coin_Store.thy ===== *)
theory Coin_Store
  imports Chainio Chain_Params
begin

text \<open>
  What a store of unspent outputs promises.  Two components keep such a store, the view of \<^verbatim>\<open>utxoviewpoint.go\<close> and the
  cache of \<^verbatim>\<open>utxocache.go\<close>, and both connect the transactions of a block to it with the same two loops.

  The specification is a map from outpoints to coins.  The interface \<open>coin_store\<close> states what spending and adding one output
  do to the map a store stands for; what connecting transactions does to it is proved once from these laws.
\<close>

section \<open>The specification\<close>

type_synonym coins = "OutPoint \<Rightarrow> SpentTxOut option"

definition createdCoin :: "TxOut \<Rightarrow> bool \<Rightarrow> int \<Rightarrow> SpentTxOut" where
  "createdCoin txOut isCoinBase blockHeight =
     \<lparr>stxoAmount = outValue txOut, stxoPkScript = PkScript txOut, stxoHeight = blockHeight, stxoIsCoinBase = isCoinBase\<rparr>"

definition txOutPoint :: "MsgTx \<Rightarrow> nat \<Rightarrow> OutPoint" where
  "txOutPoint tx i = \<lparr>Hash = TxHash tx, Index = word_of_nat i\<rparr>"

text \<open>Outputs that can never be spent are not stored.\<close>

definition addCoin :: "coins \<Rightarrow> OutPoint \<Rightarrow> TxOut \<Rightarrow> bool \<Rightarrow> int \<Rightarrow> coins" where
  "addCoin U op txOut isCoinBase blockHeight =
     (if IsUnspendable (PkScript txOut) then U else U(op \<mapsto> createdCoin txOut isCoinBase blockHeight))"

definition addCoins :: "coins \<Rightarrow> MsgTx \<Rightarrow> int \<Rightarrow> coins" where
  "addCoins U tx blockHeight =
     foldl (\<lambda>U (i, txOut). addCoin U (txOutPoint tx i) txOut (IsCoinBaseTx tx) blockHeight) U (enumerate 0 (TxOut tx))"

fun spendCoins :: "coins \<Rightarrow> OutPoint list \<Rightarrow> (coins \<times> SpentTxOut list) option" where
  "spendCoins U [] = Some (U, [])"
| "spendCoins U (op # ops) =
     (case U op of
        None \<Rightarrow> None
      | Some c \<Rightarrow> map_option (\<lambda>(U', cs). (U', c # cs)) (spendCoins (U(op := None)) ops))"

abbreviation spentOutPoints :: "MsgTx \<Rightarrow> OutPoint list" where
  "spentOutPoints tx \<equiv> map PreviousOutPoint (TxIn tx)"

definition connectCoins :: "int \<Rightarrow> coins \<Rightarrow> MsgTx \<Rightarrow> (coins \<times> SpentTxOut list) option" where
  "connectCoins blockHeight U tx =
     (if IsCoinBaseTx tx then Some (addCoins U tx blockHeight, [])
      else map_option (\<lambda>(U', cs). (addCoins U' tx blockHeight, cs)) (spendCoins U (spentOutPoints tx)))"

fun connectBlockCoins :: "int \<Rightarrow> coins \<Rightarrow> MsgTx list \<Rightarrow> (coins \<times> SpentTxOut list) option" where
  "connectBlockCoins blockHeight U [] = Some (U, [])"
| "connectBlockCoins blockHeight U (tx # txs) =
     (case connectCoins blockHeight U tx of
        None \<Rightarrow> None
      | Some (U', cs) \<Rightarrow> map_option (\<lambda>(U'', cs'). (U'', cs @ cs')) (connectBlockCoins blockHeight U' txs))"

section \<open>The loops\<close>

text \<open>
  The loop over the inputs of a transaction, which appends the spent outputs to the journal when one is requested, and
  the loop over its outputs; the operations on one output are those of the store.
\<close>

definition spendInput :: "('s \<Rightarrow> OutPoint \<Rightarrow> ('e, 's \<times> SpentTxOut) result) \<Rightarrow> 's \<times> SpentTxOut list option \<Rightarrow> TxIn \<Rightarrow>
    ('e, 's \<times> SpentTxOut list option) result" where
  "spendInput spend st txIn =
     bindE (spend (fst st) (PreviousOutPoint txIn)) (\<lambda>(s, stxo). Inr (s, map_option (\<lambda>l. l @ [stxo]) (snd st)))"

definition spendInputs :: "('s \<Rightarrow> OutPoint \<Rightarrow> ('e, 's \<times> SpentTxOut) result) \<Rightarrow> 's \<times> SpentTxOut list option \<Rightarrow> TxIn list \<Rightarrow>
    ('e, 's \<times> SpentTxOut list option) result" where
  "spendInputs spend st txIns = foldE (spendInput spend) st txIns"

definition addOutputs :: "('s \<Rightarrow> OutPoint \<Rightarrow> TxOut \<Rightarrow> bool \<Rightarrow> int \<Rightarrow> 's) \<Rightarrow> 's \<Rightarrow> MsgTx \<Rightarrow> int \<Rightarrow> 's" where
  "addOutputs add s tx blockHeight =
     foldl (\<lambda>s (i, txOut). add s (txOutPoint tx i) txOut (IsCoinBaseTx tx) blockHeight) s (enumerate 0 (TxOut tx))"

definition connectTx :: "('s \<Rightarrow> OutPoint \<Rightarrow> ('e, 's \<times> SpentTxOut) result) \<Rightarrow>
    ('s \<Rightarrow> OutPoint \<Rightarrow> TxOut \<Rightarrow> bool \<Rightarrow> int \<Rightarrow> 's) \<Rightarrow> int \<Rightarrow> 's \<times> SpentTxOut list option \<Rightarrow> MsgTx \<Rightarrow>
    ('e, 's \<times> SpentTxOut list option) result" where
  "connectTx spend add blockHeight st tx =
     bindE (if IsCoinBaseTx tx then Inr st else spendInputs spend st (TxIn tx)) (\<lambda>(s, stxos).
       Inr (addOutputs add s tx blockHeight, stxos))"

section \<open>The interface\<close>

locale coin_store =
  fixes coins :: "'s \<Rightarrow> coins"
    and inv :: "'s \<Rightarrow> bool"
    and addable :: "'s \<Rightarrow> OutPoint \<Rightarrow> TxOut \<Rightarrow> int \<Rightarrow> bool"
    and spend :: "'s \<Rightarrow> OutPoint \<Rightarrow> ('e, 's \<times> SpentTxOut) result"
    and add :: "'s \<Rightarrow> OutPoint \<Rightarrow> TxOut \<Rightarrow> bool \<Rightarrow> int \<Rightarrow> 's"
  assumes spend_law: "inv s \<Longrightarrow> coins s op = Some c \<Longrightarrow>
      \<exists>s'. spend s op = Inr (s', c) \<and> inv s' \<and> coins s' = (coins s)(op := None) \<and> addable s' = addable s"
    and add_law: "inv s \<Longrightarrow> addable s op txOut h \<Longrightarrow>
      inv (add s op txOut cb h) \<and> coins (add s op txOut cb h) = addCoin (coins s) op txOut cb h \<and>
      addable (add s op txOut cb h) = addable s"
begin

lemma spendInputs_refines:
  "inv s \<Longrightarrow> spendCoins (coins s) (map PreviousOutPoint txIns) = Some (U, cs) \<Longrightarrow>
     \<exists>s'. spendInputs spend (s, stxos) txIns = Inr (s', map_option (\<lambda>l. l @ cs) stxos) \<and>
       inv s' \<and> coins s' = U \<and> addable s' = addable s"
proof (induction txIns arbitrary: s stxos cs)
  case Nil
  then show ?case by (cases stxos) (auto simp: spendInputs_def)
next
  case (Cons txIn txIns)
  from Cons.prems obtain c cs' where c: "coins s (PreviousOutPoint txIn) = Some c" "cs = c # cs'"
    "spendCoins ((coins s)(PreviousOutPoint txIn := None)) (map PreviousOutPoint txIns) = Some (U, cs')"
    by (auto split: option.splits)
  from spend_law [OF Cons.prems(1) c(1)] obtain s1 where s1: "spend s (PreviousOutPoint txIn) = Inr (s1, c)" "inv s1"
    "coins s1 = (coins s)(PreviousOutPoint txIn := None)" "addable s1 = addable s" by blast
  have "spendCoins (coins s1) (map PreviousOutPoint txIns) = Some (U, cs')" using c(3) unfolding s1(3) .
  from Cons.IH [OF s1(2) this, of "map_option (\<lambda>l. l @ [c]) stxos"] obtain s2 where
    "spendInputs spend (s1, map_option (\<lambda>l. l @ [c]) stxos) txIns = Inr (s2, map_option (\<lambda>l. l @ cs') (map_option (\<lambda>l. l @ [c]) stxos))"
    "inv s2" "coins s2 = U" "addable s2 = addable s1" by blast
  then show ?case using s1 c by (auto simp: spendInputs_def spendInput_def bindE_def option.map_comp comp_def)
qed

lemma addOutputs_refines:
  assumes "inv s" "\<forall>i < length (TxOut tx). addable s (txOutPoint tx i) (TxOut tx ! i) h"
  shows "inv (addOutputs add s tx h) \<and> coins (addOutputs add s tx h) = addCoins (coins s) tx h \<and>
    addable (addOutputs add s tx h) = addable s"
proof -
  have "inv (foldl (\<lambda>s (i, txOut). add s (txOutPoint tx i) txOut (IsCoinBaseTx tx) h) s xs) \<and>
      coins (foldl (\<lambda>s (i, txOut). add s (txOutPoint tx i) txOut (IsCoinBaseTx tx) h) s xs) =
        foldl (\<lambda>U (i, txOut). addCoin U (txOutPoint tx i) txOut (IsCoinBaseTx tx) h) (coins s) xs \<and>
      addable (foldl (\<lambda>s (i, txOut). add s (txOutPoint tx i) txOut (IsCoinBaseTx tx) h) s xs) = addable s"
    if "\<forall>(i, txOut) \<in> set xs. addable s (txOutPoint tx i) txOut h" "inv s" for xs s
    using that
  proof (induction xs arbitrary: s)
    case (Cons x xs)
    obtain i txOut where x: "x = (i, txOut)" by (cases x)
    have "addable s (txOutPoint tx i) txOut h" using Cons.prems x by auto
    note a = add_law [OF Cons.prems(2) this, of "IsCoinBaseTx tx"]
    then show ?case using Cons.IH [of "add s (txOutPoint tx i) txOut (IsCoinBaseTx tx) h"] Cons.prems x by auto
  qed simp
  moreover have "\<forall>(i, txOut) \<in> set (enumerate 0 (TxOut tx)). addable s (txOutPoint tx i) txOut h"
    using assms(2) by (auto simp: in_set_enumerate_eq)
  ultimately show ?thesis using assms(1) by (simp add: addOutputs_def addCoins_def)
qed

lemma connectTx_refines:
  assumes "inv s" "connectCoins h (coins s) tx = Some (U, cs)"
    "\<forall>i < length (TxOut tx). addable s (txOutPoint tx i) (TxOut tx ! i) h"
  shows "\<exists>s'. connectTx spend add h (s, stxos) tx = Inr (s', map_option (\<lambda>l. l @ cs) stxos) \<and>
    inv s' \<and> coins s' = U \<and> addable s' = addable s"
proof (cases "IsCoinBaseTx tx")
  case True
  then show ?thesis using assms addOutputs_refines [OF assms(1,3)]
    by (cases stxos) (auto simp: connectTx_def connectCoins_def bindE_def)
next
  case False
  then obtain U' where U': "spendCoins (coins s) (spentOutPoints tx) = Some (U', cs)" "U = addCoins U' tx h"
    using assms(2) by (auto simp: connectCoins_def)
  from spendInputs_refines [OF assms(1) U'(1), of stxos] obtain s1 where s1:
    "spendInputs spend (s, stxos) (TxIn tx) = Inr (s1, map_option (\<lambda>l. l @ cs) stxos)" "inv s1" "coins s1 = U'" "addable s1 = addable s"
    by blast
  then show ?thesis using False U' addOutputs_refines [OF s1(2)] assms(3) by (auto simp: connectTx_def bindE_def)
qed

lemma connectTxs_refines:
  "inv s \<Longrightarrow> connectBlockCoins h (coins s) txs = Some (U, cs) \<Longrightarrow>
     \<forall>tx \<in> set txs. \<forall>i < length (TxOut tx). addable s (txOutPoint tx i) (TxOut tx ! i) h \<Longrightarrow>
     \<exists>s'. foldE (connectTx spend add h) (s, stxos) txs = Inr (s', map_option (\<lambda>l. l @ cs) stxos) \<and>
       inv s' \<and> coins s' = U \<and> addable s' = addable s"
proof (induction txs arbitrary: s stxos cs)
  case Nil
  then show ?case by (cases stxos) auto
next
  case (Cons tx txs)
  from Cons.prems(2) obtain U1 cs1 cs2 where U1: "connectCoins h (coins s) tx = Some (U1, cs1)"
    "connectBlockCoins h U1 txs = Some (U, cs2)" "cs = cs1 @ cs2" by (auto split: option.splits prod.splits)
  from connectTx_refines [OF Cons.prems(1) U1(1), of stxos] Cons.prems(3) obtain s1 where s1:
    "connectTx spend add h (s, stxos) tx = Inr (s1, map_option (\<lambda>l. l @ cs1) stxos)" "inv s1" "coins s1 = U1" "addable s1 = addable s"
    by auto
  have "connectBlockCoins h (coins s1) txs = Some (U, cs2)" using U1(2) s1(3) by simp
  from Cons.IH [OF s1(2) this, of "map_option (\<lambda>l. l @ cs1) stxos"] Cons.prems(3) s1(4) obtain s2 where
    "foldE (connectTx spend add h) (s1, map_option (\<lambda>l. l @ cs1) stxos) txs =
       Inr (s2, map_option (\<lambda>l. l @ cs2) (map_option (\<lambda>l. l @ cs1) stxos))"
    "inv s2" "coins s2 = U" "addable s2 = addable s1" by auto
  then show ?case using s1 U1 by (auto simp: bindE_def option.map_comp comp_def)
qed

end

end
