(* ===== verification/Utxo_View.thy ===== *)
theory Utxo_View
  imports Coin_Store "HOL-Library.AList"
begin

text \<open>
  The view of the unspent outputs (\<^verbatim>\<open>node/blockchain/utxoviewpoint.go\<close>): loading, connecting and disconnecting the
  transactions of a block, and writing the result to the database (\<^verbatim>\<open>dbPutUtxoView\<close> of \<^verbatim>\<open>chainio.go\<close>).

  The map of entries is an association list with distinct keys; the value \<open>None\<close> is the nil pointer of an output that was
  looked up and not found.  Entries are pointers in the code, but every entry is reachable from one map only.  A block has
  at least a coinbase.
\<close>

section \<open>Operations on single outputs\<close>

record UtxoViewpoint =
  viewEntries :: "(OutPoint \<times> UtxoEntry option) list"
  bestHash :: hash

definition NewUtxoViewpoint :: UtxoViewpoint where
  "NewUtxoViewpoint = \<lparr>viewEntries = [], bestHash = zeroHash\<rparr>"

definition LookupEntry :: "UtxoViewpoint \<Rightarrow> OutPoint \<Rightarrow> UtxoEntry option" where
  "LookupEntry view outpoint = (case map_of (viewEntries view) outpoint of None \<Rightarrow> None | Some entry \<Rightarrow> entry)"

definition setEntry :: "UtxoViewpoint \<Rightarrow> OutPoint \<Rightarrow> UtxoEntry option \<Rightarrow> UtxoViewpoint" where
  "setEntry view outpoint entry = view\<lparr>viewEntries := AList.update outpoint entry (viewEntries view)\<rparr>"

definition FetchPrevOutput :: "UtxoViewpoint \<Rightarrow> OutPoint \<Rightarrow> TxOut option" where
  "FetchPrevOutput view op =
     (case LookupEntry view op of
        None \<Rightarrow> None
      | Some prevOut \<Rightarrow> Some \<lparr>Value = word_of_int (entryAmount prevOut), PkScript = entryPkScript prevOut\<rparr>)"

text \<open>All fields of an existing entry are overwritten, so that whether there was one makes no difference.\<close>

definition freshEntry :: "TxOut \<Rightarrow> bool \<Rightarrow> int \<Rightarrow> UtxoEntry" where
  "freshEntry txOut isCoinBase blockHeight =
     \<lparr>entryAmount = outValue txOut, entryPkScript = PkScript txOut, entryHeight = blockHeight,
      packedFlags = (let flags = tfFresh OR tfModified in if isCoinBase then flags OR tfCoinBase else flags)\<rparr>"

definition view_addTxOut :: "UtxoViewpoint \<Rightarrow> OutPoint \<Rightarrow> TxOut \<Rightarrow> bool \<Rightarrow> int \<Rightarrow> UtxoViewpoint" where
  "view_addTxOut view outpoint txOut isCoinBase blockHeight =
     (if IsUnspendable (PkScript txOut) then view
      else setEntry view outpoint (Some (freshEntry txOut isCoinBase blockHeight)))"

definition AddTxOut :: "UtxoViewpoint \<Rightarrow> MsgTx \<Rightarrow> 32 word \<Rightarrow> int \<Rightarrow> UtxoViewpoint" where
  "AddTxOut view tx txOutIdx blockHeight =
     (if txOutIdx \<ge> word_of_nat (length (TxOut tx)) then view
      else view_addTxOut view \<lparr>Hash = TxHash tx, Index = txOutIdx\<rparr> (TxOut tx ! unat txOutIdx) (IsCoinBaseTx tx) blockHeight)"

definition AddTxOuts :: "UtxoViewpoint \<Rightarrow> MsgTx \<Rightarrow> int \<Rightarrow> UtxoViewpoint" where
  "AddTxOuts view tx blockHeight = addOutputs view_addTxOut view tx blockHeight"

definition RemoveEntry :: "UtxoViewpoint \<Rightarrow> OutPoint \<Rightarrow> UtxoViewpoint" where
  "RemoveEntry view outpoint = view\<lparr>viewEntries := AList.delete outpoint (viewEntries view)\<rparr>"

section \<open>Connecting a block\<close>

definition spendEntry :: "UtxoViewpoint \<Rightarrow> OutPoint \<Rightarrow> (chainError, UtxoViewpoint \<times> SpentTxOut) result" where
  "spendEntry view outpoint =
     (case LookupEntry view outpoint of
        None \<Rightarrow> Inl AssertError
      | Some entry \<Rightarrow> Inr (setEntry view outpoint (Some (Spend entry)), coinOf entry))"

definition connectTransaction ::
  "int \<Rightarrow> UtxoViewpoint \<times> SpentTxOut list option \<Rightarrow> MsgTx \<Rightarrow> (chainError, UtxoViewpoint \<times> SpentTxOut list option) result" where
  "connectTransaction blockHeight st tx =
     (if IsCoinBaseTx tx then Inr (AddTxOuts (fst st) tx blockHeight, snd st)
      else bindE (spendInputs spendEntry st (TxIn tx)) (\<lambda>(view, stxos). Inr (AddTxOuts view tx blockHeight, stxos)))"

definition connectTransactions ::
  "UtxoViewpoint \<Rightarrow> MsgBlock \<Rightarrow> int \<Rightarrow> SpentTxOut list option \<Rightarrow>
     (chainError, UtxoViewpoint \<times> SpentTxOut list option) result" where
  "connectTransactions view block blockHeight stxos =
     bindE (foldE (connectTransaction blockHeight) (view, stxos) (Transactions block)) (\<lambda>(view, stxos).
       Inr (view\<lparr>bestHash := MsgBlock_BlockHash block\<rparr>, stxos))"

section \<open>Disconnecting a block\<close>

definition removeOutput :: "MsgTx \<Rightarrow> int \<Rightarrow> byte \<Rightarrow> UtxoViewpoint \<Rightarrow> nat \<times> TxOut \<Rightarrow> UtxoViewpoint" where
  "removeOutput tx blockHeight flags view out = (case out of (txOutIdx, txOut) \<Rightarrow>
     if IsUnspendable (PkScript txOut) then view
     else let prevOut = txOutPoint tx txOutIdx;
              entry = (case LookupEntry view prevOut of
                 None \<Rightarrow> \<lparr>entryAmount = outValue txOut, entryPkScript = PkScript txOut, entryHeight = blockHeight, packedFlags = flags\<rparr>
               | Some entry \<Rightarrow> entry)
          in setEntry view prevOut (Some (Spend entry)))"

definition restoredEntry :: "SpentTxOut \<Rightarrow> UtxoEntry" where
  "restoredEntry stxo =
     \<lparr>entryAmount = stxoAmount stxo, entryPkScript = stxoPkScript stxo, entryHeight = stxoHeight stxo,
      packedFlags = (if stxoIsCoinBase stxo then tfModified OR tfCoinBase else tfModified)\<rparr>"

text \<open>The spent outputs that are still to be restored are kept from the last to the first.\<close>

definition restoreInput :: "UtxoViewpoint \<times> SpentTxOut list \<Rightarrow> TxIn \<Rightarrow> UtxoViewpoint \<times> SpentTxOut list" where
  "restoreInput st txIn = (case st of (view, stxos) \<Rightarrow>
     (setEntry view (PreviousOutPoint txIn) (Some (restoredEntry (hd stxos))), tl stxos))"

definition disconnectTransaction :: "int \<Rightarrow> UtxoViewpoint \<times> SpentTxOut list \<Rightarrow> nat \<times> MsgTx \<Rightarrow> UtxoViewpoint \<times> SpentTxOut list" where
  "disconnectTransaction blockHeight st tx = (case (st, tx) of ((view, stxos), (txIdx, tx)) \<Rightarrow>
     let isCoinBase = (txIdx = 0);
         flags = (if isCoinBase then tfCoinBase else 0);
         view = foldl (removeOutput tx blockHeight flags) view (enumerate 0 (TxOut tx))
     in if isCoinBase then (view, stxos) else foldl restoreInput (view, stxos) (rev (TxIn tx)))"

definition disconnectTransactions :: "UtxoViewpoint \<Rightarrow> MsgBlock \<Rightarrow> int \<Rightarrow> SpentTxOut list \<Rightarrow> (chainError, UtxoViewpoint) result" where
  "disconnectTransactions view block blockHeight stxos =
     (if length stxos \<noteq> countSpentOutputs block then Inl AssertError
      else let (view, _) = foldl (disconnectTransaction blockHeight) (view, rev stxos) (rev (enumerate 0 (Transactions block)))
           in Inr (view\<lparr>bestHash := PrevBlock (MsgBlock_BlockHeader block)\<rparr>))"

section \<open>Committing\<close>

fun commitEntries :: "(OutPoint \<times> UtxoEntry option) list \<Rightarrow> (OutPoint \<times> UtxoEntry option) list" where
  "commitEntries [] = []"
| "commitEntries ((outpoint, None) # es) = commitEntries es"
| "commitEntries ((outpoint, Some entry) # es) =
     (if isModified entry \<and> IsSpent entry then commitEntries es
      else (outpoint, Some (entry\<lparr>packedFlags := packedFlags entry XOR tfModified\<rparr>)) # commitEntries es)"

definition commit :: "UtxoViewpoint \<Rightarrow> UtxoViewpoint" where
  "commit view = view\<lparr>viewEntries := commitEntries (viewEntries view)\<rparr>"

definition putViewEntry :: "(bytes \<Rightarrow> bytes option) \<Rightarrow> bucket \<Rightarrow> OutPoint \<times> UtxoEntry option \<Rightarrow> (storeError, bucket) result" where
  "putViewEntry K utxoBucket e = (case e of (outpoint, entry) \<Rightarrow>
     (case entry of
        None \<Rightarrow> Inr utxoBucket
      | Some entry \<Rightarrow>
          if \<not> isModified entry then Inr utxoBucket
          else if IsSpent entry then Inr (dbDeleteUtxoEntry utxoBucket outpoint)
          else dbPutUtxoEntry K utxoBucket outpoint (Some entry)))"

definition dbPutUtxoView :: "(bytes \<Rightarrow> bytes option) \<Rightarrow> bucket \<Rightarrow> UtxoViewpoint \<Rightarrow> (storeError, bucket) result" where
  "dbPutUtxoView K utxoBucket view = foldE (putViewEntry K) utxoBucket (viewEntries view)"

section \<open>Finding the inputs of a block\<close>

text \<open>The position of a transaction in the block by its hash; the last one counts.\<close>

definition txInFlight :: "MsgTx list \<Rightarrow> hash \<Rightarrow> nat option" where
  "txInFlight transactions = map_of (rev (map (\<lambda>(i, tx). (TxHash tx, i)) (enumerate 0 transactions)))"

definition findInput :: "MsgTx list \<Rightarrow> int \<Rightarrow> nat \<Rightarrow> UtxoViewpoint \<times> OutPoint list \<Rightarrow> TxIn \<Rightarrow> UtxoViewpoint \<times> OutPoint list" where
  "findInput transactions blockHeight i st txIn = (case st of (view, needed) \<Rightarrow>
     let origin = PreviousOutPoint txIn;
         load = (if map_of (viewEntries view) origin \<noteq> None then (view, needed) else (view, needed @ [origin]))
     in case txInFlight transactions (Hash origin) of
          Some inFlightIndex \<Rightarrow>
            if i \<ge> inFlightIndex then (AddTxOuts view (transactions ! inFlightIndex) blockHeight, needed) else load
        | None \<Rightarrow> load)"

definition findInputsToFetch :: "UtxoViewpoint \<Rightarrow> MsgBlock \<Rightarrow> int \<Rightarrow> UtxoViewpoint \<times> OutPoint list" where
  "findInputsToFetch view block blockHeight =
     foldl (\<lambda>st (i, tx). foldl (findInput (Transactions block) blockHeight i) st (TxIn tx)) (view, [])
       (enumerate 0 (drop 1 (Transactions block)))"

section \<open>The coins of a view\<close>

definition viewCoins :: "UtxoViewpoint \<Rightarrow> coins" where
  "viewCoins view op =
     (case LookupEntry view op of None \<Rightarrow> None | Some e \<Rightarrow> if IsSpent e then None else Some (coinOf e))"

lemma LookupEntry_setEntry: "LookupEntry (setEntry view op e) op' = (if op' = op then e else LookupEntry view op')"
  by (simp add: LookupEntry_def setEntry_def update_conv')

lemma viewCoins_setEntry:
  "viewCoins (setEntry view op (Some e)) = (viewCoins view)(op := if IsSpent e then None else Some (coinOf e))"
  by (rule ext) (simp add: viewCoins_def LookupEntry_setEntry)

lemma viewCoins_bestHash [simp]: "viewCoins (view\<lparr>bestHash := h\<rparr>) = viewCoins view"
  by (rule ext) (simp add: viewCoins_def LookupEntry_def)

lemma flag_bits [simp]:
  "bit tfCoinBase 0" "\<not> bit tfCoinBase 1" "\<not> bit tfCoinBase 2" "\<not> bit tfCoinBase 3"
  "\<not> bit tfSpent 0" "bit tfSpent 1" "\<not> bit tfSpent 2" "\<not> bit tfSpent 3"
  "\<not> bit tfModified 0" "\<not> bit tfModified 1" "bit tfModified 2" "\<not> bit tfModified 3"
  "\<not> bit tfFresh 0" "\<not> bit tfFresh 1" "\<not> bit tfFresh 2" "bit tfFresh 3"
  by (simp_all add: tfCoinBase_def tfSpent_def tfModified_def tfFresh_def bit_iff_odd)

lemma flag_bits_Suc [simp]:
  "\<not> bit tfCoinBase (Suc 0)" "bit tfSpent (Suc 0)" "\<not> bit tfModified (Suc 0)" "\<not> bit tfFresh (Suc 0)"
  using flag_bits by simp_all

lemma freshEntry_simps [simp]:
  "\<not> IsSpent (freshEntry txOut cb h)" "coinOf (freshEntry txOut cb h) = createdCoin txOut cb h"
  "isModified (freshEntry txOut cb h)" "isFresh (freshEntry txOut cb h)"
  by (simp_all add: freshEntry_def entry_flags bit_or_iff coinOf_def createdCoin_def Let_def)

lemma restoredEntry_simps [simp]:
  "\<not> IsSpent (restoredEntry c)" "coinOf (restoredEntry c) = c" "isModified (restoredEntry c)"
  by (simp_all add: restoredEntry_def entry_flags bit_or_iff coinOf_def)

text \<open>What a view holds of each output: a spent entry is marked as modified, and an unspent one is a good coin.\<close>

definition viewInv :: "(SpentTxOut \<Rightarrow> bool) \<Rightarrow> UtxoViewpoint \<Rightarrow> bool" where
  "viewInv good view \<longleftrightarrow>
     (\<forall>op e. LookupEntry view op = Some e \<longrightarrow> (if IsSpent e then isModified e else good (coinOf e)))"

lemma viewInv_setEntry: "viewInv good view \<Longrightarrow> (if IsSpent e then isModified e else good (coinOf e)) \<Longrightarrow> viewInv good (setEntry view op (Some e))"
  by (auto simp: viewInv_def LookupEntry_setEntry split: if_splits)

lemma viewInv_Spend: "viewInv good view \<Longrightarrow> LookupEntry view op = Some e \<Longrightarrow> isModified (Spend e)"
proof (cases "IsSpent e")
  case True
  then show "viewInv good view \<Longrightarrow> LookupEntry view op = Some e \<Longrightarrow> isModified (Spend e)" by (auto simp: viewInv_def Spend_def)
qed (simp add: Spend_isModified)

lemma viewInv_bestHash [simp]: "viewInv good (view\<lparr>bestHash := h\<rparr>) = viewInv good view"
  by (simp add: viewInv_def LookupEntry_def)

abbreviation anyCoin :: "SpentTxOut \<Rightarrow> bool" where "anyCoin \<equiv> \<lambda>_. True"

interpretation view_store: coin_store viewCoins "viewInv anyCoin" "\<lambda>_ _ _ _. True" spendEntry view_addTxOut
proof
  fix view op c
  assume "viewInv anyCoin view" "viewCoins view op = Some c"
  then obtain e where e: "LookupEntry view op = Some e" "\<not> IsSpent e" "c = coinOf e" "isModified (Spend e)"
    using viewInv_Spend by (auto simp: viewCoins_def split: option.splits if_splits)
  then show "\<exists>view'. spendEntry view op = Inr (view', c) \<and> viewInv anyCoin view' \<and> viewCoins view' = (viewCoins view)(op := None) \<and>
      (\<lambda>_ _ _. True) = (\<lambda>_ _ _. True)"
    using \<open>viewInv anyCoin view\<close>
    by (intro exI [of _ "setEntry view op (Some (Spend e))"]) (simp add: spendEntry_def viewCoins_setEntry viewInv_setEntry)
next
  fix view op txOut h cb
  assume "viewInv anyCoin view"
  then show "viewInv anyCoin (view_addTxOut view op txOut cb h) \<and>
      viewCoins (view_addTxOut view op txOut cb h) = addCoin (viewCoins view) op txOut cb h \<and> (\<lambda>_ _ _. True) = (\<lambda>_ _ _. True)"
    by (simp add: view_addTxOut_def addCoin_def viewCoins_setEntry viewInv_setEntry)
qed

lemma connectTransaction_generic: "connectTransaction = connectTx spendEntry view_addTxOut"
  by (intro ext) (auto simp: connectTransaction_def connectTx_def AddTxOuts_def bindE_def)

section \<open>Disconnecting undoes connecting\<close>

subsection \<open>On coins\<close>

definition removeCoins :: "coins \<Rightarrow> MsgTx \<Rightarrow> coins" where
  "removeCoins U tx =
     foldl (\<lambda>U (i, txOut). if IsUnspendable (PkScript txOut) then U else U(txOutPoint tx i := None)) U (enumerate 0 (TxOut tx))"

definition restoreCoins :: "coins \<Rightarrow> (OutPoint \<times> SpentTxOut) list \<Rightarrow> coins" where
  "restoreCoins U cs = foldr (\<lambda>(op, c) U. U(op \<mapsto> c)) cs U"

lemma restoreCoins_spendCoins:
  "spendCoins U ops = Some (U', cs) \<Longrightarrow> restoreCoins U' (zip ops cs) = U \<and> length cs = length ops \<and> (\<forall>op. U op = None \<longrightarrow> U' op = None)"
proof (induction ops arbitrary: U cs)
  case (Cons op ops)
  then obtain c cs' where c: "U op = Some c" "cs = c # cs'" "spendCoins (U(op := None)) ops = Some (U', cs')"
    by (auto split: option.splits)
  from Cons.IH [OF c(3)] have "restoreCoins U' (zip ops cs') = U(op := None)" "length cs' = length ops"
    "\<forall>op'. (U(op := None)) op' = None \<longrightarrow> U' op' = None" by auto
  moreover have "U(op := None, op \<mapsto> c) = U" using c(1) by auto
  ultimately show ?case using c by (auto simp: restoreCoins_def)
qed (simp add: restoreCoins_def)

text \<open>The outputs of a transaction that are stored.\<close>

definition createdOutPoints :: "MsgTx \<Rightarrow> OutPoint list" where
  "createdOutPoints tx =
     map (\<lambda>(i, _). txOutPoint tx i) (filter (\<lambda>(_, txOut). \<not> IsUnspendable (PkScript txOut)) (enumerate 0 (TxOut tx)))"

lemma addCoins_outside: "op \<notin> set (createdOutPoints tx) \<Longrightarrow> addCoins U tx h op = U op"
proof -
  assume op: "op \<notin> set (createdOutPoints tx)"
  have "foldl (\<lambda>U (i, txOut). addCoin U (txOutPoint tx i) txOut (IsCoinBaseTx tx) h) U xs op = U op"
    if "\<forall>(i, txOut) \<in> set xs. \<not> IsUnspendable (PkScript txOut) \<longrightarrow> op \<noteq> txOutPoint tx i" for xs U
    using that by (induction xs arbitrary: U) (auto simp: addCoin_def)
  moreover have "\<forall>(i, txOut) \<in> set (enumerate 0 (TxOut tx)). \<not> IsUnspendable (PkScript txOut) \<longrightarrow> op \<noteq> txOutPoint tx i"
    using op by (auto simp: createdOutPoints_def)
  ultimately show ?thesis by (simp add: addCoins_def)
qed

lemma removeCoins_eq: "removeCoins U tx op = (if op \<in> set (createdOutPoints tx) then None else U op)"
proof -
  have fold: "foldl (\<lambda>U (i, txOut). if IsUnspendable (PkScript txOut) then U else U(txOutPoint tx i := None)) U xs op =
      (if \<exists>(i, txOut) \<in> set xs. \<not> IsUnspendable (PkScript txOut) \<and> op = txOutPoint tx i then None else U op)" for xs and U :: coins
    by (induction xs arbitrary: U) (auto split: if_splits)
  have "(\<exists>(i, txOut) \<in> set (enumerate 0 (TxOut tx)). \<not> IsUnspendable (PkScript txOut) \<and> op = txOutPoint tx i) \<longleftrightarrow>
      op \<in> set (createdOutPoints tx)"
    by (auto simp: createdOutPoints_def)
  then show ?thesis unfolding removeCoins_def fold by simp
qed

lemma removeCoins_addCoins:
  assumes "\<forall>op \<in> set (createdOutPoints tx). U op = None"
  shows "removeCoins (addCoins U tx h) tx = U"
  using assms by (intro ext) (simp add: removeCoins_eq addCoins_outside)


text \<open>
  A block does not recreate an output that exists: what a transaction creates is absent when it is connected.
\<close>

fun createsFresh :: "int \<Rightarrow> coins \<Rightarrow> MsgTx list \<Rightarrow> bool" where
  "createsFresh h U [] = True"
| "createsFresh h U (tx # txs) =
     (list_all (\<lambda>op. U op = None) (createdOutPoints tx) \<and>
      (case connectCoins h U tx of None \<Rightarrow> False | Some (U', _) \<Rightarrow> createsFresh h U' txs))"

text \<open>The coinbase is the first transaction of a block and no other.\<close>

definition coinbaseFirst :: "MsgTx list \<Rightarrow> bool" where
  "coinbaseFirst txs = (case txs of [] \<Rightarrow> False | tx # txs \<Rightarrow> IsCoinBaseTx tx \<and> list_all (\<lambda>tx. \<not> IsCoinBaseTx tx) txs)"

lemma length_connectBlockCoins:
  "connectBlockCoins h U txs = Some (U', cs) \<Longrightarrow>
     length cs = sum_list (map (\<lambda>tx. if IsCoinBaseTx tx then 0 else length (TxIn tx)) txs)"
proof (induction txs arbitrary: U cs)
  case (Cons tx txs)
  then obtain U1 cs1 cs2 where c: "connectCoins h U tx = Some (U1, cs1)" "connectBlockCoins h U1 txs = Some (U', cs2)" "cs = cs1 @ cs2"
    by (auto split: option.splits prod.splits)
  have "length cs1 = (if IsCoinBaseTx tx then 0 else length (TxIn tx))"
    using c(1) restoreCoins_spendCoins by (auto simp: connectCoins_def split: if_splits)
  then show ?case using c Cons.IH by simp
qed simp

lemma countSpentOutputs_connect:
  assumes "connectBlockCoins h U (Transactions block) = Some (U', cs)" "coinbaseFirst (Transactions block)"
  shows "length cs = countSpentOutputs block"
proof -
  have "sum_list (map (\<lambda>tx. if IsCoinBaseTx tx then 0 else length (TxIn tx)) txs) = sum_list (map (\<lambda>tx. length (TxIn tx)) txs)"
    if "list_all (\<lambda>tx. \<not> IsCoinBaseTx tx) txs" for txs using that by (induction txs) auto
  then show ?thesis using length_connectBlockCoins [OF assms(1)] assms(2)
    by (auto simp: countSpentOutputs_def coinbaseFirst_def split: list.splits)
qed

subsection \<open>On views\<close>

lemma restoreInput_Cons: "restoreInput (view, c # cs) txIn = (setEntry view (PreviousOutPoint txIn) (Some (restoredEntry c)), cs)"
  by (simp add: restoreInput_def)

text \<open>
  Two ways to read the coins of a view, alone or on top of a database, follow its modified entries.  Disconnecting
  touches the view through such entries only, so that what it does is proved for both at once.
\<close>

locale modified_entries =
  fixes coins :: "UtxoViewpoint \<Rightarrow> coins"
  assumes set_law: "isModified e \<Longrightarrow>
      coins (setEntry view op (Some e)) = (coins view)(op := if IsSpent e then None else Some (coinOf e))"
    and best_law: "coins (view\<lparr>bestHash := h\<rparr>) = coins view"
begin

lemma removeOutput_step:
  assumes "viewInv good view" "flags = tfCoinBase \<or> flags = 0"
  shows "viewInv good (removeOutput tx h flags view (i, txOut)) \<and>
    coins (removeOutput tx h flags view (i, txOut)) =
      (if IsUnspendable (PkScript txOut) then coins view else (coins view)(txOutPoint tx i := None))"
proof (cases "IsUnspendable (PkScript txOut)")
  case False
  define e where "e = (case LookupEntry view (txOutPoint tx i) of
      None \<Rightarrow> \<lparr>entryAmount = outValue txOut, entryPkScript = PkScript txOut, entryHeight = h, packedFlags = flags\<rparr>
    | Some entry \<Rightarrow> entry)"
  have "isModified (Spend e)"
  proof (cases "LookupEntry view (txOutPoint tx i)")
    case None
    then have "\<not> IsSpent e" using assms(2) by (auto simp: e_def entry_flags)
    then show ?thesis by (rule Spend_isModified)
  next
    case (Some e')
    then show ?thesis using viewInv_Spend [OF assms(1)] by (simp add: e_def)
  qed
  moreover have "removeOutput tx h flags view (i, txOut) = setEntry view (txOutPoint tx i) (Some (Spend e))"
    using False by (simp add: removeOutput_def e_def Let_def)
  ultimately show ?thesis using False set_law assms(1) by (simp add: viewInv_setEntry)
qed (use assms in \<open>simp add: removeOutput_def\<close>)

lemma removeOutputs:
  assumes "viewInv good view" "flags = tfCoinBase \<or> flags = 0"
  shows "viewInv good (foldl (removeOutput tx h flags) view (enumerate 0 (TxOut tx))) \<and>
    coins (foldl (removeOutput tx h flags) view (enumerate 0 (TxOut tx))) = removeCoins (coins view) tx"
proof -
  have "viewInv good (foldl (removeOutput tx h flags) view xs) \<and> coins (foldl (removeOutput tx h flags) view xs) =
      foldl (\<lambda>U (i, txOut). if IsUnspendable (PkScript txOut) then U else U(txOutPoint tx i := None)) (coins view) xs" for xs
    using assms(1)
  proof (induction xs arbitrary: view)
    case (Cons x xs)
    obtain i txOut where x: "x = (i, txOut)" by (cases x)
    note st = removeOutput_step [OF Cons.prems assms(2), of tx h i txOut]
    then show ?case using Cons.IH [of "removeOutput tx h flags view (i, txOut)"] x by simp
  qed simp
  then show ?thesis by (simp add: removeCoins_def)
qed

lemma restoreInputs:
  assumes "viewInv good view" "length cs = length txIns" "list_all good cs"
  shows "\<exists>view'. foldl restoreInput (view, rev cs @ rest) (rev txIns) = (view', rest) \<and> viewInv good view' \<and>
    coins view' = restoreCoins (coins view) (zip (map PreviousOutPoint txIns) cs)"
  using assms
proof (induction txIns arbitrary: view cs rule: rev_induct)
  case Nil
  then show ?case by (simp add: restoreCoins_def)
next
  case (snoc txIn txIns)
  then obtain cs' c where cs: "cs = cs' @ [c]" "length cs' = length txIns" by (cases cs rule: rev_cases) auto
  define view1 where "view1 = setEntry view (PreviousOutPoint txIn) (Some (restoredEntry c))"
  have "viewInv good view1" using snoc.prems cs by (simp add: view1_def viewInv_setEntry)
  from snoc.IH [OF this cs(2)] snoc.prems(3) cs(1) obtain view' where
    "foldl restoreInput (view1, rev cs' @ rest) (rev txIns) = (view', rest)" "viewInv good view'"
    "coins view' = restoreCoins (coins view1) (zip (map PreviousOutPoint txIns) cs')" by auto
  moreover have "coins view1 = (coins view)(PreviousOutPoint txIn \<mapsto> c)" using set_law by (simp add: view1_def)
  ultimately show ?case using cs by (simp add: restoreInput_Cons view1_def [symmetric] restoreCoins_def)
qed

lemma disconnectTransaction_undoes:
  assumes "viewInv good view" "coins view = U'" "connectCoins h U tx = Some (U', cs)" "list_all good cs"
    "list_all (\<lambda>op. U op = None) (createdOutPoints tx)" "IsCoinBaseTx tx \<longleftrightarrow> j = 0"
  shows "\<exists>view'. disconnectTransaction h (view, rev cs @ rest) (j, tx) = (view', rest) \<and> viewInv good view' \<and> coins view' = U"
proof -
  define view1 where "view1 = foldl (removeOutput tx h (if j = 0 then tfCoinBase else 0)) view (enumerate 0 (TxOut tx))"
  have v1: "viewInv good view1" "coins view1 = removeCoins U' tx"
    using removeOutputs [OF assms(1), of "if j = 0 then tfCoinBase else 0" tx h] assms(2) by (simp_all add: view1_def)
  show ?thesis
  proof (cases "j = 0")
    case True
    then have "U' = addCoins U tx h" "cs = []" using assms(3,6) by (auto simp: connectCoins_def)
    moreover have "removeCoins (addCoins U tx h) tx = U" using assms(5) by (intro removeCoins_addCoins) (simp add: list_all_iff)
    ultimately show ?thesis using v1 True by (simp add: disconnectTransaction_def view1_def)
  next
    case False
    then obtain U1 where U1: "spendCoins U (spentOutPoints tx) = Some (U1, cs)" "U' = addCoins U1 tx h"
      using assms(3,6) by (auto simp: connectCoins_def)
    note r = restoreCoins_spendCoins [OF U1(1)]
    have "removeCoins U' tx = U1" unfolding U1(2) using assms(5) r by (intro removeCoins_addCoins) (simp add: list_all_iff)
    then have "coins view1 = U1" using v1 by simp
    moreover from restoreInputs [OF v1(1), of cs "TxIn tx" rest] r assms(4) obtain view' where
      "foldl restoreInput (view1, rev cs @ rest) (rev (TxIn tx)) = (view', rest)" "viewInv good view'"
      "coins view' = restoreCoins (coins view1) (zip (spentOutPoints tx) cs)" by auto
    moreover have "disconnectTransaction h (view, rev cs @ rest) (j, tx) = foldl restoreInput (view1, rev cs @ rest) (rev (TxIn tx))"
      using False by (simp add: disconnectTransaction_def view1_def)
    ultimately show ?thesis using r by simp
  qed
qed

lemma disconnectBlock_undoes:
  assumes "viewInv good view" "coins view = U'" "connectBlockCoins h U txs = Some (U', cs)" "list_all good cs"
    "createsFresh h U txs" "\<forall>i < length txs. IsCoinBaseTx (txs ! i) \<longleftrightarrow> n + i = 0"
  shows "\<exists>view'. foldl (disconnectTransaction h) (view, rev cs @ rest) (rev (enumerate n txs)) = (view', rest) \<and>
    viewInv good view' \<and> coins view' = U"
  using assms(3-6)
proof (induction txs arbitrary: n U cs rest)
  case Nil
  then show ?case using assms(1,2) by simp
next
  case (Cons tx txs)
  from Cons.prems(1) obtain U1 cs1 cs2 where c: "connectCoins h U tx = Some (U1, cs1)" "connectBlockCoins h U1 txs = Some (U', cs2)"
    "cs = cs1 @ cs2" by (auto split: option.splits prod.splits)
  have cb: "\<forall>i < length txs. IsCoinBaseTx (txs ! i) \<longleftrightarrow> Suc n + i = 0" using Cons.prems(4) by auto
  have "createsFresh h U1 txs" "list_all good cs1" "list_all good cs2" "list_all (\<lambda>op. U op = None) (createdOutPoints tx)"
    using Cons.prems(2,3) c by auto
  note f = this
  from Cons.IH [OF c(2) f(3,1) cb, of "rev cs1 @ rest"] obtain view1 where
    v1: "foldl (disconnectTransaction h) (view, rev cs @ rest) (rev (enumerate (Suc n) txs)) = (view1, rev cs1 @ rest)"
    "viewInv good view1" "coins view1 = U1" using c(3) by auto
  have "IsCoinBaseTx tx \<longleftrightarrow> n = 0" using Cons.prems(4) by force
  from disconnectTransaction_undoes [OF v1(2,3) c(1) f(2,4) this] v1(1) show ?case by simp
qed

theorem disconnectTransactions_undoes:
  assumes "viewInv good view" "coins view = U'" "connectBlockCoins h U (Transactions block) = Some (U', stxos)" "list_all good stxos"
    "createsFresh h U (Transactions block)" "coinbaseFirst (Transactions block)"
  shows "\<exists>view'. disconnectTransactions view block h stxos = Inr view' \<and> viewInv good view' \<and> coins view' = U \<and>
    bestHash view' = PrevBlock (MsgBlock_BlockHeader block)"
proof -
  have "\<forall>i < length (Transactions block). IsCoinBaseTx (Transactions block ! i) \<longleftrightarrow> 0 + i = 0"
    using assms(6) by (auto simp: coinbaseFirst_def nth_Cons list_all_length split: list.splits nat.splits)
  from disconnectBlock_undoes [OF assms(1-5) this, of "[]"] obtain view' where
    "foldl (disconnectTransaction h) (view, rev stxos) (rev (enumerate 0 (Transactions block))) = (view', [])"
    "viewInv good view'" "coins view' = U" by auto
  then show ?thesis using countSpentOutputs_connect [OF assms(3,6)] best_law
    by (auto simp: disconnectTransactions_def viewInv_def LookupEntry_def)
qed

end

interpretation view_entries: modified_entries viewCoins
  by unfold_locales (simp_all add: viewCoins_setEntry)


section \<open>Writing a view to the database\<close>

text \<open>The coins that result from writing a view on top of those of the database.\<close>

definition overlayCoins :: "coins \<Rightarrow> UtxoViewpoint \<Rightarrow> coins" where
  "overlayCoins U view op =
     (case LookupEntry view op of
        None \<Rightarrow> U op
      | Some e \<Rightarrow> if \<not> isModified e then U op else if IsSpent e then None else Some (coinOf e))"

interpretation written_entries: modified_entries "overlayCoins U" for U
  by unfold_locales (auto simp: overlayCoins_def LookupEntry_setEntry fun_eq_iff, simp add: LookupEntry_def)

text \<open>The outpoints under which entries are stored: distinct, with hashes of 32 bytes.\<close>

definition viewKeys :: "UtxoViewpoint \<Rightarrow> bool" where
  "viewKeys view \<longleftrightarrow> distinct (map fst (viewEntries view)) \<and> list_all (\<lambda>(op, _). wf_hash (Hash op)) (viewEntries view)"

lemma viewKeys_setEntry: "viewKeys view \<Longrightarrow> wf_hash (Hash op) \<Longrightarrow> viewKeys (setEntry view op e)"
proof -
  assume "viewKeys view" "wf_hash (Hash op)"
  moreover have "fst ` set (AList.update op e (viewEntries view)) = insert op (fst ` set (viewEntries view))"
    using dom_update [of op e "viewEntries view"] by simp
  ultimately have "wf_hash (Hash k)" if "k \<in> fst ` set (AList.update op e (viewEntries view))" for k
    using that by (auto simp: viewKeys_def list_all_iff)
  then show ?thesis using \<open>viewKeys view\<close> by (force simp: viewKeys_def setEntry_def distinct_update list_all_iff)
qed

definition outPointHashes :: "MsgTx list \<Rightarrow> bool" where
  "outPointHashes txs = list_all (\<lambda>tx. list_all (\<lambda>op. wf_hash (Hash op)) (spentOutPoints tx)) txs"

lemma length_TxHash [simp]: "wf_hash (Hash (txOutPoint tx i))"
  by (simp add: txOutPoint_def TxHash_def)

lemma foldl_invariant: "P s \<Longrightarrow> (\<And>s x. P s \<Longrightarrow> x \<in> set xs \<Longrightarrow> P (f s x)) \<Longrightarrow> P (foldl f s xs)"
  by (induction xs arbitrary: s) auto

lemma viewKeys_removeOutput: "viewKeys view \<Longrightarrow> viewKeys (removeOutput tx h flags view out)"
  by (auto simp: removeOutput_def viewKeys_setEntry Let_def split: prod.split)

lemma viewKeys_disconnectTransaction:
  assumes "viewKeys (fst st)" "list_all (\<lambda>op. wf_hash (Hash op)) (spentOutPoints (snd tx))"
  shows "viewKeys (fst (disconnectTransaction h st tx))"
proof -
  obtain view stxos j t where st: "st = (view, stxos)" "tx = (j, t)" by (cases st, cases tx)
  have k: "viewKeys (foldl (removeOutput t h flags) view (enumerate 0 (TxOut t)))" for flags
    using assms st by (intro foldl_invariant [where P = viewKeys]) (auto simp: viewKeys_removeOutput)
  have "viewKeys (fst (foldl restoreInput (v, cs) (rev (TxIn t))))" if "viewKeys v" for v cs
    using that assms(2) st(2)
    by (intro foldl_invariant [where P = "\<lambda>st. viewKeys (fst st)"]) (auto simp: restoreInput_def viewKeys_setEntry list_all_iff split: prod.split)
  then show ?thesis using k st by (simp add: disconnectTransaction_def Let_def)
qed

lemma viewKeys_disconnectTransactions:
  assumes "viewKeys view" "outPointHashes (Transactions block)" "disconnectTransactions view block h stxos = Inr view'"
  shows "viewKeys view'"
proof -
  have "viewKeys (fst (foldl (disconnectTransaction h) (view, rev stxos) (rev (enumerate 0 (Transactions block)))))"
  proof (rule foldl_invariant [where P = "\<lambda>st. viewKeys (fst st)"])
    fix st :: "UtxoViewpoint \<times> SpentTxOut list" and x :: "nat \<times> MsgTx"
    assume "viewKeys (fst st)" "x \<in> set (rev (enumerate 0 (Transactions block)))"
    moreover have "snd x \<in> set (map snd (enumerate 0 (Transactions block)))" using calculation(2) by (simp only: set_rev set_map) (rule imageI)
    then have "list_all (\<lambda>op. wf_hash (Hash op)) (spentOutPoints (snd x))" using assms(2) by (simp add: outPointHashes_def list_all_iff del: set_map)
    ultimately show "viewKeys (fst (disconnectTransaction h st x))" by (intro viewKeys_disconnectTransaction)
  qed (use assms(1) in simp)
  then show ?thesis using assms(3) by (auto simp: disconnectTransactions_def viewKeys_def split: if_splits prod.splits)
qed

text \<open>A bucket that holds a set of coins.\<close>

definition dbHolds :: "(bytes \<Rightarrow> bytes option) \<Rightarrow> bucket \<Rightarrow> coins \<Rightarrow> bool" where
  "dbHolds K utxoBucket U \<longleftrightarrow>
     (\<forall>op. wf_hash (Hash op) \<longrightarrow> dbFetchUtxoEntry K utxoBucket op = Inr (map_option storedEntry (U op)))"

definition writtenEntry :: "UtxoEntry option \<Rightarrow> (storeError, UtxoEntry option) result \<Rightarrow> (storeError, UtxoEntry option) result" where
  "writtenEntry entry stored =
     (case entry of
        None \<Rightarrow> stored
      | Some e \<Rightarrow> if \<not> isModified e then stored else Inr (if IsSpent e then None else Some (storedEntry (coinOf e))))"

lemma putViewEntry_fetch:
  assumes "key_laws K" "wf_hash (Hash op)" "\<And>e. entry = Some e \<Longrightarrow> \<not> IsSpent e \<Longrightarrow> wf_coin (coinOf e)"
  obtains bkt' where "putViewEntry K bkt (op, entry) = Inr bkt'"
    "dbFetchUtxoEntry K bkt' op = writtenEntry entry (dbFetchUtxoEntry K bkt op)"
    "\<And>op'. wf_hash (Hash op') \<Longrightarrow> op' \<noteq> op \<Longrightarrow> dbFetchUtxoEntry K bkt' op' = dbFetchUtxoEntry K bkt op'"
proof (cases "\<exists>e. entry = Some e \<and> isModified e")
  case True
  then obtain e where e: "entry = Some e" "isModified e" by blast
  show ?thesis
  proof (cases "IsSpent e")
    case True
    show ?thesis
    proof (rule that [of "bkt(outpointKey op := None)"])
      show "dbFetchUtxoEntry K (bkt(outpointKey op := None)) op = writtenEntry entry (dbFetchUtxoEntry K bkt op)"
        using e True by (simp add: dbFetchUtxoEntry_def writtenEntry_def)
    qed (use e True dbFetchUtxoEntry_other [OF assms(2)] in \<open>auto simp: putViewEntry_def dbDeleteUtxoEntry_def\<close>)
  next
    case False
    note put = dbFetchUtxoEntry_put [OF assms(1) assms(3) [OF e(1) False] False, of bkt op]
    show ?thesis
      by (rule that [of "bkt(outpointKey op \<mapsto> putSpentTxOut K (coinOf e))"]) (use put e False dbFetchUtxoEntry_other [OF assms(2)] in \<open>auto simp: putViewEntry_def writtenEntry_def\<close>)
  qed
next
  case False
  then show ?thesis by (intro that [of bkt]) (auto simp: putViewEntry_def writtenEntry_def split: option.splits)
qed

lemma putViewEntries:
  assumes "key_laws K" "distinct (map fst es)" "list_all (\<lambda>(op, _). wf_hash (Hash op)) es"
    "\<And>op e. (op, Some e) \<in> set es \<Longrightarrow> \<not> IsSpent e \<Longrightarrow> wf_coin (coinOf e)"
  shows "\<exists>bkt'. foldE (putViewEntry K) bkt es = Inr bkt' \<and> (\<forall>op. wf_hash (Hash op) \<longrightarrow> dbFetchUtxoEntry K bkt' op =
    (case map_of es op of None \<Rightarrow> dbFetchUtxoEntry K bkt op | Some entry \<Rightarrow> writtenEntry entry (dbFetchUtxoEntry K bkt op)))"
  using assms(2-4)
proof (induction es arbitrary: bkt)
  case (Cons x es)
  obtain op entry where x: "x = (op, entry)" by (cases x)
  have op: "wf_hash (Hash op)" "map_of es op = None" using Cons.prems x by (auto simp: map_of_eq_None_iff)
  have "wf_coin (coinOf e)" if "entry = Some e" "\<not> IsSpent e" for e using Cons.prems(3) [of op e] that x by simp
  then obtain bkt1 where b1: "putViewEntry K bkt (op, entry) = Inr bkt1"
    "dbFetchUtxoEntry K bkt1 op = writtenEntry entry (dbFetchUtxoEntry K bkt op)"
    "\<And>op'. wf_hash (Hash op') \<Longrightarrow> op' \<noteq> op \<Longrightarrow> dbFetchUtxoEntry K bkt1 op' = dbFetchUtxoEntry K bkt op'"
    using putViewEntry_fetch [OF assms(1) op(1), of entry bkt] by blast
  have "\<exists>bkt'. foldE (putViewEntry K) bkt1 es = Inr bkt' \<and> (\<forall>op. wf_hash (Hash op) \<longrightarrow> dbFetchUtxoEntry K bkt' op =
    (case map_of es op of None \<Rightarrow> dbFetchUtxoEntry K bkt1 op | Some entry \<Rightarrow> writtenEntry entry (dbFetchUtxoEntry K bkt1 op)))"
    using Cons.prems by (intro Cons.IH) auto
  then obtain bkt' where b: "foldE (putViewEntry K) bkt1 es = Inr bkt'"
    "\<And>op. wf_hash (Hash op) \<Longrightarrow> dbFetchUtxoEntry K bkt' op =
      (case map_of es op of None \<Rightarrow> dbFetchUtxoEntry K bkt1 op | Some entry \<Rightarrow> writtenEntry entry (dbFetchUtxoEntry K bkt1 op))" by blast
  have "dbFetchUtxoEntry K bkt' op' = (case map_of (x # es) op' of None \<Rightarrow> dbFetchUtxoEntry K bkt op'
      | Some entry \<Rightarrow> writtenEntry entry (dbFetchUtxoEntry K bkt op'))" if "wf_hash (Hash op')" for op'
    using b(2) [OF that] b1(2) b1(3) [OF that] op(2) x by (cases "op' = op") (simp_all split: option.split)
  then show ?case using b(1) b1(1) x by auto
qed simp

lemma dbPutUtxoView_overlay:
  assumes "key_laws K" "viewKeys view" "viewInv wf_coin view" "dbHolds K bkt U"
  shows "\<exists>bkt'. dbPutUtxoView K bkt view = Inr bkt' \<and> dbHolds K bkt' (overlayCoins U view)"
proof -
  have wf: "wf_coin (coinOf e)" if "(op, Some e) \<in> set (viewEntries view)" "\<not> IsSpent e" for op e
  proof -
    have "LookupEntry view op = Some e" using that assms(2) by (simp add: LookupEntry_def viewKeys_def)
    then show ?thesis using assms(3) that(2) by (auto simp: viewInv_def)
  qed
  have keys: "distinct (map fst (viewEntries view))" "list_all (\<lambda>(op, _). wf_hash (Hash op)) (viewEntries view)"
    using assms(2) by (simp_all add: viewKeys_def)
  obtain bkt' where b: "foldE (putViewEntry K) bkt (viewEntries view) = Inr bkt'"
    "\<And>op. wf_hash (Hash op) \<Longrightarrow> dbFetchUtxoEntry K bkt' op =
      (case map_of (viewEntries view) op of None \<Rightarrow> dbFetchUtxoEntry K bkt op
       | Some entry \<Rightarrow> writtenEntry entry (dbFetchUtxoEntry K bkt op))"
    using putViewEntries [OF assms(1) keys, of bkt] wf by blast
  have "dbHolds K bkt' (overlayCoins U view)"
    using b(2) assms(4) by (auto simp: dbHolds_def overlayCoins_def LookupEntry_def writtenEntry_def split: option.splits)
  then show ?thesis using b(1) by (auto simp: dbPutUtxoView_def)
qed


section \<open>Properties\<close>

text \<open>
  C14. Disconnecting a block from a view undoes connecting it: when the block spends only coins of the view and recreates
  none, connecting succeeds and returns the coins it spent, the coins of the view are then those of the specification,
  and disconnecting with the returned coins succeeds and gives back exactly the coins there were before, with the
  parent as the best block.
\<close>

theorem disconnect_undoes_connect:
  assumes "viewInv anyCoin view" "connectBlockCoins h (viewCoins view) (Transactions block) = Some (U, stxos)"
    "createsFresh h (viewCoins view) (Transactions block)" "coinbaseFirst (Transactions block)"
  shows "\<exists>connected disconnected.
    connectTransactions view block h (Some []) = Inr (connected, Some stxos) \<and>
    viewCoins connected = U \<and> bestHash connected = MsgBlock_BlockHash block \<and>
    disconnectTransactions connected block h stxos = Inr disconnected \<and>
    viewCoins disconnected = viewCoins view \<and> bestHash disconnected = PrevBlock (MsgBlock_BlockHeader block)"
proof -
  from view_store.connectTxs_refines [OF assms(1,2), of "Some []"] obtain view1 where
    v1: "foldE (connectTransaction h) (view, Some []) (Transactions block) = Inr (view1, Some stxos)" "viewInv anyCoin view1"
      "viewCoins view1 = U" by (auto simp: connectTransaction_generic)
  define connected where "connected = view1\<lparr>bestHash := MsgBlock_BlockHash block\<rparr>"
  have "viewInv anyCoin connected" "viewCoins connected = U" using v1 by (simp_all add: connected_def)
  from view_entries.disconnectTransactions_undoes [OF this assms(2) _ assms(3,4)] v1 show ?thesis
    by (auto simp: connectTransactions_def connected_def list_all_iff)
qed

text \<open>A block with a coinbase and one spend, and a view that holds the coin it spends.\<close>

definition exampleCoinbase :: MsgTx where
  "exampleCoinbase = \<lparr>MsgTx.Version = 1,
     TxIn = [\<lparr>PreviousOutPoint = \<lparr>Hash = zeroHash, Index = 0xffffffff\<rparr>, SignatureScript = [1, 12], Witness = [], Sequence = 0\<rparr>],
     TxOut = [\<lparr>Value = 0, PkScript = [0x6a]\<rparr>, \<lparr>Value = 7000, PkScript = 0x51 # 0x20 # replicate 32 9\<rparr>], LockTime = 0\<rparr>"

definition exampleOutPoint :: OutPoint where "exampleOutPoint = \<lparr>Hash = replicate 32 3, Index = 5\<rparr>"

definition exampleSpender :: MsgTx where
  "exampleSpender = exampleSpend
     \<lparr>TxIn := [\<lparr>PreviousOutPoint = exampleOutPoint, SignatureScript = [], Witness = [], Sequence = 0\<rparr>]\<rparr>"

definition exampleView :: UtxoViewpoint where
  "exampleView = \<lparr>viewEntries = [(exampleOutPoint, Some (storedEntry exampleCoin))], bestHash = zeroHash\<rparr>"

lemma exampleScripts [simp]:
  "IsUnspendable [0x6a]" "\<not> IsUnspendable (0x51 # 0x20 # replicate 32 9)" "\<not> IsUnspendable (0x51 # 0x20 # replicate 32 8)"
  by code_simp+

lemma exampleBlock_facts:
  "IsCoinBaseTx exampleCoinbase" "\<not> IsCoinBaseTx exampleSpender"
  "createdOutPoints exampleCoinbase = [txOutPoint exampleCoinbase (Suc 0)]" "createdOutPoints exampleSpender = [txOutPoint exampleSpender 0]"
  "spentOutPoints exampleSpender = [exampleOutPoint]" "txOutPoint tx 0 \<noteq> exampleOutPoint" "txOutPoint tx (Suc 0) \<noteq> exampleOutPoint"
  "txOutPoint tx 0 \<noteq> txOutPoint tx' (Suc 0)"
  by (simp_all add: IsCoinBaseTx_def exampleCoinbase_def exampleSpender_def exampleSpend_def exampleOutPoint_def createdOutPoints_def
      txOutPoint_def Let_def)

definition coinbaseCoin :: SpentTxOut where
  "coinbaseCoin = createdCoin \<lparr>Value = 7000, PkScript = 0x51 # 0x20 # replicate 32 9\<rparr> True 20"

definition spenderCoin :: SpentTxOut where
  "spenderCoin = createdCoin \<lparr>Value = 5000, PkScript = 0x51 # 0x20 # replicate 32 8\<rparr> False 20"

lemma exampleBlock_adds:
  "addCoins U exampleCoinbase 20 = U(txOutPoint exampleCoinbase (Suc 0) \<mapsto> coinbaseCoin)"
  "addCoins U exampleSpender 20 = U(txOutPoint exampleSpender 0 \<mapsto> spenderCoin)"
proof -
  have t: "TxOut exampleCoinbase = [\<lparr>Value = 0, PkScript = [0x6a]\<rparr>, \<lparr>Value = 7000, PkScript = 0x51 # 0x20 # replicate 32 9\<rparr>]"
    "TxOut exampleSpender = [\<lparr>Value = 5000, PkScript = 0x51 # 0x20 # replicate 32 8\<rparr>]"
    by (simp_all add: exampleCoinbase_def exampleSpender_def exampleSpend_def)
  show "addCoins U exampleCoinbase 20 = U(txOutPoint exampleCoinbase (Suc 0) \<mapsto> coinbaseCoin)"
    "addCoins U exampleSpender 20 = U(txOutPoint exampleSpender 0 \<mapsto> spenderCoin)"
    by (simp_all add: addCoins_def t addCoin_def exampleBlock_facts coinbaseCoin_def spenderCoin_def)
qed

definition exampleCoins :: coins where "exampleCoins = [exampleOutPoint \<mapsto> exampleCoin]"

definition exampleCoinsAfter :: coins where
  "exampleCoinsAfter = [txOutPoint exampleCoinbase (Suc 0) \<mapsto> coinbaseCoin, txOutPoint exampleSpender 0 \<mapsto> spenderCoin]"

lemma exampleBlock_connects:
  "connectBlockCoins 20 exampleCoins [exampleCoinbase, exampleSpender] = Some (exampleCoinsAfter, [exampleCoin])"
  "createsFresh 20 exampleCoins [exampleCoinbase, exampleSpender]" "coinbaseFirst [exampleCoinbase, exampleSpender]"
proof -
  have "(exampleCoins(txOutPoint exampleCoinbase (Suc 0) \<mapsto> coinbaseCoin)) exampleOutPoint = Some exampleCoin"
    using exampleBlock_facts(7) [of exampleCoinbase] by (simp add: exampleCoins_def)
  moreover have "exampleCoins(txOutPoint exampleCoinbase (Suc 0) \<mapsto> coinbaseCoin, exampleOutPoint := None, txOutPoint exampleSpender 0 \<mapsto> spenderCoin) =
      exampleCoinsAfter"
    using exampleBlock_facts(6) [of exampleSpender] exampleBlock_facts(7) [of exampleCoinbase]
    by (auto simp: exampleCoins_def exampleCoinsAfter_def fun_eq_iff)
  ultimately show "connectBlockCoins 20 exampleCoins [exampleCoinbase, exampleSpender] = Some (exampleCoinsAfter, [exampleCoin])"
    by (simp add: connectCoins_def exampleBlock_facts exampleBlock_adds)
  show "createsFresh 20 exampleCoins [exampleCoinbase, exampleSpender]"
    by (simp add: connectCoins_def exampleBlock_facts exampleBlock_adds exampleCoins_def)
  show "coinbaseFirst [exampleCoinbase, exampleSpender]" by (simp add: coinbaseFirst_def exampleBlock_facts)
qed

theorem disconnect_undoes_connect_witness:
  "\<exists>connected disconnected.
     connectTransactions exampleView (exampleBlock [exampleCoinbase, exampleSpender]) 20 (Some []) = Inr (connected, Some [exampleCoin]) \<and>
     disconnectTransactions connected (exampleBlock [exampleCoinbase, exampleSpender]) 20 [exampleCoin] = Inr disconnected \<and>
     viewCoins disconnected exampleOutPoint = Some exampleCoin"
proof -
  let ?block = "exampleBlock [exampleCoinbase, exampleSpender]"
  have t: "Transactions ?block = [exampleCoinbase, exampleSpender]" by (simp add: exampleBlock_def)
  have c: "viewCoins exampleView = exampleCoins"
    by (rule ext) (simp add: viewCoins_def LookupEntry_def exampleView_def exampleCoins_def)
  have "viewInv anyCoin exampleView" by (auto simp: viewInv_def LookupEntry_def exampleView_def)
  from disconnect_undoes_connect [OF this, of 20 ?block exampleCoinsAfter "[exampleCoin]"] exampleBlock_connects show ?thesis
    unfolding c t by (auto simp: exampleCoins_def)
qed

text \<open>A view into which coins of the database were loaded and that was not changed since.\<close>

definition loadedView :: "UtxoViewpoint \<Rightarrow> bool" where
  "loadedView view \<longleftrightarrow> viewKeys view \<and>
     list_all (\<lambda>(_, entry). case entry of None \<Rightarrow> True | Some e \<Rightarrow> \<not> IsSpent e \<and> \<not> isModified e \<and> wf_coin (coinOf e)) (viewEntries view)"

lemma loadedView_lookup:
  assumes "loadedView view" "LookupEntry view op = Some e"
  shows "\<not> IsSpent e" "\<not> isModified e" "wf_coin (coinOf e)"
proof -
  have "(op, Some e) \<in> set (viewEntries view)" using assms(2) by (auto simp: LookupEntry_def split: option.splits dest: map_of_SomeD)
  then show "\<not> IsSpent e" "\<not> isModified e" "wf_coin (coinOf e)" using assms(1) by (auto simp: loadedView_def list_all_iff)
qed

text \<open>
  C7. Disconnecting a block restores the database: if the bucket of unspent outputs holds the coins after a block was
  connected to some set of coins, and the journal the coins the block spent, then disconnecting the block with the
  entry read from the journal, from a view into which coins of the database may have been loaded, and writing the view
  succeed, and the bucket then holds exactly the set of coins there was before the block.
\<close>

theorem disconnect_restores_database:
  assumes "key_laws K" "connectBlockCoins h U (Transactions block) = Some (U', stxos)"
    "createsFresh h U (Transactions block)" "coinbaseFirst (Transactions block)"
    "list_all wf_coin stxos" "outPointHashes (Transactions block)" "dbHolds K utxoBucket U'" "loadedView view"
    "spendBucket (MsgBlock_BlockHash block) = Some (serializeSpendJournalEntry K stxos)"
  shows "\<exists>stxos' view' utxoBucket'.
    dbFetchSpendJournalEntry K spendBucket (MsgBlock_BlockHash block) block = Inr stxos' \<and>
    disconnectTransactions view block h stxos' = Inr view' \<and>
    dbPutUtxoView K utxoBucket view' = Inr utxoBucket' \<and> dbHolds K utxoBucket' U"
proof -
  have "dbFetchSpendJournalEntry K spendBucket (MsgBlock_BlockHash block) block = Inr stxos"
    using deserializeSpendJournalEntry_serialize [OF assms(1,5) countSpentOutputs_connect [OF assms(2,4)]] assms(9)
    by (simp add: dbFetchSpendJournalEntry_def)
  moreover have inv: "viewInv wf_coin view" "overlayCoins U' view = U'"
    using loadedView_lookup [OF assms(8)] by (auto simp: viewInv_def overlayCoins_def fun_eq_iff split: option.split)
  from written_entries.disconnectTransactions_undoes [OF inv assms(2,5,3,4)] obtain view' where
    v: "disconnectTransactions view block h stxos = Inr view'" "viewInv wf_coin view'" "overlayCoins U' view' = U" by blast
  moreover have "viewKeys view'" using assms(8) by (intro viewKeys_disconnectTransactions [OF _ assms(6) v(1)]) (simp add: loadedView_def)
  from dbPutUtxoView_overlay [OF assms(1) this v(2) assms(7)] v(3)
  have "\<exists>bkt'. dbPutUtxoView K utxoBucket view' = Inr bkt' \<and> dbHolds K bkt' U" by simp
  ultimately show ?thesis by blast
qed

theorem disconnect_restores_database_witness:
  "\<exists>utxoBucket stxos' view' utxoBucket'.
     dbFetchSpendJournalEntry noKeys
       [MsgBlock_BlockHash (exampleBlock [exampleCoinbase, exampleSpender]) \<mapsto> serializeSpendJournalEntry noKeys [exampleCoin]]
       (MsgBlock_BlockHash (exampleBlock [exampleCoinbase, exampleSpender])) (exampleBlock [exampleCoinbase, exampleSpender]) = Inr stxos' \<and>
     disconnectTransactions NewUtxoViewpoint (exampleBlock [exampleCoinbase, exampleSpender]) 20 stxos' = Inr view' \<and>
     dbPutUtxoView noKeys utxoBucket view' = Inr utxoBucket' \<and>
     dbFetchUtxoEntry noKeys utxoBucket exampleOutPoint = Inr None \<and>
     dbFetchUtxoEntry noKeys utxoBucket' exampleOutPoint = Inr (Some (storedEntry exampleCoin))"
proof -
  let ?block = "exampleBlock [exampleCoinbase, exampleSpender]"
  have t: "Transactions ?block = [exampleCoinbase, exampleSpender]" by (simp add: exampleBlock_def)
  define view where "view = setEntry (setEntry NewUtxoViewpoint (txOutPoint exampleCoinbase (Suc 0)) (Some (restoredEntry coinbaseCoin)))
    (txOutPoint exampleSpender 0) (Some (restoredEntry spenderCoin))"
  have "viewKeys view" unfolding view_def by (intro viewKeys_setEntry) (simp_all add: viewKeys_def NewUtxoViewpoint_def)
  moreover have "viewInv wf_coin view"
    unfolding view_def by (intro viewInv_setEntry) (simp_all add: viewInv_def LookupEntry_def NewUtxoViewpoint_def wf_coin_def coinbaseCoin_def
        spenderCoin_def createdCoin_def)
  moreover have "dbHolds noKeys Map.empty Map.empty" by (simp add: dbHolds_def dbFetchUtxoEntry_def)
  moreover have "overlayCoins Map.empty view = exampleCoinsAfter"
    unfolding view_def by (rule ext) (simp add: overlayCoins_def LookupEntry_setEntry exampleCoinsAfter_def, simp add: LookupEntry_def NewUtxoViewpoint_def)
  ultimately obtain bkt where bkt: "dbHolds noKeys bkt exampleCoinsAfter" using dbPutUtxoView_overlay [OF noKeys_laws, of view] by metis
  have "loadedView NewUtxoViewpoint" by (simp add: loadedView_def viewKeys_def NewUtxoViewpoint_def)
  moreover have "list_all wf_coin [exampleCoin]" by (simp add: wf_coin_def exampleCoin_def)
  moreover have "outPointHashes [exampleCoinbase, exampleSpender]"
    by (simp add: outPointHashes_def exampleCoinbase_def exampleSpender_def exampleOutPoint_def)
  ultimately obtain stxos' view' bkt' where
    "dbFetchSpendJournalEntry noKeys [MsgBlock_BlockHash ?block \<mapsto> serializeSpendJournalEntry noKeys [exampleCoin]] (MsgBlock_BlockHash ?block) ?block = Inr stxos'"
    "disconnectTransactions NewUtxoViewpoint ?block 20 stxos' = Inr view'" "dbPutUtxoView noKeys bkt view' = Inr bkt'"
    "dbHolds noKeys bkt' exampleCoins"
    using disconnect_restores_database [OF noKeys_laws, of 20 exampleCoins ?block exampleCoinsAfter "[exampleCoin]" bkt NewUtxoViewpoint
        "[MsgBlock_BlockHash ?block \<mapsto> serializeSpendJournalEntry noKeys [exampleCoin]]"] bkt exampleBlock_connects unfolding t by auto
  moreover have wf: "wf_hash (Hash exampleOutPoint)" by (simp add: exampleOutPoint_def)
  moreover have "exampleCoinsAfter exampleOutPoint = None"
    using exampleBlock_facts(6) [of exampleSpender] exampleBlock_facts(7) [of exampleCoinbase] by (auto simp: exampleCoinsAfter_def)
  then have "dbFetchUtxoEntry noKeys bkt exampleOutPoint = Inr None" using bkt wf by (simp add: dbHolds_def)
  moreover have "dbFetchUtxoEntry noKeys bkt' exampleOutPoint = Inr (Some (storedEntry exampleCoin))"
    using calculation(4) wf by (simp add: dbHolds_def exampleCoins_def)
  ultimately show ?thesis by blast
qed

text \<open>
  Committing a view keeps its coins and drops the outputs that do not exist, but it does not mark every entry as
  unmodified: the flag of each remaining entry is inverted, so that an entry that was loaded and not touched leaves
  as modified, and two commits give back the flags there were.
\<close>

theorem commit_inverts_modified:
  assumes "viewKeys view"
  shows "viewCoins (commit view) = viewCoins view \<and>
    (\<forall>outpoint. LookupEntry (commit view) outpoint =
       (case LookupEntry view outpoint of
          None \<Rightarrow> None
        | Some entry \<Rightarrow> if isModified entry \<and> IsSpent entry then None
            else Some (entry\<lparr>packedFlags := packedFlags entry XOR tfModified\<rparr>))) \<and>
    (\<forall>outpoint entry. LookupEntry (commit view) outpoint = Some entry \<longrightarrow>
       (\<exists>before. LookupEntry view outpoint = Some before \<and> isModified entry = (\<not> isModified before) \<and> coinOf entry = coinOf before))"
proof -
  have inv: "isModified (e\<lparr>packedFlags := packedFlags e XOR tfModified\<rparr>) = (\<not> isModified e)"
    "IsSpent (e\<lparr>packedFlags := packedFlags e XOR tfModified\<rparr>) = IsSpent e"
    "coinOf (e\<lparr>packedFlags := packedFlags e XOR tfModified\<rparr>) = coinOf e" for e
    by (simp_all add: entry_flags bit_xor_iff coinOf_def)
  have "map_of (commitEntries es) op = (case map_of es op of
      Some (Some e) \<Rightarrow> if isModified e \<and> IsSpent e then None else Some (Some (e\<lparr>packedFlags := packedFlags e XOR tfModified\<rparr>)) | _ \<Rightarrow> None)"
    if "distinct (map fst es)" for es op
    using that
  proof (induction es rule: commitEntries.induct)
    case (2 k es)
    then show ?case by (cases "op = k") (auto simp: map_of_eq_None_iff [symmetric] split: option.splits)
  next
    case (3 k e es)
    then show ?case by (cases "op = k") (auto simp: map_of_eq_None_iff [symmetric] split: option.splits)
  qed simp
  then have l: "LookupEntry (commit view) outpoint = (case LookupEntry view outpoint of None \<Rightarrow> None
      | Some e \<Rightarrow> if isModified e \<and> IsSpent e then None else Some (e\<lparr>packedFlags := packedFlags e XOR tfModified\<rparr>))" for outpoint
    using assms by (auto simp: LookupEntry_def commit_def viewKeys_def split: option.splits)
  then show ?thesis by (auto simp: viewCoins_def fun_eq_iff inv split: option.splits if_splits)
qed

theorem commit_inverts_modified_witness:
  "\<exists>entry. LookupEntry exampleView exampleOutPoint = Some (storedEntry exampleCoin) \<and> \<not> isModified (storedEntry exampleCoin) \<and>
     LookupEntry (commit exampleView) exampleOutPoint = Some entry \<and> isModified entry"
proof -
  have "viewKeys exampleView" by (simp add: viewKeys_def exampleView_def exampleOutPoint_def)
  moreover have "LookupEntry exampleView exampleOutPoint = Some (storedEntry exampleCoin)" by (simp add: LookupEntry_def exampleView_def)
  moreover have "isModified (storedEntry exampleCoin\<lparr>packedFlags := packedFlags (storedEntry exampleCoin) XOR tfModified\<rparr>)"
    by (simp add: storedEntry_def entry_flags bit_xor_iff)
  ultimately show ?thesis using commit_inverts_modified [of exampleView] by auto
qed

end
