(* ===== verification/Block_Index.thy ===== *)
theory Block_Index
  imports Wire_Block Work_Math "HOL-Library.Multiset"
begin

text \<open>
  Block nodes (\<^verbatim>\<open>node/blockchain/blockindex.go\<close>): the in-memory chain of headers, the skip pointers that
  make ancestor lookups fast, the accumulated work, and the median time of the last blocks.

  A node is a tree: the pointers \<open>parent\<close> and \<open>ancestor\<close> are optional nodes.  All fields but \<open>status\<close> are
  immutable in the code; \<open>status\<close> is written through the index and is kept there.  Heights are \<^verbatim>\<open>int32\<close>.
\<close>

section \<open>Nodes\<close>

record blockFields =
  nhash :: hash
  workSum :: int
  height :: int
  nversion :: "32 word"
  nbits :: "32 word"
  timestamp :: int
  nmerkleRoot :: hash
  nproofCommitment :: hash
  vsize :: int

datatype blockNode = BlockNode (parent: "blockNode option") (ancestor: "blockNode option") (nfields: blockFields)

abbreviation node_height :: "blockNode \<Rightarrow> int" where
  "node_height n \<equiv> height (nfields n)"

definition invertLowestOne :: "int \<Rightarrow> int" where
  "invertLowestOne n = n AND int32 (n - 1)"

definition getAncestorHeight :: "int \<Rightarrow> int" where
  "getAncestorHeight h = invertLowestOne (invertLowestOne h)"

lemma size_parent: "parent n = Some p \<Longrightarrow> size p < size n"
  by (cases n) auto

lemma size_ancestor: "ancestor n = Some a \<Longrightarrow> size a < size n"
  by (cases n) auto

text \<open>The loop of \<open>Ancestor\<close>.\<close>

function ancestorLoop :: "int \<Rightarrow> blockNode option \<Rightarrow> blockNode option" where
  "ancestorLoop h None = None"
| "ancestorLoop h (Some n) =
     (if node_height n = h then Some n
      else if ancestor n \<noteq> None \<and> getAncestorHeight (node_height n) \<ge> h
      then ancestorLoop h (ancestor n)
      else ancestorLoop h (parent n))"
  by pat_completeness auto
termination
  by (relation "measure (\<lambda>(h, n). case n of None \<Rightarrow> 0 | Some n \<Rightarrow> Suc (size n))")
    (auto split: option.split dest: size_parent size_ancestor)

declare ancestorLoop.simps(2) [simp del]

definition Ancestor :: "blockNode \<Rightarrow> int \<Rightarrow> blockNode option" where
  "Ancestor node h = (if h < 0 \<or> h > node_height node then None else ancestorLoop h (Some node))"

definition RelativeAncestor :: "blockNode \<Rightarrow> int \<Rightarrow> blockNode option" where
  "RelativeAncestor node distance = Ancestor node (int32 (node_height node - distance))"

definition newBlockNode :: "BlockHeader \<Rightarrow> blockNode option \<Rightarrow> int \<Rightarrow> blockNode" where
  "newBlockNode header par sz =
     (let f = \<lparr>nhash = BlockHash header, workSum = CalcWork (Bits header), height = 0,
               nversion = Version header, nbits = Bits header, timestamp = Unix (Timestamp header),
               nmerkleRoot = MerkleRoot header, nproofCommitment = ProofCommitment header, vsize = sz\<rparr>
      in case par of
           None \<Rightarrow> BlockNode None None f
         | Some p \<Rightarrow>
             let f = f\<lparr>height := int32 (node_height p + 1), workSum := workSum (nfields p) + workSum f\<rparr>
             in BlockNode (Some p) (Ancestor p (getAncestorHeight (height f))) f)"

text \<open>
  \<open>Equals\<close> compares every field.  The status, which the index keeps by block hash, agrees whenever the hashes do.
\<close>

definition nodeEquals :: "blockNode \<Rightarrow> blockNode \<Rightarrow> bool" where
  "nodeEquals node other \<longleftrightarrow> nfields node = nfields other"

definition IsAncestor :: "blockNode \<Rightarrow> blockNode option \<Rightarrow> bool" where
  "IsAncestor node otherNode = (case otherNode of
     None \<Rightarrow> False
   | Some other \<Rightarrow> (case Ancestor node (node_height other) of
       None \<Rightarrow> False
     | Some a \<Rightarrow> if node_height node = node_height a then False else nodeEquals a other))"

definition medianTimeBlocks :: nat where "medianTimeBlocks = 11"

text \<open>The timestamps of up to \<open>n\<close> nodes, starting with the given one.\<close>

fun pastTimes :: "nat \<Rightarrow> blockNode option \<Rightarrow> int list" where
  "pastTimes 0 iterNode = []"
| "pastTimes (Suc n) None = []"
| "pastTimes (Suc n) (Some node) = timestamp (nfields node) # pastTimes n (parent node)"

definition CalcPastMedianTime :: "blockNode \<Rightarrow> int" where
  "CalcPastMedianTime node =
     (let timestamps = pastTimes medianTimeBlocks (Some node); numNodes = length timestamps
      in unixTime (sort timestamps ! (numNodes div 2)))"

section \<open>The index\<close>

text \<open>The status bits of a block: data stored, valid, validation failed, invalid ancestor.\<close>

type_synonym blockStatus = byte

definition statusDataStored :: blockStatus where "statusDataStored = 1"
definition statusValid :: blockStatus where "statusValid = 2"
definition statusValidateFailed :: blockStatus where "statusValidateFailed = 4"
definition statusInvalidAncestor :: blockStatus where "statusInvalidAncestor = 8"

definition HaveData :: "blockStatus \<Rightarrow> bool" where "HaveData s \<longleftrightarrow> s AND statusDataStored \<noteq> 0"
definition KnownValid :: "blockStatus \<Rightarrow> bool" where "KnownValid s \<longleftrightarrow> s AND statusValid \<noteq> 0"
definition KnownInvalid :: "blockStatus \<Rightarrow> bool" where
  "KnownInvalid s \<longleftrightarrow> s AND (statusValidateFailed OR statusInvalidAncestor) \<noteq> 0"

record blockIndex =
  nodes :: "hash \<rightharpoonup> blockNode"
  status :: "hash \<Rightarrow> blockStatus"
  dirty :: "hash set"

definition newBlockIndex :: blockIndex where
  "newBlockIndex = \<lparr>nodes = Map.empty, status = (\<lambda>_. 0), dirty = {}\<rparr>"

definition LookupNode :: "blockIndex \<Rightarrow> hash \<Rightarrow> blockNode option" where
  "LookupNode bi h = nodes bi h"

definition HaveBlock :: "blockIndex \<Rightarrow> hash \<Rightarrow> bool" where
  "HaveBlock bi h \<longleftrightarrow> nodes bi h \<noteq> None"

definition addNode :: "blockIndex \<Rightarrow> blockNode \<Rightarrow> blockStatus \<Rightarrow> blockIndex" where
  "addNode bi node st = bi\<lparr>nodes := (nodes bi)(nhash (nfields node) \<mapsto> node),
     status := (status bi)(nhash (nfields node) := st)\<rparr>"

definition Add :: "blockIndex \<Rightarrow> BlockHeader \<Rightarrow> blockNode option \<Rightarrow> blockStatus \<Rightarrow> int \<Rightarrow> blockNode \<times> blockIndex" where
  "Add bi header par st sz = (let node = newBlockNode header par sz in (node, addNode bi node st))"

definition NodeStatus :: "blockIndex \<Rightarrow> blockNode \<Rightarrow> blockStatus" where
  "NodeStatus bi node = status bi (nhash (nfields node))"

definition SetStatusFlags :: "blockIndex \<Rightarrow> blockNode \<Rightarrow> blockStatus \<Rightarrow> blockIndex" where
  "SetStatusFlags bi node flags =
     (let h = nhash (nfields node) in
      bi\<lparr>status := (status bi)(h := status bi h OR flags), dirty := insert h (dirty bi)\<rparr>)"

definition UnsetStatusFlags :: "blockIndex \<Rightarrow> blockNode \<Rightarrow> blockStatus \<Rightarrow> blockIndex" where
  "UnsetStatusFlags bi node flags =
     (let h = nhash (nfields node) in
      bi\<lparr>status := (status bi)(h := status bi h AND NOT flags), dirty := insert h (dirty bi)\<rparr>)"

section \<open>Skip pointers find the ancestor the parent pointers reach\<close>

text \<open>The reference: follow \<open>k\<close> parent pointers.\<close>

fun nthParent :: "nat \<Rightarrow> blockNode \<Rightarrow> blockNode option" where
  "nthParent 0 n = Some n"
| "nthParent (Suc k) n = (case parent n of None \<Rightarrow> None | Some p \<Rightarrow> nthParent k p)"

lemma nthParent_add:
  "nthParent (i + j) n = (case nthParent i n of None \<Rightarrow> None | Some m \<Rightarrow> nthParent j m)"
  by (induction i arbitrary: n) (auto split: option.splits)

text \<open>The nodes the index holds: a chain down to a genesis block, built with \<open>newBlockNode\<close>.\<close>

inductive chain_node :: "blockNode \<Rightarrow> bool" where
  genesis: "chain_node (newBlockNode header None sz)"
| extend: "chain_node p \<Longrightarrow> node_height p + 1 < 2 ^ 31 \<Longrightarrow> chain_node (newBlockNode header (Some p) sz)"

lemma newBlockNode_genesis [simp]:
  "parent (newBlockNode header None sz) = None"
  "ancestor (newBlockNode header None sz) = None"
  "node_height (newBlockNode header None sz) = 0"
  by (simp_all add: newBlockNode_def)

lemma newBlockNode_fields [simp]:
  "nhash (nfields (newBlockNode header par sz)) = BlockHash header"
  "nbits (nfields (newBlockNode header par sz)) = Bits header"
  "timestamp (nfields (newBlockNode header par sz)) = Unix (Timestamp header)"
  "nversion (nfields (newBlockNode header par sz)) = BlockHeader.Version header"
  by (simp_all add: newBlockNode_def Let_def split: option.splits)

lemma newBlockNode_extend:
  "parent (newBlockNode header (Some p) sz) = Some p"
  "ancestor (newBlockNode header (Some p) sz) =
     Ancestor p (getAncestorHeight (node_height (newBlockNode header (Some p) sz)))"
  "node_height (newBlockNode header (Some p) sz) = int32 (node_height p + 1)"
  "workSum (nfields (newBlockNode header (Some p) sz)) = workSum (nfields p) + CalcWork (Bits header)"
  by (simp_all add: newBlockNode_def Let_def)

lemma invertLowestOne_bounds:
  assumes "0 \<le> h" "h < 2 ^ 31"
  shows "0 \<le> invertLowestOne h" "invertLowestOne h \<le> h" "0 < h \<Longrightarrow> invertLowestOne h < h"
proof -
  have i: "int32 (h - 1) = h - 1" using assms by (intro int32_id) simp_all
  show "0 \<le> invertLowestOne h" unfolding invertLowestOne_def using assms(1) by (rule AND_lower)
  show "invertLowestOne h \<le> h" unfolding invertLowestOne_def using assms(1) by (rule AND_upper1)
  show "invertLowestOne h < h" if "0 < h"
    unfolding invertLowestOne_def i using AND_upper2 [of "h - 1" h] that by simp
qed

lemma getAncestorHeight_bounds:
  assumes "0 < h" "h < 2 ^ 31"
  shows "0 \<le> getAncestorHeight h" "getAncestorHeight h < h"
  using invertLowestOne_bounds [of h] invertLowestOne_bounds [of "invertLowestOne h"] assms
  by (auto simp: getAncestorHeight_def)

definition linked :: "blockNode \<Rightarrow> bool" where
  "linked n \<longleftrightarrow> 0 \<le> node_height n \<and> node_height n < 2 ^ 31 \<and>
     (\<forall>h. 0 \<le> h \<and> h \<le> node_height n \<longrightarrow>
        (\<exists>m. nthParent (nat (node_height n - h)) n = Some m \<and> node_height m = h \<and>
           (0 < h \<longrightarrow> ancestor m = nthParent (nat (h - getAncestorHeight h)) m \<and> ancestor m \<noteq> None)))"

lemma linkedE:
  assumes "linked n" "0 \<le> h" "h \<le> node_height n"
  obtains m where "nthParent (nat (node_height n - h)) n = Some m" "node_height m = h"
    "0 < h \<Longrightarrow> ancestor m = nthParent (nat (h - getAncestorHeight h)) m" "0 < h \<Longrightarrow> ancestor m \<noteq> None"
  using assms unfolding linked_def by blast

text \<open>The loop is right on every node whose ancestors are linked.\<close>

lemma linked_nthParent:
  assumes "linked n" "0 \<le> h" "h \<le> node_height n" "nthParent (nat (node_height n - h)) n = Some m"
  shows "linked m \<and> node_height m = h"
proof -
  from assms obtain "node_height m = h" unfolding linked_def by (metis option.inject)
  moreover have "nthParent (nat (h - h')) m = nthParent (nat (node_height n - h')) n" if "0 \<le> h'" "h' \<le> h" for h'
  proof -
    have "nat (node_height n - h') = nat (node_height n - h) + nat (h - h')" using that assms(3) by simp
    then show ?thesis using nthParent_add [of "nat (node_height n - h)" "nat (h - h')" n] assms(4) by simp
  qed
  ultimately show ?thesis using assms(1-3) unfolding linked_def by auto
qed

lemma ancestorLoop_eq:
  assumes "linked n" "0 \<le> h" "h \<le> node_height n"
  shows "ancestorLoop h (Some n) = nthParent (nat (node_height n - h)) n"
  using assms
proof (induction "size n" arbitrary: n rule: less_induct)
  case less
  show ?case
  proof (cases "node_height n = h")
    case True
    then show ?thesis by (simp add: ancestorLoop.simps(2))
  next
    case False
    then have above: "h < node_height n" "0 < node_height n" using less.prems by simp_all
    let ?a = "getAncestorHeight (node_height n)"
    have a: "0 \<le> ?a" "?a < node_height n"
      using getAncestorHeight_bounds [of "node_height n"] above less.prems(1) by (simp_all add: linked_def)
    have anc: "ancestor n = nthParent (nat (node_height n - ?a)) n" "ancestor n \<noteq> None"
      by (rule linkedE [OF less.prems(1) less_imp_le [OF above(2)] order.refl]; use above(2) in simp)+
    show ?thesis
    proof (cases "?a \<ge> h")
      case True
      from anc obtain m where m: "ancestor n = Some m" "nthParent (nat (node_height n - ?a)) n = Some m" by auto
      have lm: "linked m" "node_height m = ?a"
        using linked_nthParent [OF less.prems(1) a(1) _ m(2)] a(2) by simp_all
      have "ancestorLoop h (Some n) = ancestorLoop h (Some m)"
        using False True m(1) by (simp add: ancestorLoop.simps(2) [of h n])
      also have "\<dots> = nthParent (nat (?a - h)) m"
        using less.hyps [OF size_ancestor [OF m(1)] lm(1) less.prems(2)] True lm(2) by simp
      also have "\<dots> = nthParent (nat (node_height n - ?a) + nat (?a - h)) n"
        by (simp add: nthParent_add m(2))
      also have "nat (node_height n - ?a) + nat (?a - h) = nat (node_height n - h)"
        using True a(2) by simp
      finally show ?thesis .
    next
      case below: False
      have "0 \<le> node_height n - 1" "node_height n - 1 \<le> node_height n" using above(2) by simp_all
      then obtain p where p: "nthParent (nat (node_height n - (node_height n - 1))) n = Some p"
        using less.prems(1) by (metis linkedE)
      then have pp: "parent n = Some p" by (simp split: option.splits)
      have lp: "linked p" "node_height p = node_height n - 1"
        using linked_nthParent [OF less.prems(1) _ _ p] above(2) by simp_all
      have "ancestorLoop h (Some n) = ancestorLoop h (Some p)"
        using False below pp by (simp add: ancestorLoop.simps(2) [of h n])
      also have "\<dots> = nthParent (nat (node_height n - 1 - h)) p"
        using less.hyps [OF size_parent [OF pp] lp(1) less.prems(2)] above lp(2) by simp
      also have "\<dots> = nthParent (Suc (nat (node_height n - 1 - h))) n" by (simp add: pp)
      also have "Suc (nat (node_height n - 1 - h)) = nat (node_height n - h)" using above by simp
      finally show ?thesis .
    qed
  qed
qed

lemma Ancestor_linked:
  assumes "linked n"
  shows "Ancestor n h =
    (if 0 \<le> h \<and> h \<le> node_height n then nthParent (nat (node_height n - h)) n else None)"
  using ancestorLoop_eq [OF assms, of h] by (auto simp: Ancestor_def)

lemma chain_node_linked: "chain_node n \<Longrightarrow> linked n"
proof (induction rule: chain_node.induct)
  case (genesis header sz)
  then show ?case by (simp add: linked_def)
next
  case (extend p header sz)
  let ?n = "newBlockNode header (Some p) sz"
  have p: "0 \<le> node_height p" using extend.IH by (simp add: linked_def)
  then have hn: "node_height ?n = node_height p + 1"
    using extend.hyps(2) by (simp add: newBlockNode_extend int32_id)
  have up: "nthParent (nat (node_height ?n - h)) ?n = nthParent (nat (node_height p - h)) p"
    if "h \<le> node_height p" for h
  proof -
    have "nat (node_height ?n - h) = Suc (nat (node_height p - h))" using that hn by simp
    then show ?thesis by (simp add: newBlockNode_extend(1))
  qed
  let ?a = "getAncestorHeight (node_height ?n)"
  have a: "0 \<le> ?a" "?a \<le> node_height p"
    using getAncestorHeight_bounds [of "node_height ?n"] p hn extend.hyps(2) by simp_all
  have top: "ancestor ?n = nthParent (nat (node_height ?n - ?a)) ?n" "ancestor ?n \<noteq> None"
  proof -
    obtain m where m: "nthParent (nat (node_height p - ?a)) p = Some m"
      using extend.IH a by (rule linkedE)
    have "ancestor ?n = Some m"
      using a m by (simp only: newBlockNode_extend(2) Ancestor_linked [OF extend.IH]) simp
    then show "ancestor ?n = nthParent (nat (node_height ?n - ?a)) ?n" "ancestor ?n \<noteq> None"
      unfolding up [OF a(2)] m by simp_all
  qed
  show ?case
    unfolding linked_def
  proof (intro conjI allI impI)
    show "0 \<le> node_height ?n" "node_height ?n < 2 ^ 31" using p hn extend.hyps(2) by simp_all
    fix h assume h: "0 \<le> h \<and> h \<le> node_height ?n"
    show "\<exists>m. nthParent (nat (node_height ?n - h)) ?n = Some m \<and> node_height m = h \<and>
        (0 < h \<longrightarrow> ancestor m = nthParent (nat (h - getAncestorHeight h)) m \<and> ancestor m \<noteq> None)"
    proof (cases "h = node_height ?n")
      case True
      with top show ?thesis by simp
    next
      case False
      then have hp: "h \<le> node_height p" using h hn by simp
      obtain m where "nthParent (nat (node_height p - h)) p = Some m" "node_height m = h"
        "0 < h \<Longrightarrow> ancestor m = nthParent (nat (h - getAncestorHeight h)) m" "0 < h \<Longrightarrow> ancestor m \<noteq> None"
        using extend.IH conjunct1 [OF h] hp by (rule linkedE) blast
      then show ?thesis unfolding up [OF hp] by blast
    qed
  qed
qed

section \<open>Accumulated work\<close>

fun chainBits :: "nat \<Rightarrow> blockNode \<Rightarrow> 32 word list" where
  "chainBits 0 n = [nbits (nfields n)]"
| "chainBits (Suc k) n = nbits (nfields n) # (case parent n of None \<Rightarrow> [] | Some p \<Rightarrow> chainBits k p)"

lemma workSum_genesis: "workSum (nfields (newBlockNode header None sz)) = CalcWork (Bits header)"
  by (simp add: newBlockNode_def)

lemma workSum_eq:
  "chain_node n \<Longrightarrow> workSum (nfields n) = sum_list (map CalcWork (chainBits (nat (node_height n)) n))"
proof (induction rule: chain_node.induct)
  case (genesis header sz)
  then show ?case by (simp add: workSum_genesis)
next
  case (extend p header sz)
  have "0 \<le> node_height p" using chain_node_linked [OF extend.hyps(1)] by (simp add: linked_def)
  then have "node_height (newBlockNode header (Some p) sz) = node_height p + 1"
    using extend.hyps(2) by (simp add: newBlockNode_extend int32_id)
  moreover have "nat (node_height p + 1) = Suc (nat (node_height p))" using \<open>0 \<le> node_height p\<close> by simp
  ultimately show ?case using extend.IH by (simp add: newBlockNode_extend(1,4))
qed

section \<open>Median time\<close>

text \<open>
  The element at index \<open>i\<close> of the sorted list is at least \<open>m\<close> exactly when at least \<open>length xs - i\<close>
  elements are.
\<close>

lemma sorted_nth_ge_iff:
  assumes "sorted ys" "i < length ys"
  shows "m \<le> ys ! i \<longleftrightarrow> length ys - i \<le> length (filter (\<lambda>x. m \<le> x) ys)"
proof -
  show ?thesis
  proof (cases "m \<le> ys ! i")
    case True
    have "filter (\<lambda>x. m \<le> x) (drop i ys) = drop i ys"
    proof (rule filter_True, rule ballI)
      fix x assume "x \<in> set (drop i ys)"
      then obtain k where "k < length ys - i" "x = ys ! (i + k)" by (auto simp: in_set_conv_nth)
      then have "ys ! i \<le> x" using assms by (auto intro: sorted_nth_mono)
      with True show "m \<le> x" by simp
    qed
    moreover have "filter (\<lambda>x. m \<le> x) ys
      = filter (\<lambda>x. m \<le> x) (take i ys) @ filter (\<lambda>x. m \<le> x) (drop i ys)"
      by (simp only: filter_append [symmetric] append_take_drop_id)
    ultimately have "length ys - i \<le> length (filter (\<lambda>x. m \<le> x) ys)" by simp
    with True show ?thesis by simp
  next
    case False
    have "filter (\<lambda>x. m \<le> x) (take (Suc i) ys) = []"
    proof (rule filter_False, rule ballI)
      fix x assume "x \<in> set (take (Suc i) ys)"
      then obtain k where "k \<le> i" "k < length ys" "x = ys ! k" by (auto simp: in_set_conv_nth less_Suc_eq_le)
      then have "x \<le> ys ! i" using assms by (auto intro: sorted_nth_mono)
      with False show "\<not> m \<le> x" by simp
    qed
    then have "filter (\<lambda>x. m \<le> x) ys = filter (\<lambda>x. m \<le> x) (drop (Suc i) ys)"
      by (metis append_Nil append_take_drop_id filter_append)
    then have "length (filter (\<lambda>x. m \<le> x) ys) \<le> length ys - Suc i"
      by (metis length_drop length_filter_le)
    with False assms(2) show ?thesis by simp
  qed
qed

lemma length_filter_sort: "length (filter P (sort xs)) = length (filter P xs)" for xs :: "'a :: linorder list"
proof -
  have "mset (filter P (sort xs)) = mset (filter P xs)" by simp
  then show ?thesis by (metis size_mset)
qed

lemma median_ge_iff:
  "xs \<noteq> [] \<Longrightarrow> m \<le> sort xs ! (length xs div 2) \<longleftrightarrow>
     length xs - length xs div 2 \<le> length (filter (\<lambda>x. m \<le> x) xs)" for xs :: "int list"
  using sorted_nth_ge_iff [of "sort xs" "length xs div 2" m]
  by (simp add: length_filter_sort div_less_dividend)

text \<open>A window that moves by one: the newest time is added, the oldest dropped when the window is full.\<close>

lemma pastTimes_step:
  "pastTimes (Suc n) (Some node) = timestamp (nfields node) # take n (pastTimes (Suc n) (parent node))"
proof -
  have "take n (pastTimes (Suc n) p) = pastTimes n p" for p
    by (induction n arbitrary: p) (case_tac p; simp)+
  then show ?thesis by simp
qed

lemma length_pastTimes: "length (pastTimes n p) \<le> n"
  by (induction n p rule: pastTimes.induct) auto

lemma median_window_mono:
  fixes ts :: "int list"
  assumes "ts \<noteq> []" "length ts \<le> Suc n" "sort ts ! (length ts div 2) \<le> t" "even n"
  shows "sort ts ! (length ts div 2) \<le> sort (t # take n ts) ! (length (t # take n ts) div 2)"
proof -
  let ?m = "sort ts ! (length ts div 2)"
  let ?c = "length (filter (\<lambda>x. ?m \<le> x) ts)"
  have c: "length ts - length ts div 2 \<le> ?c" using median_ge_iff [OF assms(1), of ?m] by simp
  have "length (t # take n ts) - length (t # take n ts) div 2 \<le> length (filter (\<lambda>x. ?m \<le> x) (t # take n ts))"
  proof (cases "length ts \<le> n")
    case True
    then show ?thesis using c assms(3) by simp
  next
    case False
    then have l: "length ts = Suc n" using assms(2) by simp
    have "?c \<le> Suc (length (filter (\<lambda>x. ?m \<le> x) (take n ts)))"
    proof -
      have "ts = take n ts @ [ts ! n]" using l take_Suc_conv_app_nth [of n ts] by simp
      then have "?c = length (filter (\<lambda>x. ?m \<le> x) (take n ts @ [ts ! n]))" by simp
      then show ?thesis by (simp only: filter_append length_append) simp
    qed
    then show ?thesis using c l assms(3) by simp
  qed
  then show ?thesis using median_ge_iff [of "t # take n ts" ?m] by simp
qed


text \<open>
  C32. On every node of a chain, \<open>Ancestor\<close>, which jumps along the skip pointers, returns the node that following
  single parent pointers reaches, and \<open>None\<close> exactly for the heights outside the chain.
\<close>

theorem Ancestor_follows_parents:
  assumes "chain_node n"
  shows "Ancestor n h = (if 0 \<le> h \<and> h \<le> node_height n then nthParent (nat (node_height n - h)) n else None)
    \<and> (0 \<le> h \<and> h \<le> node_height n \<longrightarrow> (\<exists>m. Ancestor n h = Some m \<and> node_height m = h))"
proof -
  have l: "linked n" using assms by (rule chain_node_linked)
  show ?thesis
  proof (intro conjI impI)
    show eq: "Ancestor n h = (if 0 \<le> h \<and> h \<le> node_height n then nthParent (nat (node_height n - h)) n else None)"
      by (rule Ancestor_linked [OF l])
    assume h: "0 \<le> h \<and> h \<le> node_height n"
    obtain m where "nthParent (nat (node_height n - h)) n = Some m" "node_height m = h"
      using l conjunct1 [OF h] conjunct2 [OF h] by (rule linkedE)
    with eq h show "\<exists>m. Ancestor n h = Some m \<and> node_height m = h" by simp
  qed
qed

definition exampleHeader :: "int \<Rightarrow> BlockHeader" where
  "exampleHeader s = \<lparr>Version = 1, PrevBlock = replicate 32 0, MerkleRoot = replicate 32 0,
     Timestamp = unixTime s, Bits = 0x1d00ffff, ProofCommitment = replicate 32 0\<rparr>"

definition exampleTip :: blockNode where
  "exampleTip = newBlockNode (exampleHeader 20) (Some (newBlockNode (exampleHeader 10) None 0)) 0"

lemma exampleTip_chain: "chain_node exampleTip"
  unfolding exampleTip_def by (intro chain_node.intros) simp

lemma exampleTip_height [simp]: "node_height exampleTip = 1"
  unfolding exampleTip_def newBlockNode_extend newBlockNode_genesis by (simp add: int32_id)

lemma exampleTip_parent [simp]: "parent exampleTip = Some (newBlockNode (exampleHeader 10) None 0)"
  unfolding exampleTip_def newBlockNode_extend ..

theorem Ancestor_follows_parents_witness:
  "chain_node exampleTip \<and> Ancestor exampleTip 0 = Some (newBlockNode (exampleHeader 10) None 0)
     \<and> Ancestor exampleTip 2 = None"
  using Ancestor_follows_parents [OF exampleTip_chain, of 0] Ancestor_follows_parents [OF exampleTip_chain, of 2]
    exampleTip_chain by simp

text \<open>
  The accumulated work of a node is the sum of \<open>CalcWork\<close> over the difficulty bits of all blocks from the
  node down to its genesis block.
\<close>

theorem workSum_is_total:
  assumes "chain_node n"
  shows "workSum (nfields n) = sum_list (map CalcWork (chainBits (nat (node_height n)) n))"
  using assms by (rule workSum_eq)

theorem workSum_is_total_witness:
  "chain_node exampleTip \<and> workSum (nfields exampleTip) = 2 * CalcWork 0x1d00ffff"
proof -
  have "Bits (exampleHeader s) = 0x1d00ffff" for s by (simp add: exampleHeader_def)
  moreover have "nbits (nfields exampleTip) = Bits (exampleHeader 20)" by (simp add: exampleTip_def)
  ultimately show ?thesis using workSum_is_total [OF exampleTip_chain] exampleTip_chain by simp
qed

text \<open>
  C33. The median time of a chain never goes back: a block whose time is after the median time of its parent, as it
  is on a chain whose times increase, has a median time that is not before it.
\<close>

theorem CalcPastMedianTime_mono:
  assumes "Timestamp header > CalcPastMedianTime p"
  shows "CalcPastMedianTime p \<le> CalcPastMedianTime (newBlockNode header (Some p) sz)"
proof -
  let ?ts = "pastTimes (Suc 10) (Some p)" and ?t = "Unix (Timestamp header)"
  have par: "parent (newBlockNode header (Some p) sz) = Some p" by (rule newBlockNode_extend(1))
  have eleven: "medianTimeBlocks = Suc 10" by (simp add: medianTimeBlocks_def)
  have "sort ?ts ! (length ?ts div 2) \<le> ?t"
    using assms unfolding CalcPastMedianTime_def eleven Let_def Unix_def unixTime_def by (simp add: le_div_int_iff)
  then have "sort ?ts ! (length ?ts div 2) \<le> sort (?t # take 10 ?ts) ! (length (?t # take 10 ?ts) div 2)"
    by (intro median_window_mono length_pastTimes) (simp_all only: pastTimes_step list.distinct not_False_eq_True, simp)
  then show ?thesis
    unfolding CalcPastMedianTime_def eleven Let_def pastTimes_step [of 10 "newBlockNode header (Some p) sz"] par
      newBlockNode_fields unixTime_def by simp
qed

lemma exampleTip_median: "CalcPastMedianTime exampleTip = unixTime 20"
proof -
  have "timestamp (nfields exampleTip) = 20"
    by (simp add: exampleTip_def exampleHeader_def Unix_def unixTime_def)
  moreover have "timestamp (nfields (newBlockNode (exampleHeader 10) None 0)) = 10"
    by (simp add: exampleHeader_def Unix_def unixTime_def)
  ultimately have "pastTimes 11 (Some exampleTip) = [20, 10]" by (simp add: numeral_eq_Suc)
  then show ?thesis by (simp add: CalcPastMedianTime_def medianTimeBlocks_def Let_def)
qed

theorem CalcPastMedianTime_mono_witness:
  "Timestamp (exampleHeader 21) > CalcPastMedianTime exampleTip
     \<and> unixTime 20 \<le> CalcPastMedianTime (newBlockNode (exampleHeader 21) (Some exampleTip) 0)"
proof -
  have t: "Timestamp (exampleHeader 21) > CalcPastMedianTime exampleTip"
    by (simp add: exampleTip_median) (simp add: exampleHeader_def unixTime_def)
  show ?thesis using CalcPastMedianTime_mono [OF t, of 0] t exampleTip_median by simp
qed

end
