(* ===== verification/Inference_Rules.thy ===== *)
theory Inference_Rules
  imports Wire_Inference Schnorr Utxo_View Block_Index
begin

text \<open>
  The consensus rules of the inference transactions: the covenant on bounty outputs
  (\<^verbatim>\<open>node/blockchain/inference_covenant.go\<close>) and the issue of new coins (\<^verbatim>\<open>node/blockchain/inferencego.go\<close>).

  SHA3-256 is a package outside the repository: a parameter of the definitions that use it, like the curve.  Where the
  results rest on it, they name the two preimages that would have to collide instead of assuming that none do.
\<close>

section \<open>The bounty script\<close>

definition inferenceBountyMagic :: bytes where "inferenceBountyMagic = ascii ''mdlb''"
definition inferenceBountyVersion :: byte where "inferenceBountyVersion = 1"
definition inferenceBountyDataSize :: nat where "inferenceBountyDataSize = 4 + 1 + 32 + 32 + 32 + 8 + 2"
definition inferenceBountyScriptSize :: nat where "inferenceBountyScriptSize = 2 + inferenceBountyDataSize"
definition refundSigHashTag :: bytes where "refundSigHashTag = ascii ''MDL-INFERENCE-REFUND''"

record InferenceBountyParams =
  bountyRequesterPubKey :: bytes
  bountyCoordinatorPubKey :: bytes
  bountyPromptHash :: bytes
  bountyNonce :: "64 word"
  bountyModelVersion :: "16 word"

definition wf_InferenceBountyParams :: "InferenceBountyParams \<Rightarrow> bool" where
  "wf_InferenceBountyParams p \<longleftrightarrow>
     length (bountyRequesterPubKey p) = 32 \<and> length (bountyCoordinatorPubKey p) = 32 \<and> length (bountyPromptHash p) = 32"

definition BuildInferenceBountyScript :: "InferenceBountyParams \<Rightarrow> bytes" where
  "BuildInferenceBountyScript p =
     [0x4c, word_of_nat inferenceBountyDataSize] @ inferenceBountyMagic @ [inferenceBountyVersion] @
     bountyRequesterPubKey p @ bountyCoordinatorPubKey p @ bountyPromptHash p @
     PutUint64 (bountyNonce p) @ PutUint16 (bountyModelVersion p)"

definition ParseInferenceBountyScript :: "bytes \<Rightarrow> InferenceBountyParams option" where
  "ParseInferenceBountyScript pkScript =
     (if length pkScript \<noteq> inferenceBountyScriptSize then None
      else if pkScript ! 0 \<noteq> 0x4c \<or> pkScript ! 1 \<noteq> word_of_nat inferenceBountyDataSize then None
      else let d = drop 2 pkScript in
        if slice 0 4 d \<noteq> inferenceBountyMagic then None
        else if d ! 4 \<noteq> inferenceBountyVersion then None
        else Some \<lparr>bountyRequesterPubKey = slice 5 37 d, bountyCoordinatorPubKey = slice 37 69 d,
                   bountyPromptHash = slice 69 101 d, bountyNonce = Uint64 (slice 101 109 d),
                   bountyModelVersion = Uint16 (slice 109 111 d)\<rparr>)"

definition IsInferenceBountyScript :: "bytes \<Rightarrow> bool" where
  "IsInferenceBountyScript pkScript \<longleftrightarrow> ParseInferenceBountyScript pkScript \<noteq> None"

section \<open>Claim and refund\<close>

definition recomputeInferenceCommitment ::
  "(bytes \<Rightarrow> bytes) \<Rightarrow> bytes \<Rightarrow> bytes \<Rightarrow> bytes \<Rightarrow> hash \<Rightarrow> 64 word \<Rightarrow> 16 word \<Rightarrow> bytes" where
  "recomputeInferenceCommitment sha3sum promptHash resultHash workerAddress blockHash nonce modelVersion =
     sha3sum (promptHash @ resultHash @ workerAddress @ blockHash @ PutUint64 nonce @ PutUint16 modelVersion)"

text \<open>What the three signature checks have in common: parse the key, parse the signature, verify; every failure is the same rule violation.\<close>

definition requireSignature :: "'p Secp \<Rightarrow> bytes \<Rightarrow> bytes \<Rightarrow> bytes \<Rightarrow> (chainError, unit) result" where
  "requireSignature S pubKey sig msg =
     (case ParsePubKey S pubKey of
        Inl _ \<Rightarrow> Inl (RuleError ErrBadTxOutValue)
      | Inr key \<Rightarrow> (case ParseSignature S sig of
          Inl _ \<Rightarrow> Inl (RuleError ErrBadTxOutValue)
        | Inr sig \<Rightarrow> guardE (\<not> SchnorrSig_Verify S sig msg key) (RuleError ErrBadTxOutValue)))"

definition ValidateInferenceBountyClaim ::
  "'p Secp \<Rightarrow> (bytes \<Rightarrow> bytes) \<Rightarrow> InferenceResultProof \<Rightarrow> InferenceBountyParams \<Rightarrow> hash \<Rightarrow> (chainError, unit) result" where
  "ValidateInferenceBountyClaim S sha3sum proof params confirmBlockHash =
     (if InferenceResultProof.BlockHash proof \<noteq> confirmBlockHash then Inl (RuleError ErrBadTxOutValue)
      else let want = recomputeInferenceCommitment sha3sum (bountyPromptHash params) (ResultHash proof) (WorkerAddress proof)
                        (InferenceResultProof.BlockHash proof) (bountyNonce params) (bountyModelVersion params) in
        if want \<noteq> CommitmentHash proof then Inl (RuleError ErrBadTxOutValue)
        else if WorkerAddress proof ! 0 \<noteq> 0x51 \<or> WorkerAddress proof ! 1 \<noteq> 0x20 then Inl (RuleError ErrBadTxOutValue)
        else bindE (requireSignature S (slice 2 34 (WorkerAddress proof)) (Signature proof) (CommitmentHash proof)) (\<lambda>_.
          requireSignature S (bountyCoordinatorPubKey params) (CoordinatorSignature proof) (CommitmentHash proof)))"

definition InferenceRefundSigHash :: "(bytes \<Rightarrow> bytes) \<Rightarrow> OutPoint \<Rightarrow> bytes" where
  "InferenceRefundSigHash sha3sum bounty = sha3sum (refundSigHashTag @ Hash bounty @ PutUint32 (Index bounty))"

definition ValidateInferenceBountyRefund ::
  "'p Secp \<Rightarrow> (bytes \<Rightarrow> bytes) \<Rightarrow> bytes \<Rightarrow> InferenceBountyParams \<Rightarrow> OutPoint \<Rightarrow> (chainError, unit) result" where
  "ValidateInferenceBountyRefund S sha3sum refundSig params bounty =
     requireSignature S (bountyRequesterPubKey params) refundSig (InferenceRefundSigHash sha3sum bounty)"

definition inferenceBountyWithinWindow :: "int \<Rightarrow> int \<Rightarrow> bool" where
  "inferenceBountyWithinWindow confirmHeight spendHeight \<longleftrightarrow> int32 (spendHeight - confirmHeight) \<le> InferenceProofWindowBlocks"

definition CheckInferenceBountySpend ::
  "'p Secp \<Rightarrow> (bytes \<Rightarrow> bytes) \<Rightarrow> MsgTx \<Rightarrow> InferenceBountyParams \<Rightarrow> OutPoint \<Rightarrow> int \<Rightarrow> int \<Rightarrow> hash \<Rightarrow> bytes \<Rightarrow>
     (chainError, unit) result" where
  "CheckInferenceBountySpend S sha3sum spendingTx params bountyOutPoint confirmHeight spendHeight confirmBlockHash refundSig =
     (if inferenceBountyWithinWindow confirmHeight spendHeight
      then (case ExtractInferenceResultProof spendingTx of
              Inl _ \<Rightarrow> Inl (RuleError ErrBadTxOutValue)
            | Inr proof \<Rightarrow> ValidateInferenceBountyClaim S sha3sum proof params confirmBlockHash)
      else ValidateInferenceBountyRefund S sha3sum refundSig params bountyOutPoint)"

text \<open>The refund signature of an input: its first witness item when that has 64 bytes, and zeros otherwise.\<close>

definition refundSigOf :: "TxIn \<Rightarrow> bytes" where
  "refundSigOf txIn =
     (let w = Witness txIn in if length w \<ge> 1 \<and> length (w ! 0) = 64 then w ! 0 else replicate 64 0)"

definition checkInferenceBountySpends ::
  "'p Secp \<Rightarrow> (bytes \<Rightarrow> bytes) \<Rightarrow> MsgTx \<Rightarrow> blockNode \<Rightarrow> UtxoViewpoint \<Rightarrow> (chainError, unit) result" where
  "checkInferenceBountySpends S sha3sum tx node view =
     forE (\<lambda>txIn. case LookupEntry view (PreviousOutPoint txIn) of
         None \<Rightarrow> Inr ()
       | Some entry \<Rightarrow> (case ParseInferenceBountyScript (entryPkScript entry) of
           None \<Rightarrow> Inr ()
         | Some params \<Rightarrow> (case Ancestor node (entryHeight entry) of
             None \<Rightarrow> Inl (RuleError ErrBadTxOutValue)
           | Some confirming \<Rightarrow>
               CheckInferenceBountySpend S sha3sum tx params (PreviousOutPoint txIn) (entryHeight entry) (node_height node)
                 (nhash (nfields confirming)) (refundSigOf txIn)))) (TxIn tx)"

definition CheckInferenceBountySpendsAgainstTip ::
  "'p Secp \<Rightarrow> (bytes \<Rightarrow> bytes) \<Rightarrow> MsgTx \<Rightarrow> blockNode option \<Rightarrow> UtxoViewpoint \<Rightarrow> (chainError, unit) result" where
  "CheckInferenceBountySpendsAgainstTip S sha3sum tx bestTip view =
     forE (\<lambda>txIn. case LookupEntry view (PreviousOutPoint txIn) of
         None \<Rightarrow> Inr ()
       | Some entry \<Rightarrow> (case ParseInferenceBountyScript (entryPkScript entry) of
           None \<Rightarrow> Inr ()
         | Some params \<Rightarrow> (case bestTip of
             None \<Rightarrow> Inr ()
           | Some tip \<Rightarrow>
               let spendHeight = int32 (node_height tip + 1) in
               (case Ancestor tip (entryHeight entry) of
                  None \<Rightarrow> Inl (RuleError ErrBadTxOutValue)
                | Some confirming \<Rightarrow>
                    CheckInferenceBountySpend S sha3sum tx params (PreviousOutPoint txIn) (entryHeight entry) spendHeight
                      (nhash (nfields confirming)) (refundSigOf txIn))))) (TxIn tx)"

section \<open>Issuance\<close>

definition inferenceGoSigHashTag :: bytes where "inferenceGoSigHashTag = ascii ''MDL-INFERENCEGO-ISSUE''"
definition inferenceGoForkHeight :: int where "inferenceGoForkHeight = 36438"

definition inferenceGoForkActive :: "int \<Rightarrow> bool" where
  "inferenceGoForkActive blockHeight \<longleftrightarrow> inferenceGoForkHeight \<noteq> 0 \<and> blockHeight \<ge> inferenceGoForkHeight"

definition inferenceGoMainnetAuthority :: bytes where
  "inferenceGoMainnetAuthority =
     [0x85, 0x67, 0xc2, 0xf6, 0x52, 0xb4, 0xe2, 0xa4, 0xb3, 0xcd, 0xff, 0xf6, 0xc4, 0xde, 0x5b, 0x84,
      0x48, 0xcb, 0x0a, 0xb2, 0x67, 0xc6, 0x94, 0x97, 0x80, 0x77, 0x34, 0x40, 0x90, 0x65, 0xfb, 0xd7]"

definition inferenceGoTestnetAuthority :: bytes where
  "inferenceGoTestnetAuthority =
     [0x63, 0x35, 0xcf, 0x71, 0x90, 0x87, 0x68, 0x2b, 0x0d, 0x32, 0x81, 0x41, 0x64, 0x41, 0x33, 0x5c,
      0x18, 0x12, 0x38, 0x07, 0xa6, 0x16, 0x6f, 0x5d, 0xa0, 0x74, 0x88, 0x8e, 0x59, 0x10, 0x46, 0x65]"

definition inferenceGoRegtestAuthority :: bytes where
  "inferenceGoRegtestAuthority =
     [0x8e, 0x9a, 0x4e, 0x18, 0xf9, 0x23, 0xf4, 0xc4, 0xec, 0x41, 0xb5, 0x46, 0xf4, 0x6f, 0x60, 0x5b,
      0x76, 0x5d, 0xf3, 0x6a, 0xfa, 0x86, 0x00, 0x79, 0x3c, 0xa8, 0xbf, 0xbe, 0x7d, 0x5a, 0x0e, 0x4b]"

definition inferenceGoAuthority :: "Params \<Rightarrow> bytes" where
  "inferenceGoAuthority params =
     (if Net params = MainNet then inferenceGoMainnetAuthority
      else if Net params = TestNet \<or> Net params = TestNet2 then inferenceGoTestnetAuthority
      else inferenceGoRegtestAuthority)"

definition InferenceGoSigHash :: "(bytes \<Rightarrow> bytes) \<Rightarrow> InferenceGoPayload \<Rightarrow> OutPoint \<Rightarrow> bytes" where
  "InferenceGoSigHash sha3sum p firstInput =
     sha3sum (inferenceGoSigHashTag @ SignedBytes p @ Hash firstInput @ PutUint32 (Index firstInput))"

text \<open>A key that parses but whose serialisation does not would make the tweak fault.\<close>

definition taprootOutputKey :: "'p Secp \<Rightarrow> bytes \<Rightarrow> (chainError, bytes) result" where
  "taprootOutputKey S internal =
     (case ParsePubKey S internal of
        Inl _ \<Rightarrow> Inl (RuleError ErrBadTxOutValue)
      | Inr pub \<Rightarrow> (case ComputeTaprootKeyNoScript S pub of
          None \<Rightarrow> Inl GoPanic | Some tweaked \<Rightarrow> Inr (SerializePubKey S tweaked)))"

definition paidTo :: "bytes \<Rightarrow> MsgTx \<Rightarrow> int" where
  "paidTo want msgTx =
     foldl (\<lambda>paid txOut. if PkScript txOut = want then int64 (paid + outValue txOut) else paid) 0 (TxOut msgTx)"

definition ValidateInferenceGoTx ::
  "'p Secp \<Rightarrow> (bytes \<Rightarrow> bytes) \<Rightarrow> MsgTx \<Rightarrow> bytes \<Rightarrow> (chainError, int) result" where
  "ValidateInferenceGoTx S sha3sum msgTx authority =
     (if CountInferenceGoPayloadOutputs msgTx \<noteq> 1 then Inl (RuleError ErrBadTxOutValue)
      else case ExtractInferenceGoPayload msgTx of
        Inl _ \<Rightarrow> Inl (RuleError ErrBadTxOutValue)
      | Inr payload \<Rightarrow>
          if length (TxIn msgTx) = 0 then Inl (RuleError ErrBadTxOutValue)
          else if uint (Amount payload) > MaxGrain then Inl (RuleError ErrBadTxOutValue)
          else let amount = sint (Amount payload) in
            if amount \<le> 0 then Inl (RuleError ErrBadTxOutValue)
            else let firstInput = PreviousOutPoint (TxIn msgTx ! 0) in
              bindE (requireSignature S authority (GoSignature payload) (InferenceGoSigHash sha3sum payload firstInput)) (\<lambda>_.
              bindE (if HasDestination payload then Inr (Destination payload) else taprootOutputKey S authority) (\<lambda>dest.
                if paidTo (InferenceGoP2TRScript dest) msgTx < amount then Inl (RuleError ErrBadTxOutValue)
                else Inr amount)))"

definition CheckInferenceGoIssuance ::
  "'p Secp \<Rightarrow> (bytes \<Rightarrow> bytes) \<Rightarrow> MsgTx \<Rightarrow> int \<Rightarrow> Params \<Rightarrow> (chainError, int) result" where
  "CheckInferenceGoIssuance S sha3sum msgTx blockHeight params =
     (if MsgTx.Version msgTx \<noteq> TxVersionInferenceGo then Inr 0
      else if \<not> inferenceGoForkActive blockHeight then Inl (RuleError ErrBadTxOutValue)
      else if IsCoinBaseTx msgTx then Inl (RuleError ErrBadTxOutValue)
      else ValidateInferenceGoTx S sha3sum msgTx (inferenceGoAuthority params))"

definition checkInferenceGoTx ::
  "'p Secp \<Rightarrow> (bytes \<Rightarrow> bytes) \<Rightarrow> MsgTx \<Rightarrow> blockNode \<Rightarrow> Params \<Rightarrow> (chainError, int) result" where
  "checkInferenceGoTx S sha3sum tx node chainParams = CheckInferenceGoIssuance S sha3sum tx (node_height node) chainParams"

section \<open>The bounty script is a framing\<close>

lemmas bounty_sizes = inferenceBountyDataSize_def inferenceBountyScriptSize_def

lemma length_bountyMagic [simp]: "length inferenceBountyMagic = 4"
  by (simp add: inferenceBountyMagic_def ascii_def)

text \<open>The parameters at their offsets in the data, and the part of the script that is the same for all bounties.\<close>

definition bountyFields :: "bytes \<Rightarrow> InferenceBountyParams" where
  "bountyFields d = \<lparr>bountyRequesterPubKey = slice 5 37 d, bountyCoordinatorPubKey = slice 37 69 d,
     bountyPromptHash = slice 69 101 d, bountyNonce = Uint64 (slice 101 109 d), bountyModelVersion = Uint16 (slice 109 111 d)\<rparr>"

definition bountyData :: "InferenceBountyParams \<Rightarrow> bytes" where
  "bountyData p = inferenceBountyMagic @ [inferenceBountyVersion] @ bountyRequesterPubKey p @ bountyCoordinatorPubKey p @
     bountyPromptHash p @ PutUint64 (bountyNonce p) @ PutUint16 (bountyModelVersion p)"

abbreviation bountyTagged :: "bytes \<Rightarrow> bool" where
  "bountyTagged d \<equiv> slice 0 4 d = inferenceBountyMagic \<and> d ! 4 = inferenceBountyVersion"

lemma slice_single: "i < length d \<Longrightarrow> slice i (Suc i) d = [d ! i]"
  by (simp add: slice_def take_Suc_conv_app_nth)

interpretation bounty_layout: fixed_layout 111 bountyTagged bountyFields bountyData wf_InferenceBountyParams
proof unfold_locales
  fix d :: bytes assume len: "length d = 111"
  show "wf_InferenceBountyParams (bountyFields d)" using len by (simp add: wf_InferenceBountyParams_def bountyFields_def)
  assume ok: "bountyTagged d"
  have "slice 0 4 d @ slice 4 5 d @ slice 5 111 d = d" using len by (simp add: slice_split slice_whole)
  moreover have "slice 4 5 d = [inferenceBountyVersion]" using slice_single [of 4 d] len ok by simp
  ultimately show "bountyData (bountyFields d) = d"
    using len ok by (simp add: bountyData_def bountyFields_def PutUint_Uint slice_split)
next
  fix p assume wf: "wf_InferenceBountyParams p"
  show "bountyFields (bountyData p) = p" using wf
    by (cases p) (simp add: bountyFields_def bountyData_def wf_InferenceBountyParams_def slice_def)
  show "length (bountyData p) = 111" using wf by (simp add: bountyData_def wf_InferenceBountyParams_def)
  show "bountyTagged (bountyData p)" by (simp add: bountyData_def slice_def nth_append)
qed

lemma ParseInferenceBountyScript_iff:
  "ParseInferenceBountyScript s = Some p \<longleftrightarrow> wf_InferenceBountyParams p \<and> s = BuildInferenceBountyScript p"
proof -
  have pre: "s ! 0 = a \<and> s ! 1 = b \<longleftrightarrow> take 2 s = [a, b]" if "2 \<le> length s" for a b
    using that by (cases s; cases "tl s") auto
  have "ParseInferenceBountyScript s = Some p \<longleftrightarrow>
      length s = 2 + 111 \<and> (s ! 0 = 0x4c \<and> s ! 1 = 111) \<and>
      (length (drop 2 s) = 111 \<and> bountyTagged (drop 2 s) \<and> bountyFields (drop 2 s) = p)"
    by (auto simp: ParseInferenceBountyScript_def bounty_sizes bountyFields_def Let_def split: if_splits)
  also have "\<dots> \<longleftrightarrow> length s = 2 + 111 \<and> take 2 s = [0x4c, 111] \<and> wf_InferenceBountyParams p \<and> drop 2 s = bountyData p"
    unfolding bounty_layout.layout_iff by (rule conj_cong [OF refl], subst pre) simp_all
  also have "\<dots> \<longleftrightarrow> wf_InferenceBountyParams p \<and> s = [0x4c, 111] @ bountyData p"
    by (rule framing_iff) (simp_all add: bounty_layout.length_enc)
  finally show ?thesis by (simp add: BuildInferenceBountyScript_def bountyData_def bounty_sizes)
qed

interpretation bounty_carrier: op_return_carrier
    BuildInferenceBountyScript ParseInferenceBountyScript wf_InferenceBountyParams
  by unfold_locales (rule ParseInferenceBountyScript_iff)


section \<open>Signatures\<close>

definition signedBy :: "'p Secp \<Rightarrow> bytes \<Rightarrow> bytes \<Rightarrow> bytes \<Rightarrow> bool" where
  "signedBy S pubKey sig msg \<longleftrightarrow>
     (\<exists>key s. ParsePubKey S pubKey = Inr key \<and> ParseSignature S sig = Inr s \<and> SchnorrSig_Verify S s msg key)"

lemma requireSignature_iff [simp]: "requireSignature S pubKey sig msg = Inr u \<longleftrightarrow> signedBy S pubKey sig msg"
  by (auto simp: requireSignature_def signedBy_def split: sum.splits)

lemma requireSignature_error: "requireSignature S pubKey sig msg = Inl e \<Longrightarrow> e = RuleError ErrBadTxOutValue"
  by (auto simp: requireSignature_def split: sum.splits)

text \<open>Whoever holds a key can sign any message of 32 bytes.\<close>

lemma ParseSignature_be32:
  assumes "secp_laws S" "0 \<le> r" "r < fieldPrime S" "0 \<le> s" "s < groupOrder S"
  shows "ParseSignature S (be32 r @ be32 s) = Inr \<lparr>sigR = r, sigS = s\<rparr>"
  using assms secp_laws_group(4,5) [OF assms(1)]
  by (simp add: ParseSignature_def SignatureSize_def slice_def scalarSetBytes_def be_int_be32)

lemma holder_signs:
  assumes "secp_laws S" "0 < a" "a < groupOrder S" "length msg = 32"
  shows "\<exists>sig. length sig = 64 \<and> signedBy S (SerializePubKey S (scalarBaseMult S a)) sig msg"
proof -
  let ?pub = "SerializePubKey S (scalarBaseMult S a)" and ?R = "scalarBaseMult S 1"
  define e where "e = be_int (TaggedHash TagBIP0340Challenge [be32 (affineX S ?R), ?pub, msg]) mod groupOrder S"
  define s where "s = (e * evenKey S a mod groupOrder S + evenKey S 1) mod groupOrder S"
  have n: "1 < groupOrder S" using secp_laws_group(3) [OF assms(1)] .
  note l = secp_lawsD [OF assms(1) zero_less_one n] and A = evenKey [OF assms(1-3)]
  have "schnorrVerify S \<lparr>sigR = affineX S ?R, sigS = s\<rparr> msg ?pub = Inr ()"
    unfolding s_def e_def by (rule schnorrVerify_sound [OF assms(1-3) zero_less_one n assms(4)])
  then have "SchnorrSig_Verify S \<lparr>sigR = affineX S ?R, sigS = s\<rparr> msg (scalarBaseMult S (evenKey S a))"
    by (simp add: SchnorrSig_Verify_def A(7))
  moreover have "ParseSignature S (be32 (affineX S ?R) @ be32 s) = Inr \<lparr>sigR = affineX S ?R, sigS = s\<rparr>"
    using n by (intro ParseSignature_be32 [OF assms(1) l(3,4)]) (simp_all add: s_def)
  ultimately show ?thesis using A(6)
    by (intro exI [of _ "be32 (affineX S ?R) @ be32 s"]) (auto simp: signedBy_def)
qed

section \<open>Claims\<close>

abbreviation claimMessage :: "InferenceBountyParams \<Rightarrow> InferenceResultProof \<Rightarrow> bytes" where
  "claimMessage params proof \<equiv> bountyPromptHash params @ ResultHash proof @ WorkerAddress proof @
     InferenceResultProof.BlockHash proof @ PutUint64 (bountyNonce params) @ PutUint16 (bountyModelVersion params)"

lemma ValidateInferenceBountyClaim_iff:
  "ValidateInferenceBountyClaim S sha3sum proof params h = Inr u \<longleftrightarrow>
     InferenceResultProof.BlockHash proof = h \<and> CommitmentHash proof = sha3sum (claimMessage params proof) \<and>
     WorkerAddress proof ! 0 = 0x51 \<and> WorkerAddress proof ! 1 = 0x20 \<and>
     signedBy S (slice 2 34 (WorkerAddress proof)) (Signature proof) (CommitmentHash proof) \<and>
     signedBy S (bountyCoordinatorPubKey params) (CoordinatorSignature proof) (CommitmentHash proof)"
  by (auto simp: ValidateInferenceBountyClaim_def recomputeInferenceCommitment_def Let_def)

lemma CheckInferenceBountySpend_claim:
  assumes "inferenceBountyWithinWindow confirmHeight spendHeight"
  shows "CheckInferenceBountySpend S sha3sum tx params op confirmHeight spendHeight h refundSig = Inr () \<longleftrightarrow>
     (\<exists>proof. ExtractInferenceResultProof tx = Inr proof \<and> ValidateInferenceBountyClaim S sha3sum proof params h = Inr ())"
  using assms by (auto simp: CheckInferenceBountySpend_def split: sum.splits)

lemma CheckInferenceBountySpend_refund:
  assumes "\<not> inferenceBountyWithinWindow confirmHeight spendHeight"
  shows "CheckInferenceBountySpend S sha3sum tx params op confirmHeight spendHeight h refundSig = Inr () \<longleftrightarrow>
     signedBy S (bountyRequesterPubKey params) refundSig (InferenceRefundSigHash sha3sum op)"
  using assms by (simp add: CheckInferenceBountySpend_def ValidateInferenceBountyRefund_def)

lemma withinWindow_iff:
  assumes "0 \<le> confirmHeight" "confirmHeight \<le> spendHeight" "spendHeight < 2 ^ 31"
  shows "inferenceBountyWithinWindow confirmHeight spendHeight \<longleftrightarrow> spendHeight \<le> confirmHeight + 5"
  using assms by (auto simp: inferenceBountyWithinWindow_def InferenceProofWindowBlocks_def int32_id)

lemma claim_exists:
  assumes "secp_laws S" "0 < w" "w < groupOrder S" "0 < c" "c < groupOrder S"
    and "\<And>x. length (sha3sum x) = 32" "length resultHash = 32" "length h = 32"
    and "bountyCoordinatorPubKey params = SerializePubKey S (scalarBaseMult S c)"
  shows "\<exists>proof. wf_InferenceResultProof proof \<and> ResultHash proof = resultHash \<and>
     WorkerAddress proof = [0x51, 0x20] @ SerializePubKey S (scalarBaseMult S w) \<and>
     ValidateInferenceBountyClaim S sha3sum proof params h = Inr ()"
proof -
  let ?wk = "SerializePubKey S (scalarBaseMult S w)"
  let ?msg = "sha3sum (bountyPromptHash params @ resultHash @ ([0x51, 0x20] @ ?wk) @ h @
     PutUint64 (bountyNonce params) @ PutUint16 (bountyModelVersion params))"
  obtain ws where ws: "length ws = 64" "signedBy S ?wk ws ?msg" using holder_signs [OF assms(1-3,6)] by blast
  obtain cs where cs: "length cs = 64" "signedBy S (bountyCoordinatorPubKey params) cs ?msg"
    using holder_signs [OF assms(1,4,5,6)] assms(9) by metis
  have len: "length ?wk = 32" using secp_lawsD(7) [OF assms(1-3)] by (simp add: SerializePubKey_def)
  then have sl: "slice 2 34 ([0x51, 0x20] @ ?wk) = ?wk" by (simp add: slice_def)
  show ?thesis
    apply (rule exI [of _ "\<lparr>CommitmentHash = ?msg, ResultHash = resultHash, WorkerAddress = [0x51, 0x20] @ ?wk,
         BlockHash = h, Signature = ws, CoordinatorSignature = cs\<rparr>"])
    using ws cs len sl assms(6-8) by (simp add: wf_InferenceResultProof_def ValidateInferenceBountyClaim_iff)
qed

lemma ExtractInferenceResultProof_head:
  assumes "MsgTx.Version tx = TxVersionInferenceProof" "TxOut tx = out # outs"
    and "parseInferenceProofOpReturn (PkScript out) = Some proof"
  shows "ExtractInferenceResultProof tx = Inr proof"
  using assms by (simp add: ExtractInferenceResultProof_def)


section \<open>Issues\<close>

definition saneOutputs :: "MsgTx \<Rightarrow> bool" where
  "saneOutputs tx \<longleftrightarrow>
     list_all (\<lambda>out. 0 \<le> outValue out \<and> outValue out \<le> MaxGrain) (TxOut tx) \<and> sum_list (map outValue (TxOut tx)) \<le> MaxGrain"

lemma MaxGrain_small: "0 < MaxGrain" "MaxGrain < 2 ^ 62"
  by (simp_all add: MaxGrain_def GrainPerMDL_def)

lemma paidTo_exact:
  assumes "saneOutputs tx"
  shows "paidTo want tx = sum_list (map outValue (filter (\<lambda>out. PkScript out = want) (TxOut tx)))"
proof -
  have nonneg: "0 \<le> sum_list (map outValue (filter P outs))"
    if "list_all (\<lambda>out. 0 \<le> outValue out \<and> outValue out \<le> MaxGrain) outs" for P and outs :: "TxOut list"
    using that by (intro sum_list_nonneg) (auto simp: list_all_iff)
  have "foldl (\<lambda>paid txOut. if PkScript txOut = want then int64 (paid + outValue txOut) else paid) p outs =
      p + sum_list (map outValue (filter (\<lambda>out. PkScript out = want) outs))"
    if "list_all (\<lambda>out. 0 \<le> outValue out \<and> outValue out \<le> MaxGrain) outs" "0 \<le> p" "p + sum_list (map outValue outs) \<le> MaxGrain"
    for p and outs :: "TxOut list"
    using that
  proof (induction outs arbitrary: p)
    case (Cons out outs)
    have rest: "0 \<le> sum_list (map outValue outs)" using nonneg [of outs "\<lambda>_. True"] Cons.prems(1) by simp
    then have "int64 (p + outValue out) = p + outValue out"
      using Cons.prems MaxGrain_small by (intro int64_id) auto
    then show ?case using Cons.prems rest by (auto simp: Cons.IH algebra_simps)
  qed simp
  then show ?thesis using assms by (simp add: paidTo_def saneOutputs_def)
qed

lemma Amount_signed:
  fixes a :: "64 word"
  assumes "uint a \<le> MaxGrain"
  shows "sint a = uint a"
proof -
  have "- (2 ^ 63) \<le> (0 :: int)" by simp
  then have "- (2 ^ 63) \<le> uint a" using uint_ge_0 by (rule order_trans)
  moreover have "uint a < 2 ^ 63" using assms MaxGrain_small by simp
  ultimately show ?thesis by (simp add: sint_uint signed_take_bit_int_eq_self)
qed

definition issueDestination :: "'p Secp \<Rightarrow> bytes \<Rightarrow> InferenceGoPayload \<Rightarrow> (chainError, bytes) result" where
  "issueDestination S authority payload =
     (if HasDestination payload then Inr (Destination payload) else taprootOutputKey S authority)"

lemma ValidateInferenceGoTx_iff:
  assumes "saneOutputs tx"
  shows "ValidateInferenceGoTx S sha3sum tx authority = Inr amount \<longleftrightarrow>
    (\<exists>payload txIn txIns dest. CountInferenceGoPayloadOutputs tx = 1 \<and> ExtractInferenceGoPayload tx = Inr payload \<and>
       TxIn tx = txIn # txIns \<and> amount = uint (Amount payload) \<and> 0 < amount \<and> amount \<le> MaxGrain \<and>
       signedBy S authority (GoSignature payload) (InferenceGoSigHash sha3sum payload (PreviousOutPoint txIn)) \<and>
       issueDestination S authority payload = Inr dest \<and>
       amount \<le> sum_list (map outValue (filter (\<lambda>out. PkScript out = InferenceGoP2TRScript dest) (TxOut tx))))"
proof (cases "ExtractInferenceGoPayload tx")
  case (Inr payload)
  have "uint (Amount payload) \<noteq> 0 \<Longrightarrow> 0 < uint (Amount payload)" using uint_ge_0 [of "Amount payload"] by linarith
  with Inr show ?thesis using Amount_signed [of "Amount payload"]
    by (cases "TxIn tx")
       (auto simp: ValidateInferenceGoTx_def Let_def not_less not_le paidTo_exact [OF assms] simp flip: issueDestination_def)
qed (simp add: ValidateInferenceGoTx_def)

lemma CheckInferenceGoIssuance_bounds:
  assumes "CheckInferenceGoIssuance S sha3sum tx h params = Inr amount"
  shows "0 \<le> amount" "amount \<le> MaxGrain" "amount \<noteq> 0 \<longrightarrow> MsgTx.Version tx = TxVersionInferenceGo \<and> \<not> IsCoinBaseTx tx"
  using assms MaxGrain_small Amount_signed
  by (auto simp: CheckInferenceGoIssuance_def ValidateInferenceGoTx_def Let_def split: if_splits sum.splits)

lemma issueMessage_inj:
  fixes op op' :: OutPoint
  assumes "length (Destination p) = 32" "length (Destination q) = 32" "wf_hash (Hash op)" "wf_hash (Hash op')"
  shows "inferenceGoSigHashTag @ SignedBytes p @ Hash op @ PutUint32 (Index op) =
     inferenceGoSigHashTag @ SignedBytes q @ Hash op' @ PutUint32 (Index op') \<longleftrightarrow>
     Amount p = Amount q \<and> Destination p = Destination q \<and> op = op'"
  using assms by (cases op; cases op') (auto simp: SignedBytes_def)


section \<open>Properties\<close>

text \<open>A transaction that spends one bounty: an input for the output, and no other input spends a bounty.\<close>

definition spendsBounty :: "UtxoViewpoint \<Rightarrow> OutPoint \<Rightarrow> MsgTx \<Rightarrow> TxIn \<Rightarrow> bool" where
  "spendsBounty view op tx txIn \<longleftrightarrow> txIn \<in> set (TxIn tx) \<and> PreviousOutPoint txIn = op \<and>
     (\<forall>txIn' \<in> set (TxIn tx). txIn' \<noteq> txIn \<longrightarrow>
        (\<forall>entry. LookupEntry view (PreviousOutPoint txIn') = Some entry \<longrightarrow> \<not> IsInferenceBountyScript (entryPkScript entry)))"

lemma spendsBounty_check:
  assumes "spendsBounty view op tx txIn" "LookupEntry view op = Some entry" "wf_InferenceBountyParams params"
    and "entryPkScript entry = BuildInferenceBountyScript params" "Ancestor node (entryHeight entry) = Some confirming"
  shows "checkInferenceBountySpends S sha3sum tx node view = Inr () \<longleftrightarrow>
    CheckInferenceBountySpend S sha3sum tx params op (entryHeight entry) (node_height node) (nhash (nfields confirming)) (refundSigOf txIn) = Inr ()"
proof -
  have p: "ParseInferenceBountyScript (entryPkScript entry) = Some params" using assms(3,4) by (simp add: ParseInferenceBountyScript_iff)
  define f where "f = (\<lambda>txIn. case LookupEntry view (PreviousOutPoint txIn) of
         None \<Rightarrow> Inr ()
       | Some entry \<Rightarrow> (case ParseInferenceBountyScript (entryPkScript entry) of
           None \<Rightarrow> Inr ()
         | Some params \<Rightarrow> (case Ancestor node (entryHeight entry) of
             None \<Rightarrow> Inl (RuleError ErrBadTxOutValue)
           | Some confirming \<Rightarrow>
               CheckInferenceBountySpend S sha3sum tx params (PreviousOutPoint txIn) (entryHeight entry) (node_height node)
                 (nhash (nfields confirming)) (refundSigOf txIn))))"
  have "f txIn' = Inr ()" if "txIn' \<in> set (TxIn tx)" "txIn' \<noteq> txIn" for txIn'
    using assms(1) that by (auto simp: f_def spendsBounty_def IsInferenceBountyScript_def split: option.splits)
  moreover have "f txIn = CheckInferenceBountySpend S sha3sum tx params op (entryHeight entry) (node_height node) (nhash (nfields confirming)) (refundSigOf txIn)"
    using assms(1,2,5) p by (simp add: f_def spendsBounty_def)
  moreover have "checkInferenceBountySpends S sha3sum tx node view = forE f (TxIn tx)" by (simp add: checkInferenceBountySpends_def f_def)
  moreover have "txIn \<in> set (TxIn tx)" using assms(1) by (simp add: spendsBounty_def)
  ultimately show ?thesis by (metis forE_Inr_iff)
qed

lemma chain_node_hash: "chain_node n \<Longrightarrow> wf_hash (nhash (nfields n))"
  by (erule chain_node.cases) (simp_all add: BlockHash_def)

lemma chain_node_Ancestor:
  assumes "chain_node n" "0 \<le> h" "h \<le> node_height n"
  shows "\<exists>m. Ancestor n h = Some m \<and> wf_hash (nhash (nfields m))"
  using assms
proof (induction n rule: chain_node.induct)
  case (genesis header sz)
  then show ?case using Ancestor_linked [OF chain_node_linked [OF chain_node.genesis], of header sz h] by (simp add: BlockHash_def)
next
  case (extend p header sz)
  let ?n = "newBlockNode header (Some p) sz"
  have n: "chain_node ?n" using extend.hyps by (rule chain_node.extend)
  have "0 \<le> node_height p" using chain_node_linked [OF extend.hyps(1)] by (simp add: linked_def)
  then have h: "node_height ?n = node_height p + 1" using extend.hyps(2) by (simp add: newBlockNode_extend int32_id)
  show ?case
  proof (cases "h = node_height ?n")
    case True
    then show ?thesis using Ancestor_linked [OF chain_node_linked [OF n], of h] extend.prems by (simp add: BlockHash_def)
  next
    case False
    then have "h \<le> node_height p" using extend.prems(2) h by simp
    then have "nat (node_height ?n - h) = Suc (nat (node_height p - h))" using h by simp
    then have "nthParent (nat (node_height ?n - h)) ?n = nthParent (nat (node_height p - h)) p" by (simp add: newBlockNode_extend(1))
    then show ?thesis using extend.IH extend.prems \<open>h \<le> node_height p\<close>
        Ancestor_linked [OF chain_node_linked [OF n], of h] Ancestor_linked [OF chain_node_linked [OF extend.hyps(1)], of h] by simp
  qed
qed

text \<open>
  C9. A bounty can be spent at every height after it is confirmed, and only by the parties its script names.  Let a view hold an output with the
  script that \<open>BuildInferenceBountyScript\<close> builds, confirmed on the chain of the spending block, whose two keys are public keys with holders,
  and consider transactions that spend this bounty and no other.  Up to five blocks after the confirming block, any worker and the named
  coordinator can build a proof for any result such that the check of the inputs, \<open>checkInferenceBountySpends\<close>, accepts every version 4
  transaction that starts with that proof output; and a transaction is accepted only with a proof for the prompt of the bounty and
  the confirming block that the worker it names and the named coordinator have both signed.  From the sixth block on, the requester can sign a
  refund with which, as the witness of the input, every transaction is accepted; and a transaction is accepted exactly when its input
  has a signature of the requester on the bounty.
\<close>

theorem bounty_spendable:
  assumes "secp_laws S" "\<And>x. length (sha3sum x) = 32" "length resultHash = 32"
    and "0 < w" "w < groupOrder S" "0 < c" "c < groupOrder S" "0 < r" "r < groupOrder S"
    and "bountyCoordinatorPubKey params = SerializePubKey S (scalarBaseMult S c)"
    and "bountyRequesterPubKey params = SerializePubKey S (scalarBaseMult S r)" "length (bountyPromptHash params) = 32"
    and "LookupEntry view op = Some entry" "entryPkScript entry = BuildInferenceBountyScript params"
    and "chain_node node" "0 \<le> entryHeight entry" "entryHeight entry \<le> node_height node"
  shows "\<exists>confirming. Ancestor node (entryHeight entry) = Some confirming \<and>
    (if node_height node \<le> entryHeight entry + 5
     then (\<exists>proof. ResultHash proof = resultHash \<and> WorkerAddress proof = [0x51, 0x20] @ SerializePubKey S (scalarBaseMult S w) \<and>
         (\<forall>tx txIn out outs. spendsBounty view op tx txIn \<and> MsgTx.Version tx = TxVersionInferenceProof \<and> TxOut tx = out # outs \<and>
            PkScript out = inferenceProofOpReturnPrefix @ InferenceResultProof_Serialise proof \<longrightarrow>
            checkInferenceBountySpends S sha3sum tx node view = Inr ())) \<and>
       (\<forall>tx txIn. spendsBounty view op tx txIn \<and> checkInferenceBountySpends S sha3sum tx node view = Inr () \<longrightarrow>
          (\<exists>proof. ExtractInferenceResultProof tx = Inr proof \<and> InferenceResultProof.BlockHash proof = nhash (nfields confirming) \<and>
             CommitmentHash proof = sha3sum (claimMessage params proof) \<and>
             signedBy S (slice 2 34 (WorkerAddress proof)) (Signature proof) (CommitmentHash proof) \<and>
             signedBy S (bountyCoordinatorPubKey params) (CoordinatorSignature proof) (CommitmentHash proof)))
     else (\<exists>refundSig. \<forall>tx txIn. spendsBounty view op tx txIn \<and> Witness txIn = [refundSig] \<longrightarrow>
            checkInferenceBountySpends S sha3sum tx node view = Inr ()) \<and>
       (\<forall>tx txIn. spendsBounty view op tx txIn \<longrightarrow>
          (checkInferenceBountySpends S sha3sum tx node view = Inr () \<longleftrightarrow>
           signedBy S (bountyRequesterPubKey params) (refundSigOf txIn) (InferenceRefundSigHash sha3sum op))))"
proof -
  obtain confirming where conf: "Ancestor node (entryHeight entry) = Some confirming" "wf_hash (nhash (nfields confirming))"
    using chain_node_Ancestor [OF assms(15-17)] by blast
  have wf: "wf_InferenceBountyParams params"
    using secp_lawsD(7) [OF assms(1,6,7)] secp_lawsD(7) [OF assms(1,8,9)] assms(10-12) by (simp add: wf_InferenceBountyParams_def SerializePubKey_def)
  note check = spendsBounty_check [OF _ assms(13) wf assms(14) conf(1), of _ _ S sha3sum]
  have hi: "node_height node < 2 ^ 31" using chain_node_linked [OF assms(15)] by (simp add: linked_def)
  note win = withinWindow_iff [OF assms(16,17) hi]
  show ?thesis
  proof (cases "node_height node \<le> entryHeight entry + 5")
    case True
    then have win: "inferenceBountyWithinWindow (entryHeight entry) (node_height node)" using win by simp
    obtain claim where p: "wf_InferenceResultProof claim" "ResultHash claim = resultHash"
      "WorkerAddress claim = [0x51, 0x20] @ SerializePubKey S (scalarBaseMult S w)"
      "ValidateInferenceBountyClaim S sha3sum claim params (nhash (nfields confirming)) = Inr ()"
      using claim_exists [where sha3sum = sha3sum, OF assms(1,4,5,6,7,2,3) conf(2) assms(10)] by blast
    have "ExtractInferenceResultProof tx = Inr claim"
      if "MsgTx.Version tx = TxVersionInferenceProof" "TxOut tx = out # outs"
        "PkScript out = inferenceProofOpReturnPrefix @ InferenceResultProof_Serialise claim" for tx out outs
      by (rule ExtractInferenceResultProof_head [OF that(1,2)]) (simp add: that(3) proof_carrier.parse_build p(1))
    then have "checkInferenceBountySpends S sha3sum tx node view = Inr ()"
      if "spendsBounty view op tx txIn" "MsgTx.Version tx = TxVersionInferenceProof" "TxOut tx = out # outs"
        "PkScript out = inferenceProofOpReturnPrefix @ InferenceResultProof_Serialise claim" for tx txIn out outs
      using check [OF that(1)] that(2-4) p(4) unfolding CheckInferenceBountySpend_claim [OF win] by blast
    moreover have "\<exists>proof. ExtractInferenceResultProof tx = Inr proof \<and>
        ValidateInferenceBountyClaim S sha3sum proof params (nhash (nfields confirming)) = Inr ()"
      if "spendsBounty view op tx txIn" "checkInferenceBountySpends S sha3sum tx node view = Inr ()" for tx txIn
      using check [OF that(1)] that(2) unfolding CheckInferenceBountySpend_claim [OF win] by blast
    ultimately have "(\<exists>proof. ResultHash proof = resultHash \<and> WorkerAddress proof = [0x51, 0x20] @ SerializePubKey S (scalarBaseMult S w) \<and>
         (\<forall>tx txIn out outs. spendsBounty view op tx txIn \<and> MsgTx.Version tx = TxVersionInferenceProof \<and> TxOut tx = out # outs \<and>
            PkScript out = inferenceProofOpReturnPrefix @ InferenceResultProof_Serialise proof \<longrightarrow>
            checkInferenceBountySpends S sha3sum tx node view = Inr ()))"
      "\<forall>tx txIn. spendsBounty view op tx txIn \<and> checkInferenceBountySpends S sha3sum tx node view = Inr () \<longrightarrow>
        (\<exists>proof. ExtractInferenceResultProof tx = Inr proof \<and>
           ValidateInferenceBountyClaim S sha3sum proof params (nhash (nfields confirming)) = Inr ())" using p(2,3) by blast+
    then show ?thesis unfolding if_P [OF True] ValidateInferenceBountyClaim_iff using conf(1) by (intro exI [of _ confirming] conjI) (blast+)
  next
    case False
    then have win: "\<not> inferenceBountyWithinWindow (entryHeight entry) (node_height node)" using win by simp
    have iff: "checkInferenceBountySpends S sha3sum tx node view = Inr () \<longleftrightarrow>
        signedBy S (bountyRequesterPubKey params) (refundSigOf txIn) (InferenceRefundSigHash sha3sum op)"
      if "spendsBounty view op tx txIn" for tx txIn using check [OF that] unfolding CheckInferenceBountySpend_refund [OF win] .
    obtain sig where "length sig = 64" "signedBy S (bountyRequesterPubKey params) sig (InferenceRefundSigHash sha3sum op)"
      using holder_signs [OF assms(1,8,9) assms(2)] unfolding assms(11) InferenceRefundSigHash_def by blast
    then have "checkInferenceBountySpends S sha3sum tx node view = Inr ()" if "spendsBounty view op tx txIn" "Witness txIn = [sig]" for tx txIn
      using iff [OF that(1)] that(2) by (simp add: refundSigOf_def)
    then show ?thesis unfolding if_not_P [OF False] using iff conf(1) by (intro exI [of _ confirming] conjI) (blast+)
  qed
qed

definition exampleParams :: InferenceBountyParams where
  "exampleParams = \<lparr>bountyRequesterPubKey = SerializePubKey exampleSecp (scalarBaseMult exampleSecp 2),
     bountyCoordinatorPubKey = SerializePubKey exampleSecp (scalarBaseMult exampleSecp 3), bountyPromptHash = replicate 32 5,
     bountyNonce = 9, bountyModelVersion = 1\<rparr>"

definition constantHash :: "bytes \<Rightarrow> bytes" where "constantHash x = replicate 32 1"

lemma length_constantHash: "length (constantHash x) = 32"
  by (simp add: constantHash_def)

lemma exampleSecp_order [simp]: "groupOrder exampleSecp = 7"
  by (simp add: exampleSecp_def)

definition bountyView :: UtxoViewpoint where
  "bountyView = NewUtxoViewpoint\<lparr>viewEntries := [(exampleOutPoint,
     Some \<lparr>entryAmount = 5000, entryPkScript = BuildInferenceBountyScript exampleParams, entryHeight = 0, packedFlags = 0\<rparr>)]\<rparr>"

theorem bounty_spendable_witness:
  "\<exists>proof. checkInferenceBountySpends exampleSecp constantHash
       \<lparr>MsgTx.Version = 4, TxIn = [\<lparr>PreviousOutPoint = exampleOutPoint, SignatureScript = [], Witness = [], Sequence = 0\<rparr>],
        TxOut = [\<lparr>Value = 0, PkScript = inferenceProofOpReturnPrefix @ InferenceResultProof_Serialise proof\<rparr>], LockTime = 0\<rparr>
       exampleTip bountyView = Inr ()"
proof -
  let ?entry = "\<lparr>entryAmount = 5000, entryPkScript = BuildInferenceBountyScript exampleParams, entryHeight = 0, packedFlags = 0\<rparr>"
  have e: "LookupEntry bountyView exampleOutPoint = Some ?entry" by (simp add: bountyView_def LookupEntry_def)
  have s: "spendsBounty bountyView exampleOutPoint
      \<lparr>MsgTx.Version = 4, TxIn = [\<lparr>PreviousOutPoint = exampleOutPoint, SignatureScript = [], Witness = [], Sequence = 0\<rparr>],
       TxOut = outs, LockTime = 0\<rparr> \<lparr>PreviousOutPoint = exampleOutPoint, SignatureScript = [], Witness = [], Sequence = 0\<rparr>" for outs
    by (simp add: spendsBounty_def)
  have p: "bountyCoordinatorPubKey exampleParams = SerializePubKey exampleSecp (scalarBaseMult exampleSecp 3)"
    "bountyRequesterPubKey exampleParams = SerializePubKey exampleSecp (scalarBaseMult exampleSecp 2)" "length (bountyPromptHash exampleParams) = 32"
    by (simp_all add: exampleParams_def)
  obtain claim where c: "\<forall>tx txIn out outs. spendsBounty bountyView exampleOutPoint tx txIn \<and> MsgTx.Version tx = TxVersionInferenceProof \<and>
      TxOut tx = out # outs \<and> PkScript out = inferenceProofOpReturnPrefix @ InferenceResultProof_Serialise claim \<longrightarrow>
      checkInferenceBountySpends exampleSecp constantHash tx exampleTip bountyView = Inr ()"
    using bounty_spendable [where sha3sum = constantHash, OF exampleSecp_laws length_constantHash _ _ _ _ _ _ _ p e _ exampleTip_chain, of "replicate 32 8" 1] by auto
  let ?out = "\<lparr>Value = 0, PkScript = inferenceProofOpReturnPrefix @ InferenceResultProof_Serialise claim\<rparr>"
  have "checkInferenceBountySpends exampleSecp constantHash
       \<lparr>MsgTx.Version = 4, TxIn = [\<lparr>PreviousOutPoint = exampleOutPoint, SignatureScript = [], Witness = [], Sequence = 0\<rparr>],
        TxOut = [?out], LockTime = 0\<rparr> exampleTip bountyView = Inr ()"
    by (rule c [rule_format, where out = ?out and outs = "[]"], rule conjI [OF s]) (simp add: TxVersionInferenceProof_def)
  then show ?thesis by (rule exI)
qed

text \<open>
  A proof says for which request it was made: a proof that is accepted for two bounties names the block that confirmed
  both, and the two bounties ask for the same prompt with the same seed and model, unless the two messages the commitment is
  computed from collide under SHA3-256.
\<close>

theorem claim_binds_request:
  assumes "ValidateInferenceBountyClaim S sha3sum proof p h = Inr ()" "ValidateInferenceBountyClaim S sha3sum proof q h' = Inr ()"
    and "wf_InferenceBountyParams p" "wf_InferenceBountyParams q"
  shows "h = h' \<and> InferenceResultProof.BlockHash proof = h \<and>
    (bountyPromptHash p = bountyPromptHash q \<and> bountyNonce p = bountyNonce q \<and> bountyModelVersion p = bountyModelVersion q \<or>
     claimMessage p proof \<noteq> claimMessage q proof \<and> sha3sum (claimMessage p proof) = sha3sum (claimMessage q proof))"
  using assms by (auto simp: ValidateInferenceBountyClaim_iff wf_InferenceBountyParams_def)

lemma example_claim:
  "\<exists>proof. wf_InferenceResultProof proof \<and> ValidateInferenceBountyClaim exampleSecp constantHash proof exampleParams (replicate 32 6) = Inr ()"
  using claim_exists [OF exampleSecp_laws, of 1 3 constantHash "replicate 32 8" "replicate 32 6" exampleParams] length_constantHash
  by (auto simp: exampleParams_def)

lemma wf_exampleParams: "wf_InferenceBountyParams exampleParams"
  by (simp add: wf_InferenceBountyParams_def exampleParams_def exampleSecp_def SerializePubKey_def)

theorem claim_binds_request_witness:
  "\<exists>proof. ValidateInferenceBountyClaim exampleSecp constantHash proof exampleParams (replicate 32 6) = Inr () \<and>
     InferenceResultProof.BlockHash proof = replicate 32 6"
  using example_claim claim_binds_request [OF _ _ wf_exampleParams wf_exampleParams] by blast

text \<open>
  C35. Nothing binds the payees of a claim: when a spend within the window is accepted, it is because of one output, and every
  version 4 transaction that starts with that output is accepted too, whatever other outputs it has, whichever bounty with the
  same parameters it spends and whatever its witness.  The split between worker and coordinator is therefore not enforced, and
  whoever sees the proof can claim the bounty for themselves.
\<close>

theorem claim_redirectable:
  assumes "inferenceBountyWithinWindow confirmHeight spendHeight"
    and "CheckInferenceBountySpend S sha3sum tx params op confirmHeight spendHeight h refundSig = Inr ()"
  shows "\<exists>out\<in>set (TxOut tx). \<forall>tx' outs op' refundSig'.
    MsgTx.Version tx' = TxVersionInferenceProof \<and> TxOut tx' = out # outs \<longrightarrow>
      CheckInferenceBountySpend S sha3sum tx' params op' confirmHeight spendHeight h refundSig' = Inr ()"
proof -
  obtain claim where p: "ExtractInferenceResultProof tx = Inr claim" "ValidateInferenceBountyClaim S sha3sum claim params h = Inr ()"
    using assms(2) unfolding CheckInferenceBountySpend_claim [OF assms(1)] by blast
  then obtain out where out: "out \<in> set (TxOut tx)" "parseInferenceProofOpReturn (PkScript out) = Some claim"
    by (auto simp: ExtractInferenceResultProof_iff elim: firstSome_SomeE)
  show ?thesis
    using ExtractInferenceResultProof_head [OF _ _ out(2)] p(2) out(1) by (auto simp: CheckInferenceBountySpend_claim [OF assms(1)])
qed

lemma example_window: "inferenceBountyWithinWindow 100 105"
  by (subst withinWindow_iff) simp_all

theorem claim_redirectable_witness:
  "\<exists>out. CheckInferenceBountySpend exampleSecp constantHash \<lparr>MsgTx.Version = 4, TxIn = [], TxOut = [out, \<lparr>Value = 5000, PkScript = [0x51]\<rparr>], LockTime = 0\<rparr>
     exampleParams exampleOutPoint 100 105 (replicate 32 6) (replicate 64 0) = Inr ()"
proof -
  obtain claim where p: "wf_InferenceResultProof claim"
    "ValidateInferenceBountyClaim exampleSecp constantHash claim exampleParams (replicate 32 6) = Inr ()" using example_claim by blast
  let ?out = "\<lparr>Value = 0, PkScript = inferenceProofOpReturnPrefix @ InferenceResultProof_Serialise claim\<rparr>"
  let ?tx = "\<lparr>MsgTx.Version = 4, TxIn = [], TxOut = [?out], LockTime = 0\<rparr>"
  have "CheckInferenceBountySpend exampleSecp constantHash ?tx exampleParams exampleOutPoint 100 105 (replicate 32 6) (replicate 64 0) = Inr ()"
    unfolding CheckInferenceBountySpend_claim [OF example_window]
    using p by (auto simp: ExtractInferenceResultProof_iff proof_carrier.parse_build TxVersionInferenceProof_def)
  from claim_redirectable [OF example_window this] show ?thesis
    by (intro exI [of _ ?out]) (simp add: TxVersionInferenceProof_def)
qed


text \<open>
  C8. An issue is exactly what the authority signed: a transaction whose outputs are in the money range may create a positive
  amount only after the fork, only outside a coinbase, and only if it carries one payload, whose amount this is and at most the
  money range, signed by the authority of the network together with the first input of the transaction, and if at least this
  amount is paid to the destination the authority signed for, or to the taproot key of the authority when none is named.  Every
  other transaction creates nothing.
\<close>

theorem issue_authorised:
  assumes "saneOutputs tx"
  shows "CheckInferenceGoIssuance S sha3sum tx blockHeight params = Inr amount \<longleftrightarrow>
    (if MsgTx.Version tx \<noteq> TxVersionInferenceGo then amount = 0
     else 36438 \<le> blockHeight \<and> \<not> IsCoinBaseTx tx \<and>
       (\<exists>payload txIn txIns dest. CountInferenceGoPayloadOutputs tx = 1 \<and> ExtractInferenceGoPayload tx = Inr payload \<and>
          TxIn tx = txIn # txIns \<and> amount = uint (Amount payload) \<and> 0 < amount \<and> amount \<le> MaxGrain \<and>
          signedBy S (inferenceGoAuthority params) (GoSignature payload) (InferenceGoSigHash sha3sum payload (PreviousOutPoint txIn)) \<and>
          issueDestination S (inferenceGoAuthority params) payload = Inr dest \<and>
          amount \<le> sum_list (map outValue (filter (\<lambda>out. PkScript out = InferenceGoP2TRScript dest) (TxOut tx)))))"
  by (auto simp: CheckInferenceGoIssuance_def ValidateInferenceGoTx_iff [OF assms] inferenceGoForkActive_def inferenceGoForkHeight_def)

text \<open>A curve on which every key parses and every signature that starts with 32 zeros verifies, and an issue of 7 grains.\<close>

definition openSecp :: "unit Secp" where
  "openSecp = \<lparr>fieldPrime = 11, groupOrder = 7, parseCompressed = (\<lambda>_. Some ()), serializeCompressed = (\<lambda>_. replicate 33 2),
     isOnCurve = (\<lambda>_. True), scalarBaseMult = (\<lambda>_. ()), scalarMult = (\<lambda>_ _. ()), addPoints = (\<lambda>_ _. ()),
     isInfinity = (\<lambda>_. False), affineX = (\<lambda>_. 0), affineY = (\<lambda>_. 0)\<rparr>"

lemma le_int_replicate_zero: "le_int (replicate n 0) = 0"
  by (induction n) simp_all

lemma openSecp_signed: "length key = 32 \<Longrightarrow> length msg = 32 \<Longrightarrow> signedBy openSecp key (replicate 64 0) msg"
  by (simp add: signedBy_def openSecp_def ParsePubKey_def PubKeyBytesLen_def ParseSignature_def SignatureSize_def slice_def
      SchnorrSig_Verify_def schnorrVerify_def SerializePubKey_def scalarSize_def scalarSetBytes_def Let_def be_int_def le_int_replicate_zero)

definition examplePayload :: InferenceGoPayload where
  "examplePayload = \<lparr>Amount = 7, Destination = replicate 32 1, GoSignature = replicate 64 0\<rparr>"

definition exampleIssue :: MsgTx where
  "exampleIssue = \<lparr>MsgTx.Version = 5,
     TxIn = [\<lparr>PreviousOutPoint = exampleOutPoint, SignatureScript = [], Witness = [], Sequence = 0\<rparr>],
     TxOut = [\<lparr>Value = 0, PkScript = BuildInferenceGoOpReturn examplePayload\<rparr>,
              \<lparr>Value = 7, PkScript = InferenceGoP2TRScript (replicate 32 1)\<rparr>], LockTime = 0\<rparr>"

lemma exampleIssue_payload:
  "CountInferenceGoPayloadOutputs exampleIssue = 1" "ExtractInferenceGoPayload exampleIssue = Inr examplePayload"
proof -
  have "wf_InferenceGoPayload examplePayload" by (simp add: wf_InferenceGoPayload_def examplePayload_def)
  note parse = issue_carrier.parse_build [OF this]
  have none: "parseInferenceGoOpReturn (InferenceGoP2TRScript (replicate 32 1)) = None"
    by (simp add: parseInferenceGoOpReturn_def InferenceGoP2TRScript_def inferenceGoOpReturnPrefix_def)
  show "CountInferenceGoPayloadOutputs exampleIssue = 1" using parse none by (simp add: CountInferenceGoPayloadOutputs_def exampleIssue_def)
  show "ExtractInferenceGoPayload exampleIssue = Inr examplePayload"
    using parse by (simp add: ExtractInferenceGoPayload_iff exampleIssue_def TxVersionInferenceGo_def)
qed

lemma saneOutputs_exampleIssue: "saneOutputs exampleIssue"
  by (simp add: saneOutputs_def exampleIssue_def MaxGrain_def GrainPerMDL_def)

theorem issue_authorised_witness:
  "CheckInferenceGoIssuance openSecp constantHash exampleIssue 36438 MainNetParams = Inr 7 \<and>
   CheckInferenceGoIssuance openSecp constantHash exampleIssue 36437 MainNetParams \<noteq> Inr 7"
proof -
  have key: "length (inferenceGoAuthority MainNetParams) = 32"
    by (simp add: inferenceGoAuthority_def MainNetParams_def inferenceGoMainnetAuthority_def)
  have sig: "signedBy openSecp (inferenceGoAuthority MainNetParams) (GoSignature examplePayload)
      (InferenceGoSigHash constantHash examplePayload (PreviousOutPoint (hd (TxIn exampleIssue))))"
    using openSecp_signed [OF key] length_constantHash by (simp add: examplePayload_def InferenceGoSigHash_def)
  have dest: "issueDestination openSecp (inferenceGoAuthority MainNetParams) examplePayload = Inr (replicate 32 1)"
    by (simp add: issueDestination_def HasDestination_def examplePayload_def)
  have paid: "filter (\<lambda>out. PkScript out = InferenceGoP2TRScript (replicate 32 1)) (TxOut exampleIssue) =
      [\<lparr>Value = 7, PkScript = InferenceGoP2TRScript (replicate 32 1)\<rparr>]"
    by (simp add: exampleIssue_def InferenceGoP2TRScript_def BuildInferenceGoOpReturn_def inferenceGoOpReturnPrefix_def)
  have facts: "MsgTx.Version exampleIssue = TxVersionInferenceGo" "\<not> IsCoinBaseTx exampleIssue" "uint (Amount examplePayload) = 7"
    "\<exists>txIns. TxIn exampleIssue = hd (TxIn exampleIssue) # txIns" "(7 :: int) \<le> MaxGrain"
    by (simp_all add: exampleIssue_def TxVersionInferenceGo_def IsCoinBaseTx_def examplePayload_def exampleOutPoint_def
        MaxGrain_def GrainPerMDL_def)
  show ?thesis unfolding issue_authorised [OF saneOutputs_exampleIssue]
    using facts exampleIssue_payload sig dest paid by auto
qed

text \<open>
  An authorisation can be used once: the message of an issue determines the amount, the destination and the first input of
  the transaction, unless the two preimages collide under SHA3-256; and as a spent output cannot be spent again, no second
  transaction with that first input can follow.
\<close>

theorem issue_message_binds:
  assumes "InferenceGoSigHash sha3sum p op = InferenceGoSigHash sha3sum q op'"
    and "wf_InferenceGoPayload p" "wf_InferenceGoPayload q" "wf_hash (Hash op)" "wf_hash (Hash op')"
  shows "Amount p = Amount q \<and> Destination p = Destination q \<and> op = op' \<or>
    (let x = inferenceGoSigHashTag @ SignedBytes p @ Hash op @ PutUint32 (Index op);
         y = inferenceGoSigHashTag @ SignedBytes q @ Hash op' @ PutUint32 (Index op')
     in x \<noteq> y \<and> sha3sum x = sha3sum y)"
  using assms issueMessage_inj [of p q op op'] unfolding InferenceGoSigHash_def wf_InferenceGoPayload_def Let_def by blast

theorem issue_message_binds_witness:
  "InferenceGoSigHash id \<lparr>Amount = 7, Destination = replicate 32 1, GoSignature = replicate 64 0\<rparr> exampleOutPoint \<noteq>
   InferenceGoSigHash id \<lparr>Amount = 7, Destination = replicate 32 1, GoSignature = replicate 64 0\<rparr> (exampleOutPoint\<lparr>Index := 6\<rparr>)"
proof -
  let ?p = "\<lparr>Amount = 7, Destination = replicate 32 1, GoSignature = replicate 64 0\<rparr>"
  have "wf_InferenceGoPayload ?p" "wf_hash (Hash exampleOutPoint)" "wf_hash (Hash (exampleOutPoint\<lparr>Index := 6\<rparr>))"
    "exampleOutPoint \<noteq> exampleOutPoint\<lparr>Index := 6\<rparr>"
    by (simp_all add: wf_InferenceGoPayload_def exampleOutPoint_def)
  then show ?thesis using issue_message_binds [of id ?p exampleOutPoint ?p "exampleOutPoint\<lparr>Index := 6\<rparr>"] by (auto simp: Let_def)
qed


end
