(* ===== verification/Tx_Rules.thy ===== *)
theory Tx_Rules
  imports Inference_Rules
begin

text \<open>
  The rules a single transaction has to obey, from \<^verbatim>\<open>node/blockchain/validate.go\<close> and \<^verbatim>\<open>node/blockchain/chain.go\<close>: the
  block subsidy, the context-free checks, the checks on the inputs and the value they bring in, the height in the coinbase
  and the relative lock times.
\<close>

section \<open>The subsidy\<close>

definition totalSupply :: int where "totalSupply = 21000000 * GrainPerMDL"
definition defaultEmissionConstant :: int where "defaultEmissionConstant = 650226"
definition inferenceBlocks :: int where "inferenceBlocks = 240"
definition inferenceRewardGrains :: int where "inferenceRewardGrains = 2500 * GrainPerMDL"
definition inferencePhase2Offset :: int where "inferencePhase2Offset = 18884"

text \<open>A target time of less than a second makes the division panic.\<close>

definition CalcBlockSubsidy :: "int \<Rightarrow> Params option \<Rightarrow> (chainError, int) result" where
  "CalcBlockSubsidy blockHeight chainParams =
     (if blockHeight = 0 then Inr 0
      else if blockHeight \<le> inferenceBlocks then Inr inferenceRewardGrains
      else bindE
        (case chainParams of
           Some params \<Rightarrow>
             if TargetTimePerBlock params > 0
             then let targetTimePerBlockSeconds = go_div (TargetTimePerBlock params) Second in
                  if targetTimePerBlockSeconds = 0 then Inl GoPanic
                  else Inr (go_div (4 * 365 * 24 * 60 * 60) targetTimePerBlockSeconds)
             else Inr defaultEmissionConstant
         | None \<Rightarrow> Inr defaultEmissionConstant)
        (\<lambda>emissionConstant.
           let h = blockHeight + inferencePhase2Offset;
               numerator = totalSupply * emissionConstant;
               denominator = (h + emissionConstant) * (h - 1 + emissionConstant)
           in Inr (int64 (numerator div denominator))))"

section \<open>Context-free checks\<close>

definition MinCoinbaseScriptLen :: nat where "MinCoinbaseScriptLen = 2"
definition MaxCoinbaseScriptLen :: nat where "MaxCoinbaseScriptLen = 100"

text \<open>One step of the loop over the outputs: the script type, the range of the value, and the running total.\<close>

definition checkOutput :: "bool \<Rightarrow> int \<Rightarrow> TxOut \<Rightarrow> (chainError, int) result" where
  "checkOutput allowInferenceTx totalGrain txOut =
     (let scriptClass = GetScriptClass (PkScript txOut) in
      if scriptClass \<noteq> WitnessV1TaprootTy \<and> scriptClass \<noteq> WitnessV2MerkleRootTy \<and> scriptClass \<noteq> NullDataTy \<and>
         \<not> (allowInferenceTx \<and> IsInferenceBountyScript (PkScript txOut))
      then Inl (RuleError ErrScriptMalformed)
      else let grain = outValue txOut in
        if grain < 0 then Inl (RuleError ErrBadTxOutValue)
        else if grain > MaxGrain then Inl (RuleError ErrBadTxOutValue)
        else let totalGrain = int64 (totalGrain + grain) in
          if totalGrain < 0 then Inl (RuleError ErrBadTxOutValue)
          else if totalGrain > MaxGrain then Inl (RuleError ErrBadTxOutValue)
          else Inr totalGrain)"

definition checkInferenceShape :: "'p Secp \<Rightarrow> MsgTx \<Rightarrow> (chainError, unit) result" where
  "checkInferenceShape S msgTx =
     bindE (if MsgTx.Version msgTx = TxVersionInferenceGo
            then bindE (guardE (CountInferenceGoPayloadOutputs msgTx \<noteq> 1) (RuleError ErrBadTxOutValue)) (\<lambda>_.
                   guardE (length (TxIn msgTx) = 0) (RuleError ErrNoTxInputs))
            else Inr ()) (\<lambda>_.
     bindE (if MsgTx.Version msgTx = TxVersionInference
            then bindE (guardE (length (TxOut msgTx) < 1) (RuleError ErrNoTxOutputs)) (\<lambda>_.
                 bindE (guardE (outValue (TxOut msgTx ! 0) < MinInferenceFeeGrains) (RuleError ErrBadTxOutValue)) (\<lambda>_.
                   case ExtractInferencePayload msgTx of
                     Inr payload \<Rightarrow> guardE (MaxTokens payload > MaxInferenceTokens) (RuleError ErrBadTxOutValue)
                   | Inl _ \<Rightarrow> Inr ()))
            else Inr ()) (\<lambda>_.
     if MsgTx.Version msgTx = TxVersionInferenceProof
     then bindE (guardE (\<not> IsInferenceProofTx msgTx) (RuleError ErrBadTxOutValue)) (\<lambda>_.
          case ExtractInferenceResultProof msgTx of
            Inl _ \<Rightarrow> Inl (RuleError ErrBadTxOutValue)
          | Inr proof \<Rightarrow>
              bindE (guardE (length (WorkerAddress proof) \<noteq> 34 \<or> WorkerAddress proof ! 0 \<noteq> 0x51 \<or> WorkerAddress proof ! 1 \<noteq> 0x20)
                       (RuleError ErrBadTxOutValue)) (\<lambda>_.
              bindE (requireSignature S (slice 2 34 (WorkerAddress proof)) (Signature proof) (CommitmentHash proof)) (\<lambda>_.
                case ParseSignature S (CoordinatorSignature proof) of
                  Inl _ \<Rightarrow> Inl (RuleError ErrBadTxOutValue) | Inr _ \<Rightarrow> Inr ())))
     else Inr ()))"

text \<open>The loop that looks each input up in the set of those seen so far.\<close>

fun seenBefore :: "'a list \<Rightarrow> 'a list \<Rightarrow> bool" where
  "seenBefore existing [] = False"
| "seenBefore existing (x # xs) = (if x \<in> set existing then True else seenBefore (x # existing) xs)"

definition CheckTransactionSanity :: "'p Secp \<Rightarrow> MsgTx \<Rightarrow> bool \<Rightarrow> (chainError, unit) result" where
  "CheckTransactionSanity S msgTx allowInferenceTx =
     bindE (guardE (length (TxIn msgTx) = 0) (RuleError ErrNoTxInputs)) (\<lambda>_.
     bindE (guardE (length (TxOut msgTx) = 0) (RuleError ErrNoTxOutputs)) (\<lambda>_.
     bindE (guardE (GetTransactionVsize msgTx > MaxBlockVsize) (RuleError ErrTxTooBig)) (\<lambda>_.
     bindE (foldE (checkOutput allowInferenceTx) 0 (TxOut msgTx)) (\<lambda>_.
     bindE (guardE ((MsgTx.Version msgTx = TxVersionInference \<or> MsgTx.Version msgTx = TxVersionInferenceProof \<or>
                     MsgTx.Version msgTx = TxVersionInferenceGo) \<and> \<not> allowInferenceTx) (RuleError ErrBadTxOutValue)) (\<lambda>_.
     bindE (if allowInferenceTx then checkInferenceShape S msgTx else Inr ()) (\<lambda>_.
     bindE (guardE (seenBefore [] (spentOutPoints msgTx)) (RuleError ErrDuplicateTxInputs)) (\<lambda>_.
       if IsCoinBaseTx msgTx
       then let slen = length (SignatureScript (TxIn msgTx ! 0)) in
            guardE (slen < MinCoinbaseScriptLen \<or> slen > MaxCoinbaseScriptLen) (RuleError ErrBadCoinbaseScriptLen)
       else forE (\<lambda>txIn. guardE (isNullOutpoint (PreviousOutPoint txIn)) (RuleError ErrBadTxInput)) (TxIn msgTx))))))))"

section \<open>Inputs\<close>

text \<open>One step of the loop over the inputs, with the running total.\<close>

definition checkInput :: "int \<Rightarrow> UtxoViewpoint \<Rightarrow> Params \<Rightarrow> int \<Rightarrow> TxIn \<Rightarrow> (chainError, int) result" where
  "checkInput txHeight utxoView chainParams totalGrainIn txIn =
     (case LookupEntry utxoView (PreviousOutPoint txIn) of
        None \<Rightarrow> Inl (RuleError ErrMissingTxOut)
      | Some utxo \<Rightarrow>
          if IsSpent utxo then Inl (RuleError ErrMissingTxOut)
          else if entryIsCoinBase utxo \<and> int32 (txHeight - entryHeight utxo) < uint (CoinbaseMaturity chainParams)
          then Inl (RuleError ErrImmatureSpend)
          else let originTxGrain = entryAmount utxo in
            if originTxGrain < 0 then Inl (RuleError ErrBadTxOutValue)
            else if originTxGrain > MaxGrain then Inl (RuleError ErrBadTxOutValue)
            else let lastGrainIn = totalGrainIn; totalGrainIn = int64 (totalGrainIn + originTxGrain) in
              if totalGrainIn < lastGrainIn \<or> totalGrainIn > MaxGrain then Inl (RuleError ErrBadTxOutValue)
              else Inr totalGrainIn)"

definition sumOutputs :: "MsgTx \<Rightarrow> int" where
  "sumOutputs tx = foldl (\<lambda>totalGrainOut txOut. int64 (totalGrainOut + outValue txOut)) 0 (TxOut tx)"

definition CheckTransactionInputsWithIssuance ::
  "MsgTx \<Rightarrow> int \<Rightarrow> UtxoViewpoint \<Rightarrow> Params \<Rightarrow> int \<Rightarrow> (chainError, int) result" where
  "CheckTransactionInputsWithIssuance tx txHeight utxoView chainParams issued =
     (if IsCoinBaseTx tx then Inr 0
      else bindE (foldE (checkInput txHeight utxoView chainParams) 0 (TxIn tx)) (\<lambda>totalGrainIn.
        let totalGrainOut = sumOutputs tx in
        if issued < 0 then Inl (RuleError ErrBadTxOutValue)
        else bindE (if issued > 0
                    then let lastIn = totalGrainIn; totalGrainIn = int64 (totalGrainIn + issued) in
                         if totalGrainIn < lastIn \<or> totalGrainIn > MaxGrain then Inl (RuleError ErrBadTxOutValue)
                         else Inr totalGrainIn
                    else Inr totalGrainIn) (\<lambda>totalGrainIn.
          if totalGrainIn < totalGrainOut then Inl (RuleError ErrSpendTooHigh)
          else Inr (int64 (totalGrainIn - totalGrainOut)))))"

definition CheckTransactionInputs :: "MsgTx \<Rightarrow> int \<Rightarrow> UtxoViewpoint \<Rightarrow> Params \<Rightarrow> (chainError, int) result" where
  "CheckTransactionInputs tx txHeight utxoView chainParams =
     CheckTransactionInputsWithIssuance tx txHeight utxoView chainParams 0"

section \<open>The height in the coinbase\<close>

text \<open>The builder fails on the least 64-bit number only; an error it reports is not a rule violation.\<close>

definition compareScript :: "int \<Rightarrow> bytes \<Rightarrow> (chainError, unit) result" where
  "compareScript blockHeight script =
     (case AddInt64 NewScriptBuilder blockHeight of
        None \<Rightarrow> Inl GoPanic
      | Some scriptBuilder \<Rightarrow> (case ScriptBuilder_Script scriptBuilder of
          Inl _ \<Rightarrow> Inl AssertError
        | Inr scriptHeight \<Rightarrow>
            guardE (take (length scriptHeight) script \<noteq> scriptHeight) (RuleError ErrBadCoinbaseHeight)))"

definition ExtractCoinbaseHeight :: "MsgTx \<Rightarrow> (chainError, int) result" where
  "ExtractCoinbaseHeight coinbaseTx =
     (case TxIn coinbaseTx of
        [] \<Rightarrow> Inl GoPanic
      | txIn # _ \<Rightarrow>
          let sigScript = SignatureScript txIn in
          if length sigScript < 1 then Inl (RuleError ErrMissingCoinbaseHeight)
          else let opcode = sigScript ! 0 in
            if opcode = OP_0 then Inr 0
            else if opcode \<ge> OP_1 \<and> opcode \<le> OP_16 then Inr (uint opcode - 80)
            else let serializedLen = unat opcode in
              if length (drop 1 sigScript) < serializedLen then Inl (RuleError ErrMissingCoinbaseHeight)
              else let bs = take 4 (slice 1 (serializedLen + 1) sigScript);
                       serializedHeightBytes = bs @ replicate (4 - length bs) 0;
                       serializedHeight = sint (Uint32 serializedHeightBytes)
                   in bindE (compareScript serializedHeight sigScript) (\<lambda>_. Inr serializedHeight))"

definition CheckSerializedHeight :: "MsgTx \<Rightarrow> int \<Rightarrow> (chainError, unit) result" where
  "CheckSerializedHeight coinbaseTx wantHeight =
     bindE (ExtractCoinbaseHeight coinbaseTx) (\<lambda>serializedHeight.
       guardE (serializedHeight \<noteq> wantHeight) (RuleError ErrBadCoinbaseHeight))"

section \<open>Relative lock times\<close>

record SequenceLock =
  Seconds :: int
  BlockHeight :: int

definition SequenceLockTimeDisabled :: "32 word" where "SequenceLockTimeDisabled = 0x80000000"
definition SequenceLockTimeIsSeconds :: "32 word" where "SequenceLockTimeIsSeconds = 0x00400000"
definition SequenceLockTimeMask :: "32 word" where "SequenceLockTimeMask = 0x0000ffff"
definition SequenceLockTimeGranularity :: nat where "SequenceLockTimeGranularity = 9"

definition SequenceLockActive :: "SequenceLock \<Rightarrow> int \<Rightarrow> int \<Rightarrow> bool" where
  "SequenceLockActive sequenceLock blockHeight medianTimePast =
     (if Seconds sequenceLock \<ge> Unix medianTimePast \<or> BlockHeight sequenceLock \<ge> blockHeight then False else True)"

text \<open>The median time of a missing ancestor panics.\<close>

definition lockInput :: "blockNode \<Rightarrow> UtxoViewpoint \<Rightarrow> SequenceLock \<Rightarrow> TxIn \<Rightarrow> (chainError, SequenceLock) result" where
  "lockInput node utxoView sequenceLock txIn =
     (case LookupEntry utxoView (PreviousOutPoint txIn) of
        None \<Rightarrow> Inl (RuleError ErrMissingTxOut)
      | Some utxo \<Rightarrow>
          let nextHeight = int32 (node_height node + 1);
              inputHeight = (if entryHeight utxo = 0x7fffffff then nextHeight else entryHeight utxo);
              sequenceNum = Sequence txIn;
              relativeLock = uint (sequenceNum AND SequenceLockTimeMask) in
          if sequenceNum AND SequenceLockTimeDisabled = SequenceLockTimeDisabled then Inr sequenceLock
          else if sequenceNum AND SequenceLockTimeIsSeconds = SequenceLockTimeIsSeconds
          then let prevInputHeight = int32 (inputHeight - 1);
                   prevInputHeight = (if prevInputHeight < 0 then 0 else prevInputHeight) in
               (case Ancestor node prevInputHeight of
                  None \<Rightarrow> Inl GoPanic
                | Some blockNode \<Rightarrow>
                    let medianTime = CalcPastMedianTime blockNode;
                        timeLockSeconds = push_bit SequenceLockTimeGranularity relativeLock - 1;
                        timeLock = Unix medianTime + timeLockSeconds in
                    Inr (if timeLock > Seconds sequenceLock then sequenceLock\<lparr>Seconds := timeLock\<rparr> else sequenceLock))
          else let blockHeight = int32 (inputHeight + (relativeLock - 1)) in
               Inr (if blockHeight > BlockHeight sequenceLock then sequenceLock\<lparr>BlockHeight := blockHeight\<rparr> else sequenceLock))"

definition calcSequenceLock :: "blockNode \<Rightarrow> MsgTx \<Rightarrow> UtxoViewpoint \<Rightarrow> (chainError, SequenceLock) result" where
  "calcSequenceLock node mTx utxoView =
     (let sequenceLock = \<lparr>Seconds = -1, BlockHeight = -1\<rparr> in
      if MsgTx.Version mTx < 2 \<or> IsCoinBaseTx mTx then Inr sequenceLock
      else foldE (lockInput node utxoView) sequenceLock (TxIn mTx))"

definition LockTimeToSequence :: "bool \<Rightarrow> 32 word \<Rightarrow> 32 word" where
  "LockTimeToSequence isSeconds locktime =
     (if \<not> isSeconds then locktime else SequenceLockTimeIsSeconds OR drop_bit SequenceLockTimeGranularity locktime)"

section \<open>The supply\<close>

definition emissionConstant :: int where "emissionConstant = 650226"

definition standardTime :: "Params \<Rightarrow> bool" where
  "standardTime params \<longleftrightarrow> TargetTimePerBlock params = Minute * 3 + Second * 14"

lemma standardTime_networks:
  "standardTime MainNetParams" "standardTime TestNetParams" "standardTime TestNet2Params"
  "standardTime RegressionNetParams" "standardTime SimNetParams"
  by (simp_all add: standardTime_def MainNetParams_def TestNetParams_def TestNet2Params_def RegressionNetParams_def SimNetParams_def)

definition curveSubsidy :: "int \<Rightarrow> int" where
  "curveSubsidy a = totalSupply * emissionConstant div (a * (a - 1))"

lemma curveSubsidy_bounds:
  assumes "1 < a"
  shows "0 \<le> curveSubsidy a" "curveSubsidy a * (a * (a - 1)) \<le> totalSupply * emissionConstant"
proof -
  have pos: "0 < a * (a - 1)" using assms by simp
  then show "0 \<le> curveSubsidy a"
    by (simp add: curveSubsidy_def pos_imp_zdiv_nonneg_iff totalSupply_def GrainPerMDL_def emissionConstant_def)
  show "curveSubsidy a * (a * (a - 1)) \<le> totalSupply * emissionConstant"
    unfolding curveSubsidy_def using pos by (metis div_mult_mod_eq le_add_same_cancel1 pos_mod_sign)
qed

lemma curveSubsidy_le:
  assumes "669110 \<le> a"
  shows "curveSubsidy a \<le> 2500 * GrainPerMDL"
proof -
  have "curveSubsidy a \<le> totalSupply * emissionConstant div (669110 * 669109)"
    unfolding curveSubsidy_def using assms
    by (intro zdiv_mono2 mult_mono) (simp_all add: totalSupply_def GrainPerMDL_def emissionConstant_def)
  then show ?thesis by (simp add: totalSupply_def GrainPerMDL_def emissionConstant_def)
qed

lemma CalcBlockSubsidy_eq:
  assumes "standardTime params" "0 \<le> h" "h < 2 ^ 31"
  shows "CalcBlockSubsidy h (Some params) =
    Inr (if h = 0 then 0 else if h \<le> 240 then 2500 * GrainPerMDL else curveSubsidy (h + 669110))"
proof -
  have e: "go_div (4 * 365 * 24 * 60 * 60) (go_div (TargetTimePerBlock params) Second) = emissionConstant"
    "go_div (TargetTimePerBlock params) Second \<noteq> 0" "0 < TargetTimePerBlock params"
    using assms(1) by (simp_all add: standardTime_def Minute_def Second_def go_div_nonneg emissionConstant_def)
  have "int64 (curveSubsidy (h + 669110)) = curveSubsidy (h + 669110)"
    using curveSubsidy_bounds(1) [of "h + 669110"] curveSubsidy_le [of "h + 669110"] assms(2)
    by (intro int64_id) (simp_all add: GrainPerMDL_def)
  then show ?thesis using e assms(2)
    by (simp add: CalcBlockSubsidy_def inferenceBlocks_def inferenceRewardGrains_def inferencePhase2Offset_def Let_def
        curveSubsidy_def emissionConstant_def algebra_simps)
qed

text \<open>The rewards of the curve telescope: \<open>T\<close> of them above \<open>A\<close> add up to at most the difference of two reciprocals.\<close>

lemma curve_telescopes:
  assumes "1 \<le> A"
  shows "(\<Sum>i<n. curveSubsidy (A + 1 + int i)) * (A * (A + int n)) \<le> totalSupply * emissionConstant * int n"
proof (induction n)
  case (Suc n)
  define N where "N = A + int n"
  define T where "T = (\<Sum>i<n. curveSubsidy (A + 1 + int i))"
  define t where "t = curveSubsidy (N + 1)"
  define SE where "SE = totalSupply * emissionConstant"
  have N: "1 \<le> N" "A \<le> N" using assms by (simp_all add: N_def)
  have t: "t * ((N + 1) * N) \<le> SE" using curveSubsidy_bounds(2) [of "N + 1"] N by (simp add: t_def SE_def)
  have IH: "T * (A * N) \<le> SE * (N - A)" using Suc.IH by (simp add: T_def N_def SE_def)
  have "(T + t) * (A * (N + 1)) * N = T * (A * N) * (N + 1) + t * ((N + 1) * N) * A" by (simp add: algebra_simps)
  also have "\<dots> \<le> SE * (N - A) * (N + 1) + SE * A"
    using mult_right_mono [OF IH, of "N + 1"] mult_right_mono [OF t, of A] N assms by (intro add_mono) simp_all
  also have "\<dots> = SE * (N + 1 - A) * N" by (simp add: algebra_simps)
  finally have "(T + t) * (A * (N + 1)) \<le> SE * (N + 1 - A)" using N by simp
  then show ?case by (simp add: T_def t_def N_def SE_def algebra_simps)
qed simp

definition supplyAt :: "Params \<Rightarrow> nat \<Rightarrow> int" where
  "supplyAt params n = (\<Sum>h\<le>n. case CalcBlockSubsidy (int h) (Some params) of Inr subsidy \<Rightarrow> subsidy | Inl _ \<Rightarrow> 0)"

lemma supplyAt_split:
  assumes "standardTime params" "240 + int n < 2 ^ 31"
  shows "supplyAt params (240 + n) = 240 * (2500 * GrainPerMDL) + (\<Sum>i<n. curveSubsidy (669350 + 1 + int i))"
  using assms(2)
proof (induction n)
  case 0
  have "supplyAt params 240 = (\<Sum>h\<le>(240 :: nat). if h = 0 then 0 else 2500 * GrainPerMDL)"
    unfolding supplyAt_def using assms(1) by (intro sum.cong) (simp_all add: CalcBlockSubsidy_eq)
  also have "(\<Sum>h\<le>m. if h = 0 then 0 else c) = int m * c" for m :: nat and c
    by (induction m) (simp_all add: algebra_simps)
  finally show ?case by simp
next
  case (Suc n)
  have "supplyAt params (Suc (240 + n)) = supplyAt params (240 + n) + curveSubsidy (669350 + 1 + int n)"
    using CalcBlockSubsidy_eq [OF assms(1), of "1 + (240 + int n)"] Suc.prems
    unfolding supplyAt_def sum.atMost_Suc by (simp add: algebra_simps)
  then show ?case using Suc by (simp add: algebra_simps)
qed

section \<open>Properties of the subsidy\<close>

text \<open>
  C10. The subsidies never create more than the announced supply: on every network, the subsidies of the blocks up to any
  height a block can have add up to at most 21,000,000 coins, and each of them is at least zero and at most 2,500 coins.  The
  offset of the curve after the flat rewards leaves an excess of about nine coins over the announced supply, which the
  decaying curve would reach only far beyond the last height.
\<close>

theorem subsidy_bounded:
  assumes "standardTime params" "n < 2 ^ 31"
  shows "supplyAt params n \<le> 21000000 * GrainPerMDL \<and>
    (\<exists>subsidy. CalcBlockSubsidy (int n) (Some params) = Inr subsidy \<and> 0 \<le> subsidy \<and> subsidy \<le> 2500 * GrainPerMDL)"
proof
  have nonneg: "0 \<le> (case CalcBlockSubsidy (int h) (Some params) of Inr subsidy \<Rightarrow> subsidy | Inl _ \<Rightarrow> 0)" if "h \<le> n" for h
    using that assms curveSubsidy_bounds(1) [of "int h + 669110"] by (simp add: CalcBlockSubsidy_eq GrainPerMDL_def)
  show "supplyAt params n \<le> 21000000 * GrainPerMDL"
  proof (cases "240 \<le> n")
    case True
    then obtain k where k: "n = 240 + k" using le_Suc_ex by blast
    define T where "T = (\<Sum>i<k. curveSubsidy (669350 + 1 + int i))"
    have "T * (669350 * (669350 + int k)) \<le> totalSupply * emissionConstant * int k" unfolding T_def by (rule curve_telescopes) simp
    moreover have "totalSupply * emissionConstant * int k < (2040000000000000 + 1) * (669350 * (669350 + int k))"
      using assms(2) k by (simp add: totalSupply_def emissionConstant_def GrainPerMDL_def)
    ultimately have "T * (669350 * (669350 + int k)) < (2040000000000000 + 1) * (669350 * (669350 + int k))" by linarith
    then have "T < 2040000000000000 + 1" by (rule mult_right_less_imp_less) simp
    then show ?thesis using supplyAt_split [OF assms(1), of k] assms(2) by (simp add: k T_def GrainPerMDL_def)
  next
    case False
    then have "supplyAt params n \<le> (\<Sum>h\<le>n. 2500 * GrainPerMDL)" unfolding supplyAt_def using assms
      by (intro sum_mono) (simp add: CalcBlockSubsidy_eq GrainPerMDL_def)
    also have "\<dots> \<le> 21000000 * GrainPerMDL" using False by (simp add: GrainPerMDL_def)
    finally show ?thesis .
  qed
  show "\<exists>subsidy. CalcBlockSubsidy (int n) (Some params) = Inr subsidy \<and> 0 \<le> subsidy \<and> subsidy \<le> 2500 * GrainPerMDL"
    using assms nonneg [of n] curveSubsidy_le [of "int n + 669110"] by (simp add: CalcBlockSubsidy_eq GrainPerMDL_def)
qed

theorem subsidy_bounded_witness:
  "supplyAt MainNetParams 1000000 \<le> 21000000 * GrainPerMDL"
  using subsidy_bounded [OF standardTime_networks(1), of 1000000] by simp


section \<open>What the checks establish\<close>

lemma seenBefore_iff: "seenBefore existing xs \<longleftrightarrow> \<not> distinct xs \<or> set xs \<inter> set existing \<noteq> {}"
  by (induction existing xs rule: seenBefore.induct) auto

lemma checkOutput_Inr:
  assumes "checkOutput a t out = Inr t'" "0 \<le> t" "t \<le> MaxGrain"
  shows "0 \<le> outValue out" "outValue out \<le> MaxGrain" "t' = t + outValue out" "t' \<le> MaxGrain"
proof -
  have r: "0 \<le> outValue out" "outValue out \<le> MaxGrain"
    using assms(1) by (simp_all add: checkOutput_def Let_def not_less split: if_splits)
  moreover have "int64 (t + outValue out) = t + outValue out" using r assms MaxGrain_small by (intro int64_id) auto
  ultimately show "0 \<le> outValue out" "outValue out \<le> MaxGrain" "t' = t + outValue out" "t' \<le> MaxGrain"
    using assms(1) by (simp_all add: checkOutput_def Let_def split: if_splits)
qed

lemma checkOutputs_Inr:
  assumes "foldE (checkOutput a) t outs = Inr t'" "0 \<le> t" "t \<le> MaxGrain"
  shows "list_all (\<lambda>out. 0 \<le> outValue out \<and> outValue out \<le> MaxGrain) outs \<and>
    t' = t + sum_list (map outValue outs) \<and> t' \<le> MaxGrain"
  using assms
proof (induction outs arbitrary: t)
  case (Cons out outs)
  then obtain s where s: "checkOutput a t out = Inr s" "foldE (checkOutput a) s outs = Inr t'" by auto
  note f = checkOutput_Inr [OF s(1) Cons.prems(2,3)]
  show ?case using Cons.IH [OF s(2)] f Cons.prems(2) by auto
qed simp

lemma CheckTransactionSanity_facts:
  assumes "CheckTransactionSanity S tx allow = Inr u"
  shows "TxIn tx \<noteq> []" "TxOut tx \<noteq> []" "saneOutputs tx" "distinct (spentOutPoints tx)"
    "\<not> IsCoinBaseTx tx \<Longrightarrow> txIn \<in> set (TxIn tx) \<Longrightarrow> \<not> isNullOutpoint (PreviousOutPoint txIn)"
proof -
  show "TxIn tx \<noteq> []" "TxOut tx \<noteq> []" using assms by (auto simp: CheckTransactionSanity_def)
  show "distinct (spentOutPoints tx)" using assms by (simp add: CheckTransactionSanity_def seenBefore_iff)
  obtain t where "foldE (checkOutput allow) 0 (TxOut tx) = Inr t" using assms by (auto simp: CheckTransactionSanity_def)
  from checkOutputs_Inr [OF this] show "saneOutputs tx" using MaxGrain_small by (simp add: saneOutputs_def)
  show "\<not> isNullOutpoint (PreviousOutPoint txIn)" if "\<not> IsCoinBaseTx tx" "txIn \<in> set (TxIn tx)"
    using assms that by (simp add: CheckTransactionSanity_def)
qed

lemma sumOutputs_exact:
  assumes "saneOutputs tx"
  shows "sumOutputs tx = sum_list (map outValue (TxOut tx))"
proof -
  have "foldl (\<lambda>s txOut. int64 (s + outValue txOut)) t outs = t + sum_list (map outValue outs)"
    if "list_all (\<lambda>out. 0 \<le> outValue out \<and> outValue out \<le> MaxGrain) outs" "0 \<le> t" "t + sum_list (map outValue outs) \<le> MaxGrain"
    for t and outs :: "TxOut list"
    using that
  proof (induction outs arbitrary: t)
    case (Cons out outs)
    have "0 \<le> sum_list (map outValue outs)" using Cons.prems(1) by (intro sum_list_nonneg) (auto simp: list_all_iff)
    moreover from this have "int64 (t + outValue out) = t + outValue out"
      using Cons.prems MaxGrain_small by (intro int64_id) auto
    ultimately show ?case using Cons.prems by (simp add: Cons.IH algebra_simps)
  qed simp
  then show ?thesis using assms by (simp add: sumOutputs_def saneOutputs_def)
qed

text \<open>A coin that may be spent at a height, and the value of a list of coins.\<close>

definition spendable :: "int \<Rightarrow> Params \<Rightarrow> SpentTxOut \<Rightarrow> bool" where
  "spendable h params c \<longleftrightarrow> 0 \<le> stxoAmount c \<and> stxoAmount c \<le> MaxGrain \<and>
     (stxoIsCoinBase c \<longrightarrow> uint (CoinbaseMaturity params) \<le> int32 (h - stxoHeight c))"

abbreviation coinsValue :: "SpentTxOut list \<Rightarrow> int" where
  "coinsValue cs \<equiv> sum_list (map stxoAmount cs)"

lemma checkInput_iff:
  assumes "0 \<le> t" "t \<le> MaxGrain"
  shows "checkInput h view params t txIn = Inr t' \<longleftrightarrow>
    (\<exists>c. viewCoins view (PreviousOutPoint txIn) = Some c \<and> spendable h params c \<and> t' = t + stxoAmount c \<and> t' \<le> MaxGrain)"
proof (cases "LookupEntry view (PreviousOutPoint txIn)")
  case (Some e)
  show ?thesis
  proof (cases "0 \<le> entryAmount e \<and> entryAmount e \<le> MaxGrain")
    case True
    then have "int64 (t + entryAmount e) = t + entryAmount e" using assms MaxGrain_small by (intro int64_id) auto
    with True Some show ?thesis
      by (auto simp: checkInput_def viewCoins_def coinOf_def spendable_def Let_def not_less split: if_splits)
  next
    case False
    with Some show ?thesis by (auto simp: checkInput_def viewCoins_def coinOf_def spendable_def Let_def split: if_splits)
  qed
qed (simp add: checkInput_def viewCoins_def)

lemma ex_map_Some_Cons:
  "(\<exists>cs. map f (x # xs) = map Some cs \<and> Q cs) \<longleftrightarrow> (\<exists>c cs. f x = Some c \<and> map f xs = map Some cs \<and> Q (c # cs))"
  by (auto simp: Cons_eq_map_conv)

lemma checkInputs_iff:
  assumes "0 \<le> t" "t \<le> MaxGrain"
  shows "foldE (checkInput h view params) t ins = Inr t' \<longleftrightarrow>
    (\<exists>cs. map (\<lambda>txIn. viewCoins view (PreviousOutPoint txIn)) ins = map Some cs \<and> list_all (spendable h params) cs \<and>
       t' = t + coinsValue cs \<and> t' \<le> MaxGrain)"
  using assms
proof (induction ins arbitrary: t)
  case (Cons txIn ins)
  have room: "0 \<le> t + stxoAmount c \<and> t + stxoAmount c \<le> MaxGrain"
    if "list_all (spendable h params) (c # cs)" "t + coinsValue (c # cs) \<le> MaxGrain" for c cs
  proof -
    have "0 \<le> coinsValue cs" using that(1) by (intro sum_list_nonneg) (auto simp: list_all_iff spendable_def)
    then show ?thesis using that Cons.prems by (simp add: spendable_def)
  qed
  show ?case unfolding ex_map_Some_Cons
  proof
    assume "foldE (checkInput h view params) t (txIn # ins) = Inr t'"
    then obtain c where c: "viewCoins view (PreviousOutPoint txIn) = Some c" "spendable h params c" "t + stxoAmount c \<le> MaxGrain"
      "foldE (checkInput h view params) (t + stxoAmount c) ins = Inr t'"
      using checkInput_iff [OF Cons.prems] by auto
    moreover have "0 \<le> t + stxoAmount c" using c(2) Cons.prems by (simp add: spendable_def)
    ultimately obtain cs where "map (\<lambda>txIn. viewCoins view (PreviousOutPoint txIn)) ins = map Some cs"
      "list_all (spendable h params) cs" "t' = t + stxoAmount c + coinsValue cs" "t' \<le> MaxGrain"
      using Cons.IH [of "t + stxoAmount c"] by blast
    with c show "\<exists>c cs. viewCoins view (PreviousOutPoint txIn) = Some c \<and>
        map (\<lambda>txIn. viewCoins view (PreviousOutPoint txIn)) ins = map Some cs \<and>
        list_all (spendable h params) (c # cs) \<and> t' = t + coinsValue (c # cs) \<and> t' \<le> MaxGrain"
      by (intro exI [of _ c] exI [of _ cs]) simp
  next
    assume "\<exists>c cs. viewCoins view (PreviousOutPoint txIn) = Some c \<and>
        map (\<lambda>txIn. viewCoins view (PreviousOutPoint txIn)) ins = map Some cs \<and>
        list_all (spendable h params) (c # cs) \<and> t' = t + coinsValue (c # cs) \<and> t' \<le> MaxGrain"
    then obtain c cs where c: "viewCoins view (PreviousOutPoint txIn) = Some c"
      "map (\<lambda>txIn. viewCoins view (PreviousOutPoint txIn)) ins = map Some cs"
      "list_all (spendable h params) (c # cs)" "t' = t + coinsValue (c # cs)" "t' \<le> MaxGrain" by blast
    note r = room [OF c(3)] c(4,5)
    have "foldE (checkInput h view params) (t + stxoAmount c) ins = Inr t'"
      using Cons.IH [of "t + stxoAmount c"] r c by (auto simp: add.assoc)
    then show "foldE (checkInput h view params) t (txIn # ins) = Inr t'"
      using checkInput_iff [OF Cons.prems, of h view params txIn "t + stxoAmount c"] c r by simp
  qed
qed auto

lemma CheckTransactionInputsWithIssuance_iff:
  assumes "saneOutputs tx" "\<not> IsCoinBaseTx tx" "0 \<le> issued" "issued \<le> MaxGrain"
  shows "CheckTransactionInputsWithIssuance tx h view params issued = Inr fee \<longleftrightarrow>
    (\<exists>cs. map (viewCoins view) (spentOutPoints tx) = map Some cs \<and> list_all (spendable h params) cs \<and>
       coinsValue cs + issued \<le> MaxGrain \<and> fee = coinsValue cs + issued - sum_list (map outValue (TxOut tx)) \<and> 0 \<le> fee)"
proof -
  let ?out = "sum_list (map outValue (TxOut tx))"
  have out: "0 \<le> ?out" "sumOutputs tx = ?out"
    using assms(1) sumOutputs_exact [OF assms(1)] by (auto simp: saneOutputs_def list_all_iff intro!: sum_list_nonneg)
  have step: "(\<exists>t. foldE (checkInput h view params) 0 (TxIn tx) = Inr t \<and> t + issued \<le> MaxGrain \<and> ?out \<le> t + issued \<and> fee = t + issued - ?out) \<longleftrightarrow>
      CheckTransactionInputsWithIssuance tx h view params issued = Inr fee"
  proof (cases "foldE (checkInput h view params) 0 (TxIn tx)")
    case (Inr t)
    then obtain cs where cs: "list_all (spendable h params) cs" "t = coinsValue cs" "t \<le> MaxGrain"
      using checkInputs_iff [of 0 h view params "TxIn tx" t] MaxGrain_small by auto
    then have "0 \<le> t" by (auto simp: list_all_iff spendable_def intro!: sum_list_nonneg)
    then have "int64 (t + issued) = t + issued" "?out \<le> t + issued \<Longrightarrow> int64 (t + issued - ?out) = t + issued - ?out"
      "?out \<le> t \<Longrightarrow> int64 (t - ?out) = t - ?out"
      using cs(3) assms(3,4) out(1) MaxGrain_small by (auto intro!: int64_id)
    with Inr assms(2,3) cs(3) out(2) \<open>0 \<le> t\<close> show ?thesis
      by (cases "0 < issued") (auto simp: CheckTransactionInputsWithIssuance_def Let_def not_less)
  qed (simp add: CheckTransactionInputsWithIssuance_def assms(2))
  have ins: "foldE (checkInput h view params) 0 (TxIn tx) = Inr t \<longleftrightarrow>
      (\<exists>cs. map (viewCoins view) (spentOutPoints tx) = map Some cs \<and> list_all (spendable h params) cs \<and> t = coinsValue cs \<and> t \<le> MaxGrain)" for t
    using checkInputs_iff [of 0 h view params "TxIn tx" t] MaxGrain_small by (simp add: comp_def)
  show ?thesis unfolding step [symmetric] ins
    apply (rule iffI; elim exE conjE)
    subgoal for t cs by (intro exI [of _ cs]) simp
    subgoal for cs using assms(3) by (intro exI [of _ "coinsValue cs"] conjI exI [of _ cs]) simp_all
    done
qed


section \<open>The height in the coinbase\<close>

lemma le_int_pad: "le_int (v @ replicate k 0) = le_int v"
  by (induction v) (simp_all add: le_int_replicate_zero)

lemma heightBytes:
  assumes "16 < h" "h < 2 ^ 31"
  obtains v where "scriptNum_Bytes h = Some v" "le_int v = h" "v \<noteq> []" "length v \<le> 4"
proof -
  define w where "w = numBytes h"
  have w: "w \<noteq> []" "uint (last w) \<noteq> 0" "le_int w = h" using numBytes_pos [of h] assms by (simp_all add: w_def)
  have last: "le_int w = le_int (butlast w) + 256 ^ (length w - 1) * uint (last w)" "0 \<le> le_int (butlast w)" "1 \<le> uint (last w)"
    using le_int_last [OF w(1)] apply assumption
    using le_int_bound [of "butlast w"] apply simp
    using w(2) uint_ge_0 [of "last w"] by linarith
  have len: "length w \<le> 4"
  proof (rule ccontr)
    assume "\<not> length w \<le> 4"
    then have "(256 :: int) ^ 4 \<le> 256 ^ (length w - 1)" by (intro power_increasing) simp_all
    also have "\<dots> \<le> 256 ^ (length w - 1) * uint (last w)" using last(3) by simp
    finally show False using last(1,2) w(3) assms(2) by simp
  qed
  have small: "uint (last w) < 128" if "length w = 4" using last that w(3) assms(2) by simp
  have enc: "scriptNum_Bytes h = Some (if 128 \<le> uint (last w) then w @ [0] else w)"
    using scriptNum_Bytes_cases [of h w] assms by (simp add: w_def)
  show thesis
  proof (cases "128 \<le> uint (last w)")
    case True
    then have "length w \<noteq> 4" using small by linarith
    with True len show ?thesis using enc w(1,3) by (intro that [of "w @ [0]"]) (simp_all add: le_int_snoc)
  next
    case False
    then show ?thesis using enc w(1,3) len by (intro that [of w]) simp_all
  qed
qed

definition heightScript :: "int \<Rightarrow> bytes" where
  "heightScript h = (if h = 0 then [OP_0] else if h \<le> 16 then [word_of_int (80 + h)]
     else pushBytes (case scriptNum_Bytes h of Some v \<Rightarrow> v | None \<Rightarrow> []))"

lemma pushBytes_height:
  assumes "16 < h" "le_int v = h" "v \<noteq> []" "length v \<le> 4" "scriptNum_Bytes h = Some v" "h < 2 ^ 31"
  shows "pushBytes v = word_of_int (int (length v)) # v"
proof (cases "length v = 1")
  case True
  then obtain b where v: "v = [b]" by (auto simp: length_Suc_conv)
  then have b: "uint b = h" using assms(2) by simp
  have "minimal v" "numValue v = h" using scriptNum_Bytes_sound [OF assms(5)] assms(1,6) by simp_all
  then have "uint b < 128" using v assms(1) by (auto simp: numValue_def split: if_splits)
  with b assms(1) have "\<not> b \<le> 16" "b \<noteq> 0x81" "b \<noteq> 0" by (auto simp: word_le_def)
  with v show ?thesis by (simp add: pushBytes_def)
qed (use assms in \<open>simp add: pushBytes_def\<close>)

lemma compareScript_iff:
  assumes "0 \<le> h" "h < 2 ^ 31"
  shows "compareScript h script = Inr () \<longleftrightarrow> (\<exists>rest. script = heightScript h @ rest)"
proof -
  have pre: "take (length p) s = p \<longleftrightarrow> (\<exists>rest. s = p @ rest)" for p s :: bytes by (metis append_eq_conv_conj append_take_drop_id)
  have "\<exists>b. AddInt64 NewScriptBuilder h = Some b \<and> ScriptBuilder_Script b = Inr (heightScript h)"
  proof (cases "h \<le> 16")
    case True
    then show ?thesis using assms by (simp add: AddInt64_def NewScriptBuilder_def MaxScriptSize_def ScriptBuilder_Script_def heightScript_def)
  next
    case False
    then obtain v where v: "scriptNum_Bytes h = Some v" "le_int v = h" "v \<noteq> []" "length v \<le> 4" using heightBytes [of h] assms by auto
    have size: "canonicalDataSize v \<le> 5" using v(4) by (simp add: canonicalDataSize_def Let_def)
    show ?thesis using False assms v size
      by (simp add: AddInt64_def AddData_def NewScriptBuilder_def MaxScriptSize_def MaxScriptElementSize_def ScriptBuilder_Script_def
          heightScript_def)
  qed
  then show ?thesis by (auto simp: compareScript_def pre)
qed

lemma ExtractCoinbaseHeight_script:
  assumes "0 \<le> h" "h < 2 ^ 31" "TxIn tx = txIn # txIns" "SignatureScript txIn = heightScript h @ rest"
  shows "ExtractCoinbaseHeight tx = Inr h"
proof -
  consider "h = 0" | "1 \<le> h" "h \<le> 16" | "16 < h" using assms(1) by linarith
  then show ?thesis
  proof cases
    case 1
    then show ?thesis using assms(3,4) by (simp add: ExtractCoinbaseHeight_def heightScript_def)
  next
    case 2
    have u: "uint (word_of_int (80 + h) :: byte) = 80 + h" using 2 by (simp add: uint_word_of_int del: of_int_add)
    have "\<not> (word_of_int (80 + h) :: byte) = OP_0" "OP_1 \<le> word_of_int (80 + h)" "(word_of_int (80 + h) :: byte) \<le> OP_16"
      unfolding word_uint_eq_iff word_le_def u using 2 by (simp_all add: OP_0_def OP_1_def OP_16_def)
    then show ?thesis using 2 u assms(3,4) by (simp add: ExtractCoinbaseHeight_def heightScript_def del: of_int_add)
  next
    case 3
    obtain v where v: "scriptNum_Bytes h = Some v" "le_int v = h" "v \<noteq> []" "length v \<le> 4" using heightBytes [OF 3 assms(2)] .
    have scr: "heightScript h = word_of_int (int (length v)) # v"
      using 3 v pushBytes_height [OF 3 v(2-4) v(1) assms(2)] by (simp add: heightScript_def)
    have u: "uint (word_of_int (int (length v)) :: byte) = int (length v)" using v(4) by (simp add: uint_word_of_int del: of_int_of_nat_eq)
    then have n: "unat (word_of_int (int (length v)) :: byte) = length v" by (simp add: unat_eq_nat_uint)
    have op: "\<not> (word_of_int (int (length v)) :: byte) = OP_0" "\<not> OP_1 \<le> word_of_int (int (length v))"
      unfolding word_uint_eq_iff word_le_def u using v(3,4) by (simp_all add: OP_0_def OP_1_def)
    have sl: "slice 1 (length v + 1) (word_of_int (int (length v)) # v @ rest) = v" by (simp add: slice_def)
    have "sint (Uint32 (v @ replicate (4 - length v) 0)) = h"
      using v(2,4) assms(1,2) by (simp add: Uint32_def le_int_pad sint_uint uint_word_of_int signed_take_bit_int_eq_self)
    moreover have "compareScript h (SignatureScript txIn) = Inr ()" using compareScript_iff [OF assms(1,2)] assms(4) by auto
    ultimately show ?thesis using assms(3,4) scr n op sl v(4)
      by (simp add: ExtractCoinbaseHeight_def Let_def del: of_int_of_nat_eq)
  qed
qed


lemma ExtractCoinbaseHeight_sound:
  assumes "ExtractCoinbaseHeight tx = Inr h" "0 \<le> h"
  shows "\<exists>txIn txIns rest. TxIn tx = txIn # txIns \<and> SignatureScript txIn = heightScript h @ rest"
proof -
  obtain txIn txIns where t: "TxIn tx = txIn # txIns" using assms(1) by (cases "TxIn tx") (simp_all add: ExtractCoinbaseHeight_def)
  obtain op rest where s: "SignatureScript txIn = op # rest"
    using assms(1) t by (cases "SignatureScript txIn") (simp_all add: ExtractCoinbaseHeight_def)
  show ?thesis
  proof (cases "op = OP_0 \<or> OP_1 \<le> op \<and> op \<le> OP_16")
    case True
    then have "heightScript h = [op]"
    proof (cases "op = OP_0")
      case False
      then have op: "81 \<le> uint op" "uint op \<le> 96" using True by (simp_all add: word_le_def OP_1_def OP_16_def)
      have h: "h = uint op - 80" using assms(1) t s True False by (simp add: ExtractCoinbaseHeight_def)
      then have "word_of_int (80 + h) = op" by (simp del: of_int_add)
      then show ?thesis using op h by (simp add: heightScript_def del: of_int_add)
    qed (use assms(1) t s in \<open>simp add: ExtractCoinbaseHeight_def heightScript_def\<close>)
    with s t show ?thesis by simp
  next
    case False
    then obtain w where w: "h = sint (w :: 32 word)" "compareScript h (SignatureScript txIn) = Inr ()"
      using assms(1) t s by (auto simp: ExtractCoinbaseHeight_def Let_def split: if_splits)
    then have "h < 2 ^ 31" using sint_lt [of w] by simp
    with w(2) t show ?thesis using compareScript_iff [OF assms(2)] by auto
  qed
qed

section \<open>Properties of single transactions\<close>

text \<open>
  C37. A block commits to its height: for every height a block can have, a coinbase passes the height check precisely when its
  signature script starts with the shortest push of that height.  As the parser reads one height from a script, coinbases of
  different heights are different transactions.
\<close>

theorem coinbase_height_iff:
  assumes "0 \<le> h" "h < 2 ^ 31"
  shows "CheckSerializedHeight tx h = Inr () \<longleftrightarrow>
    (\<exists>txIn txIns rest. TxIn tx = txIn # txIns \<and> SignatureScript txIn = heightScript h @ rest)"
  using ExtractCoinbaseHeight_sound [of tx h] ExtractCoinbaseHeight_script [OF assms, of tx] assms(1)
  by (auto simp: CheckSerializedHeight_def)

theorem coinbase_height_iff_witness:
  "CheckSerializedHeight (exampleCoinbase\<lparr>TxIn := [\<lparr>PreviousOutPoint = exampleOutPoint, SignatureScript = [0x56, 0x01],
     Witness = [], Sequence = 0\<rparr>]\<rparr>) 6 = Inr ()"
proof -
  have "heightScript 6 = [0x56]" by (simp add: heightScript_def)
  then show ?thesis using coinbase_height_iff [of 6] by simp
qed

text \<open>
  C6. Transactions conserve value: a transaction that is not a coinbase and whose outputs are in the money range passes the
  input checks precisely when every input refers to an unspent output of the view with a value in the money range, mature if it
  is a coinbase output, when the inputs and the authorised issue add up to at most the money range and to at least the
  outputs; the fee is exactly the difference.  No sum wraps around.
\<close>

theorem inputs_conserve_value:
  assumes "saneOutputs tx" "\<not> IsCoinBaseTx tx" "0 \<le> issued" "issued \<le> MaxGrain"
  shows "CheckTransactionInputsWithIssuance tx h view params issued = Inr fee \<longleftrightarrow>
    (\<exists>cs. map (viewCoins view) (spentOutPoints tx) = map Some cs \<and> list_all (spendable h params) cs \<and>
       coinsValue cs + issued \<le> MaxGrain \<and> fee = coinsValue cs + issued - sum_list (map outValue (TxOut tx)) \<and> 0 \<le> fee)"
  by (rule CheckTransactionInputsWithIssuance_iff [OF assms])

lemma exampleSpender_sane: "saneOutputs exampleSpender" "\<not> IsCoinBaseTx exampleSpender"
  by (simp_all add: saneOutputs_def exampleSpender_def exampleSpend_def MaxGrain_def GrainPerMDL_def IsCoinBaseTx_def exampleOutPoint_def)

theorem inputs_conserve_value_witness:
  "CheckTransactionInputsWithIssuance exampleSpender 112 exampleView MainNetParams 0 = Inr 0 \<and>
   CheckTransactionInputsWithIssuance exampleSpender 111 exampleView MainNetParams 0 \<noteq> Inr 0"
proof -
  have "viewCoins exampleView exampleOutPoint = Some exampleCoin"
    by (simp add: viewCoins_def LookupEntry_def exampleView_def)
  then have ins: "map (viewCoins exampleView) (spentOutPoints exampleSpender) = map Some cs \<longleftrightarrow> cs = [exampleCoin]" for cs
    by (auto simp: exampleSpender_def exampleSpend_def)
  have out: "sum_list (map outValue (TxOut exampleSpender)) = 5000" by (simp add: exampleSpender_def exampleSpend_def)
  have arith: "int32 100 = 100" "int32 99 = 99" "CoinbaseMaturity MainNetParams = 100" "(5000 :: int) \<le> MaxGrain"
    by (simp_all add: int32_id MainNetParams_def MaxGrain_def GrainPerMDL_def)
  show ?thesis unfolding inputs_conserve_value [OF exampleSpender_sane order_refl less_imp_le [OF MaxGrain_small(1)]] ins out
    using arith by (simp add: spendable_def exampleCoin_def)
qed


section \<open>Relative lock times\<close>

text \<open>
  What BIP 68 asks of one input at a height and a median time: the output exists and, unless the lock is disabled, the given
  number of 512-second intervals has passed since the median time before the block of the output, or the given number of blocks
  has passed since that block.
\<close>

definition inputLockMet :: "blockNode \<Rightarrow> UtxoViewpoint \<Rightarrow> int \<Rightarrow> int \<Rightarrow> TxIn \<Rightarrow> bool" where
  "inputLockMet node view h t txIn \<longleftrightarrow> (\<exists>utxo. LookupEntry view (PreviousOutPoint txIn) = Some utxo \<and>
     (let inputHeight = (if entryHeight utxo = 0x7fffffff then int32 (node_height node + 1) else entryHeight utxo);
          relativeLock = uint (Sequence txIn AND SequenceLockTimeMask) in
      if Sequence txIn AND SequenceLockTimeDisabled = SequenceLockTimeDisabled then True
      else if Sequence txIn AND SequenceLockTimeIsSeconds = SequenceLockTimeIsSeconds
      then \<exists>b. Ancestor node (max 0 (int32 (inputHeight - 1))) = Some b \<and> Unix (CalcPastMedianTime b) + 512 * relativeLock \<le> Unix t
      else int32 (inputHeight + relativeLock - 1) < h))"

lemma lockInput_met:
  "(\<exists>l'. lockInput node view l txIn = Inr l' \<and> SequenceLockActive l' h t) \<longleftrightarrow>
     SequenceLockActive l h t \<and> inputLockMet node view h t txIn"
proof (cases "LookupEntry view (PreviousOutPoint txIn)")
  case (Some utxo)
  define ih where "ih = (if entryHeight utxo = 0x7fffffff then int32 (node_height node + 1) else entryHeight utxo)"
  define rel where "rel = uint (Sequence txIn AND SequenceLockTimeMask)"
  have push: "push_bit SequenceLockTimeGranularity rel = 512 * rel" by (simp add: SequenceLockTimeGranularity_def push_bit_eq_mult)
  have anc: "(if int32 (ih - 1) < 0 then 0 else int32 (ih - 1)) = max 0 (int32 (ih - 1))" by simp
  have lock: "lockInput node view l txIn =
     (if Sequence txIn AND SequenceLockTimeDisabled = SequenceLockTimeDisabled then Inr l
      else if Sequence txIn AND SequenceLockTimeIsSeconds = SequenceLockTimeIsSeconds
      then (case Ancestor node (max 0 (int32 (ih - 1))) of None \<Rightarrow> Inl GoPanic
        | Some b \<Rightarrow> Inr (if Seconds l < Unix (CalcPastMedianTime b) + (512 * rel - 1)
            then l\<lparr>Seconds := Unix (CalcPastMedianTime b) + (512 * rel - 1)\<rparr> else l))
      else Inr (if BlockHeight l < int32 (ih + (rel - 1)) then l\<lparr>BlockHeight := int32 (ih + (rel - 1))\<rparr> else l))"
    unfolding lockInput_def Some option.case Let_def ih_def [symmetric] rel_def [symmetric] anc push by (rule refl)
  have met: "inputLockMet node view h t txIn \<longleftrightarrow>
     (if Sequence txIn AND SequenceLockTimeDisabled = SequenceLockTimeDisabled then True
      else if Sequence txIn AND SequenceLockTimeIsSeconds = SequenceLockTimeIsSeconds
      then \<exists>b. Ancestor node (max 0 (int32 (ih - 1))) = Some b \<and> Unix (CalcPastMedianTime b) + 512 * rel \<le> Unix t
      else int32 (ih + rel - 1) < h)"
    unfolding inputLockMet_def Some option.inject ex_simps simp_thms Let_def ih_def rel_def by simp
  show ?thesis unfolding lock met
    by (cases "Ancestor node (max 0 (int32 (ih - 1)))") (auto simp: SequenceLockActive_def algebra_simps)
qed (simp add: lockInput_def inputLockMet_def)

lemma lockInputs_met:
  "(\<exists>l'. foldE (lockInput node view) l ins = Inr l' \<and> SequenceLockActive l' h t) \<longleftrightarrow>
     SequenceLockActive l h t \<and> (\<forall>txIn\<in>set ins. inputLockMet node view h t txIn)"
proof (induction ins arbitrary: l)
  case (Cons txIn ins)
  have "(\<exists>l'. foldE (lockInput node view) l (txIn # ins) = Inr l' \<and> SequenceLockActive l' h t) \<longleftrightarrow>
      (\<exists>l1. lockInput node view l txIn = Inr l1 \<and> SequenceLockActive l1 h t) \<and> (\<forall>txIn\<in>set ins. inputLockMet node view h t txIn)"
    using Cons.IH by auto
  then show ?case using lockInput_met by auto
qed auto

text \<open>
  C36. Relative lock times are enforced as BIP 68 defines them: a transaction of version 2 or above that is not a coinbase passes
  at a height and a median time exactly when every input exists and meets its own lock.
\<close>

theorem sequence_locks_met:
  assumes "2 \<le> MsgTx.Version tx" "\<not> IsCoinBaseTx tx" "0 \<le> h" "0 \<le> t"
  shows "(\<exists>lock. calcSequenceLock node tx view = Inr lock \<and> SequenceLockActive lock h t) \<longleftrightarrow>
    (\<forall>txIn\<in>set (TxIn tx). inputLockMet node view h t txIn)"
proof -
  have "SequenceLockActive \<lparr>Seconds = -1, BlockHeight = -1\<rparr> h t" using assms(3,4) by (simp add: SequenceLockActive_def Unix_def div_int_pos_iff not_le)
  then show ?thesis using lockInputs_met [of node view "\<lparr>Seconds = -1, BlockHeight = -1\<rparr>" "TxIn tx" h t] assms(1,2)
    by (simp add: calcSequenceLock_def Let_def not_less [symmetric])
qed

theorem sequence_locks_met_witness:
  "\<exists>lock. calcSequenceLock exampleTip (exampleSpender\<lparr>MsgTx.Version := 2\<rparr>) exampleView = Inr lock \<and> SequenceLockActive lock 13 0"
proof -
  let ?tx = "exampleSpender\<lparr>MsgTx.Version := 2\<rparr>"
  have tx: "2 \<le> MsgTx.Version ?tx" "\<not> IsCoinBaseTx ?tx"
    by (simp_all add: exampleSpender_def exampleSpend_def IsCoinBaseTx_def exampleOutPoint_def)
  have "inputLockMet exampleTip exampleView 13 0 txIn" if "txIn \<in> set (TxIn ?tx)" for txIn
    using that by (simp add: inputLockMet_def exampleSpender_def exampleSpend_def LookupEntry_def exampleView_def storedEntry_def exampleCoin_def
        SequenceLockTimeDisabled_def SequenceLockTimeIsSeconds_def SequenceLockTimeMask_def int32_id)
  with sequence_locks_met [OF tx, of 13 0] show ?thesis by simp
qed


end
