(* ===== verification/Difficulty.thy ===== *)
theory Difficulty
  imports Block_Index Chain_Params
begin

text \<open>
  The difficulty of the next block (\<^verbatim>\<open>node/blockchain/difficulty.go\<close>, \<^verbatim>\<open>node/blockchain/aserti.go\<close>): the WTEMA
  filter of the first phase, the absolute ASERT schedule of the second, and the bound on the difficulty of a block
  that follows a checkpoint (\<^verbatim>\<open>node/blockchain/process.go\<close>).

  \<^verbatim>\<open>big.Int\<close> values are \<open>int\<close>; \<^verbatim>\<open>int64\<close> and \<^verbatim>\<open>uint64\<close> expressions carry their wrap-around.  A result \<open>None\<close> is a
  run-time panic: a division by zero or the explicit \<^verbatim>\<open>panic\<close> of the code.
\<close>

section \<open>ASERT\<close>

definition colossusTargetBlockTime :: int where "colossusTargetBlockTime = 194"
definition colossusASERTHalflife :: int where "colossusASERTHalflife = 96 * 194"
definition colossusAuxPowActivationBlock :: int where "colossusAuxPowActivationBlock = 15860"
definition colossusReanchorBlock :: int where "colossusReanchorBlock = 17500"

definition applyTargetFloor :: "int \<Rightarrow> int \<Rightarrow> int" where
  "applyTargetFloor target powLimit = (if target \<le> 0 then 1 else if target > powLimit then powLimit else target)"

text \<open>The cubic approximation of \<open>65536 * 2 ^ (frac / 65536)\<close>, in the 64-bit arithmetic of the code.\<close>

definition asertFactor :: "int \<Rightarrow> int" where
  "asertFactor frac =
     int64 (65536 + int64 (drop_bit 48 (uint64
       (uint64 (uint64 (uint64 (195766423245049 * frac) + uint64 (uint64 (971821376 * frac) * frac))
          + uint64 (uint64 (uint64 (5127 * frac) * frac) * frac))
        + 2 ^ 47))))"

definition asertShift :: "int \<Rightarrow> int \<Rightarrow> int" where
  "asertShift next shifts = (if shifts < 0 then drop_bit (nat (- shifts)) next else push_bit (nat shifts) next)"

definition calcASERT :: "int \<Rightarrow> int \<Rightarrow> int \<Rightarrow> int \<Rightarrow> int \<Rightarrow> int \<Rightarrow> int" where
  "calcASERT anchorTarget spacing timeDiff heightDiff powLimit halfLife =
     (let exponent = int64 (go_div (int64 (int64 (timeDiff - int64 (spacing * int64 (heightDiff + 1))) * 65536)) halfLife);
          shifts = drop_bit 16 exponent;
          frac = take_bit 16 exponent;
          factor = asertFactor frac;
          next = anchorTarget * factor;
          shifts = int64 (shifts - 16)
      in applyTargetFloor (asertShift next shifts) powLimit)"

definition calcNextAsertTarget :: "blockNode \<Rightarrow> int \<Rightarrow> int" where
  "calcNextAsertTarget lastNode powLimit =
     (let anchorHeight = (if colossusReanchorBlock > 0 \<and> node_height lastNode \<ge> colossusReanchorBlock
                          then colossusReanchorBlock else colossusAuxPowActivationBlock);
          steps = int32 (node_height lastNode - anchorHeight)
      in if steps < 0 then applyTargetFloor (CompactToBig (nbits (nfields lastNode))) powLimit
         else case (if steps > 0 then RelativeAncestor lastNode steps else Some lastNode) of
             None \<Rightarrow> applyTargetFloor (CompactToBig (nbits (nfields lastNode))) powLimit
           | Some anchor \<Rightarrow>
               let anchorTime = (case parent anchor of None \<Rightarrow> timestamp (nfields anchor)
                                                   | Some ap \<Rightarrow> timestamp (nfields ap))
               in calcASERT (CompactToBig (nbits (nfields anchor))) colossusTargetBlockTime
                    (int64 (timestamp (nfields lastNode) - anchorTime))
                    (int32 (node_height lastNode - node_height anchor)) powLimit colossusASERTHalflife)"

section \<open>The required difficulty\<close>

text \<open>\<^verbatim>\<open>big.Int.Div\<close> is Euclidean; division by zero panics.\<close>

definition bigDiv :: "int \<Rightarrow> int \<Rightarrow> int option" where
  "bigDiv x y = (if y = 0 then None else Some (if y > 0 then x div y else - (x div (- y))))"

definition calcNextWtemaTarget :: "blockNode \<Rightarrow> blockNode \<Rightarrow> Params \<Rightarrow> int option" where
  "calcNextWtemaTarget lastNode parentNode params =
     (let t = int64 (timestamp (nfields lastNode) - timestamp (nfields parentNode));
          T = go_div (TargetTimePerBlock params) Second;
          halfLife = go_div (WTEMAHalfLife params) Second;
          oldTarget = CompactToBig (nbits (nfields lastNode))
      in case bigDiv (int64 (t - T) * oldTarget) halfLife of
           None \<Rightarrow> None
         | Some adjustment \<Rightarrow>
             let newTarget = oldTarget + adjustment;
                 newTarget = (if newTarget > PowLimit params then PowLimit params else newTarget)
             in Some (if newTarget \<le> 0 then 1 else newTarget))"

definition calcNextRequiredDifficulty :: "blockNode option \<Rightarrow> int \<Rightarrow> Params \<Rightarrow> 32 word option" where
  "calcNextRequiredDifficulty lastNodeOpt newBlockTime params = (case lastNodeOpt of
     None \<Rightarrow> Some (PowLimitBits params)
   | Some lastNode \<Rightarrow>
       if PoWNoRetargeting params then Some (PowLimitBits params)
       else if ReduceMinDifficulty params \<and> Net params = MainNet then None
       else if ReduceMinDifficulty params \<and>
         Unix newBlockTime > int64 (timestamp (nfields lastNode) + go_div (MinDiffReductionTime params) Second)
       then Some (PowLimitBits params)
       else if node_height lastNode \<ge> colossusAuxPowActivationBlock
       then Some (BigToCompact (calcNextAsertTarget lastNode (PowLimit params)))
       else case parent lastNode of
           None \<Rightarrow> Some (nbits (nfields lastNode))
         | Some parentNode \<Rightarrow> map_option BigToCompact (calcNextWtemaTarget lastNode parentNode params))"

section \<open>The bound relative to a checkpoint\<close>

definition calcEasiestDifficulty :: "Params \<Rightarrow> 32 word \<Rightarrow> int \<Rightarrow> 32 word option" where
  "calcEasiestDifficulty params bits duration =
     (let durationVal = go_div duration Second in
      if ReduceMinDifficulty params \<and> durationVal > go_div (MinDiffReductionTime params) Second
      then Some (PowLimitBits params)
      else
        let halfLifeSec = go_div (WTEMAHalfLife params) Second;
            clamp = (\<lambda>t. BigToCompact (if t > PowLimit params then PowLimit params else t))
        in if durationVal > 0
           then if halfLifeSec = 0 then None
                else let periods = go_div (int64 (int64 (durationVal + halfLifeSec) - 1)) halfLifeSec in
                     if periods > 177 then Some (PowLimitBits params)
                     else Some (clamp (drop_bit (nat (uint64 (5 * periods)))
                                        (CompactToBig bits * 87 ^ nat periods)))
           else Some (clamp (CompactToBig bits)))"

text \<open>
  The block of \<open>ProcessBlock\<close> that runs when a checkpoint is known: \<open>prevNode\<close> is the parent of the block if the
  index has it, \<open>fastAdd\<close> the flag \<^verbatim>\<open>BFFastAdd\<close>.  \<^verbatim>\<open>time.Time.Sub\<close> saturates at the ends of \<^verbatim>\<open>int64\<close>.
\<close>

definition timeSub :: "int \<Rightarrow> int \<Rightarrow> int" where
  "timeSub t u = max (- (2 ^ 63)) (min (2 ^ 63 - 1) (t - u))"

definition checkAgainstCheckpoint ::
  "Params \<Rightarrow> blockNode \<Rightarrow> blockNode option \<Rightarrow> BlockHeader \<Rightarrow> bool \<Rightarrow> (chainError, unit) result" where
  "checkAgainstCheckpoint params checkpointNode prevNode header fastAdd =
     bindE (guardE (case prevNode of None \<Rightarrow> False
                     | Some p \<Rightarrow> int32 (node_height p + 1) < node_height checkpointNode) (RuleError ErrForkTooOld)) (\<lambda>_.
     let checkpointTime = unixTime (timestamp (nfields checkpointNode)) in
     bindE (guardE (Timestamp header < checkpointTime) (RuleError ErrCheckpointTimeTooOld)) (\<lambda>_.
     if fastAdd then Inr ()
     else case calcEasiestDifficulty params (nbits (nfields checkpointNode))
                 (timeSub (Timestamp header) checkpointTime) of
         None \<Rightarrow> Inl GoPanic
       | Some easiest \<Rightarrow>
           guardE (CompactToBig (Bits header) > CompactToBig easiest) (RuleError ErrDifficultyTooLow)))"

section \<open>The ASERT arithmetic\<close>

lemma applyTargetFloor_bounds:
  "0 < powLimit \<Longrightarrow> 1 \<le> applyTargetFloor t powLimit \<and> applyTargetFloor t powLimit \<le> powLimit"
  by (simp add: applyTargetFloor_def)

lemma applyTargetFloor_mono:
  "0 < powLimit \<Longrightarrow> s \<le> t \<Longrightarrow> applyTargetFloor s powLimit \<le> applyTargetFloor t powLimit"
  by (simp add: applyTargetFloor_def)

lemma uint64_id: "0 \<le> x \<Longrightarrow> x < 2 ^ 64 \<Longrightarrow> uint64 x = x"
  by (simp add: uint64_def)

text \<open>The three terms and their sum stay below \<open>2 ^ 64\<close>, by a margin of about one part in 8,000.\<close>

lemma asert_terms:
  fixes f :: int
  assumes "0 \<le> f" "f < 65536"
  shows "0 \<le> 195766423245049 * f" "195766423245049 * f \<le> 195766423245049 * 65535"
    "0 \<le> 971821376 * f * f" "971821376 * f * f \<le> 971821376 * 65535 * 65535"
    "0 \<le> 5127 * f * f * f" "5127 * f * f * f \<le> 5127 * 65535 * 65535 * 65535"
    "0 \<le> 971821376 * f" "971821376 * f \<le> 971821376 * 65535"
    "0 \<le> 5127 * f" "5127 * f \<le> 5127 * 65535"
    "0 \<le> 5127 * f * f" "5127 * f * f \<le> 5127 * 65535 * 65535"
proof -
  have m: "0 \<le> c * f \<and> c * f \<le> d * 65535" if "0 \<le> c" "c \<le> d" for c d :: int
    using assms that by (intro conjI mult_mono) simp_all
  show lin: "0 \<le> 195766423245049 * f" "195766423245049 * f \<le> 195766423245049 * 65535"
    "0 \<le> 971821376 * f" "971821376 * f \<le> 971821376 * 65535" "0 \<le> 5127 * f" "5127 * f \<le> 5127 * 65535"
    using assms by simp_all
  show quad: "0 \<le> 971821376 * f * f" "971821376 * f * f \<le> 971821376 * 65535 * 65535"
    "0 \<le> 5127 * f * f" "5127 * f * f \<le> 5127 * 65535 * 65535"
    using m [OF lin(3,4)] m [OF lin(5,6)] by simp_all
  show "0 \<le> 5127 * f * f * f" "5127 * f * f * f \<le> 5127 * 65535 * 65535 * 65535"
    using m [OF quad(3,4)] by simp_all
qed

definition asertPoly :: "int \<Rightarrow> int" where
  "asertPoly f = 195766423245049 * f + 971821376 * f * f + 5127 * f * f * f + 2 ^ 47"

lemma asertPoly_mono: "0 \<le> f \<Longrightarrow> f \<le> g \<Longrightarrow> asertPoly f \<le> asertPoly g"
  unfolding asertPoly_def by (intro add_mono mult_mono order.refl) simp_all

lemma asertFactor_eq:
  assumes "0 \<le> f" "f < 65536"
  shows "asertFactor f = 65536 + asertPoly f div 2 ^ 48"
proof -
  note b = asert_terms [OF assms]
  have "uint64 (195766423245049 * f) = 195766423245049 * f" "uint64 (971821376 * f) = 971821376 * f"
    "uint64 (971821376 * f * f) = 971821376 * f * f" "uint64 (5127 * f) = 5127 * f"
    "uint64 (5127 * f * f) = 5127 * f * f" "uint64 (5127 * f * f * f) = 5127 * f * f * f"
    "uint64 (195766423245049 * f + 971821376 * f * f) = 195766423245049 * f + 971821376 * f * f"
    "uint64 (195766423245049 * f + 971821376 * f * f + 5127 * f * f * f)
       = 195766423245049 * f + 971821376 * f * f + 5127 * f * f * f"
    "uint64 (195766423245049 * f + 971821376 * f * f + 5127 * f * f * f + 2 ^ 47) = asertPoly f"
    unfolding asertPoly_def uint64_def using b by simp_all
  moreover have p: "0 \<le> asertPoly f" "asertPoly f < 2 ^ 64"
    unfolding asertPoly_def using b by simp_all
  have q: "0 \<le> asertPoly f div 2 ^ 48" "asertPoly f div 2 ^ 48 < 2 ^ 16"
    using p by (simp_all add: pos_imp_zdiv_nonneg_iff div_less_int_iff)
  have "int64 (asertPoly f div 2 ^ 48) = asertPoly f div 2 ^ 48"
    "int64 (65536 + asertPoly f div 2 ^ 48) = 65536 + asertPoly f div 2 ^ 48"
    using q by (simp_all add: int64_id)
  ultimately show ?thesis by (simp only: asertFactor_def drop_bit_eq_div)
qed

lemma asertFactor_mono: "0 \<le> f \<Longrightarrow> f \<le> g \<Longrightarrow> g < 65536 \<Longrightarrow> asertFactor f \<le> asertFactor g"
  by (simp add: asertFactor_eq zdiv_mono1 asertPoly_mono)

lemma asertFactor_zero: "asertFactor 0 = 65536"
  by (simp add: asertFactor_eq asertPoly_def)

lemma asertFactor_bounds: "0 \<le> f \<Longrightarrow> f < 65536 \<Longrightarrow> 65536 \<le> asertFactor f \<and> asertFactor f < 131072"
  using asertFactor_mono [of 0 f] asertFactor_mono [of f 65535] asertFactor_zero
  by (simp add: asertFactor_eq asertPoly_def)

text \<open>\<open>asertScale n s\<close> is \<open>n * 2 ^ s\<close>, rounded down for negative \<open>s\<close>.\<close>

lemma asertShift_mono: "m \<le> n \<Longrightarrow> asertShift m s \<le> asertShift n s"
  by (simp add: asertShift_def drop_bit_eq_div push_bit_eq_mult zdiv_mono1)

lemma asertShift_double: "asertShift (2 * n) s = asertShift n (s + 1)"
proof (cases "s < 0")
  case True
  then have "nat (- s) = Suc (nat (- (s + 1)))" by simp
  then have "drop_bit (nat (- s)) (2 * n) = drop_bit (nat (- (s + 1))) n"
    by (simp add: drop_bit_eq_div)
  with True show ?thesis by (cases "s + 1 < 0") (simp_all add: asertShift_def)
next
  case False
  then have "nat (s + 1) = Suc (nat s)" by simp
  with False show ?thesis by (simp add: asertShift_def push_bit_eq_mult)
qed

lemma asertShift_nonneg: "0 \<le> n \<Longrightarrow> 0 \<le> asertShift n s"
  using asertShift_mono [of 0 n s] by (simp add: asertShift_def)

lemma asertShift_mono_shift: "0 \<le> n \<Longrightarrow> asertShift n s \<le> asertShift n (s + int k)"
proof (induction k)
  case 0
  then show ?case by simp
next
  case (Suc k)
  have "asertShift n (s + int k) \<le> asertShift (2 * n) (s + int k)" using Suc.prems by (intro asertShift_mono) simp
  also have "\<dots> = asertShift n (s + int (Suc k))" by (simp only: asertShift_double) (simp add: ac_simps)
  finally show ?case using Suc by simp
qed

text \<open>The target for an exponent in 16-bit fixed point, before it is clamped.\<close>

definition asertTarget :: "int \<Rightarrow> int \<Rightarrow> int" where
  "asertTarget a e = asertShift (a * asertFactor (e mod 65536)) (e div 65536 - 16)"

lemma asertTarget_mono:
  assumes "0 \<le> a" "e \<le> e'"
  shows "asertTarget a e \<le> asertTarget a e'"
proof (cases "e div 65536 = e' div 65536")
  case True
  then have "e mod 65536 \<le> e' mod 65536"
    using assms(2) mult_div_mod_eq [of 65536 e] mult_div_mod_eq [of 65536 e'] by linarith
  then have "a * asertFactor (e mod 65536) \<le> a * asertFactor (e' mod 65536)"
    using assms(1) by (intro mult_left_mono asertFactor_mono) simp_all
  with True show ?thesis by (simp add: asertTarget_def asertShift_mono)
next
  case False
  define k where "k = nat (e' div 65536 - e div 65536 - 1)"
  have "e div 65536 \<le> e' div 65536" using assms(2) by (intro zdiv_mono1) simp_all
  with False have k: "e' div 65536 - 16 = e div 65536 - 16 + 1 + int k" by (simp add: k_def)
  have f: "asertFactor (e mod 65536) < 131072" "65536 \<le> asertFactor (e' mod 65536)"
    using asertFactor_bounds [of "e mod 65536"] asertFactor_bounds [of "e' mod 65536"] by simp_all
  have "asertTarget a e \<le> asertShift (2 * (a * 65536)) (e div 65536 - 16)"
    unfolding asertTarget_def using f(1) assms(1) mult_left_mono [of "asertFactor (e mod 65536)" 131072 a]
    by (intro asertShift_mono) simp
  also have "\<dots> \<le> asertShift (a * asertFactor (e' mod 65536)) (e div 65536 - 16 + 1)"
    unfolding asertShift_double using f(2) assms(1) by (intro asertShift_mono) (simp add: mult_left_mono)
  also have "\<dots> \<le> asertTarget a e'"
    unfolding asertTarget_def k using f(2) assms(1) by (intro asertShift_mono_shift mult_nonneg_nonneg) simp_all
  finally show ?thesis .
qed

lemma asertTarget_zero: "asertTarget a 0 = a"
  by (simp add: asertTarget_def asertFactor_zero asertShift_def drop_bit_eq_div)

lemma asertTarget_halflife: "asertTarget (2 * a) e = asertTarget a (e + 65536)"
proof -
  have "asertTarget (2 * a) e = asertShift (2 * (a * asertFactor (e mod 65536))) (e div 65536 - 16)"
    by (simp add: asertTarget_def ac_simps)
  moreover have "(e + 65536) div 65536 = e div 65536 + 1" "(e + 65536) mod 65536 = e mod 65536" by simp_all
  ultimately show ?thesis by (simp add: asertShift_double asertTarget_def)
qed

lemma go_div_mono: "0 < d \<Longrightarrow> a \<le> b \<Longrightarrow> go_div a d \<le> go_div b d"
proof -
  assume d: "0 < d" and ab: "a \<le> b"
  consider "0 \<le> a" | "b \<le> 0" | "a < 0" "0 < b" by linarith
  then show ?thesis
  proof cases
    case 1
    then show ?thesis using d ab by (simp add: go_div_nonneg zdiv_mono1)
  next
    case 2
    then have "(- b) div d \<le> (- a) div d" using d ab by (intro zdiv_mono1) simp_all
    then show ?thesis using d ab 2 by (simp add: go_div_neg)
  next
    case 3
    then have "0 \<le> (- a) div d" "0 \<le> b div d" using d by (simp_all add: pos_imp_zdiv_nonneg_iff)
    then show ?thesis using d 3 by (simp add: go_div_neg go_div_nonneg)
  qed
qed

lemma go_div_bound: "0 < d \<Longrightarrow> \<bar>a\<bar> < k \<Longrightarrow> \<bar>go_div a d\<bar> < k"
proof -
  assume d: "0 < d" and a: "\<bar>a\<bar> < k"
  have "\<bar>go_div a d\<bar> = \<bar>a\<bar> div d" using d by (simp add: go_div_def Let_def pos_imp_zdiv_nonneg_iff)
  also have "\<dots> \<le> \<bar>a\<bar> div 1" using d by (intro zdiv_mono2) simp_all
  finally show ?thesis using a by simp
qed

text \<open>The deviation from the schedule, and the range in which the 64-bit arithmetic of \<open>calcASERT\<close> is exact.\<close>

definition asertDeviation :: "int \<Rightarrow> int \<Rightarrow> int \<Rightarrow> int" where
  "asertDeviation spacing timeDiff heightDiff = timeDiff - spacing * (heightDiff + 1)"

definition asertInRange :: "int \<Rightarrow> int \<Rightarrow> int \<Rightarrow> bool" where
  "asertInRange spacing timeDiff heightDiff \<longleftrightarrow>
     0 \<le> spacing \<and> spacing < 2 ^ 12 \<and> 0 \<le> heightDiff \<and> heightDiff < 2 ^ 32 \<and> \<bar>timeDiff\<bar> < 2 ^ 45"

lemma calcASERT_eq:
  assumes "asertInRange spacing timeDiff heightDiff" "0 < halfLife"
  shows "calcASERT a spacing timeDiff heightDiff powLimit halfLife =
    applyTargetFloor (asertTarget a (go_div (asertDeviation spacing timeDiff heightDiff * 65536) halfLife)) powLimit"
proof -
  let ?d = "asertDeviation spacing timeDiff heightDiff" and ?e = "go_div (asertDeviation spacing timeDiff heightDiff * 65536) halfLife"
  have s: "0 \<le> spacing * (heightDiff + 1)" "spacing * (heightDiff + 1) \<le> 2 ^ 12 * 2 ^ 32"
    using assms(1) mult_mono [of spacing "2 ^ 12" "heightDiff + 1" "2 ^ 32"] unfolding asertInRange_def by auto
  have "\<bar>t\<bar> < 2 ^ 45 \<Longrightarrow> 0 \<le> p \<Longrightarrow> p \<le> 2 ^ 12 * 2 ^ 32 \<Longrightarrow> \<bar>t - p\<bar> < 2 ^ 46" for t p :: int by simp
  then have d: "\<bar>?d\<bar> < 2 ^ 46" using assms(1) s unfolding asertInRange_def asertDeviation_def by blast
  then have e: "\<bar>?e\<bar> < 2 ^ 62" using go_div_bound [OF assms(2), of "?d * 65536" "2 ^ 62"] by simp
  have "int64 (spacing * (heightDiff + 1)) = spacing * (heightDiff + 1)"
    by (rule int64_id [OF order.trans [OF _ s(1)] le_less_trans [OF s(2)]]) simp_all
  moreover have "int64 (heightDiff + 1) = heightDiff + 1" "int64 (timeDiff - spacing * (heightDiff + 1)) = ?d" "int64 (?d * 65536) = ?d * 65536" "int64 ?e = ?e"
    using assms(1) s d e unfolding asertInRange_def asertDeviation_def by (simp_all add: int64_id)
  moreover have "int64 (?e div 65536 - 16) = ?e div 65536 - 16"
  proof -
    have "\<bar>x\<bar> < 2 ^ 62 \<Longrightarrow> - (2 ^ 63) \<le> x div 65536 - 16 \<and> x div 65536 - 16 < 2 ^ 63" for x :: int
      by (simp; linarith)
    with e show ?thesis by (intro int64_id) blast+
  qed
  ultimately show ?thesis
    by (simp add: calcASERT_def Let_def drop_bit_eq_div take_bit_eq_mod asertTarget_def)
qed

text \<open>
  C21. The ASERT target follows the schedule: exactly on schedule it is the anchor target (clamped to the limit); a chain
  that is late or on time and falls one more half-life behind gets the target of twice the anchor target, and a chain
  that is early or on time and gains one more half-life gets the target of half the anchor target.
\<close>

theorem calcASERT_schedule:
  assumes "asertInRange spacing timeDiff heightDiff" "asertInRange spacing (timeDiff + halfLife) heightDiff"
    "asertInRange spacing (timeDiff - halfLife) heightDiff" "0 < halfLife"
  shows "(timeDiff = spacing * (heightDiff + 1) \<longrightarrow>
            calcASERT a spacing timeDiff heightDiff powLimit halfLife = applyTargetFloor a powLimit)
    \<and> (spacing * (heightDiff + 1) \<le> timeDiff \<longrightarrow>
            calcASERT a spacing (timeDiff + halfLife) heightDiff powLimit halfLife
          = calcASERT (2 * a) spacing timeDiff heightDiff powLimit halfLife)
    \<and> (timeDiff \<le> spacing * (heightDiff + 1) \<longrightarrow>
            calcASERT (2 * a) spacing (timeDiff - halfLife) heightDiff powLimit halfLife
          = calcASERT a spacing timeDiff heightDiff powLimit halfLife)"
proof -
  have late: "go_div ((d + halfLife) * 65536) halfLife = go_div (d * 65536) halfLife + 65536" if "0 \<le> d" for d
    using that assms(4) by (simp add: go_div_nonneg distrib_right)
  have early: "go_div ((d - halfLife) * 65536) halfLife + 65536 = go_div (d * 65536) halfLife" if "d \<le> 0" for d
  proof -
    have "- ((d - halfLife) * 65536) = - (d * 65536) + 65536 * halfLife" by (simp add: algebra_simps)
    then have "(- ((d - halfLife) * 65536)) div halfLife = (- (d * 65536)) div halfLife + 65536"
      using assms(4) div_mult_self1 [of halfLife "- (d * 65536)" 65536] by (simp only:)
    moreover have "(d - halfLife) * 65536 \<le> 0" "d * 65536 \<le> 0" using that assms(4) by simp_all
    ultimately show ?thesis using assms(4) by (simp only: go_div_neg)
  qed
  have dev: "asertDeviation spacing (timeDiff + halfLife) heightDiff = asertDeviation spacing timeDiff heightDiff + halfLife"
    "asertDeviation spacing (timeDiff - halfLife) heightDiff = asertDeviation spacing timeDiff heightDiff - halfLife"
    by (simp_all add: asertDeviation_def)
  show ?thesis
    unfolding calcASERT_eq [OF assms(1,4)] calcASERT_eq [OF assms(2,4)] calcASERT_eq [OF assms(3,4)] dev
      asertTarget_halflife
  proof (intro conjI impI)
    let ?d = "asertDeviation spacing timeDiff heightDiff"
    show "applyTargetFloor (asertTarget a (go_div (?d * 65536) halfLife)) powLimit = applyTargetFloor a powLimit"
      if "timeDiff = spacing * (heightDiff + 1)"
      using that by (simp add: asertDeviation_def go_div_def asertTarget_zero)
    show "applyTargetFloor (asertTarget a (go_div ((?d + halfLife) * 65536) halfLife)) powLimit
        = applyTargetFloor (asertTarget a (go_div (?d * 65536) halfLife + 65536)) powLimit"
      if "spacing * (heightDiff + 1) \<le> timeDiff"
      using that by (subst late) (simp_all add: asertDeviation_def)
    show "applyTargetFloor (asertTarget a (go_div ((?d - halfLife) * 65536) halfLife + 65536)) powLimit
        = applyTargetFloor (asertTarget a (go_div (?d * 65536) halfLife)) powLimit"
      if "timeDiff \<le> spacing * (heightDiff + 1)"
      using that by (subst early) (simp_all add: asertDeviation_def)
  qed
qed

theorem calcASERT_schedule_witness:
  "calcASERT 1000 194 (194 * 10 + 18624) 9 (2 ^ 208 - 1) 18624 = 2000"
proof -
  have r: "asertInRange 194 (194 * 10) 9" "asertInRange 194 (194 * 10 + 18624) 9" "asertInRange 194 (194 * 10 - 18624) 9"
    by (simp_all add: asertInRange_def)
  have "calcASERT 1000 194 (194 * 10 + 18624) 9 (2 ^ 208 - 1) 18624 = calcASERT (2 * 1000) 194 (194 * 10) 9 (2 ^ 208 - 1) 18624"
    using calcASERT_schedule [OF r] by simp
  also have "\<dots> = applyTargetFloor (2 * 1000) (2 ^ 208 - 1)"
    using calcASERT_schedule [OF r] by simp
  finally show ?thesis by (simp add: applyTargetFloor_def)
qed

text \<open>
  C20. Later blocks never make the next block harder: the ASERT target does not decrease when the elapsed time grows, for
  any non-negative anchor target, and it always lies between 1 and the limit.
\<close>

theorem calcASERT_mono:
  assumes "asertInRange spacing timeDiff heightDiff" "asertInRange spacing timeDiff' heightDiff" "timeDiff \<le> timeDiff'"
    "0 < halfLife" "0 \<le> a" "0 < powLimit"
  shows "1 \<le> calcASERT a spacing timeDiff heightDiff powLimit halfLife
    \<and> calcASERT a spacing timeDiff heightDiff powLimit halfLife
      \<le> calcASERT a spacing timeDiff' heightDiff powLimit halfLife
    \<and> calcASERT a spacing timeDiff' heightDiff powLimit halfLife \<le> powLimit"
proof -
  have "asertDeviation spacing timeDiff heightDiff * 65536 \<le> asertDeviation spacing timeDiff' heightDiff * 65536"
    using assms(3) by (simp add: asertDeviation_def)
  then show ?thesis
    unfolding calcASERT_eq [OF assms(1,4)] calcASERT_eq [OF assms(2,4)]
    using assms(4-6) applyTargetFloor_bounds [OF assms(6)]
    by (intro conjI applyTargetFloor_mono asertTarget_mono go_div_mono) simp_all
qed

theorem calcASERT_mono_witness:
  "calcASERT 1000 194 0 9 (2 ^ 208 - 1) 18624 \<le> calcASERT 1000 194 5000 9 (2 ^ 208 - 1) 18624
     \<and> calcASERT 1000 194 0 9 (2 ^ 208 - 1) 18624 \<ge> 1"
proof -
  have "asertInRange 194 0 9" "asertInRange 194 5000 9" by (simp_all add: asertInRange_def)
  from calcASERT_mono [OF this, of 18624 1000 "2 ^ 208 - 1"] show ?thesis by simp
qed

section \<open>The required difficulty is always in range\<close>

text \<open>A target in the range of a network, and the parameters under which the rule cannot panic.\<close>

definition targetInRange :: "Params \<Rightarrow> int \<Rightarrow> bool" where
  "targetInRange params t \<longleftrightarrow> 0 < t \<and> t \<le> PowLimit params"

definition goodParams :: "Params \<Rightarrow> bool" where
  "goodParams params \<longleftrightarrow> 0 < PowLimit params \<and> PowLimit params < 2 ^ 256 \<and>
     targetInRange params (CompactToBig (PowLimitBits params)) \<and> Second \<le> WTEMAHalfLife params \<and>
     \<not> (ReduceMinDifficulty params \<and> Net params = MainNet)"

lemma goodParams_networks:
  "goodParams MainNetParams" "goodParams TestNetParams" "goodParams TestNet2Params"
  "goodParams RegressionNetParams" "goodParams SimNetParams"
  by code_simp+

lemma compact_targetInRange:
  assumes "goodParams params" "targetInRange params t"
  shows "targetInRange params (CompactToBig (BigToCompact t))"
proof -
  have t: "0 < t" "t < 2 ^ 256" "t \<le> PowLimit params" using assms by (simp_all add: goodParams_def targetInRange_def)
  have "CompactToBig (BigToCompact t) \<le> t" "32768 * (t - CompactToBig (BigToCompact t)) < t"
    using compact_rounds_down [OF t(1,2)] by blast+
  then show ?thesis using t(1,3) unfolding targetInRange_def by (intro conjI) simp_all
qed

lemma applyTargetFloor_inRange: "goodParams params \<Longrightarrow> targetInRange params (applyTargetFloor t (PowLimit params))"
  using applyTargetFloor_bounds [of "PowLimit params" t] by (auto simp: goodParams_def targetInRange_def)

lemma calcNextAsertTarget_inRange:
  "goodParams params \<Longrightarrow> targetInRange params (calcNextAsertTarget lastNode (PowLimit params))"
  by (auto simp: calcNextAsertTarget_def calcASERT_def Let_def intro: applyTargetFloor_inRange split: option.splits)

lemma calcNextWtemaTarget_inRange:
  assumes "goodParams params"
  obtains t where "calcNextWtemaTarget lastNode parentNode params = Some t" "targetInRange params t"
proof -
  have "0 < go_div (WTEMAHalfLife params) Second"
    using assms by (simp add: goodParams_def Second_def go_div_nonneg pos_imp_zdiv_pos_iff)
  then show ?thesis
    using assms that by (auto simp: calcNextWtemaTarget_def bigDiv_def Let_def targetInRange_def goodParams_def)
qed

text \<open>
  C19. On a network with sane parameters (as all the networks of the code are) the required difficulty is computed
  without a panic, and as a target it lies between 1 and the limit of the network; the target of a genesis block,
  which the rule may return unchanged, is assumed to.
\<close>

theorem calcNextRequiredDifficulty_inRange:
  assumes "goodParams params"
    and "\<forall>n. lastNode = Some n \<longrightarrow> parent n = None \<longrightarrow> targetInRange params (CompactToBig (nbits (nfields n)))"
  shows "\<exists>bits. calcNextRequiredDifficulty lastNode newBlockTime params = Some bits \<and>
    targetInRange params (CompactToBig bits)"
proof -
  have lim: "targetInRange params (CompactToBig (PowLimitBits params))"
    "\<not> (ReduceMinDifficulty params \<and> Net params = MainNet)" using assms(1) by (simp_all add: goodParams_def)
  show ?thesis
  proof (cases lastNode)
    case None
    then show ?thesis using lim by (simp add: calcNextRequiredDifficulty_def)
  next
    case (Some n)
    have asert: "targetInRange params (CompactToBig (BigToCompact (calcNextAsertTarget n (PowLimit params))))"
      using assms(1) by (intro compact_targetInRange calcNextAsertTarget_inRange)
    show ?thesis
    proof (cases "parent n")
      case None
      with Some assms(2) lim asert show ?thesis by (auto simp: calcNextRequiredDifficulty_def)
    next
      case (Some p)
      obtain t where t: "calcNextWtemaTarget n p params = Some t" "targetInRange params t"
        using assms(1) by (rule calcNextWtemaTarget_inRange)
      have "targetInRange params (CompactToBig (BigToCompact t))" using assms(1) t(2) by (rule compact_targetInRange)
      with Some \<open>lastNode = Some n\<close> t(1) lim asert show ?thesis by (auto simp: calcNextRequiredDifficulty_def)
    qed
  qed
qed

theorem calcNextRequiredDifficulty_inRange_witness:
  "goodParams MainNetParams \<and>
   (\<exists>bits. calcNextRequiredDifficulty (Some exampleTip) 0 MainNetParams = Some bits \<and>
      targetInRange MainNetParams (CompactToBig bits))"
  using calcNextRequiredDifficulty_inRange [OF goodParams_networks(1), of "Some exampleTip" 0] goodParams_networks(1)
  by simp

section \<open>The checkpoint bound and the ASERT schedule\<close>

text \<open>
  Chains whose blocks obey the rules on difficulty and time of \<open>CheckBlockHeaderContext\<close>: the difficulty is the required one, and the
  time is at least \<open>MinTimestampDeltaSeconds\<close> after that of the parent.  The rules on checkpoints
  there are left out, so the blocks at the heights of the configured checkpoints may have other hashes.
\<close>

definition MinTimestampDeltaSeconds :: int where "MinTimestampDeltaSeconds = 1"

definition minTimestamp :: "blockNode \<Rightarrow> int" where
  "minTimestamp prevNode = unixTime (timestamp (nfields prevNode)) + MinTimestampDeltaSeconds * Second"

inductive valid_chain :: "Params \<Rightarrow> blockNode \<Rightarrow> bool" for params where
  start: "valid_chain params (newBlockNode header None sz)"
| block: "valid_chain params p \<Longrightarrow> node_height p + 1 < 2 ^ 31 \<Longrightarrow>
     calcNextRequiredDifficulty (Some p) (Timestamp header) params = Some (Bits header) \<Longrightarrow>
     minTimestamp p \<le> Timestamp header \<Longrightarrow> valid_chain params (newBlockNode header (Some p) sz)"

lemma valid_chain_node: "valid_chain params n \<Longrightarrow> chain_node n"
  by (induction rule: valid_chain.induct) (auto intro: chain_node.intros)

text \<open>A chain that is exactly on schedule: one block every 194 seconds, all of the same difficulty.\<close>

definition timedHeader :: "int \<Rightarrow> 32 word \<Rightarrow> BlockHeader" where
  "timedHeader s bits = (exampleHeader s)\<lparr>Bits := bits\<rparr>"

lemma timedHeader_fields [simp]:
  "Unix (Timestamp (timedHeader s bits)) = s" "Timestamp (timedHeader s bits) = unixTime s" "Bits (timedHeader s bits) = bits"
  by (simp_all add: timedHeader_def exampleHeader_def Unix_def unixTime_def)

primrec steadyNode :: "nat \<Rightarrow> blockNode" where
  "steadyNode 0 = newBlockNode (timedHeader 0 0x1a00ffff) None 0"
| "steadyNode (Suc k) = newBlockNode (timedHeader (194 * int (Suc k)) 0x1a00ffff) (Some (steadyNode k)) 0"

lemma steadyNode_fields [simp]:
  "timestamp (nfields (steadyNode k)) = 194 * int k" "nbits (nfields (steadyNode k)) = 0x1a00ffff"
  by (cases k; simp del: of_nat_Suc)+

lemma steadyNode_height: "k < 20000 \<Longrightarrow> node_height (steadyNode k) = int k"
proof (induction k)
  case 0
  then show ?case by simp
next
  case (Suc k)
  then show ?case by (simp add: newBlockNode_extend(3) int32_id)
qed

lemma steadyNode_parent: "parent (steadyNode (Suc k)) = Some (steadyNode k)"
  by (simp add: newBlockNode_extend(1))

lemma steadyNode_nthParent: "nthParent j (steadyNode (i + j)) = Some (steadyNode i)"
  by (induction j) (simp_all add: newBlockNode_extend(1))

lemma steadyNode_chain: "k < 20000 \<Longrightarrow> chain_node (steadyNode k)"
  by (induction k) (auto intro!: chain_node.intros simp: steadyNode_height)

lemma steadyNode_ancestor:
  assumes "i \<le> k" "k < 20000"
  shows "Ancestor (steadyNode k) (int i) = Some (steadyNode i)"
proof -
  have "linked (steadyNode k)" using assms(2) by (intro chain_node_linked steadyNode_chain)
  moreover have "nat (int k - int i) = k - i" using assms(1) by simp
  ultimately show ?thesis
    using assms steadyNode_nthParent [of "k - i" i] by (simp add: Ancestor_linked steadyNode_height)
qed

text \<open>The ASERT target after a node on a chain whose first 17,000 blocks are on schedule.\<close>

lemma asert_after_steady:
  assumes "15860 \<le> k" "k < 17500" "node_height n = int k" "Ancestor n 15860 = Some (steadyNode 15860)"
    "0 \<le> timestamp (nfields n)" "timestamp (nfields n) < 2 ^ 32"
  shows "calcNextAsertTarget n powLimit =
    calcASERT (CompactToBig 0x1a00ffff) 194 (timestamp (nfields n) - 194 * 15859) (int k - 15860) powLimit 18624"
proof -
  have par: "parent (steadyNode 15860) = Some (steadyNode 15859)"
    using steadyNode_parent [of 15859] by (simp del: steadyNode.simps)
  have h: "node_height (steadyNode 15860) = 15860" by (simp add: steadyNode_height del: steadyNode.simps)
  have anchor: "(if int32 (int k - 15860) > 0 then RelativeAncestor n (int32 (int k - 15860)) else Some n)
    = Some (steadyNode 15860)"
  proof (cases "k = 15860")
    case True
    with assms(3,4) have "Some n = Some (steadyNode 15860)" by (simp add: Ancestor_def ancestorLoop.simps(2))
    with True show ?thesis by (simp add: int32_id)
  next
    case False
    with assms show ?thesis by (simp add: RelativeAncestor_def int32_id)
  qed
  have "int64 (timestamp (nfields n) - 194 * 15859) = timestamp (nfields n) - 194 * 15859"
    using assms(5,6) by (intro int64_id) simp_all
  with assms(1,2,3) anchor par h show ?thesis
    by (simp add: calcNextAsertTarget_def Let_def colossusReanchorBlock_def colossusAuxPowActivationBlock_def
        colossusTargetBlockTime_def colossusASERTHalflife_def int32_id del: steadyNode.simps)
qed

declare steadyNode.simps [simp del]

lemma calcNextAsert_required:
  assumes "15860 \<le> node_height n"
  shows "calcNextRequiredDifficulty (Some n) t MainNetParams = Some (BigToCompact (calcNextAsertTarget n mainPowLimit))"
  using assms by (simp add: calcNextRequiredDifficulty_def MainNetParams_def colossusAuxPowActivationBlock_def)

lemma steady_bits: "BigToCompact (CompactToBig 0x1a00ffff) = 0x1a00ffff" "0 < CompactToBig 0x1a00ffff"
  "CompactToBig 0x1a00ffff \<le> mainPowLimit"
  by code_simp+

lemma steady_required:
  assumes "k < 17500"
  shows "calcNextRequiredDifficulty (Some (steadyNode k)) t MainNetParams = Some 0x1a00ffff"
proof -
  have h: "node_height (steadyNode k) = int k" using assms by (simp add: steadyNode_height)
  consider "k = 0" | j where "k = Suc j" "k < 15860" | "15860 \<le> k" by (cases k) (auto, linarith)
  then show ?thesis
  proof cases
    case 1
    then show ?thesis
      by (simp add: calcNextRequiredDifficulty_def MainNetParams_def h colossusAuxPowActivationBlock_def steadyNode.simps(1))
  next
    case (2 j)
    have "calcNextWtemaTarget (steadyNode k) (steadyNode j) MainNetParams = Some (CompactToBig 0x1a00ffff)"
      using 2 steady_bits
      by (simp add: calcNextWtemaTarget_def bigDiv_def MainNetParams_def Second_def Minute_def Hour_def go_div_nonneg int64_id)
    moreover have "parent (steadyNode k) = Some (steadyNode j)" using 2 by (simp add: steadyNode_parent)
    moreover have "node_height (steadyNode k) < colossusAuxPowActivationBlock" "\<not> PoWNoRetargeting MainNetParams"
      "\<not> ReduceMinDifficulty MainNetParams"
      using h 2 by (simp_all add: colossusAuxPowActivationBlock_def MainNetParams_def)
    ultimately show ?thesis by (simp add: calcNextRequiredDifficulty_def steady_bits)
  next
    case 3
    have "calcNextAsertTarget (steadyNode k) mainPowLimit =
      calcASERT (CompactToBig 0x1a00ffff) 194 (194 * int k - 194 * 15859) (int k - 15860) mainPowLimit 18624"
      using asert_after_steady [OF 3 assms h] steadyNode_ancestor [of 15860 k] 3 assms by simp
    also have "\<dots> = applyTargetFloor (CompactToBig 0x1a00ffff) mainPowLimit"
    proof -
      have "asertInRange 194 (194 * int k - 194 * 15859) (int k - 15860)" using 3 assms by (simp add: asertInRange_def)
      moreover have "asertDeviation 194 (194 * int k - 194 * 15859) (int k - 15860) = 0" by (simp add: asertDeviation_def)
      ultimately show ?thesis by (simp add: calcASERT_eq go_div_def asertTarget_zero)
    qed
    also have "\<dots> = CompactToBig 0x1a00ffff" using steady_bits by (simp add: applyTargetFloor_def)
    finally show ?thesis using 3 h steady_bits by (simp add: calcNextAsert_required)
  qed
qed

lemma minTimestamp_eq: "minTimestamp n = unixTime (timestamp (nfields n) + 1)"
  by (simp add: minTimestamp_def MinTimestampDeltaSeconds_def Second_def unixTime_def)

lemma steady_valid: "k < 17500 \<Longrightarrow> valid_chain MainNetParams (steadyNode k)"
proof (induction k)
  case 0
  then show ?case by (simp add: valid_chain.start steadyNode.simps(1))
next
  case (Suc k)
  then show ?case
    by (auto intro!: valid_chain.block
        simp: steady_required steadyNode_height steadyNode.simps(2) minTimestamp_eq unixTime_def)
qed

text \<open>
  After the block at height 17,000 the next one is four half-lives late (a little under 21 hours); the chain then
  requires sixteen times the target.
\<close>

definition lateNode :: blockNode where
  "lateNode = newBlockNode (timedHeader (194 * 17001 + 4 * 18624) 0x1a00ffff) (Some (steadyNode 17000)) 0"

definition honestHeader :: BlockHeader where
  "honestHeader = timedHeader (194 * 17002 + 4 * 18624) 0x1a0ffff0"

lemma lateNode_valid: "valid_chain MainNetParams lateNode"
  unfolding lateNode_def
  by (auto intro!: valid_chain.block steady_valid simp: steady_required steadyNode_height minTimestamp_eq unixTime_def)

lemma lateNode_height: "node_height lateNode = 17001"
  by (simp add: lateNode_def newBlockNode_extend(3) steadyNode_height int32_id)

lemma lateNode_ancestor:
  assumes "i \<le> 17000"
  shows "Ancestor lateNode (int i) = Some (steadyNode i)"
proof -
  have l: "linked lateNode" using lateNode_valid by (intro chain_node_linked valid_chain_node)
  have "nthParent (Suc (17000 - i)) lateNode = nthParent (17000 - i) (steadyNode 17000)"
    by (simp add: lateNode_def newBlockNode_extend(1))
  also have "\<dots> = Some (steadyNode i)" using steadyNode_nthParent [of "17000 - i" i] assms by simp
  also have "Suc (17000 - i) = nat (17001 - int i)" using assms by simp
  finally show ?thesis using assms by (simp add: Ancestor_linked [OF l] lateNode_height)
qed

lemma lateNode_required: "calcNextRequiredDifficulty (Some lateNode) t MainNetParams = Some 0x1a0ffff0"
proof -
  have t: "timestamp (nfields lateNode) = 194 * 17001 + 4 * 18624" by (simp add: lateNode_def)
  have "calcNextAsertTarget lateNode mainPowLimit =
    calcASERT (CompactToBig 0x1a00ffff) 194 (194 * 17001 + 4 * 18624 - 194 * 15859) (17001 - 15860) mainPowLimit 18624"
    using asert_after_steady [of 17001 lateNode mainPowLimit] lateNode_ancestor [of 15860] by (simp add: lateNode_height t)
  also have "BigToCompact \<dots> = 0x1a0ffff0" by code_simp
  finally show ?thesis by (simp add: calcNextAsert_required lateNode_height)
qed

lemma late_time: "minTimestamp lateNode \<le> Timestamp honestHeader"
  by (simp add: minTimestamp_eq lateNode_def honestHeader_def unixTime_def Unix_def)

lemma late_checkpoint: "checkAgainstCheckpoint MainNetParams (steadyNode 17000) (Some lateNode) honestHeader False
    = Inl (RuleError ErrDifficultyTooLow)"
proof -
  have d: "timeSub (Timestamp honestHeader) (unixTime (194 * 17000)) = 74884 * Second"
    by (simp add: timeSub_def honestHeader_def unixTime_def Second_def)
  have "calcEasiestDifficulty MainNetParams 0x1a00ffff (74884 * Second) = Some 0x1a02b7fd"
    by code_simp
  moreover have "CompactToBig 0x1a0ffff0 > CompactToBig 0x1a02b7fd" by code_simp
  moreover have "\<not> Timestamp honestHeader < unixTime (194 * 17000)" "Bits honestHeader = 0x1a0ffff0"
    by (simp_all add: honestHeader_def unixTime_def)
  moreover have "timestamp (nfields (steadyNode 17000)) = 194 * 17000" by simp
  moreover have "\<not> int32 (node_height lateNode + 1) < node_height (steadyNode 17000)"
    by (simp add: lateNode_height steadyNode_height int32_id)
  ultimately show ?thesis
    by (simp only: checkAgainstCheckpoint_def Let_def d steadyNode_fields(2) option.case guardE_def if_True if_False
        bindE_simps simp_thms)
qed

text \<open>
  C25. The bound on the difficulty of blocks after a checkpoint is the bound of the first-phase rule and is wrong for
  the ASERT rule that has replaced it: there is a chain in which every block has exactly the difficulty and a time the
  rules demand, and a next block with exactly the required difficulty, which the checkpoint test rejects as too easy.
  The chain is on schedule up to the height 17,000 of the last checkpoint; the next block takes four half-lives.  Its block of that
  height stands for the checkpoint: the headers are made up, and do not hash to the checkpoints of the main network.
\<close>

theorem checkpoint_bound_rejects_required_difficulty:
  "\<exists>lastNode checkpointNode header.
     valid_chain MainNetParams lastNode \<and> Ancestor lastNode 17000 = Some checkpointNode \<and>
     calcNextRequiredDifficulty (Some lastNode) (Timestamp header) MainNetParams = Some (Bits header) \<and>
     minTimestamp lastNode \<le> Timestamp header \<and>
     checkAgainstCheckpoint MainNetParams checkpointNode (Some lastNode) header False
       = Inl (RuleError ErrDifficultyTooLow)"
proof (intro exI conjI)
  show "Ancestor lateNode 17000 = Some (steadyNode 17000)" using lateNode_ancestor [of 17000] by simp
  show "calcNextRequiredDifficulty (Some lateNode) (Timestamp honestHeader) MainNetParams = Some (Bits honestHeader)"
    by (simp add: lateNode_required honestHeader_def)
qed (rule lateNode_valid late_time late_checkpoint)+

end
