(* ===== verification/Chain_View.thy ===== *)
theory Chain_View
  imports Block_Index Chain_Params
begin

text \<open>
  The view of one chain of the block tree (\<^verbatim>\<open>node/blockchain/chainview.go\<close>): the nodes from the genesis block to a tip, by
  height; switching to another tip, finding the fork point with another branch, and block locators.

  A node is compared by identity in the code and as a value here; the index holds one node per block.  The capacity of the
  slice of nodes is not modelled: both ways of resizing it keep the nodes that fit and fill up with nil.
\<close>

section \<open>The view\<close>

record chainView =
  cnodes :: "blockNode option list"

definition genesis :: "chainView \<Rightarrow> blockNode option" where
  "genesis c = (if length (cnodes c) = 0 then None else cnodes c ! 0)"

definition tip :: "chainView \<Rightarrow> blockNode option" where
  "tip c = (if length (cnodes c) = 0 then None else cnodes c ! (length (cnodes c) - 1))"

text \<open>The loop of \<open>setTip\<close>; \<open>None\<close> is an index out of range.\<close>

function setTipLoop :: "blockNode option list \<Rightarrow> blockNode option \<Rightarrow> blockNode option list option" where
  "setTipLoop ns None = Some ns"
| "setTipLoop ns (Some node) =
     (if node_height node < 0 \<or> node_height node \<ge> int (length ns) then None
      else if ns ! nat (node_height node) = Some node then Some ns
      else setTipLoop (ns[nat (node_height node) := Some node]) (parent node))"
  by pat_completeness auto
termination by (relation "measure (\<lambda>(_, n). case n of None \<Rightarrow> 0 | Some m \<Rightarrow> Suc (size m))") (auto split: option.splits dest: size_parent)

definition setTip :: "chainView \<Rightarrow> blockNode option \<Rightarrow> chainView option" where
  "setTip c nodeOpt = (case nodeOpt of
     None \<Rightarrow> Some (c\<lparr>cnodes := []\<rparr>)
   | Some node \<Rightarrow>
       let needed = nat (int32 (node_height node + 1));
           resized = take needed (cnodes c) @ replicate (needed - length (cnodes c)) None
       in map_option (\<lambda>ns. c\<lparr>cnodes := ns\<rparr>) (setTipLoop resized (Some node)))"

definition newChainView :: "blockNode option \<Rightarrow> chainView option" where
  "newChainView node = setTip \<lparr>cnodes = []\<rparr> node"

definition chainHeight :: "chainView \<Rightarrow> int" where
  "chainHeight c = int32 (int (length (cnodes c)) - 1)"

definition nodeByHeight :: "chainView \<Rightarrow> int \<Rightarrow> blockNode option" where
  "nodeByHeight c h = (if h < 0 \<or> h \<ge> int32 (int (length (cnodes c))) then None else cnodes c ! nat h)"

definition chainView_Equals :: "chainView \<Rightarrow> chainView \<Rightarrow> bool" where
  "chainView_Equals c other \<longleftrightarrow> length (cnodes c) = length (cnodes other) \<and> tip c = tip other"

definition contains :: "chainView \<Rightarrow> blockNode \<Rightarrow> bool" where
  "contains c node \<longleftrightarrow> nodeByHeight c (node_height node) = Some node"

definition chainNext :: "chainView \<Rightarrow> blockNode option \<Rightarrow> blockNode option" where
  "chainNext c nodeOpt = (case nodeOpt of
     None \<Rightarrow> None
   | Some node \<Rightarrow> if \<not> contains c node then None else nodeByHeight c (int32 (node_height node + 1)))"

function forkLoop :: "chainView \<Rightarrow> blockNode option \<Rightarrow> blockNode option" where
  "forkLoop c None = None"
| "forkLoop c (Some node) = (if contains c node then Some node else forkLoop c (parent node))"
  by pat_completeness auto
termination by (relation "measure (\<lambda>(_, n). case n of None \<Rightarrow> 0 | Some m \<Rightarrow> Suc (size m))") (auto split: option.splits dest: size_parent)

definition findFork :: "chainView \<Rightarrow> blockNode option \<Rightarrow> blockNode option" where
  "findFork c nodeOpt = (case nodeOpt of
     None \<Rightarrow> None
   | Some node \<Rightarrow>
       forkLoop c (if node_height node > chainHeight c then Ancestor node (chainHeight c) else Some node))"

section \<open>Locators\<close>

definition log2FloorMasks :: "32 word list" where
  "log2FloorMasks = [0xffff0000, 0xff00, 0xf0, 0xc, 0x2]"

text \<open>The state of the loop: the result, the rest of the number and the exponent.\<close>

definition fastLog2Floor :: "32 word \<Rightarrow> nat" where
  "fastLog2Floor n =
     fst (foldl (\<lambda>(rv, n, exponent) m.
            let (rv, n) = (if n AND m \<noteq> 0 then (rv + exponent, drop_bit exponent n) else (rv, n))
            in (rv, n, exponent div 2)) (0, n, 16 :: nat) log2FloorMasks)"

definition maxEntries :: "int \<Rightarrow> nat" where
  "maxEntries h = (if h \<le> 12 then nat h + 1 else 12 + fastLog2Floor (word_of_int h - 10))"

partial_function (option) locatorLoop ::
  "chainView \<Rightarrow> blockNode option \<Rightarrow> int \<Rightarrow> hash list \<Rightarrow> (chainError, hash list) result option" where
  "locatorLoop c nodeOpt step locator = (case nodeOpt of
     None \<Rightarrow> Some (Inr locator)
   | Some node \<Rightarrow>
       let locator = locator @ [nhash (nfields node)] in
       if node_height node = 0 then Some (Inr locator)
       else let h = int32 (node_height node - step);
                h = (if h < 0 then 0 else h);
                step' = (if length locator > 10 then int32 (step * 2) else step) in
         if contains c node
         then if h \<ge> int (length (cnodes c)) then Some (Inl GoPanic)
              else locatorLoop c (cnodes c ! nat h) step' locator
         else locatorLoop c (Ancestor node h) step' locator)"

text \<open>The empty locator stands for nil; a loop that does not end is \<open>None\<close>.\<close>

definition blockLocator :: "chainView \<Rightarrow> blockNode option \<Rightarrow> (chainError, hash list) result option" where
  "blockLocator c nodeOpt =
     (let node = (if nodeOpt = None then tip c else nodeOpt) in
      if node = None then Some (Inr []) else locatorLoop c node 1 [])"

section \<open>Chains\<close>

lemma chain_node_parent:
  assumes "chain_node n" "parent n = Some p"
  shows "chain_node p" "node_height n = node_height p + 1"
proof -
  have "chain_node p \<and> node_height n = node_height p + 1" using assms
  proof (cases rule: chain_node.cases)
    case (extend q header sz)
    then have "p = q" using assms(2) by (simp add: newBlockNode_extend)
    moreover have "0 \<le> node_height q" using chain_node_linked [OF extend(2)] by (simp add: linked_def)
    ultimately show ?thesis using extend by (simp add: newBlockNode_extend int32_id)
  qed (use assms(2) in simp)
  then show "chain_node p" "node_height n = node_height p + 1" by simp_all
qed

lemma chain_node_root: "chain_node n \<Longrightarrow> parent n = None \<Longrightarrow> node_height n = 0"
  by (erule chain_node.cases) (simp_all add: newBlockNode_extend)

lemma chain_node_height: "chain_node n \<Longrightarrow> 0 \<le> node_height n \<and> node_height n < 2 ^ 31"
  using chain_node_linked [of n] by (simp add: linked_def)

lemma chain_induct [consumes 1, case_names root child]:
  assumes "chain_node n"
    and "\<And>n. chain_node n \<Longrightarrow> parent n = None \<Longrightarrow> node_height n = 0 \<Longrightarrow> P n"
    and "\<And>n p. chain_node n \<Longrightarrow> parent n = Some p \<Longrightarrow> chain_node p \<Longrightarrow> node_height n = node_height p + 1 \<Longrightarrow> P p \<Longrightarrow> P n"
  shows "P n"
  using assms(1)
proof (induction "size n" arbitrary: n rule: less_induct)
  case less
  show ?case
  proof (cases "parent n")
    case None
    show ?thesis by (rule assms(2) [OF less.prems None chain_node_root [OF less.prems None]])
  next
    case (Some p)
    note p = chain_node_parent [OF less.prems Some]
    show ?thesis by (rule assms(3) [OF less.prems Some p less.hyps [OF size_parent [OF Some] p(1)]])
  qed
qed

lemma Ancestor_parent:
  assumes "chain_node n" "parent n = Some p" "h \<le> node_height p"
  shows "Ancestor n h = Ancestor p h"
proof -
  note p = chain_node_parent [OF assms(1,2)]
  have "nat (node_height n - h) = Suc (nat (node_height p - h))" if "0 \<le> h" using p assms(3) that by simp
  then show ?thesis using assms(2,3) p
    by (simp add: Ancestor_linked [OF chain_node_linked [OF assms(1)]] Ancestor_linked [OF chain_node_linked [OF p(1)]])
qed

lemma Ancestor_self [simp]: "chain_node n \<Longrightarrow> Ancestor n (node_height n) = Some n"
  using chain_node_height [of n] by (simp add: Ancestor_linked chain_node_linked)

lemma Ancestor_chain:
  assumes "chain_node n" "0 \<le> h" "h \<le> node_height n"
  obtains m where "Ancestor n h = Some m" "chain_node m" "node_height m = h"
proof -
  have "\<exists>m. Ancestor n h = Some m \<and> chain_node m \<and> node_height m = h" using assms
  proof (induction arbitrary: h rule: chain_induct)
    case (root n)
    then show ?case using Ancestor_self [OF root(1)] by auto
  next
    case (child n p)
    then show ?case
      using Ancestor_self [OF child(1)] Ancestor_parent [OF child(1,2), of h] by (cases "h = node_height n") auto
  qed
  then show thesis using that by blast
qed

lemma Ancestor_None: "chain_node n \<Longrightarrow> \<not> (0 \<le> h \<and> h \<le> node_height n) \<Longrightarrow> Ancestor n h = None"
  by (auto simp: Ancestor_def)

text \<open>An ancestor of an ancestor is an ancestor.\<close>

lemma Ancestor_trans:
  assumes "chain_node n" "Ancestor n h = Some m" "h' \<le> h"
  shows "Ancestor m h' = Ancestor n h'"
  using assms
proof (induction arbitrary: h m rule: chain_induct)
  case (root n)
  then have "h = 0" by (auto simp: Ancestor_def split: if_splits)
  then show ?case using root Ancestor_self [OF root(1)] by simp
next
  case (child n p)
  have h: "0 \<le> h" "h \<le> node_height n" using child.prems(1) by (auto simp: Ancestor_def split: if_splits)
  show ?case
  proof (cases "h = node_height n")
    case True
    then show ?thesis using child Ancestor_self [OF child(1)] by simp
  next
    case False
    then have "h \<le> node_height p" using h child(4) by simp
    then show ?thesis using child Ancestor_parent [OF child(1,2)] by simp
  qed
qed

text \<open>The nodes from the genesis block to a tip.\<close>

definition chainOf :: "blockNode \<Rightarrow> blockNode option list" where
  "chainOf t = map (\<lambda>i. Ancestor t (int i)) [0..<Suc (nat (node_height t))]"

lemma length_chainOf [simp]: "length (chainOf t) = Suc (nat (node_height t))"
  by (simp add: chainOf_def)

lemma chainOf_nth: "i \<le> nat (node_height t) \<Longrightarrow> chainOf t ! i = Ancestor t (int i)"
  unfolding chainOf_def by (subst nth_map) (simp_all del: upt_Suc)

lemma chainOf_child:
  assumes "chain_node n" "parent n = Some p"
  shows "chainOf n = chainOf p @ [Some n]"
proof -
  note p = chain_node_parent [OF assms] chain_node_height
  have h: "nat (node_height n) = Suc (nat (node_height p))" using p(2) p(3) [OF p(1)] by (simp add: Suc_nat_eq_nat_zadd1 add.commute)
  show ?thesis
  proof (rule nth_equalityI)
    fix i assume "i < length (chainOf n)"
    then consider "i = nat (node_height n)" | "i \<le> nat (node_height p)" using h by fastforce
    then show "chainOf n ! i = (chainOf p @ [Some n]) ! i"
    proof cases
      case 1
      then show ?thesis using Ancestor_self [OF assms(1)] p(2) p(3) [OF p(1)] h by (simp add: chainOf_nth nth_append add.commute)
    next
      case 2
      then show ?thesis using h p(3) [OF p(1)] Ancestor_parent [OF assms, of "int i"] 
        by (simp add: chainOf_nth nth_append less_Suc_eq_le le_nat_iff)
    qed
  qed (simp add: h)
qed

lemma chainOf_root: "chain_node n \<Longrightarrow> parent n = None \<Longrightarrow> chainOf n = [Some n]"
  using Ancestor_self [of n] chain_node_root [of n] by (simp add: chainOf_def)

section \<open>Switching tips\<close>

declare setTipLoop.simps [simp del] forkLoop.simps [simp del]

lemma setTipLoop_chain:
  assumes "chain_node n" "nat (node_height n) < length ns"
    and "old = None \<or> (\<exists>t. old = Some t \<and> chain_node t)"
    and "\<And>i. i \<le> nat (node_height n) \<Longrightarrow> ns ! i = (case old of None \<Rightarrow> None | Some t \<Rightarrow> Ancestor t (int i))"
  shows "setTipLoop ns (Some n) = Some (chainOf n @ drop (Suc (nat (node_height n))) ns)"
  using assms(1,2,4)
proof (induction arbitrary: ns rule: chain_induct)
  case (root n)
  obtain x xs where ns: "ns = x # xs" using root.prems(1) by (cases ns) auto
  then show ?case using root chainOf_root [OF root(1,2)] by (simp add: setTipLoop.simps)
next
  case (child n p)
  have hp: "0 \<le> node_height p" "node_height n = node_height p + 1" using chain_node_height [OF child(3)] child(4) by simp_all
  then have h: "nat (node_height n) = Suc (nat (node_height p))" by (simp add: Suc_nat_eq_nat_zadd1 add.commute)
  have r: "\<not> (node_height n < 0 \<or> int (length ns) \<le> node_height n)" using hp child.prems(1) by linarith
  show ?case
  proof (cases "ns ! nat (node_height n) = Some n")
    case True
    then obtain t where t: "old = Some t" "Ancestor t (node_height n) = Some n" "chain_node t"
      using child.prems(2) [of "nat (node_height n)"] hp assms(3) by auto
    have "take (Suc (nat (node_height n))) ns = chainOf n"
      using child.prems Ancestor_trans [OF t(3,2)] t(1) by (intro nth_equalityI) (auto simp: chainOf_nth less_Suc_eq_le le_nat_iff hp)
    then have "ns = chainOf n @ drop (Suc (nat (node_height n))) ns" by (metis append_take_drop_id)
    then show ?thesis using True r by (simp add: setTipLoop.simps(2) [of ns n])
  next
    case False
    let ?ns = "ns[nat (node_height n) := Some n]"
    have "setTipLoop ?ns (Some p) = Some (chainOf p @ drop (Suc (nat (node_height p))) ?ns)"
      using child.prems h by (intro child.IH) simp_all
    also have "drop (Suc (nat (node_height p))) ?ns = Some n # drop (Suc (nat (node_height n))) ns"
      using child.prems(1) h by (simp add: Cons_nth_drop_Suc [symmetric] drop_update_cancel)
    finally show ?thesis
      unfolding setTipLoop.simps(2) [of ns n] using False r child(1,2) by (simp add: chainOf_child)
  qed
qed


lemma setTip_chain:
  assumes "chain_node n" "node_height n < 2 ^ 31 - 1" "cnodes c = [] \<or> (\<exists>t. chain_node t \<and> cnodes c = chainOf t)"
  shows "setTip c (Some n) = Some (c\<lparr>cnodes := chainOf n\<rparr>)"
proof -
  let ?h = "nat (node_height n)"
  obtain old where old: "old = None \<and> cnodes c = [] \<or> (\<exists>t. old = Some t \<and> chain_node t \<and> cnodes c = chainOf t)"
    using assms(3) by blast
  have n: "0 \<le> node_height n" "node_height n < 2 ^ 31" using chain_node_height [OF assms(1)] by simp_all
  have need: "nat (int32 (node_height n + 1)) = Suc ?h" using n assms(2) by (simp add: int32_id Suc_nat_eq_nat_zadd1 add.commute)
  define ns where "ns = take (Suc ?h) (cnodes c) @ replicate (Suc ?h - length (cnodes c)) None"
  have len: "length ns = Suc ?h" by (simp add: ns_def)
  have "ns ! i = (case old of None \<Rightarrow> None | Some t \<Rightarrow> Ancestor t (int i))" if "i \<le> ?h" for i
    using old
  proof (elim disjE exE conjE)
    fix t assume t: "old = Some t" "chain_node t" "cnodes c = chainOf t"
    show ?thesis
    proof (cases "i \<le> nat (node_height t)")
      case True
      then show ?thesis using t that by (simp add: ns_def nth_append chainOf_nth less_Suc_eq_le)
    next
      case False
      then have "Ancestor t (int i) = None" using chain_node_height [OF t(2)] by (intro Ancestor_None t(2)) (simp add: le_nat_iff)
      then show ?thesis using t that False by (simp add: ns_def nth_append)
    qed
  qed (use that in \<open>simp add: ns_def del: replicate_Suc\<close>)
  then have "setTipLoop ns (Some n) = Some (chainOf n @ drop (Suc ?h) ns)"
    using old len assms(1) by (intro setTipLoop_chain [where old = old]) auto
  then show ?thesis using len need by (simp add: setTip_def Let_def ns_def [symmetric])
qed

section \<open>Fork points\<close>

lemma contains_chainOf:
  assumes "cnodes c = chainOf t" "chain_node t" "node_height t < 2 ^ 31 - 1" "chain_node n"
  shows "contains c n \<longleftrightarrow> Ancestor t (node_height n) = Some n"
proof -
  have t: "0 \<le> node_height t" and n: "0 \<le> node_height n" using chain_node_height assms(2,4) by auto
  have len: "int32 (int (length (cnodes c))) = node_height t + 1" using t assms(1,3) by (simp add: int32_id)
  show ?thesis
  proof (cases "node_height n \<le> node_height t")
    case True
    then have "cnodes c ! nat (node_height n) = Ancestor t (node_height n)" using n t assms(1) by (simp add: chainOf_nth nat_mono)
    then show ?thesis using True n by (simp add: contains_def nodeByHeight_def len)
  next
    case False
    then show ?thesis using Ancestor_None [OF assms(2), of "node_height n"] by (simp add: contains_def nodeByHeight_def len)
  qed
qed

lemma forkLoop_highest:
  assumes "chain_node n" "\<And>m. chain_node m \<Longrightarrow> contains c m \<longleftrightarrow> Ancestor t (node_height m) = Some m"
  shows "case forkLoop c (Some n) of
      None \<Rightarrow> \<forall>m. Ancestor n (node_height m) = Some m \<longrightarrow> Ancestor t (node_height m) \<noteq> Some m
    | Some f \<Rightarrow> Ancestor n (node_height f) = Some f \<and> Ancestor t (node_height f) = Some f \<and>
        (\<forall>m. Ancestor n (node_height m) = Some m \<and> Ancestor t (node_height m) = Some m \<longrightarrow> node_height m \<le> node_height f)"
  using assms(1)
proof (induction rule: chain_induct)
  case (root n)
  have "m = n" if "Ancestor n (node_height m) = Some m" for m
    using that root Ancestor_self [OF root(1)] Ancestor_None [OF root(1), of "node_height m"]
    by (cases "node_height m = 0") auto
  then show ?case using assms(2) [OF root(1)] Ancestor_self [OF root(1)] root(2)
    by (auto simp: forkLoop.simps split: option.splits)
next
  case (child n p)
  show ?case
  proof (cases "contains c n")
    case True
    have "node_height m \<le> node_height n" if "Ancestor n (node_height m) = Some m" for m
      using that Ancestor_None [OF child(1), of "node_height m"] by auto
    then show ?thesis using True assms(2) [OF child(1)] Ancestor_self [OF child(1)] by (simp add: forkLoop.simps)
  next
    case False
    have anc: "Ancestor n (node_height m) = Some m \<longleftrightarrow> (m = n \<or> Ancestor p (node_height m) = Some m)" for m
    proof (cases "node_height m \<le> node_height p")
      case True
      then show ?thesis using Ancestor_parent [OF child(1,2) True] child(4) by auto
    next
      case False
      then show ?thesis using child(4) Ancestor_self [OF child(1)] Ancestor_None [OF child(1), of "node_height m"]
          Ancestor_None [OF child(3), of "node_height m"] by (cases "node_height m = node_height n") auto
    qed
    have "forkLoop c (Some n) = forkLoop c (Some p)" using False child(2) by (simp add: forkLoop.simps(2) [of c n])
    then show ?thesis using child.IH False assms(2) [OF child(1)] unfolding anc by (auto split: option.splits)
  qed
qed

text \<open>
  C18. Switching the view of a chain to another tip is exact: whatever chain the view held, if any, it afterwards holds the
  blocks from the genesis block to the new tip, each at its height, although the update stops at the first block both chains
  share.
\<close>

theorem setTip_exact:
  assumes "chain_node n" "node_height n < 2 ^ 31 - 1" "cnodes c = [] \<or> (\<exists>t. chain_node t \<and> cnodes c = chainOf t)"
  shows "setTip c (Some n) = Some (c\<lparr>cnodes := chainOf n\<rparr>)"
  by (rule setTip_chain [OF assms])

theorem setTip_exact_witness:
  "newChainView (Some exampleTip) = Some \<lparr>cnodes = chainOf exampleTip\<rparr>"
proof -
  have "node_height exampleTip = 1" by (simp add: exampleTip_def newBlockNode_extend int32_id)
  then show ?thesis using setTip_exact [OF exampleTip_chain, of "\<lparr>cnodes = []\<rparr>"] by (simp add: newChainView_def)
qed

text \<open>
  C17. The fork point is the highest block two chains share: in a view that holds the chain of a tip, the search from any node
  of the block tree returns a block that is on both chains such that no block on both chains is higher, and it returns nothing
  only if the chains share no block.
\<close>

theorem findFork_highest:
  assumes "cnodes c = chainOf t" "chain_node t" "node_height t < 2 ^ 31 - 1" "chain_node n"
  shows "case findFork c (Some n) of
      None \<Rightarrow> \<forall>m. Ancestor n (node_height m) = Some m \<longrightarrow> Ancestor t (node_height m) \<noteq> Some m
    | Some f \<Rightarrow> Ancestor n (node_height f) = Some f \<and> Ancestor t (node_height f) = Some f \<and>
        (\<forall>m. Ancestor n (node_height m) = Some m \<and> Ancestor t (node_height m) = Some m \<longrightarrow> node_height m \<le> node_height f)"
proof -
  have t: "0 \<le> node_height t" using chain_node_height [OF assms(2)] by simp
  then have ch: "chainHeight c = node_height t" using assms(1,3) by (simp add: chainHeight_def int32_id)
  note hi = forkLoop_highest [OF _ contains_chainOf [OF assms(1-3)]]
  show ?thesis
  proof (cases "node_height n > node_height t")
    case True
    obtain a where a: "Ancestor n (node_height t) = Some a" "chain_node a" "node_height a = node_height t"
      using Ancestor_chain [OF assms(4) t] True by force
    have anc: "Ancestor a (node_height m) = Ancestor n (node_height m)" if "Ancestor t (node_height m) = Some m" for m
      using Ancestor_trans [OF assms(4) a(1), of "node_height m"] that Ancestor_None [OF assms(2), of "node_height m"] by fastforce
    have "findFork c (Some n) = forkLoop c (Some a)" using True a(1) by (simp add: findFork_def ch)
    with hi [OF a(2)] show ?thesis by (cases "forkLoop c (Some a)") (simp_all, (metis anc)+)
  next
    case False
    then show ?thesis using hi [OF assms(4)] by (simp add: findFork_def ch)
  qed
qed

definition exampleGenesis :: blockNode where "exampleGenesis = newBlockNode (exampleHeader 10) None 0"
definition exampleSide :: blockNode where "exampleSide = newBlockNode (exampleHeader 30) (Some exampleGenesis) 0"

lemma example_fork:
  "chain_node exampleSide" "node_height exampleTip = 1" "node_height exampleSide = 1" "node_height exampleGenesis = 0"
  "Ancestor exampleTip 0 = Some exampleGenesis" "Ancestor exampleSide 0 = Some exampleGenesis" "exampleTip \<noteq> exampleSide"
proof -
  have g: "chain_node exampleGenesis" "node_height exampleGenesis = 0" by (simp_all add: exampleGenesis_def chain_node.genesis)
  then show s: "chain_node exampleSide" and "node_height exampleGenesis = 0" by (simp_all add: exampleSide_def chain_node.extend)
  show "node_height exampleTip = 1" "node_height exampleSide = 1"
    by (simp_all add: exampleTip_def exampleSide_def exampleGenesis_def newBlockNode_extend int32_id)
  have p: "parent exampleTip = Some exampleGenesis" "parent exampleSide = Some exampleGenesis"
    by (simp_all add: exampleTip_def exampleSide_def exampleGenesis_def newBlockNode_extend)
  show "Ancestor exampleTip 0 = Some exampleGenesis" "Ancestor exampleSide 0 = Some exampleGenesis"
    using Ancestor_parent [OF exampleTip_chain p(1), of 0] Ancestor_parent [OF s p(2), of 0] Ancestor_self [OF g(1)] g(2) by simp_all
  have "timestamp (nfields exampleTip) \<noteq> timestamp (nfields exampleSide)"
    by (simp add: exampleTip_def exampleSide_def exampleHeader_def Unix_def unixTime_def)
  then show "exampleTip \<noteq> exampleSide" by auto
qed

theorem findFork_highest_witness:
  "findFork \<lparr>cnodes = chainOf exampleTip\<rparr> (Some exampleSide) = Some exampleGenesis"
proof -
  note ex = example_fork
  let ?c = "\<lparr>cnodes = chainOf exampleTip\<rparr>"
  have "case findFork ?c (Some exampleSide) of
      None \<Rightarrow> \<forall>m. Ancestor exampleSide (node_height m) = Some m \<longrightarrow> Ancestor exampleTip (node_height m) \<noteq> Some m
    | Some f \<Rightarrow> Ancestor exampleSide (node_height f) = Some f \<and> Ancestor exampleTip (node_height f) = Some f \<and>
        (\<forall>m. Ancestor exampleSide (node_height m) = Some m \<and> Ancestor exampleTip (node_height m) = Some m \<longrightarrow> node_height m \<le> node_height f)"
    by (rule findFork_highest [OF _ exampleTip_chain _ ex(1)]) (simp_all add: ex)
  then obtain f where f: "findFork ?c (Some exampleSide) = Some f" "Ancestor exampleSide (node_height f) = Some f"
      "Ancestor exampleTip (node_height f) = Some f"
    using ex by (cases "findFork ?c (Some exampleSide)") (auto dest: spec [of _ exampleGenesis])
  then have "node_height f = 0 \<or> node_height f = 1" using Ancestor_None [OF ex(1), of "node_height f"] ex(3) by fastforce
  then show ?thesis using f ex Ancestor_self [OF ex(1)] Ancestor_self [OF exampleTip_chain] by auto
qed


section \<open>Locators\<close>

text \<open>The heights of a locator: ten steps of one block, then steps that double, down to the genesis block.\<close>

function locatorHeights :: "int \<Rightarrow> int \<Rightarrow> nat \<Rightarrow> int list" where
  "locatorHeights h step k =
     (if h \<le> 0 \<or> step \<le> 0 then [h]
      else h # locatorHeights (max 0 (h - step)) (if 10 \<le> k then 2 * step else step) (Suc k))"
  by pat_completeness auto
termination by (relation "measure (\<lambda>(h, _). nat h)") auto

declare locatorHeights.simps [simp del]

lemma locatorHeights_0 [simp]: "locatorHeights 0 step k = [0]"
  by (simp add: locatorHeights.simps)

lemma locatorHeights_step:
  "0 < h \<Longrightarrow> 0 < step \<Longrightarrow>
     locatorHeights h step k = h # locatorHeights (max 0 (h - step)) (if 10 \<le> k then 2 * step else step) (Suc k)"
  by (subst locatorHeights.simps) simp

lemma locatorHeights_range:
  assumes "0 \<le> h" "0 < step"
  shows "hd (locatorHeights h step k) = h" "last (locatorHeights h step k) = 0" "locatorHeights h step k \<noteq> []"
    "set (locatorHeights h step k) \<subseteq> {0..h}" "sorted_wrt (>) (locatorHeights h step k)"
proof -
  have "hd (locatorHeights h step k) = h \<and> last (locatorHeights h step k) = 0 \<and> locatorHeights h step k \<noteq> [] \<and>
      set (locatorHeights h step k) \<subseteq> {0..h} \<and> sorted_wrt (>) (locatorHeights h step k)"
    using assms
  proof (induction h step k rule: locatorHeights.induct)
    case (1 h step k)
    show ?case
    proof (cases "h = 0")
      case False
      then have pos: "0 < h" using "1.prems" by simp
      let ?r = "locatorHeights (max 0 (h - step)) (if 10 \<le> k then 2 * step else step) (Suc k)"
      have "hd ?r = max 0 (h - step) \<and> last ?r = 0 \<and> ?r \<noteq> [] \<and> set ?r \<subseteq> {0..max 0 (h - step)} \<and> sorted_wrt (>) ?r"
        by (rule "1.IH") (use "1.prems" pos in auto)
      then have IH: "hd ?r = max 0 (h - step)" "last ?r = 0" "?r \<noteq> []" "set ?r \<subseteq> {0..max 0 (h - step)}" "sorted_wrt (>) ?r"
        by blast+
      have eq: "locatorHeights h step k = h # ?r" by (rule locatorHeights_step [OF pos "1.prems"(2)])
      have r: "0 \<le> x \<and> x < h" if "x \<in> set ?r" for x
      proof -
        have "x \<in> {0..max 0 (h - step)}" using IH(4) that by blast
        moreover have "max 0 (h - step) < h" using pos "1.prems" by simp
        ultimately show ?thesis unfolding atLeastAtMost_iff by linarith
      qed
      have sub: "set ?r \<subseteq> {0..h}" using r by (meson atLeastAtMost_iff less_imp_le subsetI)
      have less: "\<forall>y\<in>set ?r. h > y" using r by blast
      have "hd (h # rs) = h \<and> last (h # rs) = 0 \<and> h # rs \<noteq> [] \<and> set (h # rs) \<subseteq> {0..h} \<and> sorted_wrt (>) (h # rs)"
        if "last rs = 0" "rs \<noteq> []" "set rs \<subseteq> {0..h}" "\<forall>y\<in>set rs. h > y" "sorted_wrt (>) rs" for rs
        using that pos by simp
      from this [OF IH(2,3) sub less IH(5)] show ?thesis unfolding eq .
    qed simp
  qed
  then show "hd (locatorHeights h step k) = h" "last (locatorHeights h step k) = 0" "locatorHeights h step k \<noteq> []"
    "set (locatorHeights h step k) \<subseteq> {0..h}" "sorted_wrt (>) (locatorHeights h step k)" by simp_all
qed

lemma length_locatorHeights_double:
  assumes "10 \<le> k" "0 < step" "step * (2 ^ j - 1) < h" "h \<le> step * (2 ^ Suc j - 1)"
  shows "length (locatorHeights h step k) = j + 2"
  using assms
proof (induction j arbitrary: h step k)
  case 0
  then show ?case by (simp add: locatorHeights_step max_def)
next
  case (Suc j)
  have "0 \<le> step * (2 ^ Suc j - 1)" using Suc.prems(2) by simp
  then have h: "step * (2 ^ Suc j - 1) < h" "0 < h" using Suc.prems by linarith+
  have "(1 :: int) \<le> 2 ^ j" by simp
  then have "(1 :: int) \<le> 2 ^ Suc j - 1" unfolding power_Suc by linarith
  then have "step \<le> step * (2 ^ Suc j - 1)" using Suc.prems(2) by (simp add: mult_le_cancel_left1)
  then have less: "step < h" using h by linarith
  have "2 * step * (2 ^ j - 1) < h - step" "h - step \<le> 2 * step * (2 ^ Suc j - 1)"
    using h Suc.prems(4) by (simp_all add: algebra_simps)
  then have "length (locatorHeights (h - step) (2 * step) (Suc k)) = j + 2" using Suc.IH Suc.prems by simp
  then show ?case using less h Suc.prems(1,2) by (simp add: locatorHeights_step max_def)
qed

lemma length_locatorHeights_single:
  assumes "k \<le> 10" "int (11 - k) < h"
  shows "length (locatorHeights h 1 k) = (11 - k) + length (locatorHeights (h - int (11 - k)) 2 11)"
  using assms
proof (induction "10 - k" arbitrary: h k)
  case 0
  then have "k = 10" by simp
  with 0 show ?case by (simp add: locatorHeights_step [of h 1 10])
next
  case (Suc n)
  then have "length (locatorHeights (h - 1) 1 (Suc k)) = (11 - Suc k) + length (locatorHeights (h - 1 - int (11 - Suc k)) 2 11)"
    by (intro Suc.hyps) auto
  moreover have "h - 1 - int (11 - Suc k) = h - int (11 - k)" "(11 - k) = Suc (11 - Suc k)" using Suc by auto
  ultimately show ?case using Suc(2-) locatorHeights_step [of h 1 k] by (simp add: max_def algebra_simps)
qed

lemma length_locatorHeights_short: "h + k \<le> 11 \<Longrightarrow> length (locatorHeights (int h) 1 k) = Suc h"
proof (induction h arbitrary: k)
  case (Suc h)
  have "locatorHeights (int (Suc h)) 1 k = int (Suc h) # locatorHeights (int h) (if 10 \<le> k then 2 else 1) (Suc k)"
    using locatorHeights_step [of "int (Suc h)" 1 k] by simp
  then show ?case using Suc.IH [of "Suc k"] Suc.prems by (cases "10 \<le> k"; cases "h = 0") simp_all
qed simp

lemma length_locatorHeights:
  assumes "12 < h" "2 ^ j \<le> h - 10" "h - 10 < 2 ^ Suc j"
  shows "length (locatorHeights h 1 0) = 12 + j"
proof -
  obtain i where i: "j = Suc i"
  proof (cases j)
    case 0
    then show ?thesis using assms by simp
  qed (use that in blast)
  have "length (locatorHeights h 1 0) = 11 + length (locatorHeights (h - 11) 2 11)"
    using length_locatorHeights_single [of 0 h] assms(1) by simp
  also have "length (locatorHeights (h - 11) 2 11) = i + 2"
    using assms i by (intro length_locatorHeights_double) (simp_all add: algebra_simps)
  finally show ?thesis using i by simp
qed


abbreviation hashAt :: "blockNode \<Rightarrow> int \<Rightarrow> hash" where
  "hashAt n h \<equiv> nhash (nfields (the (Ancestor n h)))"

lemma locatorLoop_heights:
  assumes view: "cnodes c = chainOf t" "chain_node t" "node_height t < 2 ^ 31 - 1"
    and "chain_node n" "node_height n = 0 \<or> 1 \<le> step \<and> node_height n + step \<le> 2 ^ 31"
  shows "locatorLoop c (Some n) step loc =
    Some (Inr (loc @ map (hashAt n) (locatorHeights (node_height n) step (length loc))))"
  using assms(4,5)
proof (induction "nat (node_height n)" arbitrary: n step loc rule: less_induct)
  case less
  have self: "hashAt n (node_height n) = nhash (nfields n)" using Ancestor_self [OF less.prems(1)] by simp
  show ?case
  proof (cases "node_height n = 0")
    case True
    then show ?thesis using self by (subst locatorLoop.simps) (simp add: Let_def)
  next
    case False
    define h where "h = node_height n"
    define h' where "h' = max 0 (h - step)"
    define step' where "step' = (if length loc \<ge> 10 then int32 (step * 2) else step)"
    have h: "0 < h" "h < 2 ^ 31" "1 \<le> step" "h + step \<le> 2 ^ 31"
      using False less.prems chain_node_height [OF less.prems(1)] by (auto simp: h_def)
    have wrap: "int32 (h - step) = h - step" using h by (intro int32_id) simp_all
    have h': "0 \<le> h'" "h' < h" "(if h - step < 0 then 0 else h - step) = h'" using h by (auto simp: h'_def)
    obtain m where m: "Ancestor n h' = Some m" "chain_node m" "node_height m = h'"
      using Ancestor_chain [OF less.prems(1), of h'] h' by (auto simp: h_def)
    have double: "int32 (step * 2) = 2 * step \<or> h' = 0"
    proof (cases "step < 2 ^ 30")
      case True
      then show ?thesis using h by (simp add: int32_id)
    qed (use h in \<open>simp add: h'_def\<close>)
    have inv: "node_height m = 0 \<or> 1 \<le> step' \<and> node_height m + step' \<le> 2 ^ 31"
      using double h m(3) by (auto simp: step'_def h'_def)
    have nxt: "locatorHeights h' step' (Suc (length loc)) =
        locatorHeights h' (if 10 \<le> length loc then 2 * step else step) (Suc (length loc))"
      using double by (auto simp: step'_def)
    have "locatorHeights h step (length loc) = h # locatorHeights h' step' (Suc (length loc))"
      unfolding nxt unfolding h'_def using h by (intro locatorHeights_step) simp_all
    then have eq: "locatorHeights (node_height n) step (length loc) = node_height n # locatorHeights h' step' (Suc (length loc))"
      by (simp add: h_def)
    have view': "contains c n \<Longrightarrow> h' < int (length (cnodes c)) \<and> cnodes c ! nat h' = Some m"
    proof -
      assume "contains c n"
      then have n: "Ancestor t h = Some n" using contains_chainOf [OF view less.prems(1)] by (simp add: h_def)
      then have le: "h \<le> node_height t" using Ancestor_None [OF view(2), of h] by auto
      have "Ancestor t h' = Some m" using Ancestor_trans [OF view(2) n, of h'] m(1) h'(2) by simp
      then show ?thesis using le h' view(1) by (simp add: chainOf_nth nat_mono)
    qed
    have st: "(if length (loc @ [nhash (nfields n)]) > 10 then int32 (step * 2) else step) = step'"
      by (simp add: step'_def less_Suc_eq_le)
    have "locatorLoop c (Some n) step loc = locatorLoop c (Some m) step' (loc @ [nhash (nfields n)])"
      unfolding locatorLoop.simps [of c "Some n"] option.case Let_def h_def [symmetric] wrap h'(3) st
      using h(1) view' m(1) by (cases "contains c n") simp_all
    also have "\<dots> = Some (Inr (loc @ [nhash (nfields n)] @ map (hashAt m) (locatorHeights h' step' (Suc (length loc)))))"
      using less.hyps [OF _ m(2) inv, of "loc @ [nhash (nfields n)]"] h' m(3) by (simp add: h_def)
    also have "map (hashAt m) (locatorHeights h' step' (Suc (length loc))) = map (hashAt n) (locatorHeights h' step' (Suc (length loc)))"
    proof (rule map_cong [OF refl])
      fix x assume "x \<in> set (locatorHeights h' step' (Suc (length loc)))"
      moreover have "set (locatorHeights h' step' (Suc (length loc))) \<subseteq> {0..h'}"
        using locatorHeights_range(4) [of h' step'] inv m(3) h'(1) by (cases "h' = 0") auto
      ultimately have "x \<le> h'" by auto
      then show "hashAt m x = hashAt n x" using Ancestor_trans [OF less.prems(1) m(1), of x] by simp
    qed
    finally show ?thesis unfolding eq using self by simp
  qed
qed

section \<open>The capacity of a locator\<close>

definition log2Step :: "nat \<times> 32 word \<times> nat \<Rightarrow> 32 word \<Rightarrow> nat \<times> 32 word \<times> nat" where
  "log2Step st m = (case st of (rv, n, e) \<Rightarrow>
     let (rv, n) = (if n AND m \<noteq> 0 then (rv + e, drop_bit e n) else (rv, n)) in (rv, n, e div 2))"

definition log2Inv :: "32 word \<Rightarrow> nat \<Rightarrow> nat \<times> 32 word \<times> nat \<Rightarrow> bool" where
  "log2Inv N w st \<longleftrightarrow> (case st of (rv, n, e) \<Rightarrow> unat N div 2 ^ rv = unat n \<and> 0 < unat n \<and> unat n < 2 ^ w)"

lemma unat_drop_bit: "unat (drop_bit e n) = unat n div 2 ^ e"
  by (simp add: unat_drop_bit_eq drop_bit_eq_div [where 'a = nat])

lemma high_bits:
  fixes n m :: "32 word"
  assumes "\<And>i. i < 32 \<Longrightarrow> bit m i \<longleftrightarrow> e \<le> i \<and> i < 2 * e" "unat n < 2 ^ (2 * e)"
  shows "n AND m \<noteq> 0 \<longleftrightarrow> 2 ^ e \<le> unat n"
proof -
  have low: "\<not> bit n i" if "2 * e \<le> i" for i
  proof -
    have "unat n < 2 ^ i" using assms(2) that by (meson less_le_trans one_le_numeral power_increasing)
    then have "\<not> bit (unat n) i" by (simp add: bit_iff_odd)
    then show ?thesis by (simp add: bit_unsigned_iff)
  qed
  have "n AND m = 0 \<longleftrightarrow> (\<forall>i<32. \<not> (bit n i \<and> e \<le> i \<and> i < 2 * e))"
    using assms(1) by (auto simp: bit_eq_iff bit_and_iff)
  also have "\<dots> \<longleftrightarrow> drop_bit e n = 0"
  proof
    assume none: "\<forall>i<32. \<not> (bit n i \<and> e \<le> i \<and> i < 2 * e)"
    have "\<not> bit n (e + i)" for i
    proof
      assume b: "bit n (e + i)"
      then have "e + i < 32" using bit_imp_le_length [of n "e + i"] by simp
      moreover have "e + i < 2 * e" using b low [of "e + i"] by (meson not_le)
      ultimately show False using none b le_add1 by blast
    qed
    then show "drop_bit e n = 0" by (intro bit_eqI) (simp add: bit_drop_bit_eq)
  next
    assume z: "drop_bit e n = 0"
    have "bit n i \<longleftrightarrow> bit (drop_bit e n) (i - e)" if "e \<le> i" for i using that by (simp add: bit_drop_bit_eq)
    with z show "\<forall>i<32. \<not> (bit n i \<and> e \<le> i \<and> i < 2 * e)" by auto
  qed
  also have "\<dots> \<longleftrightarrow> unat n < 2 ^ e" unfolding unat_eq_0 [symmetric] unat_drop_bit by (simp add: div_eq_0_iff)
  finally show ?thesis by auto
qed

lemma log2Step_inv:
  assumes "\<And>i. i < 32 \<Longrightarrow> bit m i \<longleftrightarrow> e \<le> i \<and> i < 2 * e" "log2Inv N (2 * e) (rv, n, e)"
  shows "\<exists>rv' n'. log2Step (rv, n, e) m = (rv', n', e div 2) \<and> log2Inv N e (rv', n', e div 2)"
proof (cases "2 ^ e \<le> unat n")
  case True
  then have "n AND m \<noteq> 0" using high_bits [OF assms(1), of n] assms(2) by (simp add: log2Inv_def)
  moreover have "unat n div 2 ^ e < 2 ^ e" "0 < unat n div 2 ^ e"
    using True assms(2) by (simp_all add: log2Inv_def less_mult_imp_div_less power_mult_distrib power2_eq_square mult_2 power_add div_greater_zero_iff)
  ultimately show ?thesis using assms(2)
    by (simp add: log2Step_def log2Inv_def Let_def unat_drop_bit div_mult2_eq power_add)
next
  case False
  then have "n AND m = 0" using high_bits [OF assms(1), of n] assms(2) by (simp add: log2Inv_def)
  then show ?thesis using False assms(2) by (simp add: log2Step_def log2Inv_def Let_def)
qed

lemma mask_bits:
  "i < 32 \<Longrightarrow> bit (0xffff0000 :: 32 word) i \<longleftrightarrow> 16 \<le> i \<and> i < 2 * 16"
  "i < 32 \<Longrightarrow> bit (0xff00 :: 32 word) i \<longleftrightarrow> 8 \<le> i \<and> i < 2 * 8"
  "i < 32 \<Longrightarrow> bit (0xf0 :: 32 word) i \<longleftrightarrow> 4 \<le> i \<and> i < 2 * 4"
  "i < 32 \<Longrightarrow> bit (0xc :: 32 word) i \<longleftrightarrow> 2 \<le> i \<and> i < 2 * 2"
  "i < 32 \<Longrightarrow> bit (0x2 :: 32 word) i \<longleftrightarrow> 1 \<le> i \<and> i < 2 * 1"
proof -
  have m: "(0xffff0000 :: 32 word) = mask 32 AND NOT (mask 16)" "(0xff00 :: 32 word) = mask 16 AND NOT (mask 8)"
    "(0xf0 :: 32 word) = mask 8 AND NOT (mask 4)" "(0xc :: 32 word) = mask 4 AND NOT (mask 2)"
    "(0x2 :: 32 word) = mask 2 AND NOT (mask 1)" by code_simp+
  show "i < 32 \<Longrightarrow> bit (0xffff0000 :: 32 word) i \<longleftrightarrow> 16 \<le> i \<and> i < 2 * 16"
    "i < 32 \<Longrightarrow> bit (0xff00 :: 32 word) i \<longleftrightarrow> 8 \<le> i \<and> i < 2 * 8"
    "i < 32 \<Longrightarrow> bit (0xf0 :: 32 word) i \<longleftrightarrow> 4 \<le> i \<and> i < 2 * 4"
    "i < 32 \<Longrightarrow> bit (0xc :: 32 word) i \<longleftrightarrow> 2 \<le> i \<and> i < 2 * 2"
    "i < 32 \<Longrightarrow> bit (0x2 :: 32 word) i \<longleftrightarrow> 1 \<le> i \<and> i < 2 * 1"
    unfolding m by (auto simp: bit_and_iff bit_not_iff bit_mask_iff)
qed

lemma fastLog2Floor_log:
  assumes "0 < unat n"
  shows "2 ^ fastLog2Floor n \<le> unat n" "unat n < 2 ^ Suc (fastLog2Floor n)"
proof -
  have "unat n < 2 ^ (2 * 16)" using unsigned_less [where 'a = nat, of n] by simp
  then have "log2Inv n (2 * 16) (0, n, 16)" using assms by (simp add: log2Inv_def)
  from log2Step_inv [OF mask_bits(1) this] obtain r1 n1 where 1: "log2Step (0, n, 16) 0xffff0000 = (r1, n1, 8)" "log2Inv n (2 * 8) (r1, n1, 8)"
    by auto
  from log2Step_inv [OF mask_bits(2) 1(2)] obtain r2 n2 where 2: "log2Step (r1, n1, 8) 0xff00 = (r2, n2, 4)" "log2Inv n (2 * 4) (r2, n2, 4)"
    by auto
  from log2Step_inv [OF mask_bits(3) 2(2)] obtain r3 n3 where 3: "log2Step (r2, n2, 4) 0xf0 = (r3, n3, 2)" "log2Inv n (2 * 2) (r3, n3, 2)"
    by auto
  from log2Step_inv [OF mask_bits(4) 3(2)] obtain r4 n4 where 4: "log2Step (r3, n3, 2) 0xc = (r4, n4, 1)" "log2Inv n (2 * 1) (r4, n4, 1)"
    by auto
  from log2Step_inv [OF mask_bits(5) 4(2)] obtain r5 n5 where 5: "log2Step (r4, n4, 1) 0x2 = (r5, n5, 0)" "log2Inv n 1 (r5, n5, 0)"
    by auto
  have step: "(\<lambda>(rv, n, exponent) m. let (rv, n) = (if n AND m \<noteq> 0 then (rv + exponent, drop_bit exponent n) else (rv, n))
      in (rv, n, exponent div 2)) = log2Step" by (auto simp: fun_eq_iff log2Step_def)
  have r: "fastLog2Floor n = r5" unfolding fastLog2Floor_def step log2FloorMasks_def foldl.simps 1(1) 2(1) 3(1) 4(1) 5(1) by simp
  have "unat n div 2 ^ r5 = 1" using 5(2) by (simp add: log2Inv_def)
  moreover have "2 ^ r5 * (unat n div 2 ^ r5) \<le> unat n" "unat n < 2 ^ r5 * (unat n div 2 ^ r5) + 2 ^ r5"
    using times_div_less_eq_dividend [of "2 ^ r5" "unat n"] dividend_less_times_div [of "2 ^ r5" "unat n"] by simp_all
  ultimately show "2 ^ fastLog2Floor n \<le> unat n" "unat n < 2 ^ Suc (fastLog2Floor n)" unfolding r by simp_all
qed

text \<open>
  C34. Block locators are built in time logarithmic in the height: for every node of the block tree the loop ends, the locator lists
  the hashes of ancestors of the node at strictly falling heights from the node down to the genesis block, in single steps at first
  and then in steps that double, and its length is exactly the capacity reserved for it.  The step wraps around only after the
  genesis block is reached.
\<close>

theorem blockLocator_ends:
  assumes "cnodes c = chainOf t" "chain_node t" "node_height t < 2 ^ 31 - 1" "chain_node n"
  shows "\<exists>hs. blockLocator c (Some n) = Some (Inr (map (hashAt n) hs)) \<and> hd hs = node_height n \<and> last hs = 0 \<and>
    sorted_wrt (>) hs \<and> set hs \<subseteq> {0..node_height n} \<and> length hs = maxEntries (node_height n)"
proof -
  let ?h = "node_height n" and ?hs = "locatorHeights (node_height n) 1 0"
  have h: "0 \<le> ?h" "?h < 2 ^ 31" using chain_node_height [OF assms(4)] by simp_all
  have "blockLocator c (Some n) = Some (Inr (map (hashAt n) ?hs))"
    using locatorLoop_heights [OF assms, of 1 "[]"] h by (simp add: blockLocator_def)
  moreover have "length ?hs = maxEntries ?h"
  proof (cases "?h \<le> 12")
    case True
    show ?thesis
    proof (cases "?h = 12")
      case True
      have "locatorHeights 1 2 11 = [1, 0]" by (simp add: locatorHeights_step [of 1 2 11])
      then show ?thesis using length_locatorHeights_single [of 0 12] True by (simp add: maxEntries_def)
    next
      case False
      then show ?thesis using length_locatorHeights_short [of "nat ?h" 0] True h by (simp add: maxEntries_def)
    qed
  next
    case False
    define w where "w = (word_of_int ?h - 10 :: 32 word)"
    have "uint w = (?h - 10) mod 2 ^ 32" by (simp add: w_def uint_word_ariths uint_word_of_int mod_simps)
    then have u: "int (unat w) = ?h - 10" using False h by simp
    then have pos: "0 < unat w" using False by linarith
    have "2 ^ fastLog2Floor w \<le> ?h - 10" "?h - 10 < 2 ^ Suc (fastLog2Floor w)"
      using fastLog2Floor_log [OF pos] unfolding u [symmetric] by (metis of_nat_le_iff of_nat_numeral of_nat_power, metis of_nat_less_iff of_nat_numeral of_nat_power)
    then show ?thesis using length_locatorHeights [of ?h "fastLog2Floor w"] False by (simp add: maxEntries_def w_def)
  qed
  ultimately show ?thesis using locatorHeights_range [OF h(1), of 1 0] by auto
qed

theorem blockLocator_ends_witness:
  "\<exists>hs. blockLocator \<lparr>cnodes = chainOf exampleTip\<rparr> (Some exampleSide) = Some (Inr (map (hashAt exampleSide) hs)) \<and> length hs = 2"
  using blockLocator_ends [OF _ exampleTip_chain _ example_fork(1), of "\<lparr>cnodes = chainOf exampleTip\<rparr>"] example_fork
  by (auto simp: maxEntries_def)


end
