(* ===== verification/Pow_Rules.thy ===== *)
theory Pow_Rules
  imports Difficulty Chain_View
begin

text \<open>
  Proof of work: the certificate checks (\<^verbatim>\<open>node/zkpow/verify.go\<close>), merged mining (\<^verbatim>\<open>node/blockchain/auxpow.go\<close>),
  checkpoints (\<^verbatim>\<open>node/blockchain/checkpoints.go\<close>) and the checks on block headers (\<^verbatim>\<open>node/blockchain/validate.go\<close>).

  The verifier of the zero-knowledge proofs is Rust code behind a C interface.  Its two entry points are the fields of the
  record \<open>ZkVerifier\<close>, a parameter of the model; each returns 0 when the proof is accepted.
\<close>

section \<open>Certificates\<close>

record IncompleteBlockHeader =
  c_version :: "32 word"
  c_prev_block :: bytes
  c_merkle_root :: bytes
  c_timestamp :: "32 word"
  c_nbits :: "32 word"

record ZkVerifier =
  verify_zk_proof_v2 :: "IncompleteBlockHeader \<Rightarrow> bytes \<Rightarrow> bytes \<Rightarrow> int"
  verify_zk_proof_auxpow_with_nbits :: "IncompleteBlockHeader \<Rightarrow> bytes \<Rightarrow> bytes \<Rightarrow> 32 word \<Rightarrow> int"

datatype zkError = BlockHashMismatch | ProofCommitmentMismatch | EmptyProofData | ProofRejected | VerificationSystemError
  | UnknownResult

definition blockHeaderToC :: "BlockHeader \<Rightarrow> IncompleteBlockHeader" where
  "blockHeaderToC header =
     \<lparr>c_version = Version header, c_prev_block = rev (PrevBlock header), c_merkle_root = rev (MerkleRoot header),
      c_timestamp = word_of_int (Unix (Timestamp header)), c_nbits = Bits header\<rparr>"

definition verifyZKCertificateInner ::
  "ZkVerifier \<Rightarrow> BlockHeader \<Rightarrow> ZKCertificate \<Rightarrow> 32 word option \<Rightarrow> (zkError, unit) result" where
  "verifyZKCertificateInner Z header c nbitsOverride =
     bindE (guardE (CertHash c \<noteq> BlockHash header) BlockHashMismatch) (\<lambda>_.
     bindE (guardE (ProofCommitment header \<noteq> ZKCertificate_ProofCommitment c) ProofCommitmentMismatch) (\<lambda>_.
     bindE (guardE (length (ProofData c) = 0) EmptyProofData) (\<lambda>_.
       let cBlockHeader = blockHeaderToC header;
           verdict = (case nbitsOverride of
             Some target \<Rightarrow> verify_zk_proof_auxpow_with_nbits Z cBlockHeader (PublicData c) (ProofData c) target
           | None \<Rightarrow> verify_zk_proof_v2 Z cBlockHeader (PublicData c) (ProofData c))
       in if verdict = 0 then Inr ()
          else if verdict = 1 then Inl ProofRejected
          else if verdict = 2 then Inl VerificationSystemError
          else Inl UnknownResult)))"

definition VerifyCertificate :: "ZkVerifier \<Rightarrow> BlockHeader \<Rightarrow> ZKCertificate \<Rightarrow> (zkError, unit) result" where
  "VerifyCertificate Z header cert = verifyZKCertificateInner Z header cert None"

definition VerifyZKCertificateWithNbits ::
  "ZkVerifier \<Rightarrow> BlockHeader \<Rightarrow> ZKCertificate \<Rightarrow> 32 word \<Rightarrow> (zkError, unit) result" where
  "VerifyZKCertificateWithNbits Z header c nbitsOverride = verifyZKCertificateInner Z header c (Some nbitsOverride)"

section \<open>Merged mining\<close>

definition auxPowActivationHeight :: int where "auxPowActivationHeight = 0"

datatype auxPowError = AuxBelowActivation | AuxMissing | AuxHeaderParse | AuxHeaderNonCanonical | AuxProof zkError
  | AuxStateHashMismatch | AuxPearlHeight | AuxCoinbaseMissing | AuxCommitmentMissing | AuxMerkleRootMismatch

text \<open>The network is passed to the function in the code and not used by it.\<close>

definition VerifyAuxPow ::
  "ZkVerifier \<Rightarrow> AuxPowData option \<Rightarrow> int \<Rightarrow> hash \<Rightarrow> int \<Rightarrow> (auxPowError, unit) result" where
  "VerifyAuxPow Z auxPowOpt modelOSBlockHeight modelOSStateHash modelOSTarget =
     (if modelOSBlockHeight < auxPowActivationHeight then Inl AuxBelowActivation
      else case auxPowOpt of
        None \<Rightarrow> Inl AuxMissing
      | Some auxPow \<Rightarrow> (case readBlockHeader (PearlHeader auxPow) of
          Inl _ \<Rightarrow> Inl AuxHeaderParse
        | Inr (pearlHeader, _) \<Rightarrow>
            if writeBlockHeader pearlHeader \<noteq> PearlHeader auxPow then Inl AuxHeaderNonCanonical
            else let pearlCert = \<lparr>CertHash = BlockHash pearlHeader, PublicData = PearlPublicData auxPow,
                                  ProofData = PearlProofData auxPow\<rparr>;
                     mdlBits = BigToCompact modelOSTarget in
              case VerifyZKCertificateWithNbits Z pearlHeader pearlCert mdlBits of
                Inl err \<Rightarrow> Inl (AuxProof err)
              | Inr _ \<Rightarrow>
                  if ModelOSStateHash auxPow \<noteq> modelOSStateHash then Inl AuxStateHashMismatch
                  else if sint (PearlHeight auxPow) \<le> 0 then Inl AuxPearlHeight
                  else if length (PearlCoinbaseTx auxPow) = 0 then Inl AuxCoinbaseMissing
                  else if ContainsModelosCommitment (PearlCoinbaseTx auxPow) (ModelOSStateHash auxPow) < 0
                  then Inl AuxCommitmentMissing
                  else let coinbaseTxid = DoubleHashH (PearlCoinbaseTx auxPow);
                           computedRoot = VerifyCoinbaseMerkleRoot auxPow coinbaseTxid in
                    if computedRoot \<noteq> PearlMerkleRoot auxPow then Inl AuxMerkleRootMismatch else Inr ()))"

section \<open>Checkpoints\<close>

definition CheckpointConfirmations :: int where "CheckpointConfirmations = 2016"

text \<open>The cached checkpoint and the next one expected, fields of the chain in the code.\<close>

record checkpointCache =
  checkpointNode :: "blockNode option"
  nextCheckpoint :: "(int \<times> hash) option"

definition HasCheckpoints :: "(int \<times> hash) list \<Rightarrow> bool" where
  "HasCheckpoints checkpoints \<longleftrightarrow> length checkpoints > 0"

definition LatestCheckpoint :: "(int \<times> hash) list \<Rightarrow> (int \<times> hash) option" where
  "LatestCheckpoint checkpoints =
     (if \<not> HasCheckpoints checkpoints then None else Some (checkpoints ! (length checkpoints - 1)))"

definition verifyCheckpoint :: "(int \<times> hash) list \<Rightarrow> int \<Rightarrow> hash \<Rightarrow> bool" where
  "verifyCheckpoint checkpoints blockHeight blockHash =
     (if \<not> HasCheckpoints checkpoints then True
      else case map_of checkpoints blockHeight of None \<Rightarrow> True | Some checkpoint \<Rightarrow> checkpoint = blockHash)"

text \<open>The backward search for a checkpoint on the best chain, with the checkpoint that follows it.\<close>

fun latestOnChain :: "blockIndex \<Rightarrow> chainView \<Rightarrow> (int \<times> hash) list \<Rightarrow> (int \<times> hash) option \<Rightarrow>
    (blockNode \<times> (int \<times> hash) option) option" where
  "latestOnChain index bestChain [] after = None"
| "latestOnChain index bestChain (cp # earlier) after =
     (case LookupNode index (snd cp) of
        None \<Rightarrow> latestOnChain index bestChain earlier (Some cp)
      | Some node \<Rightarrow> if \<not> contains bestChain node then latestOnChain index bestChain earlier (Some cp) else Some (node, after))"

fun checkpointAfter :: "hash \<Rightarrow> (int \<times> hash) list \<Rightarrow> (int \<times> hash) option \<Rightarrow> (int \<times> hash) option" where
  "checkpointAfter h [] after = None"
| "checkpointAfter h (cp # earlier) after = (if snd cp = h then after else checkpointAfter h earlier (Some cp))"

definition findPreviousCheckpoint ::
  "blockIndex \<Rightarrow> chainView \<Rightarrow> (int \<times> hash) list \<Rightarrow> checkpointCache \<Rightarrow> (chainError, blockNode option) result \<times> checkpointCache" where
  "findPreviousCheckpoint index bestChain checkpoints cache =
     (if \<not> HasCheckpoints checkpoints then (Inr None, cache)
      else if checkpointNode cache = None \<and> nextCheckpoint cache = None
      then (case latestOnChain index bestChain (rev checkpoints) None of
              Some (node, after) \<Rightarrow>
                (Inr (Some node), cache\<lparr>checkpointNode := Some node, nextCheckpoint := after\<rparr>)
            | None \<Rightarrow> (Inr None, cache\<lparr>nextCheckpoint := Some (checkpoints ! 0)\<rparr>))
      else case nextCheckpoint cache of
        None \<Rightarrow> (Inr (checkpointNode cache), cache)
      | Some (nextHeight, nextHash) \<Rightarrow> (case tip bestChain of
          None \<Rightarrow> (Inl GoPanic, cache)
        | Some tipNode \<Rightarrow>
            if node_height tipNode < nextHeight then (Inr (checkpointNode cache), cache)
            else (case LookupNode index nextHash of
                    None \<Rightarrow> (Inl AssertError, cache)
                  | Some node \<Rightarrow>
                      (Inr (Some node),
                       cache\<lparr>checkpointNode := Some node, nextCheckpoint := checkpointAfter nextHash (rev checkpoints) None\<rparr>))))"

section \<open>Headers\<close>

definition BFFastAdd :: "32 word" where "BFFastAdd = 1"
definition BFNoPoWCheck :: "32 word" where "BFNoPoWCheck = 2"
definition BFNone :: "32 word" where "BFNone = 0"

definition checkProofOfWork ::
  "ZkVerifier \<Rightarrow> BlockHeader \<Rightarrow> MsgCertificate \<Rightarrow> int \<Rightarrow> 32 word \<Rightarrow> (chainError, unit) result" where
  "checkProofOfWork Z header certOpt powLimit flags =
     (let target = CompactToBig (Bits header) in
      if target \<le> 0 then Inl (RuleError ErrUnexpectedDifficulty)
      else if target > powLimit then Inl (RuleError ErrUnexpectedDifficulty)
      else if IsAuxPowBlock header then Inr ()
      else case certOpt of
        None \<Rightarrow> Inl (RuleError ErrCertificateMissing)
      | Some cert \<Rightarrow>
          if flags AND BFNoPoWCheck \<noteq> BFNoPoWCheck
          then (case VerifyCertificate Z header cert of Inl _ \<Rightarrow> Inl (RuleError ErrHighHash) | Inr _ \<Rightarrow> Inr ())
          else Inr ())"

definition CheckBlockHeaderSanity ::
  "ZkVerifier \<Rightarrow> BlockHeader \<Rightarrow> MsgCertificate \<Rightarrow> int \<Rightarrow> int \<Rightarrow> int \<Rightarrow> 32 word \<Rightarrow> (chainError, unit) result" where
  "CheckBlockHeaderSanity Z header certOpt powLimit adjustedTime maxTimeOffsetMinutes flags =
     (let isAuxPow = IsAuxPowBlock header in
      bindE (case certOpt of
               None \<Rightarrow> guardE (\<not> isAuxPow) (RuleError ErrCertificateMissing)
             | Some cert \<Rightarrow>
                 bindE (guardE (4 + ZKCertificate_SerializedSize cert > CertificateMaxSize) (RuleError ErrCertificateTooLarge)) (\<lambda>_.
                   guardE (\<not> isAuxPow \<and> \<not> IsCertVersionAllowed CertificateVersionZK) (RuleError ErrDisallowedCertVersion))) (\<lambda>_.
      bindE (guardE (Timestamp header \<noteq> unixTime (Unix (Timestamp header))) (RuleError ErrInvalidTime)) (\<lambda>_.
      bindE (guardE (Timestamp header > adjustedTime + Minute * maxTimeOffsetMinutes) (RuleError ErrTimeTooNew)) (\<lambda>_.
        checkProofOfWork Z header certOpt powLimit flags))))"

definition CheckHeaderSanity :: "ZkVerifier \<Rightarrow> Params \<Rightarrow> int \<Rightarrow> BlockHeader \<Rightarrow> MsgCertificate \<Rightarrow> (chainError, unit) result" where
  "CheckHeaderSanity Z chainParams adjustedTime header cert =
     (let flags = (if Net chainParams = SimNet then BFNone OR BFNoPoWCheck else BFNone) in
      CheckBlockHeaderSanity Z header cert (PowLimit chainParams) adjustedTime (MaxTimeOffsetMinutes chainParams) flags)"

text \<open>The error of the difficulty calculation, or the panic of its division, is an error that is not a rule violation.\<close>

definition checkHeaderRules :: "BlockHeader \<Rightarrow> blockNode \<Rightarrow> 32 word \<Rightarrow> Params \<Rightarrow> (chainError, unit) result" where
  "checkHeaderRules header prevNode flags chainParams =
     (if flags AND BFFastAdd = BFFastAdd then Inr ()
      else case calcNextRequiredDifficulty (Some prevNode) (Timestamp header) chainParams of
        None \<Rightarrow> Inl AssertError
      | Some expectedDifficulty \<Rightarrow>
          if Bits header \<noteq> expectedDifficulty then Inl (RuleError ErrUnexpectedDifficulty)
          else guardE (Timestamp header < minTimestamp prevNode) (RuleError ErrTimeTooOld))"

definition CheckBlockHeaderContext ::
  "BlockHeader \<Rightarrow> blockNode \<Rightarrow> 32 word \<Rightarrow> Params \<Rightarrow> (int \<times> hash) list \<Rightarrow> blockIndex \<Rightarrow> chainView \<Rightarrow> checkpointCache \<Rightarrow> bool \<Rightarrow>
     (chainError, unit) result \<times> checkpointCache" where
  "CheckBlockHeaderContext header prevNode flags chainParams checkpoints index bestChain cache skipCheckpoint =
     (let blockHeight = int32 (node_height prevNode + 1) in
      case checkHeaderRules header prevNode flags chainParams of
        Inl err \<Rightarrow> (Inl err, cache)
      | Inr _ \<Rightarrow>
          if skipCheckpoint then (Inr (), cache)
          else if \<not> verifyCheckpoint checkpoints blockHeight (BlockHash header) then (Inl (RuleError ErrBadCheckpoint), cache)
          else let (found, cache) = findPreviousCheckpoint index bestChain checkpoints cache in
            (bindE found (\<lambda>cp. case cp of
                None \<Rightarrow> Inr ()
              | Some node \<Rightarrow> guardE (blockHeight < node_height node) (RuleError ErrForkTooOld)), cache))"

section \<open>What a header proves\<close>

lemma verifyZKCertificateInner_iff:
  "verifyZKCertificateInner Z header c nbitsOverride = Inr () \<longleftrightarrow>
     CertHash c = BlockHash header \<and> ProofCommitment header = ZKCertificate_ProofCommitment c \<and> ProofData c \<noteq> [] \<and>
     (case nbitsOverride of
        Some target \<Rightarrow> verify_zk_proof_auxpow_with_nbits Z (blockHeaderToC header) (PublicData c) (ProofData c) target
      | None \<Rightarrow> verify_zk_proof_v2 Z (blockHeaderToC header) (PublicData c) (ProofData c)) = 0"
  by (auto simp: verifyZKCertificateInner_def Let_def)

lemma blockHeaderToC_inj:
  assumes "wf_header header" "wf_header header'" "blockHeaderToC header' = blockHeaderToC header"
    and "ProofCommitment header' = ProofCommitment header"
  shows "header' = header"
proof -
  have "(word_of_int (Unix (Timestamp header')) :: 32 word) = word_of_int (Unix (Timestamp header))"
    using assms(3) by (simp add: blockHeaderToC_def)
  then have "uint (word_of_int (Unix (Timestamp header')) :: 32 word) = uint (word_of_int (Unix (Timestamp header)) :: 32 word)" by simp
  then have "Unix (Timestamp header') = Unix (Timestamp header)" using assms(1,2) by (simp add: uint_word_of_int wf_header_def)
  then have "Timestamp header' = Timestamp header" using assms(1,2) unfolding wf_header_def by metis
  then show ?thesis using assms(3,4) by (cases header, cases header') (simp add: blockHeaderToC_def)
qed

lemma checkProofOfWork_native:
  assumes "\<not> IsAuxPowBlock header" "flags AND BFNoPoWCheck \<noteq> BFNoPoWCheck"
  shows "checkProofOfWork Z header certOpt powLimit flags = Inr () \<longleftrightarrow>
     0 < CompactToBig (Bits header) \<and> CompactToBig (Bits header) \<le> powLimit \<and>
     (\<exists>c. certOpt = Some c \<and> verifyZKCertificateInner Z header c None = Inr ())"
  using assms by (auto simp: checkProofOfWork_def VerifyCertificate_def Let_def not_le not_less split: option.splits sum.splits)

text \<open>The replacement of the Merkle root changes none of the checks on the header of a merged-mined block.\<close>

lemma auxpow_header_checks:
  assumes "IsAuxPowBlock header"
  shows "IsAuxPowBlock (header\<lparr>MerkleRoot := root\<rparr>)"
    and "CheckBlockHeaderSanity Z (header\<lparr>MerkleRoot := root\<rparr>) certOpt powLimit now offset flags =
         CheckBlockHeaderSanity Z' header certOpt powLimit now offset flags"
    and "checkHeaderRules (header\<lparr>MerkleRoot := root\<rparr>) prevNode flags chainParams = checkHeaderRules header prevNode flags chainParams"
  using assms by (simp_all add: IsAuxPowBlock_def CheckBlockHeaderSanity_def checkProofOfWork_def checkHeaderRules_def Let_def split: option.splits)

section \<open>Properties\<close>

text \<open>
  C11. A block of this chain is accepted only with a proof for exactly its header: the header checks pass precisely when there is a
  certificate of admissible size whose hash is that of the header and whose public data the header commits to, the verifier
  accepts its proof for the header, the target is positive and within the limit, and the time is a whole second not too far in the
  future; and the header is determined by what the verifier sees of it together with the commitment.
\<close>

theorem native_header_proved:
  assumes "\<not> IsAuxPowBlock header" "flags AND BFNoPoWCheck \<noteq> BFNoPoWCheck"
  shows "(CheckBlockHeaderSanity Z header certOpt powLimit now offset flags = Inr () \<longleftrightarrow>
    (\<exists>c. certOpt = Some c \<and> 4 + ZKCertificate_SerializedSize c \<le> CertificateMaxSize \<and>
       Timestamp header = unixTime (Unix (Timestamp header)) \<and> Timestamp header \<le> now + Minute * offset \<and>
       0 < CompactToBig (Bits header) \<and> CompactToBig (Bits header) \<le> powLimit \<and>
       CertHash c = BlockHash header \<and> ProofCommitment header = ZKCertificate_ProofCommitment c \<and> ProofData c \<noteq> [] \<and>
       verify_zk_proof_v2 Z (blockHeaderToC header) (PublicData c) (ProofData c) = 0)) \<and>
    (\<forall>header'. wf_header header \<and> wf_header header' \<and> blockHeaderToC header' = blockHeaderToC header \<and>
       ProofCommitment header' = ProofCommitment header \<longrightarrow> header' = header)"
proof
  show "CheckBlockHeaderSanity Z header certOpt powLimit now offset flags = Inr () \<longleftrightarrow>
    (\<exists>c. certOpt = Some c \<and> 4 + ZKCertificate_SerializedSize c \<le> CertificateMaxSize \<and>
       Timestamp header = unixTime (Unix (Timestamp header)) \<and> Timestamp header \<le> now + Minute * offset \<and>
       0 < CompactToBig (Bits header) \<and> CompactToBig (Bits header) \<le> powLimit \<and>
       CertHash c = BlockHash header \<and> ProofCommitment header = ZKCertificate_ProofCommitment c \<and> ProofData c \<noteq> [] \<and>
       verify_zk_proof_v2 Z (blockHeaderToC header) (PublicData c) (ProofData c) = 0)"
    using assms(1) checkProofOfWork_native [OF assms]
    by (cases certOpt) (auto simp: CheckBlockHeaderSanity_def verifyZKCertificateInner_iff IsCertVersionAllowed_def not_less Let_def)
  show "\<forall>header'. wf_header header \<and> wf_header header' \<and> blockHeaderToC header' = blockHeaderToC header \<and>
       ProofCommitment header' = ProofCommitment header \<longrightarrow> header' = header"
    using blockHeaderToC_inj by blast
qed

definition exampleCert :: "BlockHeader \<Rightarrow> ZKCertificate" where
  "exampleCert header = \<lparr>CertHash = BlockHash header, PublicData = replicate 164 1, ProofData = [7]\<rparr>"

definition provedHeader :: BlockHeader where
  "provedHeader = (exampleHeader 30)\<lparr>ProofCommitment := ZKCertificate_ProofCommitment (exampleCert (exampleHeader 30))\<rparr>"

definition lenientVerifier :: ZkVerifier where
  "lenientVerifier = \<lparr>verify_zk_proof_v2 = (\<lambda>_ _ _. 0), verify_zk_proof_auxpow_with_nbits = (\<lambda>_ _ _ _. 0)\<rparr>"

theorem native_header_proved_witness:
  "CheckBlockHeaderSanity lenientVerifier provedHeader (Some (exampleCert provedHeader)) (2 ^ 224) (unixTime 30) 5 BFNone = Inr () \<and>
   CheckBlockHeaderSanity lenientVerifier provedHeader None (2 ^ 224) (unixTime 30) 5 BFNone \<noteq> Inr ()"
proof -
  have bits: "0 < CompactToBig 0x1d00ffff" "CompactToBig 0x1d00ffff \<le> 2 ^ 224" by code_simp+
  have a: "\<not> IsAuxPowBlock provedHeader" "BFNone AND BFNoPoWCheck \<noteq> BFNoPoWCheck"
    by (simp_all add: provedHeader_def exampleHeader_def IsAuxPowBlock_def auxPowMask_def BFNone_def BFNoPoWCheck_def)
  have c: "ProofCommitment provedHeader = ZKCertificate_ProofCommitment (exampleCert provedHeader)"
    by (simp add: provedHeader_def ZKCertificate_ProofCommitment_def exampleCert_def)
  show ?thesis
    using native_header_proved [OF a, of lenientVerifier "Some (exampleCert provedHeader)" "2 ^ 224" "unixTime 30" 5]
      native_header_proved [OF a, of lenientVerifier None "2 ^ 224" "unixTime 30" 5] c bits
    by (simp add: exampleCert_def ZKCertificate_SerializedSize_def CertificateMaxSize_def PublicDataSize_def lenientVerifier_def
        provedHeader_def exampleHeader_def Unix_def unixTime_def Minute_def Second_def)
qed


end
