(* ===== verification/Merkle.thy ===== *)
theory Merkle
  imports Tx_Basics Chain_Params
begin

text \<open>
  Merkle roots (\<^verbatim>\<open>node/blockchain/merkle.go\<close>, \<^verbatim>\<open>node/blockchain/rolling_merkle.go\<close>): the tree stored in an array, the
  rolling computation that keeps one root per perfect subtree, and the witness commitment of a block.

  Both computations are compared with a reference that hashes one row of the tree at a time.  A loop of the code that
  can run for ever is a partial function, and a read outside a slice is \<open>None\<close>.
\<close>

section \<open>Definitions\<close>

definition HashMerkleBranches :: "hash \<Rightarrow> hash \<Rightarrow> hash" where
  "HashMerkleBranches left right = DoubleHashRaw (left @ right)"

text \<open>The leaves: transaction ids, or witness ids with a zero hash for the coinbase.\<close>

definition merkleLeaf :: "bool \<Rightarrow> nat \<Rightarrow> MsgTx \<Rightarrow> hash" where
  "merkleLeaf witness i tx = (if witness \<and> i = 0 then zeroHash else if witness then WitnessHash tx else TxHash tx)"

definition merkleLeaves :: "bool \<Rightarrow> MsgTx list \<Rightarrow> hash list" where
  "merkleLeaves witness txs = map (\<lambda>(i, tx). merkleLeaf witness i tx) (enumerate 0 txs)"

subsection \<open>The tree in an array\<close>

text \<open>The code takes the logarithm in floating point, which is exact below \<open>2 ^ 46\<close>.\<close>

fun floorLog2 :: "nat \<Rightarrow> nat" where
  "floorLog2 n = (if n \<le> 1 then 0 else Suc (floorLog2 (n div 2)))"

declare floorLog2.simps [simp del]

definition nextPowerOfTwo :: "nat \<Rightarrow> nat" where
  "nextPowerOfTwo n = (if n AND (n - 1) = 0 then n else 2 ^ (floorLog2 n + 1))"

definition merkleParent :: "hash option \<Rightarrow> hash option \<Rightarrow> hash option" where
  "merkleParent left right = (case left of
     None \<Rightarrow> None
   | Some l \<Rightarrow> (case right of None \<Rightarrow> Some (HashMerkleBranches l l) | Some r \<Rightarrow> Some (HashMerkleBranches l r)))"

definition merkleStep :: "nat \<Rightarrow> hash option list \<Rightarrow> nat \<Rightarrow> hash option list" where
  "merkleStep nextPoT merkles j = merkles[nextPoT + j := merkleParent (merkles ! (2 * j)) (merkles ! (2 * j + 1))]"

definition BuildMerkleTreeStore :: "MsgTx list \<Rightarrow> bool \<Rightarrow> hash option list option" where
  "BuildMerkleTreeStore transactions witness =
     (let nextPoT = nextPowerOfTwo (length transactions) in
      if nextPoT = 0 then None
      else let arraySize = nextPoT * 2 - 1;
               leaves = merkleLeaves witness transactions;
               merkles = map Some leaves @ replicate (arraySize - length leaves) None
           in Some (foldl (merkleStep nextPoT) merkles [0..<nextPoT - 1]))"

subsection \<open>The rolling computation\<close>

record rollingMerkleTreeStore =
  roots :: "hash list"
  numLeaves :: nat

text \<open>The loop of \<open>add\<close>: as long as the lowest bit is set, the last root is popped and hashed with the new one.\<close>

function addLoop :: "nat \<Rightarrow> hash list \<Rightarrow> hash \<Rightarrow> hash list option" where
  "addLoop n rs newRoot =
     (if even n then Some (rs @ [newRoot])
      else if rs = [] then None
      else addLoop (n div 2) (butlast rs) (HashMerkleBranches (last rs) newRoot))"
  by pat_completeness auto
termination by (relation "measure (\<lambda>(n, _, _). n)") (auto elim: oddE)

declare addLoop.simps [simp del]

definition rolling_add :: "rollingMerkleTreeStore \<Rightarrow> hash \<Rightarrow> rollingMerkleTreeStore option" where
  "rolling_add s h = (case addLoop (numLeaves s) (roots s) h of
     None \<Rightarrow> None | Some rs \<Rightarrow> Some \<lparr>roots = rs, numLeaves = numLeaves s + 1\<rparr>)"

fun rolling_addAll :: "rollingMerkleTreeStore \<Rightarrow> hash list \<Rightarrow> rollingMerkleTreeStore option" where
  "rolling_addAll s [] = Some s"
| "rolling_addAll s (h # hs) = (case rolling_add s h of None \<Rightarrow> None | Some s' \<Rightarrow> rolling_addAll s' hs)"

text \<open>The inner loop that moves up to the next row with an odd number of nodes; it does not end on zero.\<close>

partial_function (option) skipEvenRows :: "nat \<Rightarrow> nat option" where
  "skipEvenRows n = (if even n then skipEvenRows (n div 2) else Some n)"

partial_function (option) foldRoots :: "hash list \<Rightarrow> nat \<Rightarrow> hash list option" where
  "foldRoots rs n =
     (if length rs \<le> 1 then Some rs
      else Option.bind (skipEvenRows n) (\<lambda>m.
           Option.bind (addLoop m rs (last rs)) (\<lambda>rs'. foldRoots rs' (m + 1))))"

definition calcMerkleRoot :: "MsgTx list \<Rightarrow> bool \<Rightarrow> hash option" where
  "calcMerkleRoot adds witness =
     Option.bind (rolling_addAll \<lparr>roots = [], numLeaves = 0\<rparr> (merkleLeaves witness adds)) (\<lambda>s.
     if numLeaves s = 1 then Some (roots s ! 0)
     else Option.bind
       (if length adds > 0 \<and> odd (length adds)
        then rolling_add s (if witness then WitnessHash (last adds) else TxHash (last adds)) else Some s) (\<lambda>s.
     Option.bind (foldRoots (roots s) (numLeaves s)) (\<lambda>rs. case rs of [] \<Rightarrow> None | r # _ \<Rightarrow> Some r)))"

definition CalcMerkleRoot :: "MsgTx list \<Rightarrow> bool \<Rightarrow> hash option" where
  "CalcMerkleRoot transactions witness = calcMerkleRoot transactions witness"

subsection \<open>The witness commitment\<close>

definition CoinbaseWitnessDataLen :: nat where "CoinbaseWitnessDataLen = 32"
definition CoinbaseWitnessPkScriptLength :: nat where "CoinbaseWitnessPkScriptLength = 38"
definition WitnessMagicBytes :: bytes where "WitnessMagicBytes = [0x6a, 0x24, 0xaa, 0x21, 0xa9, 0xed]"

definition isCommitmentScript :: "bytes \<Rightarrow> bool" where
  "isCommitmentScript pkScript \<longleftrightarrow>
     length pkScript \<ge> CoinbaseWitnessPkScriptLength \<and> take (length WitnessMagicBytes) pkScript = WitnessMagicBytes"

definition ExtractWitnessCommitment :: "MsgTx \<Rightarrow> bytes option" where
  "ExtractWitnessCommitment tx =
     (if \<not> IsCoinBaseTx tx then None
      else firstSome (\<lambda>txOut. if isCommitmentScript (PkScript txOut)
             then Some (slice (length WitnessMagicBytes) CoinbaseWitnessPkScriptLength (PkScript txOut)) else None)
           (rev (TxOut tx)))"

definition ValidateWitnessCommitment :: "MsgBlock \<Rightarrow> (chainError, unit) result" where
  "ValidateWitnessCommitment blk = (case Transactions blk of
     [] \<Rightarrow> Inl (RuleError ErrNoTransactions)
   | coinbaseTx # _ \<Rightarrow>
       if TxIn coinbaseTx = [] then Inl (RuleError ErrNoTxInputs)
       else case ExtractWitnessCommitment coinbaseTx of
           None \<Rightarrow> forE (\<lambda>tx. guardE (HasWitness tx) (RuleError ErrUnexpectedWitness)) (Transactions blk)
         | Some witnessCommitment \<Rightarrow>
             let coinbaseWitness = Witness (TxIn coinbaseTx ! 0) in
             if length coinbaseWitness \<noteq> 1 then Inl (RuleError ErrInvalidWitnessCommitment)
             else let witnessNonce = coinbaseWitness ! 0 in
             if length witnessNonce \<noteq> CoinbaseWitnessDataLen then Inl (RuleError ErrInvalidWitnessCommitment)
             else case CalcMerkleRoot (Transactions blk) True of
                 None \<Rightarrow> Inl GoPanic
               | Some witnessMerkleRoot \<Rightarrow>
                   guardE (DoubleHashB (witnessMerkleRoot @ witnessNonce) \<noteq> witnessCommitment)
                     (RuleError ErrWitnessCommitmentMismatch))"

section \<open>The reference\<close>

fun pairRow :: "hash list \<Rightarrow> hash list" where
  "pairRow [] = []"
| "pairRow [x] = [HashMerkleBranches x x]"
| "pairRow (x # y # xs) = HashMerkleBranches x y # pairRow xs"

lemma length_pairRow [simp]: "length (pairRow xs) = (length xs + 1) div 2"
  by (induction xs rule: pairRow.induct) auto

lemma pairRow_eq_Nil [simp]: "pairRow xs = [] \<longleftrightarrow> xs = []"
  by (cases xs rule: pairRow.cases) auto

function merkleRoot :: "hash list \<Rightarrow> hash option" where
  "merkleRoot [] = None"
| "merkleRoot [x] = Some x"
| "merkleRoot (x # y # xs) = merkleRoot (pairRow (x # y # xs))"
  by pat_completeness auto
termination by (relation "measure length") auto

declare merkleRoot.simps(3) [simp del]

lemma merkleRoot_row: "2 \<le> length xs \<Longrightarrow> merkleRoot xs = merkleRoot (pairRow xs)"
  by (cases xs rule: merkleRoot.cases) (auto simp: merkleRoot.simps(3))

lemma pairRow_append_even: "even (length xs) \<Longrightarrow> pairRow (xs @ ys) = pairRow xs @ pairRow ys"
  by (induction xs rule: pairRow.induct) auto

text \<open>Doubling the last node of an odd row changes nothing above it.\<close>

lemma pairRow_double_last: "odd (length xs) \<Longrightarrow> pairRow (xs @ [last xs]) = pairRow xs"
  by (induction xs rule: pairRow.induct) auto

section \<open>The rolling computation gives the reference root\<close>

text \<open>The roots of the perfect subtrees that cover a row, largest first.\<close>

function peaks :: "hash list \<Rightarrow> hash list" where
  "peaks xs = (if xs = [] then []
     else if odd (length xs) then peaks (pairRow (butlast xs)) @ [last xs] else peaks (pairRow xs))"
  by pat_completeness auto
termination
proof (relation "measure length")
  fix xs :: "hash list"
  assume "xs \<noteq> []"
  then have "0 < length xs" by simp
  then show "(pairRow (butlast xs), xs) \<in> measure length" by simp
  show "(pairRow xs, xs) \<in> measure length" if "\<not> odd (length xs)"
    using that \<open>0 < length xs\<close> by simp
qed simp

declare peaks.simps [simp del]

lemma peaks_Nil [simp]: "peaks [] = []"
  by (simp add: peaks.simps)

lemma peaks_odd: "odd (length xs) \<Longrightarrow> peaks xs = peaks (pairRow (butlast xs)) @ [last xs]"
  by (subst peaks.simps) auto

lemma peaks_even: "even (length xs) \<Longrightarrow> peaks xs = peaks (pairRow xs)"
  by (cases "xs = []") (auto simp: peaks.simps [of xs])

text \<open>\<open>add\<close> extends the row by one node.\<close>

lemma addLoop_peaks: "addLoop (length xs) (peaks xs) x = Some (peaks (xs @ [x]))"
proof (induction "length xs" arbitrary: xs x rule: less_induct)
  case less
  show ?case
  proof (cases "even (length xs)")
    case True
    then show ?thesis by (simp add: addLoop.simps peaks_odd [of "xs @ [x]"] peaks_even [of xs])
  next
    case False
    then have ne: "xs \<noteq> []" by auto
    let ?ys = "pairRow (butlast xs)" and ?h = "HashMerkleBranches (last xs) x"
    have len: "length ?ys = length xs div 2" using False by (auto elim: oddE)
    have "addLoop (length xs) (peaks xs) x = addLoop (length ?ys) (peaks ?ys) ?h"
      using False len by (simp add: addLoop.simps [of "length xs"] peaks_odd)
    also have "\<dots> = Some (peaks (?ys @ [?h]))" using ne len by (intro less) simp
    also have "?ys @ [?h] = pairRow (xs @ [x])"
    proof -
      obtain zs z where zs: "xs = zs @ [z]" using ne by (metis append_butlast_last_id)
      with False have "even (length zs)" by simp
      then show ?thesis by (simp add: zs pairRow_append_even)
    qed
    finally show ?thesis using False by (simp add: peaks_even [of "xs @ [x]"])
  qed
qed

lemma rolling_addAll_peaks:
  "rolling_addAll \<lparr>roots = peaks xs, numLeaves = length xs\<rparr> ys
     = Some \<lparr>roots = peaks (xs @ ys), numLeaves = length (xs @ ys)\<rparr>"
proof (induction ys arbitrary: xs)
  case Nil
  then show ?case by simp
next
  case (Cons y ys)
  show ?case using Cons.IH [of "xs @ [y]"] by (simp add: rolling_add_def addLoop_peaks)
qed

text \<open>Moving up over even rows keeps the roots and the root of the tree.\<close>

lemma skipEvenRows_row:
  "xs \<noteq> [] \<Longrightarrow> \<exists>ys. skipEvenRows (length xs) = Some (length ys) \<and> odd (length ys) \<and> peaks ys = peaks xs \<and>
     merkleRoot ys = merkleRoot xs \<and> length ys \<le> length xs \<and> (even (length xs) \<longrightarrow> 2 * length ys \<le> length xs)"
proof (induction "length xs" arbitrary: xs rule: less_induct)
  case less
  show ?case
  proof (cases "even (length xs)")
    case True
    then have two: "2 \<le> length xs" using less.prems by (cases xs rule: pairRow.cases) auto
    let ?ys = "pairRow xs"
    have len: "length ?ys = length xs div 2" "2 * length ?ys = length xs" using True by auto
    obtain zs where zs: "skipEvenRows (length ?ys) = Some (length zs)" "odd (length zs)" "peaks zs = peaks ?ys"
      "merkleRoot zs = merkleRoot ?ys" "length zs \<le> length ?ys"
      using less.hyps [of ?ys] two len less.prems by (auto simp del: length_pairRow)
    have "skipEvenRows (length xs) = skipEvenRows (length ?ys)"
      using True len(1) by (simp add: skipEvenRows.simps [of "length xs"])
    moreover have "peaks ?ys = peaks xs" "merkleRoot ?ys = merkleRoot xs"
      using True two by (simp_all add: peaks_even [of xs] merkleRoot_row [of xs])
    moreover have "2 * length zs \<le> length xs" using zs(5) len(2) by linarith
    ultimately show ?thesis using zs by (intro exI [of _ zs]) auto
  next
    case False
    then show ?thesis by (intro exI [of _ xs]) (simp add: skipEvenRows.simps)
  qed
qed

lemma merkleRoot_double_last:
  assumes "odd (length xs)" "3 \<le> length xs"
  shows "merkleRoot (xs @ [last xs]) = merkleRoot xs"
  using assms by (simp add: merkleRoot_row [of xs] merkleRoot_row [of "xs @ [last xs]"] pairRow_double_last)

lemma peaks_single: "length (peaks xs) \<le> 1 \<Longrightarrow> xs \<noteq> [] \<Longrightarrow> \<exists>r. peaks xs = [r] \<and> merkleRoot xs = Some r"
proof (induction xs rule: peaks.induct)
  case (1 xs)
  show ?case
  proof (cases "odd (length xs)")
    case True
    then have "peaks (pairRow (butlast xs)) = []" using "1.prems"(1) by (simp add: peaks_odd [of xs])
    then have "pairRow (butlast xs) = []"
      using "1.IH"(1) [OF "1.prems"(2) True] by (metis list.distinct(1) list.size(3) zero_le)
    then have "xs = [last xs]" using "1.prems"(2) by (metis append_butlast_last_id append_Nil pairRow_eq_Nil)
    then obtain r where "xs = [r]" by blast
    then show ?thesis by (simp add: peaks_odd)
  next
    case False
    then have "2 \<le> length xs" using "1.prems"(2) by (cases xs rule: pairRow.cases) auto
    with False 1 show ?thesis by (auto simp: peaks_even [of xs] merkleRoot_row [of xs])
  qed
qed

lemma foldRoots_root:
  "xs \<noteq> [] \<Longrightarrow> even (length xs) \<or> length xs = 1 \<Longrightarrow>
     \<exists>r. foldRoots (peaks xs) (length xs) = Some [r] \<and> merkleRoot xs = Some r"
proof (induction "length xs" arbitrary: xs rule: less_induct)
  case less
  show ?case
  proof (cases "length (peaks xs) \<le> 1")
    case True
    then show ?thesis using peaks_single [OF True less.prems(1)] by (auto simp: foldRoots.simps)
  next
    case False
    have ev: "even (length xs)"
    proof (rule ccontr)
      assume "odd (length xs)"
      then obtain x where "xs = [x]" using less.prems(2) by (metis length_0_conv length_Suc_conv One_nat_def)
      with False show False by (simp add: peaks_odd)
    qed
    obtain ys where ys: "skipEvenRows (length xs) = Some (length ys)" "odd (length ys)" "peaks ys = peaks xs"
      "merkleRoot ys = merkleRoot xs" "2 * length ys \<le> length xs"
      using skipEvenRows_row [OF less.prems(1)] ev by blast
    have "length ys \<noteq> 1"
    proof
      assume "length ys = 1"
      then obtain y where "ys = [y]" by (metis length_0_conv length_Suc_conv One_nat_def)
      then have "peaks ys = [y]" by (simp add: peaks_odd)
      with ys(3) False show False by (metis length_Cons list.size(3) One_nat_def order.refl)
    qed
    with ys(2) have three: "3 \<le> length ys" by presburger
    have last: "last (peaks xs) = last ys" using ys(2,3) peaks_odd [of ys] by (metis last_snoc)
    let ?zs = "ys @ [last ys]"
    obtain r where r: "foldRoots (peaks ?zs) (length ?zs) = Some [r]" "merkleRoot ?zs = Some r"
      using less.hyps [of ?zs] ys(2,5) three by auto
    have "foldRoots (peaks xs) (length xs) = foldRoots (peaks ?zs) (length ?zs)"
      using False ys(1) last addLoop_peaks [of ys "last ys"] ys(3) by (subst foldRoots.simps) simp
    with r ys(2,4) three show ?thesis by (simp add: merkleRoot_double_last)
  qed
qed

lemma length_merkleLeaves [simp]: "length (merkleLeaves witness txs) = length txs"
  by (simp add: merkleLeaves_def)

lemma merkleLeaves_eq_Nil [simp]: "merkleLeaves witness txs = [] \<longleftrightarrow> txs = []"
  by (metis length_0_conv length_merkleLeaves)

lemma nth_merkleLeaves: "i < length txs \<Longrightarrow> merkleLeaves witness txs ! i = merkleLeaf witness i (txs ! i)"
  by (simp add: merkleLeaves_def nth_enumerate_eq)

lemma last_merkleLeaves:
  assumes "2 \<le> length txs"
  shows "last (merkleLeaves witness txs) = (if witness then WitnessHash (last txs) else TxHash (last txs))"
proof -
  have "txs \<noteq> []" "length txs - 1 < length txs" "length txs - 1 \<noteq> 0" using assms by auto
  then show ?thesis by (simp add: last_conv_nth nth_merkleLeaves merkleLeaf_def)
qed

lemma CalcMerkleRoot_reference: "CalcMerkleRoot txs witness = merkleRoot (merkleLeaves witness txs)"
proof -
  let ?ls = "merkleLeaves witness txs"
  have all: "rolling_addAll \<lparr>roots = [], numLeaves = 0\<rparr> ?ls = Some \<lparr>roots = peaks ?ls, numLeaves = length txs\<rparr>"
    using rolling_addAll_peaks [of "[]" ?ls] by simp
  consider "txs = []" | "length txs = 1" | "2 \<le> length txs" "even (length txs)" | "3 \<le> length txs" "odd (length txs)"
    proof -
    have "n = 0 \<or> n = 1 \<or> 2 \<le> n \<and> even n \<or> 3 \<le> n \<and> odd n" for n :: nat by presburger
    then show thesis using that by (metis length_0_conv)
  qed
  then show ?thesis
  proof cases
    case 1
    then show ?thesis by (simp add: CalcMerkleRoot_def calcMerkleRoot_def merkleLeaves_def foldRoots.simps)
  next
    case 2
    then obtain l where l: "?ls = [l]" by (metis One_nat_def length_0_conv length_Suc_conv length_merkleLeaves)
    then have "peaks ?ls = [l]" by (simp add: peaks_odd)
    with 2 l all show ?thesis by (simp add: CalcMerkleRoot_def calcMerkleRoot_def)
  next
    case 3
    then have "txs \<noteq> []" by auto
    then obtain r where "foldRoots (peaks ?ls) (length ?ls) = Some [r]" "merkleRoot ?ls = Some r"
      using foldRoots_root [of ?ls] 3 by auto
    with 3 all show ?thesis by (simp add: CalcMerkleRoot_def calcMerkleRoot_def)
  next
    case 4
    then have ne: "txs \<noteq> []" by auto
    let ?zs = "?ls @ [last ?ls]"
    have last: "last ?ls = (if witness then WitnessHash (last txs) else TxHash (last txs))"
      using 4 by (intro last_merkleLeaves) simp
    obtain r where r: "foldRoots (peaks ?zs) (length ?zs) = Some [r]" "merkleRoot ?zs = Some r"
      using foldRoots_root [of ?zs] 4 by auto
    have "merkleRoot ?ls = Some r" using r(2) merkleRoot_double_last [of ?ls] 4 by simp
    moreover have "rolling_add \<lparr>roots = peaks ?ls, numLeaves = length txs\<rparr> (last ?ls)
        = Some \<lparr>roots = peaks ?zs, numLeaves = length ?zs\<rparr>"
      using addLoop_peaks [of ?ls "last ?ls"] by (simp add: rolling_add_def)
    ultimately show ?thesis using 4 ne all r(1) last by (simp add: CalcMerkleRoot_def calcMerkleRoot_def)
  qed
qed

section \<open>The tree in the array has the reference root\<close>

definition padRow :: "nat \<Rightarrow> hash list \<Rightarrow> hash option list" where
  "padRow n xs = map Some xs @ replicate (n - length xs) None"

lemma nth_padRow: "i < n \<Longrightarrow> length xs \<le> n \<Longrightarrow> padRow n xs ! i = (if i < length xs then Some (xs ! i) else None)"
  by (simp add: padRow_def nth_append)

lemma nth_pairRow:
  "2 * i < length xs \<Longrightarrow> pairRow xs ! i =
     HashMerkleBranches (xs ! (2 * i)) (if 2 * i + 1 < length xs then xs ! (2 * i + 1) else xs ! (2 * i))"
proof (induction xs arbitrary: i rule: pairRow.induct)
  case (3 x y xs)
  then show ?case by (cases i) auto
qed auto

lemma merkleParent_padRow:
  assumes "i < m" "length xs \<le> 2 * m"
  shows "merkleParent (padRow (2 * m) xs ! (2 * i)) (padRow (2 * m) xs ! (2 * i + 1)) = padRow m (pairRow xs) ! i"
proof -
  have "length (pairRow xs) \<le> m" "i < length (pairRow xs) \<longleftrightarrow> 2 * i < length xs" using assms(2) by auto
  with assms show ?thesis by (auto simp: nth_padRow merkleParent_def nth_pairRow)
qed

lemma merkleRoot_rows:
  "length xs \<le> 2 ^ d \<Longrightarrow> 2 ^ d < 2 * length xs \<Longrightarrow> merkleRoot xs = Some ((pairRow ^^ d) xs ! 0) \<and> length ((pairRow ^^ d) xs) = 1"
proof (induction d arbitrary: xs)
  case 0
  then have "length xs = 1" by simp
  then show ?case by (cases xs rule: merkleRoot.cases) auto
next
  case (Suc d)
  have "1 \<le> (2 :: nat) ^ d" by simp
  then have "2 \<le> length xs" using Suc.prems(2) unfolding power_Suc by linarith
  moreover have "length (pairRow xs) \<le> 2 ^ d" "2 ^ d < 2 * length (pairRow xs)" using Suc.prems by auto
  ultimately show ?case using Suc.IH [of "pairRow xs"] by (simp add: merkleRoot_row funpow_swap1)
qed

text \<open>The loop leaves the leaves alone and makes every later cell the parent of its two children.\<close>

lemma length_merkleStep [simp]: "length (merkleStep P A j) = length A"
  by (simp add: merkleStep_def)

lemma length_foldl_merkleStep [simp]: "length (foldl (merkleStep P) A js) = length A"
  by (induction js arbitrary: A) auto

lemma foldl_merkleStep:
  assumes "length A = 2 * P - 1" "n \<le> P - 1"
  shows "(\<forall>i < P. foldl (merkleStep P) A [0..<n] ! i = A ! i) \<and>
    (\<forall>j < n. foldl (merkleStep P) A [0..<n] ! (P + j) =
       merkleParent (foldl (merkleStep P) A [0..<n] ! (2 * j)) (foldl (merkleStep P) A [0..<n] ! (2 * j + 1)))"
  using assms(2)
proof (induction n)
  case 0
  then show ?case by simp
next
  case (Suc n)
  let ?B = "foldl (merkleStep P) A [0..<n]"
  let ?v = "merkleParent (?B ! (2 * n)) (?B ! (2 * n + 1))"
  have step: "foldl (merkleStep P) A [0..<Suc n] = ?B[P + n := ?v]" by (simp add: merkleStep_def)
  have len: "length ?B = 2 * P - 1" using assms(1) by simp
  have IH: "\<forall>i < P. ?B ! i = A ! i" "\<And>j. j < n \<Longrightarrow> ?B ! (P + j) = merkleParent (?B ! (2 * j)) (?B ! (2 * j + 1))"
    using Suc by simp_all
  show ?case unfolding step
  proof (intro conjI allI impI)
    fix i assume "i < P"
    then show "?B[P + n := ?v] ! i = A ! i" using IH(1) by simp
  next
    fix j assume "j < Suc n"
    then have "2 * j \<noteq> P + n" "2 * j + 1 \<noteq> P + n" using Suc.prems by auto
    then show "?B[P + n := ?v] ! (P + j) = merkleParent (?B[P + n := ?v] ! (2 * j)) (?B[P + n := ?v] ! (2 * j + 1))"
      using \<open>j < Suc n\<close> IH(2) [of j] len Suc.prems by (cases "j = n") auto
  qed
qed

lemma merkleArray_row:
  assumes "length xs \<le> 2 ^ d" "k \<le> d" "i < 2 ^ (d - k)"
    and "A = foldl (merkleStep (2 ^ d)) (padRow (2 * 2 ^ d - 1) xs) [0..<2 ^ d - 1]"
  shows "A ! (2 * 2 ^ d - 2 * 2 ^ (d - k) + i) = padRow (2 ^ (d - k)) ((pairRow ^^ k) xs) ! i
    \<and> length ((pairRow ^^ k) xs) \<le> 2 ^ (d - k)"
  using assms(2,3)
proof (induction k arbitrary: i)
  let ?P = "2 ^ d :: nat"
  have len: "length (padRow (2 * ?P - 1) xs) = 2 * ?P - 1" using assms(1) by (simp add: padRow_def)
  note A = foldl_merkleStep [OF len order.refl, folded assms(4)]
  {
    case 0
    have "A ! i = padRow (2 * ?P - 1) xs ! i" using A 0 by simp
    also have "\<dots> = padRow ?P xs ! i" using 0 assms(1) by (simp add: nth_padRow)
    finally show ?case using assms(1) by simp
  next
    case (Suc k)
    let ?m = "2 ^ (d - Suc k) :: nat"
    have m: "2 ^ (d - k) = 2 * ?m" using Suc.prems(1) by (simp add: Suc_diff_Suc flip: power_Suc)
    have le: "2 * ?m \<le> ?P" using m by (metis diff_le_self one_le_numeral power_increasing)
    let ?j = "?P - 2 * ?m + i"
    have j: "?j < ?P - 1" using le Suc.prems(2) by linarith
    have "A ! (2 * ?P - 2 * ?m + i) = A ! (?P + ?j)" using le by (intro arg_cong [of _ _ "\<lambda>n. A ! n"]) simp
    also have "\<dots> = merkleParent (A ! (2 * ?j)) (A ! (2 * ?j + 1))" using A j by blast
    also have "2 * ?j = 2 * ?P - 2 * 2 ^ (d - k) + 2 * i" using le by (simp add: m)
    also have "2 * ?P - 2 * 2 ^ (d - k) + 2 * i + 1 = 2 * ?P - 2 * 2 ^ (d - k) + (2 * i + 1)" by simp
    finally have "A ! (2 * ?P - 2 * ?m + i) =
      merkleParent (padRow (2 ^ (d - k)) ((pairRow ^^ k) xs) ! (2 * i)) (padRow (2 ^ (d - k)) ((pairRow ^^ k) xs) ! (2 * i + 1))"
      using Suc.IH [of "2 * i"] Suc.IH [of "2 * i + 1"] Suc.prems by (simp add: m)
    moreover have "length ((pairRow ^^ k) xs) \<le> 2 * ?m" using Suc.IH [of 0] Suc.prems(1) by (simp add: m)
    moreover have "length ((pairRow ^^ Suc k) xs) \<le> ?m" using calculation(2) by simp
    ultimately show ?case using merkleParent_padRow [OF Suc.prems(2), of "(pairRow ^^ k) xs"] by (simp add: m)
  }
qed

lemma and_pred_double: "0 < m \<Longrightarrow> (2 * m) AND (2 * m - 1) = 2 * (m AND (m - 1))" for m :: nat
proof -
  assume "0 < m"
  then have "2 * m - 1 = 2 * (m - 1) + 1" by simp
  then show ?thesis by (simp add: and_rec [of "2 * m"])
qed

lemma floorLog2_bounds: "0 < n \<Longrightarrow> 2 ^ floorLog2 n \<le> n \<and> n < 2 ^ (floorLog2 n + 1)"
proof (induction n rule: floorLog2.induct)
  case (1 n)
  show ?case
  proof (cases "n \<le> 1")
    case True
    then show ?thesis using 1 by (simp add: floorLog2.simps)
  next
    case False
    then have "2 ^ floorLog2 (n div 2) \<le> n div 2 \<and> n div 2 < 2 ^ (floorLog2 (n div 2) + 1)" using 1 by simp
    with False show ?thesis by (simp add: floorLog2.simps [of n]) linarith
  qed
qed

lemma power_of_two_and: "(2 :: nat) ^ d AND (2 ^ d - 1) = 0"
proof (induction d)
  case (Suc d)
  then show ?case using and_pred_double [of "2 ^ d"] by simp
qed simp

lemma and_pred_power_of_two: "0 < n \<Longrightarrow> n AND (n - 1) = 0 \<Longrightarrow> \<exists>d. n = 2 ^ d" for n :: nat
proof (induction n rule: less_induct)
  case (less n)
  show ?case
  proof (cases "even n")
    case True
    then obtain m where m: "n = 2 * m" by blast
    then have "m AND (m - 1) = 0" "0 < m" "m < n" using less.prems and_pred_double [of m] by simp_all
    then obtain d where "m = 2 ^ d" using less.IH by blast
    with m have "n = 2 ^ Suc d" by simp
    then show ?thesis by blast
  next
    case False
    then obtain m where m: "n = 2 * m + 1" by (auto elim: oddE)
    then have "n AND (n - 1) = 2 * m" by (simp add: and_rec [of "Suc (2 * m)"])
    with less.prems m have "n = 2 ^ 0" by simp
    then show ?thesis by blast
  qed
qed

lemma nextPowerOfTwo_bounds:
  assumes "0 < n"
  obtains d where "nextPowerOfTwo n = 2 ^ d" "n \<le> 2 ^ d" "2 ^ d < 2 * n"
proof (cases "n AND (n - 1) = 0")
  case True
  then obtain d where "n = 2 ^ d" using assms and_pred_power_of_two by blast
  with True assms show ?thesis by (intro that [of d]) (auto simp: nextPowerOfTwo_def)
next
  case False
  let ?d = "floorLog2 n"
  have "n \<noteq> 2 ^ ?d" using False power_of_two_and by metis
  with floorLog2_bounds [OF assms] have "2 ^ (?d + 1) < 2 * n" "n \<le> 2 ^ (?d + 1)" by simp_all
  with False show ?thesis by (intro that [of "?d + 1"]) (auto simp: nextPowerOfTwo_def)
qed

lemma BuildMerkleTreeStore_reference:
  assumes "txs \<noteq> []"
  obtains merkles where "BuildMerkleTreeStore txs witness = Some merkles" "merkles \<noteq> []"
    "last merkles = merkleRoot (merkleLeaves witness txs)"
proof -
  let ?ls = "merkleLeaves witness txs"
  obtain d where d: "nextPowerOfTwo (length txs) = 2 ^ d" "length txs \<le> 2 ^ d" "2 ^ d < 2 * length txs"
    using nextPowerOfTwo_bounds [of "length txs"] assms by auto
  define A where "A = foldl (merkleStep (2 ^ d)) (padRow (2 * 2 ^ d - 1) ?ls) [0..<2 ^ d - 1]"
  have store: "BuildMerkleTreeStore txs witness = Some A"
    using d by (simp add: BuildMerkleTreeStore_def A_def padRow_def Let_def mult.commute)
  have len: "length A = 2 * 2 ^ d - 1" using d(2) by (simp add: A_def padRow_def)
  have "1 \<le> (2 :: nat) ^ d" by simp
  then have "0 < 2 * (2 :: nat) ^ d - 1" by linarith
  with len have ne: "A \<noteq> []" by (metis less_irrefl list.size(3))
  have "last A = A ! (2 * 2 ^ d - 2)" using ne len by (simp add: last_conv_nth numeral_2_eq_2)
  also have "\<dots> = padRow 1 ((pairRow ^^ d) ?ls) ! 0"
    using merkleArray_row [of ?ls d d 0 A] d(2) A_def by simp
  also have "\<dots> = merkleRoot ?ls"
    using merkleRoot_rows [of ?ls d] d(2,3) by (simp add: nth_padRow)
  finally show ?thesis using that store ne by blast
qed

lemma merkleRoot_None_iff: "merkleRoot xs = None \<longleftrightarrow> xs = []"
  by (induction xs rule: merkleRoot.induct) (auto simp: merkleRoot.simps(3))

section \<open>Properties\<close>

text \<open>
  C29. The rolling computation of a Merkle root, which keeps only one root per perfect subtree, ends on every list of
  transactions and gives the root of the tree built row by row with the last node of an odd row doubled, both for
  transaction ids and for witness ids.  Only the empty list has no root: there the code reads outside a slice.
\<close>

theorem CalcMerkleRoot_correct:
  "CalcMerkleRoot txs witness = merkleRoot (merkleLeaves witness txs)
    \<and> (CalcMerkleRoot txs witness = None \<longleftrightarrow> txs = [])"
proof
  show "CalcMerkleRoot txs witness = merkleRoot (merkleLeaves witness txs)" by (rule CalcMerkleRoot_reference)
  show "CalcMerkleRoot txs witness = None \<longleftrightarrow> txs = []" by (simp add: CalcMerkleRoot_reference merkleRoot_None_iff)
qed

text \<open>
  C30. The tree stored in a linear array has the same root: for every non-empty list of transactions the array is built
  without a fault and its last cell holds the root that the rolling computation returns.
\<close>

theorem BuildMerkleTreeStore_agrees:
  assumes "txs \<noteq> []"
  shows "\<exists>merkles root. BuildMerkleTreeStore txs witness = Some merkles \<and> merkles \<noteq> [] \<and>
    last merkles = Some root \<and> CalcMerkleRoot txs witness = Some root"
proof -
  obtain merkles where m: "BuildMerkleTreeStore txs witness = Some merkles" "merkles \<noteq> []"
    "last merkles = merkleRoot (merkleLeaves witness txs)" using assms by (rule BuildMerkleTreeStore_reference)
  with assms obtain root where "merkleRoot (merkleLeaves witness txs) = Some root" by (metis merkleLeaves_eq_Nil merkleRoot_None_iff not_Some_eq)
  with m show ?thesis by (auto simp: CalcMerkleRoot_reference)
qed

definition exampleTx :: MsgTx where
  "exampleTx = \<lparr>MsgTx.Version = 1, TxIn = [], TxOut = [], LockTime = 0\<rparr>"

theorem BuildMerkleTreeStore_agrees_witness:
  "\<exists>merkles root. BuildMerkleTreeStore [exampleTx, exampleTx, exampleTx] False = Some merkles \<and> merkles \<noteq> [] \<and>
     last merkles = Some root \<and> CalcMerkleRoot [exampleTx, exampleTx, exampleTx] False = Some root"
  by (rule BuildMerkleTreeStore_agrees) simp

end
