(* ===== verification/Size_Helper.thy ===== *)
theory Size_Helper
  imports Merkle
begin

text \<open>
  The estimates of the memory of Go maps (\<^verbatim>\<open>node/blockchain/sizehelper.go\<close>) by which the cache of unspent outputs
  sizes its maps.  Numbers are 64 bits wide: \<open>uint64\<close> is the reduction of \<^verbatim>\<open>uintptr\<close>.
\<close>

section \<open>Constants\<close>

definition outpointSize :: int where "outpointSize = 36"

definition uint64Size :: int where "uint64Size = 8"

definition bucketSize :: int where "bucketSize = 16 + uint64Size * outpointSize + uint64Size * uint64Size"

definition baseEntrySize :: int where "baseEntrySize = 40"

definition pubKeyHashLen :: int where "pubKeyHashLen = 25"

definition avgEntrySize :: int where "avgEntrySize = baseEntrySize + (pubKeyHashLen + 7)"

definition MaxSmallSize :: int where "MaxSmallSize = 32768"

definition smallSizeDiv :: int where "smallSizeDiv = 8"

definition smallSizeMax :: int where "smallSizeMax = 1024"

definition largeSizeDiv :: int where "largeSizeDiv = 128"

definition PageSize :: int where "PageSize = 2 ^ 13"

definition bucketCnt :: int where "bucketCnt = 8"

definition loadFactorNum :: int where "loadFactorNum = 13"

definition loadFactorDen :: int where "loadFactorDen = 2"

definition maxAlloc :: int where "maxAlloc = 2 ^ 40"

definition class_to_size :: "int list" where
  "class_to_size =
     [0, 8, 16, 24, 32, 48, 64, 80, 96, 112, 128, 144, 160, 176, 192, 208, 224, 240, 256, 288, 320, 352, 384, 416, 448,
     480, 512, 576, 640, 704, 768, 896, 1024, 1152, 1280, 1408, 1536, 1792, 2048, 2304, 2688, 3072, 3200, 3456, 4096,
     4864, 5376, 6144, 6528, 6784, 6912, 8192, 9472, 9728, 10240, 10880, 12288, 13568, 14336, 16384, 18432, 19072,
     20480, 21760, 24576, 27264, 28672, 32768]"

definition size_to_class8 :: "nat list" where
  "size_to_class8 =
     [0, 1, 2, 3, 4, 5, 5, 6, 6, 7, 7, 8, 8, 9, 9, 10, 10, 11, 11, 12, 12, 13, 13, 14, 14, 15, 15, 16, 16, 17, 17, 18,
     18, 19, 19, 19, 19, 20, 20, 20, 20, 21, 21, 21, 21, 22, 22, 22, 22, 23, 23, 23, 23, 24, 24, 24, 24, 25, 25, 25, 25,
     26, 26, 26, 26, 27, 27, 27, 27, 27, 27, 27, 27, 28, 28, 28, 28, 28, 28, 28, 28, 29, 29, 29, 29, 29, 29, 29, 29, 30,
     30, 30, 30, 30, 30, 30, 30, 31, 31, 31, 31, 31, 31, 31, 31, 31, 31, 31, 31, 31, 31, 31, 31, 32, 32, 32, 32, 32, 32,
     32, 32, 32, 32, 32, 32, 32, 32, 32, 32]"

definition size_to_class128 :: "nat list" where
  "size_to_class128 =
     [32, 33, 34, 35, 36, 37, 37, 38, 38, 39, 39, 40, 40, 40, 41, 41, 41, 42, 43, 43, 44, 44, 44, 44, 44, 45, 45, 45, 45,
     45, 45, 46, 46, 46, 46, 47, 47, 47, 47, 47, 47, 48, 48, 48, 49, 49, 50, 51, 51, 51, 51, 51, 51, 51, 51, 51, 51, 52,
     52, 52, 52, 52, 52, 52, 52, 52, 52, 53, 53, 54, 54, 54, 54, 55, 55, 55, 55, 55, 56, 56, 56, 56, 56, 56, 56, 56, 56,
     56, 56, 57, 57, 57, 57, 57, 57, 57, 57, 57, 57, 58, 58, 58, 58, 58, 58, 59, 59, 59, 59, 59, 59, 59, 59, 59, 59, 59,
     59, 59, 59, 59, 59, 60, 60, 60, 60, 60, 60, 60, 60, 60, 60, 60, 60, 60, 60, 60, 60, 61, 61, 61, 61, 61, 62, 62, 62,
     62, 62, 62, 62, 62, 62, 62, 62, 63, 63, 63, 63, 63, 63, 63, 63, 63, 63, 64, 64, 64, 64, 64, 64, 64, 64, 64, 64, 64,
     64, 64, 64, 64, 64, 64, 64, 64, 64, 64, 64, 65, 65, 65, 65, 65, 65, 65, 65, 65, 65, 65, 65, 65, 65, 65, 65, 65, 65,
     65, 65, 65, 66, 66, 66, 66, 66, 66, 66, 66, 66, 66, 66, 67, 67, 67, 67, 67, 67, 67, 67, 67, 67, 67, 67, 67, 67, 67,
     67, 67, 67, 67, 67, 67, 67, 67, 67, 67, 67, 67, 67, 67, 67, 67, 67]"

section \<open>Arithmetic\<close>

definition mulUintptr :: "int \<Rightarrow> int \<Rightarrow> int \<times> bool" where
  "mulUintptr a b = (uint64 (a * b), \<not> (a OR b < 2 ^ 32 \<or> a = 0) \<and> b > (2 ^ 64 - 1) div a)"

definition divRoundUp :: "int \<Rightarrow> int \<Rightarrow> int" where
  "divRoundUp n a = uint64 (n + a - 1) div a"

definition alignUp :: "int \<Rightarrow> int \<Rightarrow> int" where
  "alignUp n a = uint64 (n + a - 1) AND NOT (a - 1)"

definition bucketShift :: "nat \<Rightarrow> int" where
  "bucketShift b = 2 ^ (b mod 64)"

definition overLoadFactor :: "int \<Rightarrow> nat \<Rightarrow> bool" where
  "overLoadFactor count B \<longleftrightarrow> count > bucketCnt \<and> uint64 count > uint64 (loadFactorNum * (bucketShift B div loadFactorDen))"

text \<open>The size class a request is rounded up to.  All sizes lie inside the tables.\<close>

definition roundupsize :: "int \<Rightarrow> int" where
  "roundupsize sz =
     (if sz < MaxSmallSize then
        if sz \<le> smallSizeMax - 8 then class_to_size ! (size_to_class8 ! nat (divRoundUp sz smallSizeDiv))
        else class_to_size ! (size_to_class128 ! nat (divRoundUp (sz - smallSizeMax) largeSizeDiv))
      else if uint64 (sz + PageSize) < sz then sz
      else alignUp sz PageSize)"

section \<open>Estimates\<close>

text \<open>The least number of bits for the buckets, by counting up; 64 steps are enough for any number that passes the test before.\<close>

fun growB :: "nat \<Rightarrow> int \<Rightarrow> nat \<Rightarrow> nat" where
  "growB 0 hint B = B"
| "growB (Suc fuel) hint B = (if overLoadFactor hint B then growB fuel hint (Suc B) else B)"

definition calculateRoughMapSize :: "int \<Rightarrow> int \<Rightarrow> int" where
  "calculateRoughMapSize hint bktSize =
     (let (mem, overflow) = mulUintptr (uint64 hint) bktSize;
          hint = (if overflow \<or> mem > maxAlloc then 0 else hint);
          B = growB 64 hint 0;
          base = bucketShift B;
          numBuckets = (if B \<ge> 4
             then let n = base + bucketShift (B - 4); sz = uint64 (bktSize * n); up = roundupsize sz
                  in if up \<noteq> sz then up div bktSize else n
             else base);
          total = fst (mulUintptr bktSize numBuckets);
          total = (if base \<noteq> numBuckets then total + 24 else total)
      in int64 (total + 48))"

text \<open>
  The logarithm is computed in floating point and converted to a byte; it is exact below \<open>2 ^ 47\<close> buckets, and the
  conversion of the logarithm of a number that is not positive, which the language leaves open, gives 0 on amd64.
\<close>

definition log2Byte :: "int \<Rightarrow> nat" where
  "log2Byte n = (if n \<le> 0 then 0 else floorLog2 (nat n))"

definition calculateMinEntries :: "int \<Rightarrow> int \<Rightarrow> int" where
  "calculateMinEntries totalBytes bktSize =
     (let totalBytes = totalBytes - 48;
          numBuckets = go_div totalBytes bktSize;
          B = log2Byte numBuckets
      in if B = 0 then 0 else if B = 1 then 9 else if B = 2 then 14 else if B = 3 then 27
         else loadFactorNum * (bucketShift (B - 1) div loadFactorDen) + 1)"

section \<open>The estimates fit together\<close>

lemma growB_least:
  "b \<le> B \<Longrightarrow> B - b \<le> fuel \<Longrightarrow> \<not> overLoadFactor hint B \<Longrightarrow> (\<And>b'. b \<le> b' \<Longrightarrow> b' < B \<Longrightarrow> overLoadFactor hint b') \<Longrightarrow>
     growB fuel hint b = B"
proof (induction fuel arbitrary: b)
  case (Suc fuel)
  show ?case
  proof (cases "b = B")
    case False
    then have "overLoadFactor hint b" using Suc.prems by simp
    moreover have "growB fuel hint (Suc b) = B" using Suc False by (intro Suc.IH) auto
    ultimately show ?thesis by simp
  qed (use Suc.prems in simp)
qed simp

lemma overLoadFactor_pow:
  assumes "8 < count" "count < 2 ^ 63" "B < 58"
  shows "overLoadFactor count B \<longleftrightarrow> count > 13 * (2 ^ B div 2)"
proof -
  have "(2 :: int) ^ B \<le> 2 ^ 57" using assms(3) by (intro power_increasing) simp_all
  then have "0 \<le> 13 * ((2 :: int) ^ B div 2)" "13 * ((2 :: int) ^ B div 2) < 2 ^ 64" by simp_all
  then show ?thesis using assms by (simp add: overLoadFactor_def bucketCnt_def loadFactorNum_def loadFactorDen_def bucketShift_def uint64_def)
qed

text \<open>The loop of the estimate ends within the steps given to it.\<close>

lemma growB_ends:
  assumes "hint \<le> maxAlloc"
  shows "\<not> overLoadFactor hint (growB 64 hint 0)" "growB 64 hint 0 \<le> 38"
proof -
  have "\<not> overLoadFactor hint 38"
    using assms by (cases "8 < hint") (simp_all add: overLoadFactor_pow maxAlloc_def, simp add: overLoadFactor_def bucketCnt_def)
  define B where "B = (LEAST b. \<not> overLoadFactor hint b)"
  have "\<not> overLoadFactor hint B" "B \<le> 38" using \<open>\<not> overLoadFactor hint 38\<close> unfolding B_def by (fact LeastI, fact Least_le)
  moreover have "overLoadFactor hint b" if "b < B" for b using not_less_Least that unfolding B_def by blast
  ultimately have "growB 64 hint 0 = B" by (intro growB_least) auto
  then show "\<not> overLoadFactor hint (growB 64 hint 0)" "growB 64 hint 0 \<le> 38" using \<open>\<not> overLoadFactor hint B\<close> \<open>B \<le> 38\<close> by simp_all
qed

lemma growB_eq:
  assumes "8 < count" "count < 2 ^ 63" "B < 58" "count \<le> 13 * (2 ^ B div 2)" "B = 0 \<or> 13 * (2 ^ (B - 1) div 2) < count"
  shows "growB 64 count 0 = B"
proof (rule growB_least)
  show "\<not> overLoadFactor count B" using assms by (simp add: overLoadFactor_pow)
  fix b
  assume "b < B"
  then have "(2 :: int) ^ b \<le> 2 ^ (B - 1)" by (intro power_increasing) simp_all
  then have "13 * ((2 :: int) ^ b div 2) \<le> 13 * (2 ^ (B - 1) div 2)" by (simp add: zdiv_mono1)
  then show "overLoadFactor count b" using assms \<open>b < B\<close> by (simp add: overLoadFactor_pow)
qed (use assms in auto)

lemma growB_small: "count \<le> 8 \<Longrightarrow> growB 64 count 0 = 0"
  by (intro growB_least) (simp_all add: overLoadFactor_def bucketCnt_def)

text \<open>
  The number of entries for a budget is the threshold it is documented to be: a map made for that many entries has as
  many main buckets as the largest power of two that fits into the budget, and one entry less halves them.
\<close>

theorem calculateMinEntries_threshold:
  assumes "0 < bktSize" "48 + 2 * bktSize \<le> totalBytes" "totalBytes < 2 ^ 47"
  defines "entries \<equiv> calculateMinEntries totalBytes bktSize"
  shows "bucketShift (growB 64 entries 0) * bktSize \<le> totalBytes - 48 \<and>
    totalBytes - 48 < 2 * bucketShift (growB 64 entries 0) * bktSize \<and>
    bucketShift (growB 64 entries 0) = 2 * bucketShift (growB 64 (entries - 1) 0)"
proof -
  define n where "n = (totalBytes - 48) div bktSize"
  define B where "B = floorLog2 (nat n)"
  have nb: "n * bktSize \<le> totalBytes - 48" "totalBytes - 48 < (n + 1) * bktSize"
  proof -
    have "n * bktSize + (totalBytes - 48) mod bktSize = totalBytes - 48" unfolding n_def by (rule div_mult_mod_eq)
    then show "n * bktSize \<le> totalBytes - 48" "totalBytes - 48 < (n + 1) * bktSize"
      using pos_mod_bound [OF assms(1), of "totalBytes - 48"] pos_mod_sign [OF assms(1), of "totalBytes - 48"]
      unfolding distrib_right by linarith+
  qed
  have n: "2 \<le> n" "n < 2 ^ 47" "go_div (totalBytes - 48) bktSize = n"
  proof -
    show "2 \<le> n" using zdiv_mono1 [of "2 * bktSize" "totalBytes - 48" bktSize] assms by (simp add: n_def)
    have "n * 1 \<le> n * bktSize" using assms(1) \<open>2 \<le> n\<close> by (intro mult_left_mono) simp_all
    then show "n < 2 ^ 47" using nb(1) assms(3) by simp
    show "go_div (totalBytes - 48) bktSize = n" using assms by (simp add: n_def go_div_nonneg)
  qed
  have B: "2 ^ B \<le> n" "n < 2 * 2 ^ B"
  proof -
    have "2 ^ B \<le> nat n" "nat n < 2 * 2 ^ B" using floorLog2_bounds [of "nat n"] n(1) by (simp_all add: B_def)
    then show "2 ^ B \<le> n" "n < 2 * 2 ^ B" using n(1) by (simp_all add: nat_less_iff le_nat_iff)
  qed
  have "1 \<le> B" using B(2) n(1) by (cases B) simp_all
  have "B < 47" using B(1) n(2) power_less_imp_less_exp [of "2 :: int" B 47] by simp
  have e: "entries = (if B = 1 then 9 else 13 * (2 ^ (B - 1) div 2) + 1)"
  proof -
    have "log2Byte n = B" using n(1) by (simp add: log2Byte_def B_def)
    consider "B = 1" | "B = 2" | "B = 3" | "B \<ge> 4" using \<open>1 \<le> B\<close> by linarith
    then show ?thesis
      using n \<open>log2Byte n = B\<close> \<open>B < 47\<close>
      by cases (simp_all add: entries_def calculateMinEntries_def Let_def loadFactorNum_def loadFactorDen_def bucketShift_def)
  qed
  have g: "growB 64 entries 0 = B \<and> growB 64 (entries - 1) 0 = B - 1"
  proof (cases "B = 1")
    case True
    then show ?thesis using e growB_eq [of 9 1] by (simp add: growB_small)
  next
    case False
    then obtain b where b: "B = Suc (Suc b)" using \<open>1 \<le> B\<close> by (auto dest!: Suc_le_D) (metis not0_implies_Suc)
    have "(2 :: int) ^ b \<le> 2 ^ 45" using \<open>B < 47\<close> b by (intro power_increasing) simp_all
    moreover have "8 < 13 * (2 :: int) ^ b" "1 \<le> 13 * (2 :: int) ^ b" using one_le_power [of "2 :: int" b] by linarith+
    moreover have "(2 :: int) ^ b div 2 < 2 ^ b" using one_le_power [of "2 :: int" b] by linarith
    ultimately show ?thesis using e b \<open>B < 47\<close> by (auto intro!: growB_eq)
  qed
  have "2 ^ B * bktSize \<le> n * bktSize" "(n + 1) * bktSize \<le> 2 * 2 ^ B * bktSize"
    using B assms(1) by (intro mult_right_mono; simp)+
  moreover have "(2 :: int) ^ B = 2 * 2 ^ (B - 1)" using \<open>1 \<le> B\<close> by (simp flip: power_Suc)
  ultimately show ?thesis using g nb \<open>B < 47\<close> by (simp add: bucketShift_def)
qed

theorem calculateMinEntries_threshold_witness:
  "bucketShift (growB 64 (calculateMinEntries 1000000 440) 0) * 440 \<le> 1000000 - 48 \<and>
   1000000 - 48 < 2 * bucketShift (growB 64 (calculateMinEntries 1000000 440) 0) * 440"
  using calculateMinEntries_threshold [of 440 1000000] by simp

end
