(* ===== verification/Utxo_Cache.thy ===== *)
theory Utxo_Cache
  imports Utxo_View Size_Helper Difficulty
begin

text \<open>
  The cache of the unspent outputs (\<^verbatim>\<open>node/blockchain/utxocache.go\<close>) over the database, and the operations of
  \<^verbatim>\<open>utxoviewpoint.go\<close> that load a view from it.

  A Go map is an association list with distinct keys, in an order that no result may depend on; the value \<open>None\<close> is the nil
  pointer of an output that the database does not contain.  The state holds the parts of the database that the cache
  reads and writes: the bucket of unspent outputs and the hash of the block up to which it is consistent.  The capacity
  of the script of an entry is its length.  Locks are not modelled.
\<close>

section \<open>Slices of maps\<close>

record mapSlice =
  msMaps :: "(OutPoint \<times> UtxoEntry option) list list"
  msMaxEntries :: "int list"
  msMaxTotalMemoryUsage :: int

definition mapSlice_length :: "mapSlice \<Rightarrow> nat" where
  "mapSlice_length ms = sum_list (map length (msMaps ms))"

definition mapSlice_size :: "mapSlice \<Rightarrow> int" where
  "mapSlice_size ms = foldl (\<lambda>sz num. sz + calculateRoughMapSize num bucketSize) 0 (msMaxEntries ms)"

definition mapSlice_get :: "mapSlice \<Rightarrow> OutPoint \<Rightarrow> UtxoEntry option option" where
  "mapSlice_get ms op = firstSome (\<lambda>m. map_of m op) (msMaps ms)"

fun overwriteEntry :: "OutPoint \<Rightarrow> UtxoEntry option \<Rightarrow> (OutPoint \<times> UtxoEntry option) list list \<Rightarrow>
    (OutPoint \<times> UtxoEntry option) list list option" where
  "overwriteEntry op entry [] = None"
| "overwriteEntry op entry (m # maps) =
     (if map_of m op \<noteq> None then Some (AList.update op entry m # maps)
      else map_option ((#) m) (overwriteEntry op entry maps))"

fun insertEntry :: "OutPoint \<Rightarrow> UtxoEntry option \<Rightarrow> (OutPoint \<times> UtxoEntry option) list list \<Rightarrow> int list \<Rightarrow>
    (OutPoint \<times> UtxoEntry option) list list option" where
  "insertEntry op entry (m # maps) (maxNum # maxEntries) =
     (if int (length m) \<ge> maxNum then map_option ((#) m) (insertEntry op entry maps maxEntries)
      else Some (AList.update op entry m # maps))"
| "insertEntry op entry maps maxEntries = None"

definition makeNewMap :: "mapSlice \<Rightarrow> int \<Rightarrow> mapSlice" where
  "makeNewMap ms totalEntryMemory =
     (let memSize = foldl (\<lambda>memSize maxNum. uint64 (memSize - uint64 (calculateRoughMapSize maxNum bucketSize)))
            (uint64 (msMaxTotalMemoryUsage ms - totalEntryMemory)) (msMaxEntries ms);
          numMaxElements = calculateMinEntries (int64 memSize) (bucketSize + avgEntrySize) - 1
      in ms\<lparr>msMaxEntries := msMaxEntries ms @ [numMaxElements], msMaps := msMaps ms @ [[]]\<rparr>)"

definition mapSlice_put :: "mapSlice \<Rightarrow> OutPoint \<Rightarrow> UtxoEntry option \<Rightarrow> int \<Rightarrow> mapSlice" where
  "mapSlice_put ms op entry totalEntryMemory =
     (case overwriteEntry op entry (msMaps ms) of
        Some maps \<Rightarrow> ms\<lparr>msMaps := maps\<rparr>
      | None \<Rightarrow>
          (case insertEntry op entry (msMaps ms) (msMaxEntries ms) of
             Some maps \<Rightarrow> ms\<lparr>msMaps := maps\<rparr>
           | None \<Rightarrow>
               let ms' = makeNewMap ms totalEntryMemory
               in ms'\<lparr>msMaps := butlast (msMaps ms') @ [AList.update op entry (last (msMaps ms'))]\<rparr>))"

definition mapSlice_delete :: "mapSlice \<Rightarrow> OutPoint \<Rightarrow> mapSlice" where
  "mapSlice_delete ms op = ms\<lparr>msMaps := map (AList.delete op) (msMaps ms)\<rparr>"

definition deleteMaps :: "mapSlice \<Rightarrow> mapSlice" where
  "deleteMaps ms = ms\<lparr>msMaxEntries := [msMaxEntries ms ! 0], msMaps := take 1 (msMaps ms)\<rparr>"

section \<open>The cache\<close>

definition utxoFlushPeriodicInterval :: int where "utxoFlushPeriodicInterval = 5 * 60 * 10 ^ 9"

datatype FlushMode = FlushRequired | FlushPeriodic | FlushIfNeeded

record utxoCache =
  utxoSetBucket :: bucket
  utxoStateConsistency :: "hash option"
  maxTotalMemoryUsage :: int
  cachedEntries :: mapSlice
  totalEntryMemory :: int
  lastFlushHash :: hash
  lastFlushTime :: int

definition newUtxoCache :: "bucket \<Rightarrow> hash option \<Rightarrow> int \<Rightarrow> utxoCache" where
  "newUtxoCache db consistency maxMemory =
     \<lparr>utxoSetBucket = db, utxoStateConsistency = consistency, maxTotalMemoryUsage = maxMemory,
      cachedEntries = \<lparr>msMaps = [[]], msMaxEntries = [calculateMinEntries (int64 maxMemory) (bucketSize + avgEntrySize) - 1],
        msMaxTotalMemoryUsage = maxMemory\<rparr>,
      totalEntryMemory = 0, lastFlushHash = zeroHash, lastFlushTime = 0\<rparr>"

definition memoryUsage :: "UtxoEntry option \<Rightarrow> int" where
  "memoryUsage entry = (case entry of None \<Rightarrow> 0 | Some e \<Rightarrow> baseEntrySize + int (length (entryPkScript e)))"

definition totalMemoryUsage :: "utxoCache \<Rightarrow> int" where
  "totalMemoryUsage s = uint64 (uint64 (mapSlice_size (cachedEntries s)) + totalEntryMemory s)"

text \<open>Putting an entry into the cache accounts for its memory.\<close>

definition cacheEntry :: "utxoCache \<Rightarrow> OutPoint \<Rightarrow> UtxoEntry option \<Rightarrow> utxoCache" where
  "cacheEntry s op entry =
     s\<lparr>cachedEntries := mapSlice_put (cachedEntries s) op entry (totalEntryMemory s),
       totalEntryMemory := uint64 (totalEntryMemory s + memoryUsage entry)\<rparr>"

text \<open>The entries in the order of the outpoints, those missing in the cache taken from what was fetched.\<close>

fun fillEntries :: "mapSlice \<Rightarrow> OutPoint list \<Rightarrow> UtxoEntry option list \<Rightarrow> UtxoEntry option list" where
  "fillEntries ms [] dbEntries = []"
| "fillEntries ms (op # ops) dbEntries =
     (case mapSlice_get ms op of
        Some entry \<Rightarrow> entry # fillEntries ms ops dbEntries
      | None \<Rightarrow> hd dbEntries # fillEntries ms ops (tl dbEntries))"

definition fetchEntries :: "(bytes \<Rightarrow> bytes option) \<Rightarrow> utxoCache \<Rightarrow> OutPoint list \<Rightarrow>
    (storeError, utxoCache \<times> UtxoEntry option list) result" where
  "fetchEntries K s outpoints =
     (let missingOps = filter (\<lambda>op. mapSlice_get (cachedEntries s) op = None) outpoints in
      if missingOps = [] then Inr (s, fillEntries (cachedEntries s) outpoints [])
      else bindE (mapE (dbFetchUtxoEntry K (utxoSetBucket s)) missingOps) (\<lambda>dbEntries.
        Inr (foldl (\<lambda>s (op, entry). cacheEntry s op entry) s (zip missingOps dbEntries),
             fillEntries (cachedEntries s) outpoints dbEntries)))"

definition cache_addTxOut :: "utxoCache \<Rightarrow> OutPoint \<Rightarrow> TxOut \<Rightarrow> bool \<Rightarrow> int \<Rightarrow> utxoCache" where
  "cache_addTxOut s outpoint txOut isCoinBase blockHeight =
     (if IsUnspendable (PkScript txOut) then s
      else let flags = tfFresh OR tfModified;
               entry = \<lparr>entryAmount = outValue txOut, entryPkScript = PkScript txOut, entryHeight = blockHeight,
                        packedFlags = (if isCoinBase then flags OR tfCoinBase else flags)\<rparr>
           in cacheEntry s outpoint (Some entry))"

definition cache_addTxOuts :: "utxoCache \<Rightarrow> MsgTx \<Rightarrow> int \<Rightarrow> utxoCache" where
  "cache_addTxOuts s tx blockHeight = addOutputs cache_addTxOut s tx blockHeight"

text \<open>
  Spending marks the entry, which the cache holds by then.  An entry the database never saw is dropped; any other one
  stays, and as the pointer was cleared before, its memory is not subtracted.
\<close>

definition markSpent :: "utxoCache \<Rightarrow> OutPoint \<Rightarrow> UtxoEntry \<Rightarrow> utxoCache" where
  "markSpent s op entry =
     (case overwriteEntry op (Some (Spend entry)) (msMaps (cachedEntries s)) of
        None \<Rightarrow> s
      | Some maps \<Rightarrow> s\<lparr>cachedEntries := (cachedEntries s)\<lparr>msMaps := maps\<rparr>\<rparr>)"

definition spendCached :: "(bytes \<Rightarrow> bytes option) \<Rightarrow> utxoCache \<Rightarrow> OutPoint \<Rightarrow> (storeError, utxoCache \<times> SpentTxOut) result" where
  "spendCached K s op =
     bindE (fetchEntries K s [op]) (\<lambda>(s, entries).
       if length entries \<noteq> 1 \<or> entries ! 0 = None then Inl storeAssert
       else let entry = the (entries ! 0);
                stxo = coinOf entry;
                s = markSpent s op entry
            in if isFresh entry
               then Inr (s\<lparr>cachedEntries := mapSlice_delete (cachedEntries s) op,
                           totalEntryMemory := uint64 (totalEntryMemory s - memoryUsage (Some entry))\<rparr>, stxo)
               else Inr (s\<lparr>totalEntryMemory := uint64 (totalEntryMemory s - memoryUsage None)\<rparr>, stxo))"

definition addTxIn :: "(bytes \<Rightarrow> bytes option) \<Rightarrow> utxoCache \<times> SpentTxOut list option \<Rightarrow> TxIn \<Rightarrow>
    (storeError, utxoCache \<times> SpentTxOut list option) result" where
  "addTxIn K st txIn = spendInput (spendCached K) st txIn"

definition addTxIns :: "(bytes \<Rightarrow> bytes option) \<Rightarrow> utxoCache \<times> SpentTxOut list option \<Rightarrow> MsgTx \<Rightarrow>
    (storeError, utxoCache \<times> SpentTxOut list option) result" where
  "addTxIns K st tx = (if IsCoinBaseTx tx then Inr st else foldE (addTxIn K) st (TxIn tx))"

definition cache_connectTransaction :: "(bytes \<Rightarrow> bytes option) \<Rightarrow> int \<Rightarrow> utxoCache \<times> SpentTxOut list option \<Rightarrow> MsgTx \<Rightarrow>
    (storeError, utxoCache \<times> SpentTxOut list option) result" where
  "cache_connectTransaction K blockHeight st tx =
     bindE (addTxIns K st tx) (\<lambda>(s, stxos). Inr (cache_addTxOuts s tx blockHeight, stxos))"

definition cache_connectTransactions :: "(bytes \<Rightarrow> bytes option) \<Rightarrow> utxoCache \<Rightarrow> MsgBlock \<Rightarrow> int \<Rightarrow> SpentTxOut list option \<Rightarrow>
    (storeError, utxoCache \<times> SpentTxOut list option) result" where
  "cache_connectTransactions K s block blockHeight stxos =
     foldE (cache_connectTransaction K blockHeight) (s, stxos) (Transactions block)"

section \<open>Flushing\<close>

definition writeEntry :: "(bytes \<Rightarrow> bytes option) \<Rightarrow> bucket \<Rightarrow> OutPoint \<times> UtxoEntry option \<Rightarrow> (storeError, bucket) result" where
  "writeEntry K utxoBucket e = (case e of (outpoint, entry) \<Rightarrow>
     (case entry of
        None \<Rightarrow> Inr (dbDeleteUtxoEntry utxoBucket outpoint)
      | Some entry \<Rightarrow>
          if IsSpent entry then Inr (dbDeleteUtxoEntry utxoBucket outpoint)
          else if \<not> isModified entry then Inr utxoBucket
          else dbPutUtxoEntry K utxoBucket outpoint (Some entry)))"

text \<open>What a flush that does not erase the cache leaves of its entries.\<close>

fun keepEntries :: "(OutPoint \<times> UtxoEntry option) list \<Rightarrow> (OutPoint \<times> UtxoEntry option) list" where
  "keepEntries [] = []"
| "keepEntries ((outpoint, None) # es) = keepEntries es"
| "keepEntries ((outpoint, Some entry) # es) =
     (if IsSpent entry then keepEntries es
      else if isModified entry
        then (outpoint, Some (entry\<lparr>packedFlags := packedFlags entry AND NOT (tfModified OR tfFresh)\<rparr>)) # keepEntries es
      else (outpoint, Some entry) # keepEntries es)"

definition deletedMemory :: "(OutPoint \<times> UtxoEntry option) list \<Rightarrow> int" where
  "deletedMemory es =
     foldl (\<lambda>mem (_, entry). case entry of None \<Rightarrow> mem | Some e \<Rightarrow> if IsSpent e then uint64 (mem + memoryUsage entry) else mem) 0 es"

definition writeCache :: "(bytes \<Rightarrow> bytes option) \<Rightarrow> utxoCache \<Rightarrow> hash \<Rightarrow> int \<Rightarrow> bool \<Rightarrow> (storeError, utxoCache) result" where
  "writeCache K s bestStateHash now eraseCache =
     bindE (foldE (writeEntry K) (utxoSetBucket s) (concat (msMaps (cachedEntries s)))) (\<lambda>utxoBucket.
       let ms = cachedEntries s;
           deletedMem = deletedMemory (concat (msMaps ms));
           s = (if eraseCache
                then s\<lparr>cachedEntries := deleteMaps (ms\<lparr>msMaps := map (\<lambda>_. []) (msMaps ms)\<rparr>), totalEntryMemory := 0\<rparr>
                else s\<lparr>cachedEntries := ms\<lparr>msMaps := map keepEntries (msMaps ms)\<rparr>,
                       totalEntryMemory := (if totalEntryMemory s \<ge> deletedMem then totalEntryMemory s - deletedMem else 0)\<rparr>)
       in Inr (s\<lparr>utxoSetBucket := utxoBucket, utxoStateConsistency := Some bestStateHash,
                 lastFlushHash := bestStateHash, lastFlushTime := now\<rparr>))"

definition shouldFlush :: "utxoCache \<Rightarrow> int \<Rightarrow> FlushMode \<Rightarrow> hash \<Rightarrow> bool" where
  "shouldFlush s now mode bestStateHash =
     (case mode of
        FlushRequired \<Rightarrow> totalMemoryUsage s \<ge> 0
      | FlushIfNeeded \<Rightarrow> if bestStateHash = lastFlushHash s then False else totalMemoryUsage s \<ge> maxTotalMemoryUsage s
      | FlushPeriodic \<Rightarrow> totalMemoryUsage s \<ge> (if timeSub now (lastFlushTime s) > utxoFlushPeriodicInterval then 0 else maxTotalMemoryUsage s))"

definition flush :: "(bytes \<Rightarrow> bytes option) \<Rightarrow> utxoCache \<Rightarrow> int \<Rightarrow> FlushMode \<Rightarrow> hash \<Rightarrow> (storeError, utxoCache) result" where
  "flush K s now mode bestStateHash =
     (if \<not> shouldFlush s now mode bestStateHash then Inr s
      else let eraseCache = (mode = FlushRequired \<or> totalMemoryUsage s \<ge> maxTotalMemoryUsage s)
           in writeCache K s bestStateHash now eraseCache)"

definition FlushUtxoCache :: "(bytes \<Rightarrow> bytes option) \<Rightarrow> utxoCache \<Rightarrow> int \<Rightarrow> FlushMode \<Rightarrow> hash \<Rightarrow> (storeError, utxoCache) result" where
  "FlushUtxoCache K s now mode bestStateHash =
     (if \<not> shouldFlush s now mode bestStateHash then Inr s else flush K s now mode bestStateHash)"

section \<open>Pruning\<close>

text \<open>Whether pruning blocks calls for a flush: one of them is as high as the block of the last flush.\<close>

definition flushNeededAfterPrune :: "blockIndex \<Rightarrow> utxoCache \<Rightarrow> hash list \<Rightarrow> bool" where
  "flushNeededAfterPrune index s deletedBlockHashes =
     (case LookupNode index (lastFlushHash s) of
        None \<Rightarrow> True
      | Some n \<Rightarrow>
          let lastFlushHeight = node_height n;
              highestDeletedHeight = foldl (\<lambda>highest h. case LookupNode index h of None \<Rightarrow> highest
                | Some n \<Rightarrow> if node_height n > highest then node_height n else highest) (- 1) deletedBlockHashes
          in highestDeletedHeight \<ge> lastFlushHeight)"

section \<open>Loading views\<close>

definition fetchUtxosFromCache :: "(bytes \<Rightarrow> bytes option) \<Rightarrow> UtxoViewpoint \<Rightarrow> utxoCache \<Rightarrow> OutPoint list \<Rightarrow>
    (storeError, UtxoViewpoint \<times> utxoCache) result" where
  "fetchUtxosFromCache K view cache outpoints =
     (if length outpoints = 0 then Inr (view, cache)
      else bindE (fetchEntries K cache outpoints) (\<lambda>(cache, entries).
        Inr (foldl (\<lambda>view (op, entry). setEntry view op entry) view (zip outpoints entries), cache)))"

definition fetchUtxos :: "(bytes \<Rightarrow> bytes option) \<Rightarrow> UtxoViewpoint \<Rightarrow> utxoCache \<Rightarrow> OutPoint list \<Rightarrow>
    (storeError, UtxoViewpoint \<times> utxoCache) result" where
  "fetchUtxos K view cache outpoints =
     (if length outpoints = 0 then Inr (view, cache)
      else fetchUtxosFromCache K view cache (filter (\<lambda>op. map_of (viewEntries view) op = None) outpoints))"

definition fetchInputUtxos :: "(bytes \<Rightarrow> bytes option) \<Rightarrow> UtxoViewpoint \<Rightarrow> utxoCache \<Rightarrow> MsgBlock \<Rightarrow> int \<Rightarrow>
    (storeError, UtxoViewpoint \<times> utxoCache) result" where
  "fetchInputUtxos K view cache block blockHeight =
     (case findInputsToFetch view block blockHeight of (view, needed) \<Rightarrow> fetchUtxosFromCache K view cache needed)"

definition FetchUtxoView :: "(bytes \<Rightarrow> bytes option) \<Rightarrow> utxoCache \<Rightarrow> MsgTx \<Rightarrow> (storeError, UtxoViewpoint \<times> utxoCache) result" where
  "FetchUtxoView K cache tx =
     (let needed = map (txOutPoint tx) [0..<length (TxOut tx)] @ (if IsCoinBaseTx tx then [] else spentOutPoints tx)
      in fetchUtxosFromCache K NewUtxoViewpoint cache needed)"

definition FetchUtxoEntry :: "(bytes \<Rightarrow> bytes option) \<Rightarrow> utxoCache \<Rightarrow> OutPoint \<Rightarrow> (storeError, UtxoEntry option \<times> utxoCache) result" where
  "FetchUtxoEntry K cache outpoint = bindE (fetchEntries K cache [outpoint]) (\<lambda>(cache, entries). Inr (entries ! 0, cache))"

section \<open>A slice of maps is a map\<close>

definition msInv :: "mapSlice \<Rightarrow> bool" where
  "msInv ms \<longleftrightarrow> msMaps ms \<noteq> [] \<and> length (msMaps ms) = length (msMaxEntries ms) \<and> distinct (map fst (concat (msMaps ms)))"

lemma mapSlice_get_concat: "mapSlice_get ms op = map_of (concat (msMaps ms)) op"
proof -
  have "firstSome (\<lambda>m. map_of m op) maps = map_of (concat maps) op" for maps :: "(OutPoint \<times> UtxoEntry option) list list"
    by (induction maps) (auto simp: map_add_def split: option.splits)
  then show ?thesis by (simp add: mapSlice_get_def)
qed

lemma distinct_keys_append:
  "distinct (map fst (m @ es)) \<longleftrightarrow> distinct (map fst m) \<and> distinct (map fst es) \<and> dom (map_of m) \<inter> dom (map_of es) = {}"
  by (simp add: dom_map_of_conv_image_fst)

lemma map_of_update: "map_of (AList.update op entry m) = (map_of m)(op \<mapsto> entry)"
  by (simp add: update_conv')

lemma map_add_upd_outside: "m op = None \<Longrightarrow> f(op \<mapsto> entry) ++ m = (f ++ m)(op \<mapsto> entry)"
  by (auto simp: fun_eq_iff map_add_def split: option.split)

lemma overwriteEntry_None: "overwriteEntry op entry maps = None \<longleftrightarrow> map_of (concat maps) op = None"
  by (induction maps) (auto simp: map_add_None)

lemma overwriteEntry_Some:
  "overwriteEntry op entry maps = Some maps' \<Longrightarrow> distinct (map fst (concat maps)) \<Longrightarrow>
     length maps' = length maps \<and> distinct (map fst (concat maps')) \<and> map_of (concat maps') = (map_of (concat maps))(op \<mapsto> entry)"
proof (induction maps arbitrary: maps')
  case (Cons m maps)
  have d: "distinct (map fst m)" "distinct (map fst (concat maps))" "dom (map_of m) \<inter> dom (map_of (concat maps)) = {}"
    using Cons.prems(2) unfolding concat.simps distinct_keys_append by simp_all
  show ?case
  proof (cases "map_of m op = None")
    case True
    then obtain maps1 where m1: "overwriteEntry op entry maps = Some maps1" "maps' = m # maps1" using Cons.prems by auto
    have "map_of (concat maps) op \<noteq> None" using m1(1) overwriteEntry_None [of op entry maps] by simp
    moreover have i: "length maps1 = length maps" "distinct (map fst (concat maps1))"
      "map_of (concat maps1) = (map_of (concat maps))(op \<mapsto> entry)" using Cons.IH [OF m1(1) d(2)] by blast+
    ultimately have "dom (map_of m) \<inter> dom (map_of (concat maps1)) = {}" using d(3) by (auto simp: dom_def)
    moreover have "map_of (concat maps') = (map_of (concat (m # maps)))(op \<mapsto> entry)"
      unfolding m1(2) concat.simps map_of_append i(3) using True by (rule map_add_upd_outside)
    ultimately show ?thesis using d i unfolding m1(2) concat.simps distinct_keys_append by simp
  next
    case False
    then have u: "maps' = AList.update op entry m # maps" "dom ((map_of m)(op \<mapsto> entry)) = dom (map_of m)" using Cons.prems(1) by auto
    show ?thesis using d unfolding u(1) concat.simps distinct_keys_append map_of_append map_of_update u(2)
      by (simp add: distinct_update map_add_upd)
  qed
qed simp

lemma insertEntry_Some:
  "insertEntry op entry maps maxs = Some maps' \<Longrightarrow> distinct (map fst (concat maps)) \<Longrightarrow> map_of (concat maps) op = None \<Longrightarrow>
     length maps' = length maps \<and> distinct (map fst (concat maps')) \<and> map_of (concat maps') = (map_of (concat maps))(op \<mapsto> entry)"
proof (induction op entry maps maxs arbitrary: maps' rule: insertEntry.induct)
  case (1 op entry m maps maxNum maxs)
  have d: "distinct (map fst m)" "distinct (map fst (concat maps))" "dom (map_of m) \<inter> dom (map_of (concat maps)) = {}"
    "map_of m op = None" "map_of (concat maps) op = None"
    using "1.prems"(2,3) unfolding concat.simps distinct_keys_append by (simp_all add: map_add_None)
  show ?case
  proof (cases "int (length m) \<ge> maxNum")
    case True
    then obtain maps1 where m1: "insertEntry op entry maps maxs = Some maps1" "maps' = m # maps1" using "1.prems" by auto
    have i: "length maps1 = length maps" "distinct (map fst (concat maps1))"
      "map_of (concat maps1) = (map_of (concat maps))(op \<mapsto> entry)" using "1.IH" [OF True m1(1) d(2,5)] by blast+
    then have "dom (map_of m) \<inter> dom (map_of (concat maps1)) = {}" using d(3,4) by (auto simp: dom_def split: if_splits)
    moreover have "map_of (concat maps') = (map_of (concat (m # maps)))(op \<mapsto> entry)"
      unfolding m1(2) concat.simps map_of_append i(3) using d(4) by (rule map_add_upd_outside)
    ultimately show ?thesis using d i unfolding m1(2) concat.simps distinct_keys_append by simp
  next
    case False
    then have u: "maps' = AList.update op entry m # maps" using "1.prems"(1) by simp
    have "op \<notin> dom (map_of (concat maps))" using d(5) by (simp only: domIff not_not)
    then show ?thesis using d(1-3) unfolding u concat.simps distinct_keys_append map_of_append map_of_update
      by (simp add: distinct_update map_add_upd)
  qed
qed simp_all

lemma mapSlice_put:
  assumes "msInv ms"
  shows "msInv (mapSlice_put ms op entry mem) \<and> mapSlice_get (mapSlice_put ms op entry mem) = (mapSlice_get ms)(op \<mapsto> entry)"
proof (cases "overwriteEntry op entry (msMaps ms)")
  case (Some maps)
  then show ?thesis using overwriteEntry_Some [OF Some] assms
    by (auto simp: mapSlice_put_def msInv_def mapSlice_get_concat fun_eq_iff)
next
  case None
  then have n: "map_of (concat (msMaps ms)) op = None" by (simp add: overwriteEntry_None)
  show ?thesis
  proof (cases "insertEntry op entry (msMaps ms) (msMaxEntries ms)")
    case (Some maps)
    then show ?thesis using insertEntry_Some [OF Some _ n] assms None
      by (auto simp: mapSlice_put_def msInv_def mapSlice_get_concat fun_eq_iff)
  next
    case None2: None
    define ms' where "ms' = mapSlice_put ms op entry mem"
    have m: "concat (msMaps ms') = concat (msMaps ms) @ [(op, entry)]" "length (msMaps ms') = length (msMaxEntries ms')" "msMaps ms' \<noteq> []"
      using assms None None2 by (simp_all add: ms'_def mapSlice_put_def makeNewMap_def Let_def msInv_def)
    have "op \<notin> dom (map_of (concat (msMaps ms)))" using n by (simp only: domIff not_not)
    then have "msInv ms'" using m assms unfolding msInv_def m(1) distinct_keys_append by simp
    moreover have "mapSlice_get ms' = (mapSlice_get ms)(op \<mapsto> entry)"
      using n by (auto simp: mapSlice_get_concat m(1) fun_eq_iff map_add_def split: option.split)
    ultimately show ?thesis by (simp add: ms'_def)
  qed
qed

lemma delete_concat: "concat (map (AList.delete op) maps) = AList.delete op (concat maps)"
  by (induction maps) (simp_all add: AList.delete_eq)

lemma mapSlice_delete:
  assumes "msInv ms"
  shows "msInv (mapSlice_delete ms op) \<and> mapSlice_get (mapSlice_delete ms op) = (mapSlice_get ms)(op := None)"
  using assms by (auto simp: mapSlice_delete_def msInv_def mapSlice_get_concat delete_concat distinct_delete fun_eq_iff delete_conv')


section \<open>The coins of the cache\<close>

lemma dbFetchUtxoEntry_stored: "dbFetchUtxoEntry K bkt op = Inr (Some e) \<Longrightarrow> e = storedEntry (coinOf e)"
  by (auto simp: dbFetchUtxoEntry_def deserializeUtxoEntry_journal bindE_def split: option.splits if_splits sum.splits)

definition cachedCoin :: "UtxoEntry option \<Rightarrow> SpentTxOut option" where
  "cachedCoin entry = (case entry of None \<Rightarrow> None | Some e \<Rightarrow> if IsSpent e then None else Some (coinOf e))"

definition dbEntry :: "(bytes \<Rightarrow> bytes option) \<Rightarrow> bucket \<Rightarrow> OutPoint \<Rightarrow> UtxoEntry option" where
  "dbEntry K bkt op = (case dbFetchUtxoEntry K bkt op of Inl _ \<Rightarrow> None | Inr entry \<Rightarrow> entry)"

text \<open>An outpoint carries a hash of 32 bytes; anything else is no coin.\<close>

definition cacheCoins :: "(bytes \<Rightarrow> bytes option) \<Rightarrow> utxoCache \<Rightarrow> coins" where
  "cacheCoins K s op =
     (if \<not> wf_hash (Hash op) then None
      else cachedCoin (case mapSlice_get (cachedEntries s) op of Some entry \<Rightarrow> entry | None \<Rightarrow> dbEntry K (utxoSetBucket s) op))"

text \<open>
  What an entry of the cache says of the database: a nil entry that the output is absent, an unmodified entry that it is
  there, and a fresh entry that it is absent.
\<close>

definition entryInv :: "(bytes \<Rightarrow> bytes option) \<Rightarrow> bucket \<Rightarrow> OutPoint \<Rightarrow> UtxoEntry option \<Rightarrow> bool" where
  "entryInv K bkt op entry \<longleftrightarrow> wf_hash (Hash op) \<and>
     (case entry of
        None \<Rightarrow> dbFetchUtxoEntry K bkt op = Inr None
      | Some e \<Rightarrow> (\<not> isModified e \<longrightarrow> dbFetchUtxoEntry K bkt op = Inr (Some (storedEntry (coinOf e))) \<and> \<not> IsSpent e) \<and>
          (isFresh e \<longrightarrow> dbFetchUtxoEntry K bkt op = Inr None \<and> \<not> IsSpent e) \<and>
          (isModified e \<and> \<not> IsSpent e \<longrightarrow> wf_coin (coinOf e)))"

definition dbReadable :: "(bytes \<Rightarrow> bytes option) \<Rightarrow> bucket \<Rightarrow> bool" where
  "dbReadable K bkt \<longleftrightarrow> (\<forall>op. wf_hash (Hash op) \<longrightarrow> (\<exists>entry. dbFetchUtxoEntry K bkt op = Inr entry))"

definition cacheInv :: "(bytes \<Rightarrow> bytes option) \<Rightarrow> utxoCache \<Rightarrow> bool" where
  "cacheInv K s \<longleftrightarrow> msInv (cachedEntries s) \<and> dbReadable K (utxoSetBucket s) \<and>
     (\<forall>op entry. mapSlice_get (cachedEntries s) op = Some entry \<longrightarrow> entryInv K (utxoSetBucket s) op entry)"

lemma dbEntry_Inr: "dbReadable K bkt \<Longrightarrow> wf_hash (Hash op) \<Longrightarrow> dbFetchUtxoEntry K bkt op = Inr (dbEntry K bkt op)"
  by (auto simp: dbReadable_def dbEntry_def)

lemma dbEntry_stored: "dbEntry K bkt op = Some e \<Longrightarrow> e = storedEntry (coinOf e) \<and> dbFetchUtxoEntry K bkt op = Inr (Some e)"
  by (auto simp: dbEntry_def dbFetchUtxoEntry_stored split: sum.splits)

lemma cachedCoin_simps [simp]:
  "cachedCoin None = None" "IsSpent e \<Longrightarrow> cachedCoin (Some e) = None" "\<not> IsSpent e \<Longrightarrow> cachedCoin (Some e) = Some (coinOf e)"
  by (simp_all add: cachedCoin_def)

text \<open>An entry loaded from the database describes it.\<close>

lemma entryInv_dbEntry:
  assumes "dbReadable K bkt" "wf_hash (Hash op)"
  shows "entryInv K bkt op (dbEntry K bkt op)"
proof (cases "dbEntry K bkt op")
  case None
  then show ?thesis using dbEntry_Inr [OF assms] assms by (simp add: entryInv_def)
next
  case (Some e)
  then have e: "e = storedEntry (coinOf e)" "dbFetchUtxoEntry K bkt op = Inr (Some e)" using dbEntry_stored by blast+
  have "\<not> isModified e" "\<not> isFresh e" "\<not> IsSpent e" by (subst e(1), simp)+
  then show ?thesis using Some e assms by (simp add: entryInv_def)
qed

text \<open>Replacing the entry of one output.\<close>

lemma cacheCoins_eqI:
  assumes "cacheInv K s" "msInv (cachedEntries s')" "utxoSetBucket s' = utxoSetBucket s"
    "mapSlice_get (cachedEntries s') = (mapSlice_get (cachedEntries s))(op := entry)" "wf_hash (Hash op)"
    "\<And>e. entry = Some e \<Longrightarrow> entryInv K (utxoSetBucket s) op e"
  shows "cacheInv K s' \<and>
    cacheCoins K s' = (cacheCoins K s)(op := cachedCoin (case entry of Some e \<Rightarrow> e | None \<Rightarrow> dbEntry K (utxoSetBucket s) op))"
proof
  show "cacheInv K s'" using assms by (auto simp: cacheInv_def)
  show "cacheCoins K s' = (cacheCoins K s)(op := cachedCoin (case entry of Some e \<Rightarrow> e | None \<Rightarrow> dbEntry K (utxoSetBucket s) op))"
    using assms(5) unfolding cacheCoins_def [abs_def] assms(3,4) by auto
qed

lemma cacheEntry_simps [simp]: "utxoSetBucket (cacheEntry s op entry) = utxoSetBucket s"
  by (simp add: cacheEntry_def)

lemma cacheEntry_step:
  assumes "cacheInv K s" "entryInv K (utxoSetBucket s) op entry"
  shows "cacheInv K (cacheEntry s op entry) \<and> cacheCoins K (cacheEntry s op entry) = (cacheCoins K s)(op := cachedCoin entry) \<and>
    mapSlice_get (cachedEntries (cacheEntry s op entry)) = (mapSlice_get (cachedEntries s))(op \<mapsto> entry)"
proof -
  have p: "msInv (cachedEntries (cacheEntry s op entry))"
    "mapSlice_get (cachedEntries (cacheEntry s op entry)) = (mapSlice_get (cachedEntries s))(op \<mapsto> entry)"
    using mapSlice_put [of "cachedEntries s"] assms(1) by (simp_all add: cacheInv_def cacheEntry_def)
  have "wf_hash (Hash op)" using assms(2) by (simp add: entryInv_def)
  from cacheCoins_eqI [OF assms(1) p(1) _ p(2) this] assms(2) p(2) show ?thesis by simp
qed

text \<open>Loading outputs into the cache changes nothing of the coins.\<close>

lemma loadEntries:
  assumes "cacheInv K s" "list_all (\<lambda>op. wf_hash (Hash op)) ops" "list_all (\<lambda>op. mapSlice_get (cachedEntries s) op = None \<or>
      mapSlice_get (cachedEntries s) op = Some (dbEntry K (utxoSetBucket s) op)) ops"
  shows "let s' = foldl (\<lambda>s (op, entry). cacheEntry s op entry) s (zip ops (map (dbEntry K (utxoSetBucket s)) ops)) in
    cacheInv K s' \<and> cacheCoins K s' = cacheCoins K s \<and> utxoSetBucket s' = utxoSetBucket s \<and>
    mapSlice_get (cachedEntries s') =
      (\<lambda>op. if op \<in> set ops then Some (dbEntry K (utxoSetBucket s) op) else mapSlice_get (cachedEntries s) op)"
  using assms
proof (induction ops arbitrary: s)
  case (Cons op ops)
  define s1 where "s1 = cacheEntry s op (dbEntry K (utxoSetBucket s) op)"
  have "entryInv K (utxoSetBucket s) op (dbEntry K (utxoSetBucket s) op)"
    using Cons.prems by (intro entryInv_dbEntry) (auto simp: cacheInv_def)
  from cacheEntry_step [OF Cons.prems(1) this] have s1: "cacheInv K s1" "utxoSetBucket s1 = utxoSetBucket s"
    "cacheCoins K s1 = (cacheCoins K s)(op := cachedCoin (dbEntry K (utxoSetBucket s) op))"
    "mapSlice_get (cachedEntries s1) = (mapSlice_get (cachedEntries s))(op \<mapsto> dbEntry K (utxoSetBucket s) op)"
    by (auto simp: s1_def)
  have c: "cacheCoins K s1 = cacheCoins K s" using Cons.prems(2,3) by (auto simp: s1(3) cacheCoins_def fun_eq_iff)
  have "list_all (\<lambda>op. mapSlice_get (cachedEntries s1) op = None \<or> mapSlice_get (cachedEntries s1) op = Some (dbEntry K (utxoSetBucket s1) op)) ops"
    using Cons.prems(3) by (auto simp: s1(2,4) list_all_iff)
  from Cons.IH [OF s1(1) _ this] Cons.prems(2) show ?case
    by (auto simp: Let_def s1_def [symmetric] c s1(2,4) fun_eq_iff)
qed simp

text \<open>The entry the cache has for an output, from the database if it is not loaded.\<close>

abbreviation heldEntry :: "(bytes \<Rightarrow> bytes option) \<Rightarrow> utxoCache \<Rightarrow> OutPoint \<Rightarrow> UtxoEntry option" where
  "heldEntry K s op \<equiv> (case mapSlice_get (cachedEntries s) op of Some entry \<Rightarrow> entry | None \<Rightarrow> dbEntry K (utxoSetBucket s) op)"

lemma fillEntries_filter:
  "fillEntries ms ops (map g (filter (\<lambda>op. mapSlice_get ms op = None) ops)) =
     map (\<lambda>op. case mapSlice_get ms op of Some entry \<Rightarrow> entry | None \<Rightarrow> g op) ops"
  by (induction ops) (auto split: option.splits)

lemma fetchEntries_correct:
  assumes "cacheInv K s" "list_all (\<lambda>op. wf_hash (Hash op)) ops"
  shows "\<exists>s'. fetchEntries K s ops = Inr (s', map (heldEntry K s) ops) \<and>
    cacheInv K s' \<and> cacheCoins K s' = cacheCoins K s \<and> utxoSetBucket s' = utxoSetBucket s \<and>
    (\<forall>op \<in> set ops. mapSlice_get (cachedEntries s') op = Some (heldEntry K s op)) \<and> (\<forall>op. heldEntry K s' op = heldEntry K s op)"
proof -
  define missing where "missing = filter (\<lambda>op. mapSlice_get (cachedEntries s) op = None) ops"
  define s' where "s' = foldl (\<lambda>s (op, entry). cacheEntry s op entry) s (zip missing (map (dbEntry K (utxoSetBucket s)) missing))"
  have l: "list_all (\<lambda>op. wf_hash (Hash op)) missing" "list_all (\<lambda>op. mapSlice_get (cachedEntries s) op = None \<or>
      mapSlice_get (cachedEntries s) op = Some (dbEntry K (utxoSetBucket s) op)) missing"
    using assms(2) by (auto simp: missing_def list_all_iff)
  have "mapE (dbFetchUtxoEntry K (utxoSetBucket s)) missing = Inr (map (dbEntry K (utxoSetBucket s)) missing)"
    using assms(1) l(1) by (intro mapE_Inr dbEntry_Inr) (auto simp: cacheInv_def list_all_iff)
  moreover have "s' = s" if "missing = []" using that by (simp add: s'_def)
  ultimately have "fetchEntries K s ops = Inr (s', fillEntries (cachedEntries s) ops (map (dbEntry K (utxoSetBucket s)) missing))"
    by (auto simp: fetchEntries_def Let_def missing_def [symmetric] s'_def [symmetric])
  then have "fetchEntries K s ops = Inr (s', map (heldEntry K s) ops)"
    unfolding missing_def by (simp add: fillEntries_filter)
  moreover have "cacheInv K s'" "cacheCoins K s' = cacheCoins K s" "utxoSetBucket s' = utxoSetBucket s"
    "mapSlice_get (cachedEntries s') = (\<lambda>op. if op \<in> set missing then Some (dbEntry K (utxoSetBucket s) op) else mapSlice_get (cachedEntries s) op)"
    using loadEntries [OF assms(1) l] by (simp_all add: Let_def s'_def [symmetric])
  ultimately show ?thesis by (auto simp: missing_def split: option.split)
qed


section \<open>Connecting blocks to the cache\<close>

text \<open>
  An output can be added when the database does not have it: the entry is marked as fresh, so that spending it drops it
  from the cache without a trace.
\<close>

definition cacheAddable :: "(bytes \<Rightarrow> bytes option) \<Rightarrow> bucket \<Rightarrow> OutPoint \<Rightarrow> TxOut \<Rightarrow> int \<Rightarrow> bool" where
  "cacheAddable K bkt op txOut h \<longleftrightarrow> IsUnspendable (PkScript txOut) \<or>
     (wf_hash (Hash op) \<and> dbFetchUtxoEntry K bkt op = Inr None \<and> wf_coin (createdCoin txOut False h))"

text \<open>A cache on top of a given bucket, which connecting leaves as it is.\<close>

definition cacheOn :: "(bytes \<Rightarrow> bytes option) \<Rightarrow> bucket \<Rightarrow> utxoCache \<Rightarrow> bool" where
  "cacheOn K bkt s \<longleftrightarrow> cacheInv K s \<and> utxoSetBucket s = bkt"

lemma cache_addTxOut_eq:
  "cache_addTxOut s op txOut cb h = (if IsUnspendable (PkScript txOut) then s else cacheEntry s op (Some (freshEntry txOut cb h)))"
  by (simp add: cache_addTxOut_def freshEntry_def Let_def)

lemma markSpent_get:
  assumes "msInv (cachedEntries s)" "mapSlice_get (cachedEntries s) op = Some entry"
  shows "msInv (cachedEntries (markSpent s op e)) \<and> utxoSetBucket (markSpent s op e) = utxoSetBucket s \<and>
    mapSlice_get (cachedEntries (markSpent s op e)) = (mapSlice_get (cachedEntries s))(op \<mapsto> Some (Spend e))"
proof (cases "overwriteEntry op (Some (Spend e)) (msMaps (cachedEntries s))")
  case None
  then show ?thesis using assms(2) by (simp add: overwriteEntry_None mapSlice_get_concat)
next
  case (Some maps)
  note o = overwriteEntry_Some [OF Some]
  then show ?thesis using assms(1) Some by (auto simp: markSpent_def msInv_def mapSlice_get_concat fun_eq_iff)
qed

lemma spendCached_law:
  assumes "cacheInv K s" "cacheCoins K s op = Some c"
  shows "\<exists>s'. spendCached K s op = Inr (s', c) \<and> cacheInv K s' \<and> cacheCoins K s' = (cacheCoins K s)(op := None) \<and>
    utxoSetBucket s' = utxoSetBucket s"
proof -
  have wf: "wf_hash (Hash op)" using assms(2) by (auto simp: cacheCoins_def split: if_splits)
  define entry where "entry = (case mapSlice_get (cachedEntries s) op of Some entry \<Rightarrow> entry | None \<Rightarrow> dbEntry K (utxoSetBucket s) op)"
  obtain s1 where s1: "fetchEntries K s [op] = Inr (s1, [entry])" "cacheInv K s1" "cacheCoins K s1 = cacheCoins K s"
    "utxoSetBucket s1 = utxoSetBucket s" "mapSlice_get (cachedEntries s1) op = Some entry"
    using fetchEntries_correct [OF assms(1), of "[op]"] wf by (auto simp: entry_def)
  have "cachedCoin entry = Some c" using assms(2) wf by (simp add: cacheCoins_def entry_def)
  then obtain e where e: "entry = Some e" "\<not> IsSpent e" "c = coinOf e" by (auto simp: cachedCoin_def split: option.splits if_splits)
  have inv: "entryInv K (utxoSetBucket s) op (Some e)" using s1(2,4,5) e(1) by (auto simp: cacheInv_def)
  define s2 where "s2 = markSpent s1 op e"
  have s2: "msInv (cachedEntries s2)" "utxoSetBucket s2 = utxoSetBucket s1"
    "mapSlice_get (cachedEntries s2) = (mapSlice_get (cachedEntries s1))(op \<mapsto> Some (Spend e))"
    using markSpent_get [OF _ s1(5)] s1(2) by (auto simp: s2_def cacheInv_def)
  show ?thesis
  proof (cases "isFresh e")
    case True
    define s3 where "s3 = s2\<lparr>cachedEntries := mapSlice_delete (cachedEntries s2) op,
      totalEntryMemory := uint64 (totalEntryMemory s2 - memoryUsage (Some e))\<rparr>"
    have "spendCached K s op = Inr (s3, c)" using s1(1) e True by (simp add: spendCached_def s2_def [symmetric] s3_def Let_def)
    moreover have "msInv (cachedEntries s3)" "mapSlice_get (cachedEntries s3) = (mapSlice_get (cachedEntries s1))(op := None)"
      using mapSlice_delete [OF s2(1), of op] s2(3) by (simp_all add: s3_def)
    moreover have "dbEntry K (utxoSetBucket s1) op = None" using inv True s1(4) by (simp add: entryInv_def dbEntry_def)
    ultimately show ?thesis using cacheCoins_eqI [OF s1(2) _ _ _ wf, of s3 None] s1(3,4) s2(2) by (simp add: s3_def)
  next
    case False
    define s3 where "s3 = s2\<lparr>totalEntryMemory := uint64 (totalEntryMemory s2 - memoryUsage None)\<rparr>"
    have "spendCached K s op = Inr (s3, c)" using s1(1) e False by (simp add: spendCached_def s2_def [symmetric] s3_def Let_def)
    moreover have "entryInv K (utxoSetBucket s1) op (Some (Spend e))" using False Spend_isModified [OF e(2)] wf by (simp add: entryInv_def)
    ultimately show ?thesis using cacheCoins_eqI [OF s1(2) _ _ _ wf, of s3 "Some (Some (Spend e))"] s1(3,4) s2 by (simp add: s3_def)
  qed
qed

interpretation cache_store: coin_store "cacheCoins K" "cacheOn K bkt" "\<lambda>_. cacheAddable K bkt" "spendCached K" cache_addTxOut for K bkt
proof
  fix s op c
  assume "cacheOn K bkt s" "cacheCoins K s op = Some c"
  then show "\<exists>s'. spendCached K s op = Inr (s', c) \<and> cacheOn K bkt s' \<and>
      cacheCoins K s' = (cacheCoins K s)(op := None) \<and> cacheAddable K bkt = cacheAddable K bkt"
    using spendCached_law [of K s op c] by (auto simp: cacheOn_def)
next
  fix s op txOut h cb
  assume a: "cacheOn K bkt s" "cacheAddable K bkt op txOut h"
  show "cacheOn K bkt (cache_addTxOut s op txOut cb h) \<and> cacheCoins K (cache_addTxOut s op txOut cb h) = addCoin (cacheCoins K s) op txOut cb h \<and>
      cacheAddable K bkt = cacheAddable K bkt"
  proof (cases "IsUnspendable (PkScript txOut)")
    case True
    then show ?thesis using a by (simp add: cache_addTxOut_eq addCoin_def)
  next
    case False
    have s: "cacheInv K s" "utxoSetBucket s = bkt" using a(1) by (simp_all add: cacheOn_def)
    have "wf_hash (Hash op)" "dbFetchUtxoEntry K bkt op = Inr None" "wf_coin (createdCoin txOut cb h)"
      using a(2) False by (auto simp: cacheAddable_def wf_coin_def createdCoin_def)
    then have "entryInv K (utxoSetBucket s) op (Some (freshEntry txOut cb h))" by (simp add: entryInv_def s(2))
    from cacheEntry_step [OF s(1) this] False s(2) show ?thesis by (simp add: cache_addTxOut_eq addCoin_def cacheOn_def)
  qed
qed

lemma cache_connectTransaction_generic: "cache_connectTransaction K h = connectTx (spendCached K) cache_addTxOut h"
  by (intro ext) (simp add: cache_connectTransaction_def connectTx_def addTxIns_def spendInputs_def addTxIn_def [abs_def]
      cache_addTxOuts_def bindE_def)

text \<open>Every output of a block can be added.\<close>

definition blockAddable :: "(bytes \<Rightarrow> bytes option) \<Rightarrow> bucket \<Rightarrow> MsgBlock \<Rightarrow> int \<Rightarrow> bool" where
  "blockAddable K bkt block h \<longleftrightarrow>
     list_all (\<lambda>tx. list_all (\<lambda>(i, txOut). cacheAddable K bkt (txOutPoint tx i) txOut h) (enumerate 0 (TxOut tx))) (Transactions block)"

lemma cache_connects:
  assumes "cacheOn K bkt s" "connectBlockCoins h (cacheCoins K s) (Transactions block) = Some (U, cs)" "blockAddable K bkt block h"
  shows "\<exists>s'. cache_connectTransactions K s block h stxos = Inr (s', map_option (\<lambda>l. l @ cs) stxos) \<and>
    cacheOn K bkt s' \<and> cacheCoins K s' = U"
proof -
  have "\<forall>tx \<in> set (Transactions block). \<forall>i < length (TxOut tx). cacheAddable K bkt (txOutPoint tx i) (TxOut tx ! i) h"
    using assms(3) by (simp add: blockAddable_def list_all_length nth_enumerate_eq all_set_conv_all_nth)
  from cache_store.connectTxs_refines [OF assms(1,2) this] show ?thesis
    by (auto simp: cache_connectTransactions_def cache_connectTransaction_generic)
qed


section \<open>Flushing the cache\<close>

lemma dbHolds_readable: "dbHolds K bkt U \<Longrightarrow> dbReadable K bkt"
  by (auto simp: dbHolds_def dbReadable_def)

lemma writeEntry_fetch:
  assumes "key_laws K" "entryInv K bkt op entry"
  shows "\<exists>bkt'. writeEntry K bkt (op, entry) = Inr bkt' \<and> dbFetchUtxoEntry K bkt' op = Inr (map_option storedEntry (cachedCoin entry)) \<and>
    (\<forall>op'. wf_hash (Hash op') \<longrightarrow> op' \<noteq> op \<longrightarrow> dbFetchUtxoEntry K bkt' op' = dbFetchUtxoEntry K bkt op')"
proof -
  have wf: "wf_hash (Hash op)" using assms(2) by (simp add: entryInv_def)
  have del: "dbFetchUtxoEntry K (dbDeleteUtxoEntry bkt op) op = Inr None"
    "\<forall>op'. wf_hash (Hash op') \<longrightarrow> op' \<noteq> op \<longrightarrow> dbFetchUtxoEntry K (dbDeleteUtxoEntry bkt op) op' = dbFetchUtxoEntry K bkt op'"
    using dbFetchUtxoEntry_other [OF wf] by (simp_all add: dbDeleteUtxoEntry_def) (simp add: dbFetchUtxoEntry_def)
  consider "cachedCoin entry = None" | e where "entry = Some e" "\<not> IsSpent e" "\<not> isModified e" | e where "entry = Some e" "\<not> IsSpent e" "isModified e"
    by (cases entry) (simp, metis cachedCoin_simps(2))
  then show ?thesis
  proof cases
    case 1
    then have "writeEntry K bkt (op, entry) = Inr (dbDeleteUtxoEntry bkt op)"
      by (auto simp: writeEntry_def cachedCoin_def split: option.splits if_splits)
    then show ?thesis using 1 del by simp
  next
    case 2
    then show ?thesis using assms(2) by (simp add: writeEntry_def entryInv_def)
  next
    case 3
    then have "wf_coin (coinOf e)" using assms(2) by (simp add: entryInv_def)
    note put = dbFetchUtxoEntry_put [OF assms(1) this 3(2), of bkt op]
    then show ?thesis using 3 dbFetchUtxoEntry_other [OF wf] by (simp add: writeEntry_def)
  qed
qed

lemma entryInv_cong: "dbFetchUtxoEntry K bkt op = dbFetchUtxoEntry K bkt' op \<Longrightarrow> entryInv K bkt op entry = entryInv K bkt' op entry"
  by (cases entry) (simp_all add: entryInv_def)

lemma writeEntries:
  assumes "key_laws K" "distinct (map fst es)" "list_all (\<lambda>(op, entry). entryInv K bkt op entry) es"
  shows "\<exists>bkt'. foldE (writeEntry K) bkt es = Inr bkt' \<and> (\<forall>op. wf_hash (Hash op) \<longrightarrow> dbFetchUtxoEntry K bkt' op =
    (case map_of es op of None \<Rightarrow> dbFetchUtxoEntry K bkt op | Some entry \<Rightarrow> Inr (map_option storedEntry (cachedCoin entry))))"
  using assms(2,3)
proof (induction es arbitrary: bkt)
  case (Cons x es)
  obtain op entry where x: "x = (op, entry)" by (cases x)
  have "entryInv K bkt op entry" "map_of es op = None" using Cons.prems x by (auto simp: map_of_eq_None_iff)
  from writeEntry_fetch [OF assms(1) this(1)] obtain bkt1 where b1: "writeEntry K bkt (op, entry) = Inr bkt1"
    "dbFetchUtxoEntry K bkt1 op = Inr (map_option storedEntry (cachedCoin entry))"
    "\<And>op'. wf_hash (Hash op') \<Longrightarrow> op' \<noteq> op \<Longrightarrow> dbFetchUtxoEntry K bkt1 op' = dbFetchUtxoEntry K bkt op'" by blast
  have "entryInv K bkt1 op' entry'" if "(op', entry') \<in> set es" for op' entry'
  proof -
    have "entryInv K bkt op' entry'" "op' \<noteq> op" using that Cons.prems x by (force simp: list_all_iff)+
    then show ?thesis using b1(3) [of op'] entryInv_cong [of K bkt1 op' bkt] by (simp add: entryInv_def [of _ bkt])
  qed
  then have "list_all (\<lambda>(op, entry). entryInv K bkt1 op entry) es" by (auto simp: list_all_iff)
  from Cons.IH [OF _ this] Cons.prems(1) obtain bkt' where b: "foldE (writeEntry K) bkt1 es = Inr bkt'"
    "\<And>op. wf_hash (Hash op) \<Longrightarrow> dbFetchUtxoEntry K bkt' op =
      (case map_of es op of None \<Rightarrow> dbFetchUtxoEntry K bkt1 op | Some entry \<Rightarrow> Inr (map_option storedEntry (cachedCoin entry)))" by auto
  have "dbFetchUtxoEntry K bkt' op' = (case map_of (x # es) op' of None \<Rightarrow> dbFetchUtxoEntry K bkt op'
      | Some entry \<Rightarrow> Inr (map_option storedEntry (cachedCoin entry)))" if "wf_hash (Hash op')" for op'
    using b(2) [OF that] b1(2) b1(3) [OF that] \<open>map_of es op = None\<close> x by (cases "op' = op") (simp_all split: option.split)
  then show ?case using b(1) b1(1) x by auto
qed simp

lemma cacheCoins_dbEntry: "cachedCoin (dbEntry K bkt op) = map_option coinOf (dbEntry K bkt op)"
proof (cases "dbEntry K bkt op")
  case (Some e)
  then have "\<not> IsSpent e" using dbEntry_stored [OF Some] by (metis storedEntry_simps(2))
  then show ?thesis using Some by simp
qed simp

lemma writeCache_database:
  assumes "key_laws K" "cacheInv K s"
  shows "\<exists>bkt'. foldE (writeEntry K) (utxoSetBucket s) (concat (msMaps (cachedEntries s))) = Inr bkt' \<and> dbHolds K bkt' (cacheCoins K s)"
proof -
  have d: "distinct (map fst (concat (msMaps (cachedEntries s))))" using assms(2) by (simp add: cacheInv_def msInv_def)
  moreover have "list_all (\<lambda>(op, entry). entryInv K (utxoSetBucket s) op entry) (concat (msMaps (cachedEntries s)))"
    using assms(2) d unfolding list_all_iff by (auto simp: cacheInv_def mapSlice_get_concat map_of_eq_Some_iff [OF d] simp del: set_concat)
  ultimately obtain bkt' where b: "foldE (writeEntry K) (utxoSetBucket s) (concat (msMaps (cachedEntries s))) = Inr bkt'"
    "\<And>op. wf_hash (Hash op) \<Longrightarrow> dbFetchUtxoEntry K bkt' op = (case mapSlice_get (cachedEntries s) op of
       None \<Rightarrow> dbFetchUtxoEntry K (utxoSetBucket s) op | Some entry \<Rightarrow> Inr (map_option storedEntry (cachedCoin entry)))"
    using writeEntries [OF assms(1)] unfolding mapSlice_get_concat by blast
  have "dbFetchUtxoEntry K bkt' op = Inr (map_option storedEntry (cacheCoins K s op))" if "wf_hash (Hash op)" for op
  proof (cases "mapSlice_get (cachedEntries s) op")
    case None
    moreover have "dbFetchUtxoEntry K (utxoSetBucket s) op = Inr (dbEntry K (utxoSetBucket s) op)"
      using assms(2) that by (intro dbEntry_Inr) (simp_all add: cacheInv_def)
    moreover have "map_option storedEntry (map_option coinOf (dbEntry K (utxoSetBucket s) op)) = dbEntry K (utxoSetBucket s) op"
      using dbEntry_stored [of K "utxoSetBucket s" op] by (cases "dbEntry K (utxoSetBucket s) op") auto
    ultimately show ?thesis using b(2) [OF that] that by (simp add: cacheCoins_def cacheCoins_dbEntry)
  next
    case (Some entry)
    then show ?thesis using b(2) [OF that] that by (simp add: cacheCoins_def)
  qed
  then show ?thesis using b(1) by (auto simp: dbHolds_def)
qed

text \<open>A cache whose entries agree with a database that holds a set of coins stands for these coins.\<close>

lemma cacheCoins_dbHolds:
  assumes "dbHolds K (utxoSetBucket s) U" "\<And>op. \<not> wf_hash (Hash op) \<Longrightarrow> U op = None"
    "\<And>op entry. mapSlice_get (cachedEntries s) op = Some entry \<Longrightarrow> wf_hash (Hash op) \<Longrightarrow> cachedCoin entry = U op"
  shows "cacheCoins K s = U"
proof (rule ext)
  fix op
  have "dbEntry K (utxoSetBucket s) op = map_option storedEntry (U op)" if "wf_hash (Hash op)"
    using assms(1) that by (simp add: dbHolds_def dbEntry_def)
  moreover have "cachedCoin (map_option storedEntry (U op)) = U op" by (cases "U op") simp_all
  ultimately show "cacheCoins K s op = U op" using assms(2,3) [of op] by (auto simp: cacheCoins_def split: option.split)
qed

lemma keepEntries_append: "keepEntries (es @ es') = keepEntries es @ keepEntries es'"
  by (induction es rule: keepEntries.induct) auto

lemma keepEntries_concat: "concat (map keepEntries maps) = keepEntries (concat maps)"
  by (induction maps) (simp_all add: keepEntries_append)

definition clearedEntry :: "UtxoEntry \<Rightarrow> UtxoEntry" where
  "clearedEntry e = (if isModified e then e\<lparr>packedFlags := packedFlags e AND NOT (tfModified OR tfFresh)\<rparr> else e)"

lemma keys_keepEntries: "fst ` set (keepEntries es) \<subseteq> fst ` set es"
  by (induction es rule: keepEntries.induct) auto

lemma distinct_keepEntries: "distinct (map fst es) \<Longrightarrow> distinct (map fst (keepEntries es))"
proof (induction es rule: keepEntries.induct)
  case (3 op e es)
  then show ?case using keys_keepEntries [of es] by auto
qed simp_all

lemma map_of_keepEntries:
  "distinct (map fst es) \<Longrightarrow> map_of (keepEntries es) op =
     (case map_of es op of Some (Some e) \<Rightarrow> if IsSpent e then None else Some (Some (clearedEntry e)) | _ \<Rightarrow> None)"
proof (induction es rule: keepEntries.induct)
  case (2 k es)
  then show ?case by (cases "op = k") (auto simp: map_of_eq_None_iff [symmetric] split: option.splits)
next
  case (3 k e es)
  then show ?case by (cases "op = k") (auto simp: clearedEntry_def map_of_eq_None_iff [symmetric] split: option.splits)
qed simp

lemma clearedEntry_simps [simp]:
  "\<not> isModified (clearedEntry e)" "IsSpent (clearedEntry e) = IsSpent e" "coinOf (clearedEntry e) = coinOf e"
  "isFresh (clearedEntry e) \<Longrightarrow> isFresh e \<and> \<not> isModified e"
  by (auto simp: clearedEntry_def entry_flags bit_and_iff bit_or_iff bit_not_iff coinOf_def split: if_splits)


lemma writeCache_correct:
  assumes "key_laws K" "cacheInv K s"
  shows "\<exists>s'. writeCache K s bestStateHash now eraseCache = Inr s' \<and> cacheInv K s' \<and> cacheCoins K s' = cacheCoins K s \<and>
    dbHolds K (utxoSetBucket s') (cacheCoins K s) \<and> utxoStateConsistency s' = Some bestStateHash \<and> lastFlushHash s' = bestStateHash \<and>
    (eraseCache \<longrightarrow> mapSlice_length (cachedEntries s') = 0)"
proof -
  obtain bkt where bkt: "foldE (writeEntry K) (utxoSetBucket s) (concat (msMaps (cachedEntries s))) = Inr bkt"
    "dbHolds K bkt (cacheCoins K s)" using writeCache_database [OF assms] by blast
  have ms: "msInv (cachedEntries s)" "distinct (map fst (concat (msMaps (cachedEntries s))))"
    using assms(2) by (simp_all add: cacheInv_def msInv_def)
  obtain s' where s': "writeCache K s bestStateHash now eraseCache = Inr s'" "utxoSetBucket s' = bkt"
    "utxoStateConsistency s' = Some bestStateHash" "lastFlushHash s' = bestStateHash"
    "eraseCache \<Longrightarrow> cachedEntries s' = deleteMaps ((cachedEntries s)\<lparr>msMaps := map (\<lambda>_. []) (msMaps (cachedEntries s))\<rparr>)"
    "\<not> eraseCache \<Longrightarrow> cachedEntries s' = (cachedEntries s)\<lparr>msMaps := map keepEntries (msMaps (cachedEntries s))\<rparr>"
    using bkt(1) by (simp add: writeCache_def Let_def)
  have g: "msInv (cachedEntries s') \<and> mapSlice_get (cachedEntries s') op = (if eraseCache then None else
      case mapSlice_get (cachedEntries s) op of Some (Some e) \<Rightarrow> if IsSpent e then None else Some (Some (clearedEntry e)) | _ \<Rightarrow> None)" for op
  proof (cases eraseCache)
    case True
    then show ?thesis using ms(1) s'(5) by (cases "msMaps (cachedEntries s)") (auto simp: deleteMaps_def msInv_def mapSlice_get_concat)
  next
    case False
    then show ?thesis using ms s'(6) distinct_keepEntries [OF ms(2)]
      by (simp add: msInv_def mapSlice_get_concat keepEntries_concat map_of_keepEntries)
  qed
  have kept: "wf_hash (Hash op) \<and> cachedCoin entry = cacheCoins K s op \<and> entryInv K bkt op entry"
    if "mapSlice_get (cachedEntries s') op = Some entry" for op entry
  proof -
    from that g obtain e where e: "mapSlice_get (cachedEntries s) op = Some (Some e)" "\<not> IsSpent e" "entry = Some (clearedEntry e)"
      by (auto split: if_splits option.splits)
    have inv: "entryInv K (utxoSetBucket s) op (Some e)" using e(1) assms(2) by (simp add: cacheInv_def)
    then have wf: "wf_hash (Hash op)" by (simp add: entryInv_def)
    then have c: "cacheCoins K s op = Some (coinOf e)" using e by (simp add: cacheCoins_def)
    moreover have "dbFetchUtxoEntry K bkt op = Inr (Some (storedEntry (coinOf e)))" using bkt(2) wf c by (simp add: dbHolds_def)
    moreover have "\<not> isFresh (clearedEntry e)" using clearedEntry_simps(4) [of e] inv by (auto simp: entryInv_def)
    ultimately show ?thesis using wf e by (simp add: entryInv_def)
  qed
  have "cacheCoins K s' = cacheCoins K s"
    using bkt(2) kept by (intro cacheCoins_dbHolds) (simp_all add: s'(2) cacheCoins_def [of K s])
  moreover have "cacheInv K s'" using g kept dbHolds_readable [OF bkt(2)] by (simp add: cacheInv_def s'(2))
  moreover have "eraseCache \<longrightarrow> mapSlice_length (cachedEntries s') = 0"
    using s'(5) by (cases "msMaps (cachedEntries s)") (simp_all add: mapSlice_length_def deleteMaps_def)
  ultimately show ?thesis using s' bkt(2) by auto
qed

lemma flush_correct:
  assumes "key_laws K" "cacheInv K s"
  shows "\<exists>s'. flush K s now mode bestStateHash = Inr s' \<and> cacheInv K s' \<and> cacheCoins K s' = cacheCoins K s \<and>
    (if shouldFlush s now mode bestStateHash
     then dbHolds K (utxoSetBucket s') (cacheCoins K s) \<and> utxoStateConsistency s' = Some bestStateHash \<and> lastFlushHash s' = bestStateHash
     else s' = s)"
proof (cases "shouldFlush s now mode bestStateHash")
  case True
  then show ?thesis using writeCache_correct [OF assms, of bestStateHash now "mode = FlushRequired \<or> totalMemoryUsage s \<ge> maxTotalMemoryUsage s"]
    by (auto simp: flush_def Let_def)
next
  case False
  then show ?thesis using assms by (simp add: flush_def)
qed

section \<open>The coins of a chain of blocks\<close>

text \<open>Blocks with their heights, lowest first.\<close>

type_synonym chainBlocks = "(int \<times> MsgBlock) list"

fun connectChainCoins :: "coins \<Rightarrow> chainBlocks \<Rightarrow> coins option" where
  "connectChainCoins U [] = Some U"
| "connectChainCoins U ((h, block) # bs) =
     (case connectBlockCoins h U (Transactions block) of None \<Rightarrow> None | Some (U', _) \<Rightarrow> connectChainCoins U' bs)"

definition createdInBlock :: "MsgBlock \<Rightarrow> OutPoint list" where
  "createdInBlock block = concat (map createdOutPoints (Transactions block))"

text \<open>No block creates an output that was created before, spent or not, and the outputs created can be stored.\<close>

fun createsUnseen :: "(OutPoint \<Rightarrow> bool) \<Rightarrow> chainBlocks \<Rightarrow> bool" where
  "createsUnseen seen [] = True"
| "createsUnseen seen ((h, block) # bs) =
     (list_all (\<lambda>op. \<not> seen op) (createdInBlock block) \<and>
      list_all (\<lambda>tx. list_all (\<lambda>txOut. IsUnspendable (PkScript txOut) \<or> wf_coin (createdCoin txOut False h)) (TxOut tx)) (Transactions block) \<and>
      createsUnseen (\<lambda>op. seen op \<or> op \<in> set (createdInBlock block)) bs)"

lemma connectCoins_dom: "connectCoins h U tx = Some (U', cs) \<Longrightarrow> U' op \<noteq> None \<Longrightarrow> U op \<noteq> None \<or> op \<in> set (createdOutPoints tx)"
proof -
  assume a: "connectCoins h U tx = Some (U', cs)" "U' op \<noteq> None"
  show ?thesis
  proof (rule ccontr)
    assume n: "\<not> ?thesis"
    have "addCoins U1 tx h op = U1 op" for U1 using n by (simp add: addCoins_outside)
    moreover have "U1 op = None" if "spendCoins U (spentOutPoints tx) = Some (U1, cs1)" for U1 cs1
      using restoreCoins_spendCoins [OF that] n by simp
    ultimately show False using a n by (auto simp: connectCoins_def split: if_splits)
  qed
qed

lemma connectBlockCoins_dom:
  "connectBlockCoins h U txs = Some (U', cs) \<Longrightarrow> U' op \<noteq> None \<Longrightarrow> U op \<noteq> None \<or> op \<in> set (concat (map createdOutPoints txs))"
proof (induction txs arbitrary: U cs)
  case (Cons tx txs)
  then obtain U1 cs1 cs2 where "connectCoins h U tx = Some (U1, cs1)" "connectBlockCoins h U1 txs = Some (U', cs2)"
    by (auto split: option.splits prod.splits)
  then show ?case using Cons.IH [of U1 cs2] Cons.prems(2) connectCoins_dom [of h U tx U1 cs1 op] by auto
qed simp

lemma createsUnseen_addable:
  assumes "dbReadable K bkt" "\<And>op. wf_hash (Hash op) \<Longrightarrow> dbFetchUtxoEntry K bkt op \<noteq> Inr None \<Longrightarrow> seen op"
    "createsUnseen seen ((h, block) # bs)"
  shows "blockAddable K bkt block h"
proof -
  have "cacheAddable K bkt (txOutPoint tx j) (TxOut tx ! j) h" if tx: "tx \<in> set (Transactions block)" "j < length (TxOut tx)" for tx j
  proof (cases "IsUnspendable (PkScript (TxOut tx ! j))")
    case False
    have "txOutPoint tx j \<in> set (createdOutPoints tx)"
      using tx(2) False by (force simp: createdOutPoints_def in_set_enumerate_eq image_iff)
    then have "\<not> seen (txOutPoint tx j)" using tx(1) assms(3) by (auto simp: list_all_iff createdInBlock_def)
    then have "dbFetchUtxoEntry K bkt (txOutPoint tx j) = Inr None" using assms(2) [of "txOutPoint tx j"] by auto
    moreover have "wf_coin (createdCoin (TxOut tx ! j) False h)" using assms(3) tx(1) False nth_mem [OF tx(2)] by (auto simp: list_all_iff)
    ultimately show ?thesis by (simp add: cacheAddable_def)
  qed (simp add: cacheAddable_def)
  then show ?thesis by (simp add: blockAddable_def list_all_length nth_enumerate_eq)
qed

section \<open>Properties\<close>

text \<open>
  C3. Connecting a block to the cache implements the specification: when the block spends only coins there are and the
  database has none of the outputs it creates, connecting succeeds whatever the cache has loaded, records exactly the coins
  spent, in order, and changes the coins that cache and database stand for together as the block says; the invariant that
  ties the flags of the entries to the database is kept and the database is not touched.
\<close>

theorem cache_connect_refines:
  assumes "cacheInv K s" "connectBlockCoins h (cacheCoins K s) (Transactions block) = Some (U, cs)"
    "blockAddable K (utxoSetBucket s) block h"
  shows "\<exists>s'. cache_connectTransactions K s block h (Some stxos) = Inr (s', Some (stxos @ cs)) \<and>
    cacheInv K s' \<and> cacheCoins K s' = U \<and> utxoSetBucket s' = utxoSetBucket s"
  using cache_connects [of K "utxoSetBucket s" s h block U cs "Some stxos"] assms by (auto simp: cacheOn_def)

text \<open>A database that holds the coin of the examples, and an empty cache over it.\<close>

definition exampleBucket :: bucket where "exampleBucket = [outpointKey exampleOutPoint \<mapsto> putSpentTxOut noKeys exampleCoin]"

definition exampleCache :: "hash option \<Rightarrow> utxoCache" where "exampleCache consistency = newUtxoCache exampleBucket consistency 1000000"

lemma exampleOutPoint_wf: "wf_hash (Hash exampleOutPoint)"
  by (simp add: exampleOutPoint_def)

lemma singleCoin_holds:
  assumes "wf_coin c" "wf_hash (Hash op)"
  shows "dbHolds noKeys [outpointKey op \<mapsto> putSpentTxOut noKeys c] [op \<mapsto> c]"
  unfolding dbHolds_def
proof (intro allI impI)
  fix op' :: OutPoint
  assume wf: "wf_hash (Hash op')"
  have "wf_coin (coinOf (storedEntry c))" using assms(1) by simp
  from dbFetchUtxoEntry_put(2) [OF noKeys_laws this, of Map.empty op]
  have "dbFetchUtxoEntry noKeys [outpointKey op \<mapsto> putSpentTxOut noKeys c] op = Inr (Some (storedEntry c))" by simp
  moreover have "dbFetchUtxoEntry noKeys [outpointKey op \<mapsto> putSpentTxOut noKeys c] op' = Inr None" if "op' \<noteq> op"
    using dbFetchUtxoEntry_other [OF assms(2) wf that, of noKeys Map.empty] by (simp add: dbFetchUtxoEntry_def [of _ Map.empty])
  ultimately show "dbFetchUtxoEntry noKeys [outpointKey op \<mapsto> putSpentTxOut noKeys c] op' = Inr (map_option storedEntry ([op \<mapsto> c] op'))" by simp
qed

lemma exampleBucket_holds: "dbHolds noKeys exampleBucket exampleCoins"
  unfolding exampleBucket_def exampleCoins_def
  by (rule singleCoin_holds) (simp_all add: wf_coin_def exampleCoin_def exampleOutPoint_wf)

lemma newCache_facts:
  assumes "dbHolds K bkt U" "\<And>op. \<not> wf_hash (Hash op) \<Longrightarrow> U op = None"
  shows "cacheInv K (newUtxoCache bkt consistency maxMemory)" "cacheCoins K (newUtxoCache bkt consistency maxMemory) = U"
proof -
  have "mapSlice_get (cachedEntries (newUtxoCache bkt consistency maxMemory)) op = None" for op
    by (simp add: newUtxoCache_def mapSlice_get_def)
  moreover have "utxoSetBucket (newUtxoCache bkt consistency maxMemory) = bkt" by (simp add: newUtxoCache_def)
  ultimately show "cacheCoins K (newUtxoCache bkt consistency maxMemory) = U" "cacheInv K (newUtxoCache bkt consistency maxMemory)"
    using assms dbHolds_readable [OF assms(1)] cacheCoins_dbHolds [of K "newUtxoCache bkt consistency maxMemory" U]
    by (simp_all add: cacheInv_def) (simp_all add: newUtxoCache_def msInv_def)
qed

lemma exampleCoins_wf: "\<not> wf_hash (Hash op) \<Longrightarrow> exampleCoins op = None"
  using exampleOutPoint_wf by (auto simp: exampleCoins_def)

lemma exampleCache_facts: "cacheInv noKeys (exampleCache c)" "cacheCoins noKeys (exampleCache c) = exampleCoins"
  using newCache_facts [OF exampleBucket_holds exampleCoins_wf] by (simp_all add: exampleCache_def)

lemma exampleNode_unseen:
  "0 \<le> h \<Longrightarrow> h < 2 ^ 31 \<Longrightarrow> createsUnseen (\<lambda>op. exampleCoins op \<noteq> None) [(h, exampleBlock [exampleCoinbase, exampleSpender])]"
  using exampleBlock_facts(6) [of exampleSpender] exampleBlock_facts(7) [of exampleCoinbase]
  by (simp add: createdInBlock_def exampleBlock_def exampleBlock_facts(3,4) exampleCoins_def)
    (simp add: exampleCoinbase_def exampleSpender_def exampleSpend_def wf_coin_def createdCoin_def)

lemma exampleNode_addable: "blockAddable noKeys exampleBucket (exampleBlock [exampleCoinbase, exampleSpender]) 20"
  using createsUnseen_addable [OF dbHolds_readable [OF exampleBucket_holds] _ exampleNode_unseen [of 20]] exampleBucket_holds
  by (auto simp: dbHolds_def)

theorem cache_connect_refines_witness:
  "\<exists>s'. cache_connectTransactions noKeys (exampleCache None) (exampleBlock [exampleCoinbase, exampleSpender]) 20 (Some []) =
      Inr (s', Some [exampleCoin]) \<and> cacheCoins noKeys s' exampleOutPoint = None"
proof -
  have t: "Transactions (exampleBlock [exampleCoinbase, exampleSpender]) = [exampleCoinbase, exampleSpender]" by (simp add: exampleBlock_def)
  have "exampleCoinsAfter exampleOutPoint = None"
    using exampleBlock_facts(6) [of exampleSpender] exampleBlock_facts(7) [of exampleCoinbase] by (auto simp: exampleCoinsAfter_def)
  moreover have "utxoSetBucket (exampleCache None) = exampleBucket" by (simp add: exampleCache_def newUtxoCache_def)
  ultimately show ?thesis
    using cache_connect_refines [OF exampleCache_facts(1) [of None], of 20 "exampleBlock [exampleCoinbase, exampleSpender]" exampleCoinsAfter "[exampleCoin]" "[]"]
      exampleBlock_connects(1) exampleNode_addable by (auto simp: exampleCache_facts(2) t)
qed

text \<open>
  C13. A flush makes the database catch up with the cache and loses nothing: in every mode it succeeds, keeps the coins
  and the invariant, and when it is due, the database then holds exactly these coins and is marked as consistent with the best
  block; otherwise nothing happens.  A required flush is always due.
\<close>

theorem flush_persists:
  assumes "key_laws K" "cacheInv K s"
  shows "shouldFlush s now FlushRequired bestStateHash \<and>
    (\<exists>s'. FlushUtxoCache K s now mode bestStateHash = Inr s' \<and> cacheInv K s' \<and> cacheCoins K s' = cacheCoins K s \<and>
      (if shouldFlush s now mode bestStateHash
       then dbHolds K (utxoSetBucket s') (cacheCoins K s) \<and> utxoStateConsistency s' = Some bestStateHash \<and> lastFlushHash s' = bestStateHash
       else s' = s))"
proof -
  have "shouldFlush s now FlushRequired bestStateHash" by (simp add: shouldFlush_def totalMemoryUsage_def uint64_def)
  moreover have "FlushUtxoCache K s now mode bestStateHash = flush K s now mode bestStateHash" by (simp add: FlushUtxoCache_def flush_def)
  ultimately show ?thesis using flush_correct [OF assms, of now mode bestStateHash] by simp
qed

theorem flush_persists_witness:
  "\<exists>s'. FlushUtxoCache noKeys (exampleCache None) 0 FlushRequired (replicate 32 7) = Inr s' \<and>
     dbHolds noKeys (utxoSetBucket s') exampleCoins \<and> utxoStateConsistency s' = Some (replicate 32 7)"
  using flush_persists [OF noKeys_laws exampleCache_facts(1) [of None], of 0 "replicate 32 7" FlushRequired] exampleCache_facts(2) by auto

text \<open>
  Loading outputs into a view reads the cache: for outpoints with well formed hashes it succeeds, the view then holds
  for each requested output exactly the coin that cache and database stand for, every other entry of the view is as before,
  and neither the coins nor the database have changed.
\<close>

lemma fetchUtxos_reads_cache:
  assumes "cacheInv K cache" "list_all (\<lambda>op. wf_hash (Hash op)) outpoints"
  shows "\<exists>view' cache'. fetchUtxosFromCache K view cache outpoints = Inr (view', cache') \<and>
    (\<forall>op. viewCoins view' op = (if op \<in> set outpoints then cacheCoins K cache op else viewCoins view op)) \<and>
    (\<forall>op. map_of (viewEntries view') op = None \<longleftrightarrow> op \<notin> set outpoints \<and> map_of (viewEntries view) op = None) \<and>
    bestHash view' = bestHash view \<and> (\<forall>op. heldEntry K cache' op = heldEntry K cache op) \<and>
    cacheInv K cache' \<and> cacheCoins K cache' = cacheCoins K cache \<and> utxoSetBucket cache' = utxoSetBucket cache"
proof (cases "outpoints = []")
  case True
  then show ?thesis using assms by (simp add: fetchUtxosFromCache_def)
next
  case False
  define g where "g = heldEntry K cache"
  obtain cache' where c: "fetchEntries K cache outpoints = Inr (cache', map g outpoints)" "cacheInv K cache'"
    "cacheCoins K cache' = cacheCoins K cache" "utxoSetBucket cache' = utxoSetBucket cache" "\<forall>op. heldEntry K cache' op = heldEntry K cache op"
    using fetchEntries_correct [OF assms] unfolding g_def by blast
  define view' where "view' = foldl (\<lambda>view (op, entry). setEntry view op entry) view (zip outpoints (map g outpoints))"
  have "LookupEntry (foldl (\<lambda>view (op, entry). setEntry view op entry) v (zip ops (map g ops))) op =
      (if op \<in> set ops then g op else LookupEntry v op)" for ops op v
    by (induction ops arbitrary: v) (auto simp: LookupEntry_setEntry)
  moreover have "map_of (viewEntries (foldl (\<lambda>view (op, entry). setEntry view op entry) v (zip ops (map g ops)))) op = None \<longleftrightarrow>
      op \<notin> set ops \<and> map_of (viewEntries v) op = None" for ops op v
    by (induction ops arbitrary: v) (auto simp: setEntry_def update_conv')
  moreover have "bestHash (foldl (\<lambda>view (op, entry). setEntry view op entry) v (zip ops (map g ops))) = bestHash v" for ops v
    by (induction ops arbitrary: v) (auto simp: setEntry_def)
  ultimately have view': "LookupEntry view' op = (if op \<in> set outpoints then g op else LookupEntry view op)"
    "map_of (viewEntries view') op = None \<longleftrightarrow> op \<notin> set outpoints \<and> map_of (viewEntries view) op = None"
    "bestHash view' = bestHash view" for op by (simp_all add: view'_def)
  have "cacheCoins K cache op = cachedCoin (g op)" if "op \<in> set outpoints" for op
    using assms(2) that by (auto simp: cacheCoins_def g_def list_all_iff)
  then have "viewCoins view' op = (if op \<in> set outpoints then cacheCoins K cache op else viewCoins view op)" for op
    using view'(1) by (simp add: viewCoins_def cachedCoin_def)
  moreover have "fetchUtxosFromCache K view cache outpoints = Inr (view', cache')" using False c(1) by (simp add: fetchUtxosFromCache_def view'_def)
  ultimately show ?thesis using c view'(2,3) by blast
qed

end
