(* ===== verification/Block_Rules.thy ===== *)
theory Block_Rules
  imports Tx_Rules Pow_Rules Utxo_Cache Merkle
begin

text \<open>
  The rules for whole blocks (\<^verbatim>\<open>node/blockchain/validate.go\<close>): the context free checks, the checks against the position of the block,
  and the check that the block can be connected to the unspent outputs.

  Code outside the model is collected in the record \<open>externals\<close>: the curve and SHA3-256 and BLAKE3, which are third-party packages, the verifier of
  the proofs, decompression of public keys, and the execution of the scripts of a block (\<^verbatim>\<open>checkBlockScripts\<close>), of which nothing is assumed.
\<close>

section \<open>State\<close>

record 'p externals =
  secp :: "'p Secp"
  sha3sum :: "bytes \<Rightarrow> bytes"
  blake3 :: "bytes \<Rightarrow> hash"
  zkpow :: ZkVerifier
  pubKeys :: "bytes \<Rightarrow> bytes option"
  checkBlockScripts :: "MsgBlock \<Rightarrow> UtxoViewpoint \<Rightarrow> (chainError, unit) result"

text \<open>The fields of the chain that the checks read, and the two caches they update.\<close>

record BlockChain =
  chainParams :: Params
  GenesisHash :: hash
  checkpoints :: "(int \<times> hash) list"
  index :: blockIndex
  bestChain :: chainView
  chainCache :: utxoCache
  checkpointState :: checkpointCache

text \<open>An error of the store is not a rule violation.\<close>

definition storeResult :: "(storeError, 'a) result \<Rightarrow> (chainError, 'a) result" where
  "storeResult r = (case r of Inr x \<Rightarrow> Inr x | Inl storePanic \<Rightarrow> Inl GoPanic | Inl _ \<Rightarrow> Inl AssertError)"

section \<open>Context free checks\<close>

definition checkAuxPowData :: "'p externals \<Rightarrow> MsgBlock \<Rightarrow> Params \<Rightarrow> (chainError, unit) result" where
  "checkAuxPowData E msgBlock params =
     (let header = Header (BlockMsgHeader msgBlock) in
      if IsAuxPowBlock header
      then (case AuxPow msgBlock of
              None \<Rightarrow> Inl (RuleError ErrBadAuxPoW)
            | Some auxPow \<Rightarrow>
                guardE (ProofCommitment header \<noteq> AuxPowProofCommitment (blake3 E) auxPow (Net params)) (RuleError ErrBadAuxPoW))
      else guardE (AuxPow msgBlock \<noteq> None) (RuleError ErrBadAuxPoW))"

definition checkBlockSanity :: "'p externals \<Rightarrow> MsgBlock \<Rightarrow> Params \<Rightarrow> int \<Rightarrow> 32 word \<Rightarrow> (chainError, unit) result" where
  "checkBlockSanity E msgBlock params adjustedTime flags =
     (let header = Header (BlockMsgHeader msgBlock);
          cert = Certificate (BlockMsgHeader msgBlock);
          flags = (if Net params = SimNet then flags OR BFNoPoWCheck else flags);
          transactions = Transactions msgBlock;
          allowInferenceTx = (MaxSupportedTxVersion params \<ge> uint TxVersionInference) in
      bindE (CheckBlockHeaderSanity (zkpow E) header cert (PowLimit params) adjustedTime (MaxTimeOffsetMinutes params) flags) (\<lambda>_.
      bindE (checkAuxPowData E msgBlock params) (\<lambda>_.
      bindE (guardE (length transactions = 0) (RuleError ErrNoTransactions)) (\<lambda>_.
      bindE (guardE (int (length transactions) > MaxBlockVsize) (RuleError ErrBlockTooBig)) (\<lambda>_.
      bindE (guardE (GetBlockVsize msgBlock > MaxBlockVsize) (RuleError ErrBlockTooBig)) (\<lambda>_.
      bindE (guardE (\<not> IsCoinBaseTx (transactions ! 0)) (RuleError ErrFirstTxNotCoinbase)) (\<lambda>_.
      bindE (forE (\<lambda>tx. guardE (IsCoinBaseTx tx) (RuleError ErrMultipleCoinbases)) (drop 1 transactions)) (\<lambda>_.
      bindE (forE (\<lambda>tx. CheckTransactionSanity (secp E) tx allowInferenceTx) transactions) (\<lambda>_.
      bindE (case CalcMerkleRoot transactions False of
               None \<Rightarrow> Inl GoPanic
             | Some root \<Rightarrow> guardE (MerkleRoot header \<noteq> root) (RuleError ErrBadMerkleRoot)) (\<lambda>_.
        guardE (seenBefore [] (map TxHash transactions)) (RuleError ErrDuplicateTx)))))))))))"

definition CheckBlockSanity :: "'p externals \<Rightarrow> MsgBlock \<Rightarrow> Params \<Rightarrow> int \<Rightarrow> (chainError, unit) result" where
  "CheckBlockSanity E msgBlock params adjustedTime = checkBlockSanity E msgBlock params adjustedTime BFNone"

section \<open>Checks against the position of the block\<close>

definition checkBodyContext :: "'p externals \<Rightarrow> MsgBlock \<Rightarrow> blockNode \<Rightarrow> (chainError, unit) result" where
  "checkBodyContext E msgBlock prevNode =
     (let header = Header (BlockMsgHeader msgBlock);
          blockTime = CalcPastMedianTime prevNode;
          blockHeight = int32 (node_height prevNode + 1) in
      bindE (if IsAuxPowBlock header
             then (case VerifyAuxPow (zkpow E) (AuxPow msgBlock) blockHeight (PrevBlock header) (CompactToBig (Bits header)) of
                     Inl _ \<Rightarrow> Inl (RuleError ErrBadAuxPoW)
                   | Inr _ \<Rightarrow> Inr ())
             else Inr ()) (\<lambda>_.
      bindE (forE (\<lambda>tx. guardE (\<not> IsFinalizedTransaction tx blockHeight blockTime) (RuleError ErrUnfinalizedTx)) (Transactions msgBlock)) (\<lambda>_.
      case Transactions msgBlock of
        [] \<Rightarrow> Inl GoPanic
      | coinbaseTx # _ \<Rightarrow>
          bindE (CheckSerializedHeight coinbaseTx blockHeight) (\<lambda>_.
          bindE (ValidateWitnessCommitment msgBlock) (\<lambda>_.
            guardE (GetBlockVsize msgBlock > MaxBlockVsize) (RuleError ErrBlockTooBig))))))"

definition checkBlockContext ::
  "'p externals \<Rightarrow> 'a BlockChain_scheme \<Rightarrow> MsgBlock \<Rightarrow> blockNode \<Rightarrow> 32 word \<Rightarrow> (chainError, unit) result \<times> 'a BlockChain_scheme" where
  "checkBlockContext E b msgBlock prevNode flags =
     (let header = Header (BlockMsgHeader msgBlock);
          (r, cache) = CheckBlockHeaderContext header prevNode flags (chainParams b) (checkpoints b) (index b) (bestChain b)
            (checkpointState b) False in
      (bindE r (\<lambda>_. if flags AND BFFastAdd = BFFastAdd then Inr () else checkBodyContext E msgBlock prevNode),
       b\<lparr>checkpointState := cache\<rparr>))"

section \<open>Connecting to the unspent outputs\<close>

text \<open>Every output of the block, spendable or not.\<close>

definition blockOutPoints :: "MsgBlock \<Rightarrow> OutPoint list" where
  "blockOutPoints msgBlock = concat (map (\<lambda>tx. map (txOutPoint tx) [0..<length (TxOut tx)]) (Transactions msgBlock))"

definition checkBIP0030 ::
  "'p externals \<Rightarrow> 'a BlockChain_scheme \<Rightarrow> MsgBlock \<Rightarrow> UtxoViewpoint \<Rightarrow> (chainError, UtxoViewpoint \<times> 'a BlockChain_scheme) result" where
  "checkBIP0030 E b msgBlock view =
     (let fetch = blockOutPoints msgBlock in
      bindE (storeResult (fetchUtxos (pubKeys E) view (chainCache b) fetch)) (\<lambda>(view, cache).
      bindE (forE (\<lambda>outpoint. case LookupEntry view outpoint of
                None \<Rightarrow> Inr ()
              | Some utxo \<Rightarrow> guardE (\<not> IsSpent utxo) (RuleError ErrOverwriteTx)) fetch) (\<lambda>_.
        Inr (view, b\<lparr>chainCache := cache\<rparr>))))"

text \<open>One transaction of the loop, with the view, the journal if one is requested, and the fees so far.\<close>

definition checkConnectTx ::
  "'p externals \<Rightarrow> Params \<Rightarrow> blockNode \<Rightarrow> UtxoViewpoint \<times> SpentTxOut list option \<times> int \<Rightarrow> MsgTx \<Rightarrow>
     (chainError, UtxoViewpoint \<times> SpentTxOut list option \<times> int) result" where
  "checkConnectTx E params node st tx = (case st of (view, stxos, totalFees) \<Rightarrow>
     bindE (checkInferenceGoTx (secp E) (sha3sum E) tx node params) (\<lambda>issued.
     bindE (CheckTransactionInputsWithIssuance tx (node_height node) view params issued) (\<lambda>txFee.
     bindE (checkInferenceBountySpends (secp E) (sha3sum E) tx node view) (\<lambda>_.
       let lastTotalFees = totalFees;
           totalFees = int64 (totalFees + txFee) in
       if totalFees < lastTotalFees then Inl (RuleError ErrBadFees)
       else bindE (connectTransaction (node_height node) (view, stxos) tx) (\<lambda>(view, stxos). Inr (view, stxos, totalFees))))))"

definition checkSequenceLocks :: "blockNode \<Rightarrow> MsgTx list \<Rightarrow> UtxoViewpoint \<Rightarrow> (chainError, unit) result" where
  "checkSequenceLocks node transactions view =
     (case parent node of
        None \<Rightarrow> Inl GoPanic
      | Some prevNode \<Rightarrow>
          let medianTime = CalcPastMedianTime prevNode in
          forE (\<lambda>tx. bindE (calcSequenceLock node tx view) (\<lambda>sequenceLock.
            guardE (\<not> SequenceLockActive sequenceLock (node_height node) medianTime) (RuleError ErrUnfinalizedTx))) transactions)"

text \<open>\<open>blockHeight\<close> is the height recorded in the block, which the code sets before and which is unknown in a template.\<close>

definition checkConnectBlock ::
  "'p externals \<Rightarrow> 'a BlockChain_scheme \<Rightarrow> blockNode \<Rightarrow> MsgBlock \<Rightarrow> int \<Rightarrow> UtxoViewpoint \<Rightarrow> SpentTxOut list option \<Rightarrow>
     (chainError, UtxoViewpoint \<times> 'a BlockChain_scheme \<times> SpentTxOut list option) result" where
  "checkConnectBlock E b node msgBlock blockHeight view stxos =
     (let params = chainParams b; transactions = Transactions msgBlock in
      if nhash (nfields node) = GenesisHash b then Inl (RuleError ErrMissingTxOut)
      else if bestHash view \<noteq> PrevBlock (Header (BlockMsgHeader msgBlock)) then Inl AssertError
      else bindE (checkBIP0030 E b msgBlock view) (\<lambda>(view, b).
        bindE (storeResult (fetchInputUtxos (pubKeys E) view (chainCache b) msgBlock blockHeight)) (\<lambda>(view, cache).
        bindE (foldE (checkConnectTx E params node) (view, stxos, 0) transactions) (\<lambda>(view, stxos, totalFees).
        bindE (if transactions = [] then Inl GoPanic else Inr (sumOutputs (transactions ! 0))) (\<lambda>totalGrainOut.
        bindE (CalcBlockSubsidy (node_height node) (Some params)) (\<lambda>subsidy.
          let expectedGrainOut = int64 (subsidy + totalFees);
              runScripts = (case LatestCheckpoint (checkpoints b) of
                None \<Rightarrow> True | Some checkpoint \<Rightarrow> \<not> node_height node \<le> fst checkpoint) in
          bindE (guardE (totalGrainOut > expectedGrainOut) (RuleError ErrBadCoinbaseValue)) (\<lambda>_.
          bindE (checkSequenceLocks node transactions view) (\<lambda>_.
          bindE (if runScripts then checkBlockScripts E msgBlock view else Inr ()) (\<lambda>_.
            Inr (view\<lparr>bestHash := nhash (nfields node)\<rparr>, b\<lparr>chainCache := cache\<rparr>, stxos))))))))))"

definition CheckConnectBlockTemplate ::
  "'p externals \<Rightarrow> 'a BlockChain_scheme \<Rightarrow> MsgBlock \<Rightarrow> int \<Rightarrow> int \<Rightarrow> (chainError, unit) result \<times> 'a BlockChain_scheme" where
  "CheckConnectBlockTemplate E b msgBlock blockHeight adjustedTime =
     (let header = Header (BlockMsgHeader msgBlock) in
      case tip (bestChain b) of
        None \<Rightarrow> (Inl GoPanic, b)
      | Some tipNode \<Rightarrow>
          if nhash (nfields tipNode) \<noteq> PrevBlock header then (Inl (RuleError ErrPrevBlockNotBest), b)
          else (case checkBlockSanity E msgBlock (chainParams b) adjustedTime BFNoPoWCheck of
                  Inl e \<Rightarrow> (Inl e, b)
                | Inr _ \<Rightarrow>
                    let (r, b) = checkBlockContext E b msgBlock tipNode BFNoPoWCheck in
                    case r of
                      Inl e \<Rightarrow> (Inl e, b)
                    | Inr _ \<Rightarrow>
                        let view = NewUtxoViewpoint\<lparr>bestHash := nhash (nfields tipNode)\<rparr>;
                            newNode = newBlockNode header (Some tipNode) (GetBlockVsize msgBlock) in
                        case checkConnectBlock E b newNode msgBlock blockHeight view None of
                          Inl e \<Rightarrow> (Inl e, b)
                        | Inr (_, b, _) \<Rightarrow> (Inr (), b)))"

section \<open>The value of a set of coins\<close>

definition totalValue :: "coins \<Rightarrow> int" where
  "totalValue U = (\<Sum>op \<in> dom U. stxoAmount (the (U op)))"

definition goodCoins :: "coins \<Rightarrow> bool" where
  "goodCoins U \<longleftrightarrow> finite (dom U) \<and> (\<forall>op c. U op = Some c \<longrightarrow> 0 \<le> stxoAmount c)"

lemma totalValue_remove:
  assumes "finite (dom U)" "U op = Some c"
  shows "totalValue U = totalValue (U(op := None)) + stxoAmount c"
proof -
  have "(\<Sum>op' \<in> dom U - {op}. stxoAmount (the (U op'))) = (\<Sum>op' \<in> dom U - {op}. stxoAmount (the ((U(op := None)) op')))"
    by (rule sum.cong) auto
  moreover have "op \<in> dom U" using assms(2) by blast
  ultimately show ?thesis using assms(2) sum.remove [of "dom U" op "\<lambda>op. stxoAmount (the (U op))"] assms(1)
    by (simp add: totalValue_def)
qed

lemma totalValue_update:
  assumes "goodCoins U"
  shows "totalValue (U(op \<mapsto> c)) \<le> totalValue U + stxoAmount c"
proof -
  have "totalValue (U(op \<mapsto> c)) = totalValue (U(op := None)) + stxoAmount c"
    using totalValue_remove [of "U(op \<mapsto> c)" op c] assms by (simp add: goodCoins_def)
  moreover have "totalValue (U(op := None)) \<le> totalValue U"
  proof (cases "U op")
    case None
    then have "U(op := None) = U" by auto
    then show ?thesis by simp
  qed (use assms totalValue_remove [of U op] in \<open>auto simp: goodCoins_def\<close>)
  ultimately show ?thesis by simp
qed

lemma goodCoins_update: "goodCoins U \<Longrightarrow> 0 \<le> stxoAmount c \<Longrightarrow> goodCoins (U(op \<mapsto> c))"
  by (auto simp: goodCoins_def)

lemma goodCoins_remove: "goodCoins U \<Longrightarrow> goodCoins (U(op := None))"
  by (auto simp: goodCoins_def split: if_splits)

lemma spendCoins_value:
  "goodCoins U \<Longrightarrow> spendCoins U ops = Some (U', cs) \<Longrightarrow> goodCoins U' \<and> totalValue U = totalValue U' + coinsValue cs"
proof (induction ops arbitrary: U cs)
  case (Cons op ops)
  then obtain c cs' where c: "U op = Some c" "cs = c # cs'" "spendCoins (U(op := None)) ops = Some (U', cs')"
    by (auto split: option.splits)
  have "totalValue U = totalValue (U(op := None)) + stxoAmount c"
    using totalValue_remove c(1) Cons.prems(1) unfolding goodCoins_def by blast
  moreover have "goodCoins U'" "totalValue (U(op := None)) = totalValue U' + coinsValue cs'"
    using Cons.IH [OF goodCoins_remove [OF Cons.prems(1)] c(3)] by blast+
  ultimately show ?case by (simp add: c(2))
qed simp

lemma addCoins_value:
  assumes "goodCoins U" "\<forall>txOut \<in> set (TxOut tx). 0 \<le> outValue txOut"
  shows "goodCoins (addCoins U tx h) \<and> totalValue (addCoins U tx h) \<le> totalValue U + sum_list (map outValue (TxOut tx))"
proof -
  have "goodCoins (foldl (\<lambda>U (i, txOut). addCoin U (txOutPoint tx i) txOut cb h) U xs) \<and>
      totalValue (foldl (\<lambda>U (i, txOut). addCoin U (txOutPoint tx i) txOut cb h) U xs) \<le> totalValue U + sum_list (map (outValue \<circ> snd) xs)"
    if "goodCoins U" "\<forall>(i, txOut) \<in> set xs. 0 \<le> outValue txOut" for U xs cb
    using that
  proof (induction xs arbitrary: U)
    case (Cons x xs)
    obtain i txOut where x: "x = (i, txOut)" by (cases x)
    let ?U = "addCoin U (txOutPoint tx i) txOut cb h"
    have "goodCoins ?U" "totalValue ?U \<le> totalValue U + outValue txOut"
      using Cons.prems x goodCoins_update [of U "createdCoin txOut cb h"] totalValue_update [of U _ "createdCoin txOut cb h"]
      by (simp_all add: addCoin_def createdCoin_def)
    then show ?case using Cons.IH [of ?U] Cons.prems x by auto
  qed simp
  note sums = this [OF assms(1), of "enumerate 0 (TxOut tx)" "IsCoinBaseTx tx"]
  have "\<forall>(i, txOut) \<in> set (enumerate 0 (TxOut tx)). 0 \<le> outValue txOut" using assms(2) by (auto simp: in_set_enumerate_eq)
  then show ?thesis using sums by (simp add: addCoins_def flip: map_map)
qed

section \<open>Coins that agree outside a set\<close>

definition agreeOutside :: "OutPoint set \<Rightarrow> coins \<Rightarrow> coins \<Rightarrow> bool" where
  "agreeOutside D U V \<longleftrightarrow> (\<forall>op. op \<notin> D \<longrightarrow> U op = V op)"

lemma agree_spendCoins:
  "agreeOutside D U V \<Longrightarrow> set ops \<inter> D = {} \<Longrightarrow> spendCoins U ops = Some (U', cs) \<Longrightarrow>
     \<exists>V'. spendCoins V ops = Some (V', cs) \<and> agreeOutside D U' V'"
proof (induction ops arbitrary: U V cs)
  case (Cons op ops)
  then obtain c cs' where c: "U op = Some c" "cs = c # cs'" "spendCoins (U(op := None)) ops = Some (U', cs')"
    by (auto split: option.splits)
  have V: "V op = Some c" "agreeOutside D (U(op := None)) (V(op := None))" "set ops \<inter> D = {}"
    using Cons.prems c(1) by (auto simp: agreeOutside_def)
  obtain V' where "spendCoins (V(op := None)) ops = Some (V', cs')" "agreeOutside D U' V'"
    using Cons.IH [OF V(2,3) c(3)] by blast
  then show ?case using c(2) V(1) by auto
qed auto

lemma addCoins_inside:
  assumes "op \<in> set (createdOutPoints tx)"
  shows "addCoins U tx h op = addCoins V tx h op"
proof -
  have same: "foldl (\<lambda>U (i, txOut). addCoin U (txOutPoint tx i) txOut (IsCoinBaseTx tx) h) U xs op =
      foldl (\<lambda>U (i, txOut). addCoin U (txOutPoint tx i) txOut (IsCoinBaseTx tx) h) V xs op"
    if "U op = V op \<or> (\<exists>(i, txOut) \<in> set xs. \<not> IsUnspendable (PkScript txOut) \<and> op = txOutPoint tx i)" for U V xs
    using that
  proof (induction xs arbitrary: U V)
    case (Cons x xs)
    obtain i txOut where x: "x = (i, txOut)" by (cases x)
    let ?add = "\<lambda>U. addCoin U (txOutPoint tx i) txOut (IsCoinBaseTx tx) h"
    have "?add U op = ?add V op \<or> (\<exists>(i, txOut) \<in> set xs. \<not> IsUnspendable (PkScript txOut) \<and> op = txOutPoint tx i)"
      using Cons.prems unfolding x by (cases "IsUnspendable (PkScript txOut)") (auto simp: addCoin_def)
    from Cons.IH [of "?add U" "?add V", OF this] show ?case by (simp add: x)
  qed simp
  have "\<exists>(i, txOut) \<in> set (enumerate 0 (TxOut tx)). \<not> IsUnspendable (PkScript txOut) \<and> op = txOutPoint tx i"
    using assms by (auto simp: createdOutPoints_def)
  then show ?thesis unfolding addCoins_def by (intro same disjI2)
qed

lemma agree_addCoins:
  assumes "agreeOutside D U V"
  shows "agreeOutside (D - set (createdOutPoints tx)) (addCoins U tx h) (addCoins V tx h)"
  unfolding agreeOutside_def
proof (intro allI impI)
  fix op
  assume "op \<notin> D - set (createdOutPoints tx)"
  then show "addCoins U tx h op = addCoins V tx h op"
    using assms addCoins_inside addCoins_outside by (cases "op \<in> set (createdOutPoints tx)") (auto simp: agreeOutside_def)
qed

section \<open>A view over the coins of the chain\<close>

text \<open>
  What a view stands for when the outputs it has not loaded are those of the chain.
\<close>

definition viewOver :: "UtxoViewpoint \<Rightarrow> coins \<Rightarrow> coins" where
  "viewOver view C op = (if map_of (viewEntries view) op = None then C op else viewCoins view op)"

lemma entries_setEntry: "map_of (viewEntries (setEntry view op e)) = (map_of (viewEntries view))(op \<mapsto> e)"
  by (simp add: setEntry_def update_conv')

lemma viewOver_setEntry:
  "viewOver (setEntry view op (Some e)) C = (viewOver view C)(op := if IsSpent e then None else Some (coinOf e))"
  by (rule ext) (simp add: viewOver_def entries_setEntry viewCoins_setEntry)

lemma viewOver_empty [simp]: "viewOver NewUtxoViewpoint C = C" "viewOver (view\<lparr>bestHash := h\<rparr>) C = viewOver view C"
  by (rule ext, simp add: viewOver_def NewUtxoViewpoint_def)+

lemma viewOver_present: "viewCoins view op = Some c \<Longrightarrow> viewOver view C op = Some c"
  by (auto simp: viewOver_def viewCoins_def LookupEntry_def split: option.splits if_splits)

lemma AddTxOuts_viewOver: "viewOver (AddTxOuts view tx h) C = addCoins (viewOver view C) tx h"
proof -
  have "viewOver (foldl (\<lambda>s (i, txOut). view_addTxOut s (txOutPoint tx i) txOut cb h) view xs) C =
      foldl (\<lambda>U (i, txOut). addCoin U (txOutPoint tx i) txOut cb h) (viewOver view C) xs" for cb xs
  proof (induction xs arbitrary: view)
    case (Cons x xs)
    obtain i txOut where x: "x = (i, txOut)" by (cases x)
    have "viewOver (view_addTxOut view (txOutPoint tx i) txOut cb h) C = addCoin (viewOver view C) (txOutPoint tx i) txOut cb h"
      by (simp add: view_addTxOut_def addCoin_def viewOver_setEntry)
    then show ?case using Cons.IH [of "view_addTxOut view (txOutPoint tx i) txOut cb h"] by (simp add: x)
  qed simp
  then show ?thesis by (simp add: AddTxOuts_def addOutputs_def addCoins_def)
qed

lemma spendEntry_Inr:
  assumes "spendEntry view op = Inr (view', c)"
  obtains e where "LookupEntry view op = Some e" "view' = setEntry view op (Some (Spend e))" "c = coinOf e"
  using assms by (auto simp: spendEntry_def Let_def split: option.splits)

lemma spendInputs_view:
  assumes "spendInputs spendEntry (view, stxos) ins = Inr (view', stxos')" "distinct (map PreviousOutPoint ins)"
    and "map (viewCoins view) (map PreviousOutPoint ins) = map Some cs"
  shows "spendCoins (viewOver view C) (map PreviousOutPoint ins) = Some (viewOver view' C, cs) \<and> stxos' = map_option (\<lambda>l. l @ cs) stxos"
  using assms
proof (induction ins arbitrary: view stxos cs)
  case Nil
  then show ?case by (cases stxos) (auto simp: spendInputs_def)
next
  case (Cons txIn ins)
  let ?op = "PreviousOutPoint txIn"
  obtain c cs' where cs: "cs = c # cs'" "viewCoins view ?op = Some c" "map (viewCoins view) (map PreviousOutPoint ins) = map Some cs'"
    using Cons.prems(3) by (cases cs) auto
  obtain e where e: "LookupEntry view ?op = Some e" "coinOf e = c"
    using cs(2) by (auto simp: viewCoins_def split: option.splits if_splits)
  let ?view = "setEntry view ?op (Some (Spend e))"
  have spend: "spendEntry view ?op = Inr (?view, c)" using e by (simp add: spendEntry_def)
  have rest: "spendInputs spendEntry (?view, map_option (\<lambda>l. l @ [c]) stxos) ins = Inr (view', stxos')"
    using Cons.prems(1) spend by (simp add: spendInputs_def spendInput_def)
  have "op \<noteq> ?op" if "op \<in> set (map PreviousOutPoint ins)" for op
    using Cons.prems(2) that by (metis distinct.simps(2) list.simps(9))
  then have "map (viewCoins ?view) (map PreviousOutPoint ins) = map Some cs'"
    unfolding cs(3) [symmetric] by (intro map_cong refl) (simp add: viewCoins_setEntry)
  from Cons.IH [OF rest _ this] have IH: "spendCoins (viewOver ?view C) (map PreviousOutPoint ins) = Some (viewOver view' C, cs')"
    "stxos' = map_option (\<lambda>l. l @ cs') (map_option (\<lambda>l. l @ [c]) stxos)" using Cons.prems(2) by auto
  have "viewOver ?view C = (viewOver view C)(?op := None)" by (simp add: viewOver_setEntry)
  then show ?case using IH viewOver_present [OF cs(2)] cs(1) by (simp add: option.map_comp comp_def)
qed

section \<open>Loading the inputs\<close>

text \<open>Loading outputs a view does not have leaves what it stands for over the chain as it is.\<close>

lemma fetch_viewOver:
  assumes "cacheInv K cache" "list_all (\<lambda>op. wf_hash (Hash op)) ops"
    and "\<forall>op \<in> set ops. map_of (viewEntries view) op = None" "cacheCoins K cache = C"
  shows "\<exists>view' cache'. fetchUtxosFromCache K view cache ops = Inr (view', cache') \<and> viewOver view' C = viewOver view C \<and>
    (\<forall>op \<in> set ops. map_of (viewEntries view') op \<noteq> None) \<and> (\<forall>op. map_of (viewEntries view) op \<noteq> None \<longrightarrow> map_of (viewEntries view') op \<noteq> None) \<and>
    cacheInv K cache' \<and> cacheCoins K cache' = C \<and> utxoSetBucket cache' = utxoSetBucket cache"
proof -
  obtain view' cache' where f: "fetchUtxosFromCache K view cache ops = Inr (view', cache')"
    "\<forall>op. viewCoins view' op = (if op \<in> set ops then cacheCoins K cache op else viewCoins view op)"
    "\<forall>op. map_of (viewEntries view') op = None \<longleftrightarrow> op \<notin> set ops \<and> map_of (viewEntries view) op = None"
    "cacheInv K cache'" "cacheCoins K cache' = cacheCoins K cache" "utxoSetBucket cache' = utxoSetBucket cache"
    using fetchUtxos_reads_cache [OF assms(1,2), of view] by blast
  have "viewOver view' C = viewOver view C" using f(2,3) assms(3,4) by (intro ext) (auto simp: viewOver_def)
  then show ?thesis using f assms(4) by (intro exI [of _ view'] exI [of _ cache']) simp
qed

lemma fetchUtxos_viewOver:
  assumes "cacheInv K cache" "list_all (\<lambda>op. wf_hash (Hash op)) ops" "cacheCoins K cache = C"
  shows "\<exists>view' cache'. fetchUtxos K view cache ops = Inr (view', cache') \<and> viewOver view' C = viewOver view C \<and>
    (\<forall>op \<in> set ops. map_of (viewEntries view') op \<noteq> None) \<and>
    cacheInv K cache' \<and> cacheCoins K cache' = C \<and> utxoSetBucket cache' = utxoSetBucket cache"
proof (cases "ops = []")
  case False
  let ?ops = "filter (\<lambda>op. map_of (viewEntries view) op = None) ops"
  have wf: "list_all (\<lambda>op. wf_hash (Hash op)) ?ops" and absent: "\<forall>op \<in> set ?ops. map_of (viewEntries view) op = None"
    using assms(2) by (auto simp: list_all_iff)
  obtain view' cache' where f: "fetchUtxosFromCache K view cache ?ops = Inr (view', cache')" "viewOver view' C = viewOver view C"
    "\<forall>op \<in> set ?ops. map_of (viewEntries view') op \<noteq> None"
    "\<forall>op. map_of (viewEntries view) op \<noteq> None \<longrightarrow> map_of (viewEntries view') op \<noteq> None"
    "cacheInv K cache'" "cacheCoins K cache' = C" "utxoSetBucket cache' = utxoSetBucket cache"
    using fetch_viewOver [OF assms(1) wf absent assms(3)] by blast
  have "\<forall>op \<in> set ops. map_of (viewEntries view') op \<noteq> None"
  proof
    fix op assume "op \<in> set ops"
    then show "map_of (viewEntries view') op \<noteq> None" using f(3,4) by (cases "map_of (viewEntries view) op = None") simp_all
  qed
  then show ?thesis using f False by (intro exI [of _ view'] exI [of _ cache']) (simp add: fetchUtxos_def)
qed (use assms in \<open>auto simp: fetchUtxos_def\<close>)

lemma blockOutPoints_created:
  assumes "op \<in> set (createdOutPoints tx)" "tx \<in> set (Transactions msgBlock)"
  shows "op \<in> set (blockOutPoints msgBlock)" "Hash op = TxHash tx"
proof -
  obtain i where "op = txOutPoint tx i" "i < length (TxOut tx)" using assms(1) by (auto simp: createdOutPoints_def in_set_enumerate_eq)
  then show "op \<in> set (blockOutPoints msgBlock)" "Hash op = TxHash tx"
    using assms(2) by (auto simp: blockOutPoints_def txOutPoint_def intro!: bexI [of _ tx])
qed

text \<open>The first check: no output of the block exists unspent, and the view has an entry for every one of them.\<close>

lemma checkBIP0030_facts:
  assumes "checkBIP0030 E b msgBlock view = Inr (view', b')" "cacheInv (pubKeys E) (chainCache b)" "C = cacheCoins (pubKeys E) (chainCache b)"
  shows "viewOver view' C = viewOver view C" "\<forall>op \<in> set (blockOutPoints msgBlock). viewOver view C op = None"
    "cacheInv (pubKeys E) (chainCache b')" "cacheCoins (pubKeys E) (chainCache b') = C"
    "utxoSetBucket (chainCache b') = utxoSetBucket (chainCache b)" "b' = b\<lparr>chainCache := chainCache b'\<rparr>"
proof -
  have wf: "list_all (\<lambda>op. wf_hash (Hash op)) (blockOutPoints msgBlock)"
    by (auto simp: list_all_iff blockOutPoints_def txOutPoint_def TxHash_def)
  obtain v c where f: "fetchUtxos (pubKeys E) view (chainCache b) (blockOutPoints msgBlock) = Inr (v, c)" "viewOver v C = viewOver view C"
    "\<forall>op \<in> set (blockOutPoints msgBlock). map_of (viewEntries v) op \<noteq> None" "cacheInv (pubKeys E) c" "cacheCoins (pubKeys E) c = C"
    "utxoSetBucket c = utxoSetBucket (chainCache b)"
    using fetchUtxos_viewOver [OF assms(2) wf assms(3) [symmetric], of view] by blast
  then have r: "view' = v" "b' = b\<lparr>chainCache := c\<rparr>"
    "\<forall>op \<in> set (blockOutPoints msgBlock). case LookupEntry v op of None \<Rightarrow> True | Some utxo \<Rightarrow> IsSpent utxo"
    using assms(1) by (auto simp: checkBIP0030_def storeResult_def forE_Inr_iff split: option.splits)
  show "\<forall>op \<in> set (blockOutPoints msgBlock). viewOver view C op = None"
  proof
    fix op assume op: "op \<in> set (blockOutPoints msgBlock)"
    have "viewCoins v op = None" using r(3) op by (auto simp: viewCoins_def split: option.splits)
    moreover have "map_of (viewEntries v) op \<noteq> None" using f(3) op by blast
    ultimately show "viewOver view C op = None" unfolding f(2) [symmetric] viewOver_def by (simp only: if_False)
  qed
  show "viewOver view' C = viewOver view C" "cacheInv (pubKeys E) (chainCache b')" "cacheCoins (pubKeys E) (chainCache b') = C"
    "utxoSetBucket (chainCache b') = utxoSetBucket (chainCache b)" "b' = b\<lparr>chainCache := chainCache b'\<rparr>"
    by (simp_all add: r(1,2) f(2,4,5,6))
qed

text \<open>No transaction but the coinbase refers to itself or to a transaction that comes after it in the block.\<close>

fun inOrder :: "MsgTx list \<Rightarrow> bool" where
  "inOrder [] = True"
| "inOrder (tx # txs) =
     ((IsCoinBaseTx tx \<or> list_all (\<lambda>op. Hash op \<notin> set (map TxHash (tx # txs))) (spentOutPoints tx)) \<and> inOrder txs)"

lemma inOrder_nth:
  "inOrder txs \<Longrightarrow> k < length txs \<Longrightarrow> \<not> IsCoinBaseTx (txs ! k) \<Longrightarrow> txIn \<in> set (TxIn (txs ! k)) \<Longrightarrow> k \<le> a \<Longrightarrow> a < length txs \<Longrightarrow>
     Hash (PreviousOutPoint txIn) \<noteq> TxHash (txs ! a)"
proof (induction txs arbitrary: k a)
  case (Cons tx txs)
  show ?case
  proof (cases k)
    case 0
    then have "TxHash ((tx # txs) ! a) \<in> set (map TxHash (tx # txs))" using Cons.prems(6) by (metis length_map nth_map nth_mem)
    then show ?thesis using Cons.prems(1,3,4) 0 by (auto simp: list_all_iff)
  next
    case (Suc k')
    then obtain a' where "a = Suc a'" using Cons.prems(5) by (cases a) auto
    then show ?thesis using Cons.IH [of k' a'] Cons.prems Suc by simp
  qed
qed simp

lemma txInFlight_Some: "txInFlight txs h = Some j \<Longrightarrow> j < length txs \<and> TxHash (txs ! j) = h"
  unfolding txInFlight_def by (drule map_of_SomeD) (auto simp: in_set_enumerate_eq)

lemma txInFlight_None: "txInFlight txs h = None \<longleftrightarrow> h \<notin> set (map TxHash txs)"
proof -
  have "map fst (map (\<lambda>(i, tx). (TxHash tx, i)) (enumerate k txs)) = map TxHash txs" for k by (induction txs arbitrary: k) simp_all
  then have "fst ` set (map (\<lambda>(i, tx). (TxHash tx, i)) (enumerate 0 txs)) = set (map TxHash txs)" by (metis set_map)
  then show ?thesis unfolding txInFlight_def map_of_eq_None_iff by simp
qed

lemma AddTxOuts_entries:
  assumes "Hash op \<noteq> TxHash tx"
  shows "map_of (viewEntries (AddTxOuts view tx h)) op = map_of (viewEntries view) op"
proof -
  have "map_of (viewEntries (foldl (\<lambda>s (i, txOut). view_addTxOut s (txOutPoint tx i) txOut cb h) view xs)) op = map_of (viewEntries view) op" for cb xs
  proof (induction xs arbitrary: view)
    case (Cons x xs)
    obtain i txOut where x: "x = (i, txOut)" by (cases x)
    have "op \<noteq> txOutPoint tx i" using assms by (auto simp: txOutPoint_def)
    then have "map_of (viewEntries (view_addTxOut view (txOutPoint tx i) txOut cb h)) op = map_of (viewEntries view) op"
      by (simp add: view_addTxOut_def entries_setEntry)
    then show ?case using Cons.IH [of "view_addTxOut view (txOutPoint tx i) txOut cb h"] by (simp add: x)
  qed simp
  then show ?thesis by (simp add: AddTxOuts_def addOutputs_def)
qed

text \<open>
  What searching for the inputs keeps: the outputs of other transactions are as they were, what the view stands for changes at most
  on outputs the block creates, and what is left to load is not in the view and not created by the block.
\<close>

definition searchInv :: "MsgTx list \<Rightarrow> coins \<Rightarrow> UtxoViewpoint \<Rightarrow> UtxoViewpoint \<times> OutPoint list \<Rightarrow> bool" where
  "searchInv txs C view st \<longleftrightarrow>
     (\<forall>op. Hash op \<notin> TxHash ` set txs \<longrightarrow> map_of (viewEntries (fst st)) op = map_of (viewEntries view) op) \<and>
     agreeOutside (set (concat (map createdOutPoints txs))) (viewOver (fst st) C) (viewOver view C) \<and>
     (\<forall>op \<in> set (snd st). Hash op \<notin> TxHash ` set txs \<and> map_of (viewEntries view) op = None \<and> wf_hash (Hash op))"

lemma findInput_inv:
  assumes "searchInv txs C view st" "wf_hash (Hash (PreviousOutPoint txIn))"
    and "\<And>a. i < a \<Longrightarrow> a < length txs \<Longrightarrow> Hash (PreviousOutPoint txIn) \<noteq> TxHash (txs ! a)"
  shows "searchInv txs C view (findInput txs h i st txIn)"
proof -
  obtain v needed where st: "st = (v, needed)" by (cases st)
  let ?op = "PreviousOutPoint txIn"
  show ?thesis
  proof (cases "txInFlight txs (Hash ?op)")
    case None
    then have "Hash ?op \<notin> TxHash ` set txs" by (simp add: txInFlight_None)
    then show ?thesis using assms(1,2) None by (auto simp: searchInv_def findInput_def st Let_def)
  next
    case (Some j)
    then have j: "j < length txs" "TxHash (txs ! j) = Hash ?op" by (simp_all add: txInFlight_Some)
    then have "j \<le> i" using assms(3) [of j] by (cases "j \<le> i") auto
    then have r: "findInput txs h i (v, needed) txIn = (AddTxOuts v (txs ! j) h, needed)" using Some by (simp add: findInput_def Let_def)
    have tx: "txs ! j \<in> set txs" using j(1) by simp
    have "agreeOutside (set (concat (map createdOutPoints txs))) (viewOver (AddTxOuts v (txs ! j) h) C) (viewOver view C)"
      using assms(1) tx by (auto simp: AddTxOuts_viewOver agreeOutside_def searchInv_def st addCoins_outside)
    moreover have "map_of (viewEntries (AddTxOuts v (txs ! j) h)) op = map_of (viewEntries v) op" if "Hash op \<notin> TxHash ` set txs" for op
      using that tx by (intro AddTxOuts_entries) auto
    ultimately show ?thesis using assms(1) unfolding st r searchInv_def by simp
  qed
qed

lemma findInputsToFetch_inv:
  assumes "inOrder (Transactions msgBlock)" "coinbaseFirst (Transactions msgBlock)"
    and "list_all (\<lambda>tx. list_all (\<lambda>op. wf_hash (Hash op)) (spentOutPoints tx)) (Transactions msgBlock)"
  shows "searchInv (Transactions msgBlock) C view (findInputsToFetch view msgBlock h)"
proof -
  let ?txs = "Transactions msgBlock"
  have step: "searchInv ?txs C view (foldl (findInput ?txs h i) st (TxIn tx))"
    if "searchInv ?txs C view st" "(i, tx) \<in> set (enumerate 0 (drop 1 ?txs))" for st i tx
  proof (rule foldl_invariant [where P = "searchInv ?txs C view", OF that(1)])
    fix st txIn
    assume st: "searchInv ?txs C view st" "txIn \<in> set (TxIn tx)"
    have i: "Suc i < length ?txs" "tx = ?txs ! Suc i" using that(2) by (auto simp: in_set_enumerate_eq)
    then have nc: "\<not> IsCoinBaseTx tx" using assms(2) by (auto simp: coinbaseFirst_def list_all_length split: list.splits)
    have "wf_hash (Hash (PreviousOutPoint txIn))" using assms(3) i st(2) by (auto simp: list_all_iff)
    moreover have "Hash (PreviousOutPoint txIn) \<noteq> TxHash (?txs ! a)" if "i < a" "a < length ?txs" for a
      using inOrder_nth [OF assms(1) i(1), of txIn a] nc st(2) that i(2) by simp
    ultimately show "searchInv ?txs C view (findInput ?txs h i st txIn)" using findInput_inv [OF st(1)] by blast
  qed
  have "searchInv ?txs C view (view, [])" by (simp add: searchInv_def agreeOutside_def)
  then show ?thesis unfolding findInputsToFetch_def
    by (rule foldl_invariant [where P = "searchInv ?txs C view"]) (auto intro: step)
qed

section \<open>The loop over the transactions\<close>

lemma int64_no_wrap:
  assumes "0 \<le> t" "t < 2 ^ 63" "0 \<le> f" "f < 2 ^ 63" "t \<le> int64 (t + f)"
  shows "int64 (t + f) = t + f"
proof (cases "t + f < 2 ^ 63")
  case False
  have "int64 (t + f) = int64 (t + f - 2 ^ 64)"
    unfolding int64_def by (rule signed_take_bit_eq_iff_take_bit_eq [THEN iffD2]) (simp add: take_bit_eq_mod)
  moreover have "int64 (t + f - 2 ^ 64) = t + f - 2 ^ 64" using assms False by (intro int64_id) auto
  ultimately show ?thesis using assms by simp
qed (use assms in \<open>auto intro: int64_id\<close>)

definition fees :: "MsgTx \<Rightarrow> SpentTxOut list \<Rightarrow> int \<Rightarrow> int" where
  "fees tx cs issued = (if IsCoinBaseTx tx then 0 else coinsValue cs + issued - sum_list (map outValue (TxOut tx)))"

lemma checkConnectTx_step:
  assumes "checkConnectTx E params node (view, stxos, acc) tx = Inr (view', stxos', acc')"
    and "saneOutputs tx" "distinct (spentOutPoints tx)" "0 \<le> acc" "acc < 2 ^ 63"
    and "agreeOutside D (viewOver view C) U" "IsCoinBaseTx tx \<or> set (spentOutPoints tx) \<inter> D = {}"
  shows "\<exists>U' cs issued. checkInferenceGoTx (secp E) (sha3sum E) tx node params = Inr issued \<and> 0 \<le> issued \<and> (IsCoinBaseTx tx \<longrightarrow> issued = 0) \<and>
    connectCoins (node_height node) U tx = Some (U', cs) \<and> stxos' = map_option (\<lambda>l. l @ cs) stxos \<and>
    agreeOutside (D - set (createdOutPoints tx)) (viewOver view' C) U' \<and> 0 \<le> fees tx cs issued \<and>
    list_all (spendable (node_height node) params) cs \<and> acc' = acc + fees tx cs issued \<and> acc' < 2 ^ 63"
proof -
  let ?h = "node_height node"
  obtain issued txFee where c: "checkInferenceGoTx (secp E) (sha3sum E) tx node params = Inr issued"
    "CheckTransactionInputsWithIssuance tx ?h view params issued = Inr txFee"
    "acc \<le> int64 (acc + txFee)" "acc' = int64 (acc + txFee)"
    "connectTransaction ?h (view, stxos) tx = Inr (view', stxos')"
    using assms(1) by (auto simp: checkConnectTx_def Let_def split: if_splits)
  have issued: "0 \<le> issued" "issued \<le> MaxGrain" "IsCoinBaseTx tx \<longrightarrow> issued = 0"
    using CheckInferenceGoIssuance_bounds [OF c(1) [unfolded checkInferenceGoTx_def]] by auto
  show ?thesis
  proof (cases "IsCoinBaseTx tx")
    case True
    then have "txFee = 0" "view' = AddTxOuts view tx ?h" "stxos' = stxos"
      using c(2,5) by (auto simp: CheckTransactionInputsWithIssuance_def connectTransaction_def)
    moreover have "agreeOutside (D - set (createdOutPoints tx)) (viewOver (AddTxOuts view tx ?h) C) (addCoins U tx ?h)"
      unfolding AddTxOuts_viewOver by (rule agree_addCoins [OF assms(6)])
    moreover have "int64 acc = acc" using assms(4,5) by (intro int64_id) auto
    ultimately show ?thesis using c(1,4) issued assms(5) True
      by (intro exI [of _ "addCoins U tx ?h"] exI [of _ "[]"] exI [of _ issued]) (cases stxos; simp add: connectCoins_def fees_def)
  next
    case False
    obtain cs where cs: "map (viewCoins view) (spentOutPoints tx) = map Some cs" "list_all (spendable ?h params) cs"
      "coinsValue cs + issued \<le> MaxGrain" "txFee = fees tx cs issued" "0 \<le> txFee"
      using CheckTransactionInputsWithIssuance_iff [OF assms(2) False issued(1,2), of ?h view params txFee] c(2) False by (auto simp: fees_def)
    obtain v s where v: "spendInputs spendEntry (view, stxos) (TxIn tx) = Inr (v, s)" "view' = AddTxOuts v tx ?h" "stxos' = s"
      using c(5) False by (auto simp: connectTransaction_def)
    note sp = spendInputs_view [OF v(1) assms(3) cs(1), of C]
    obtain U1 where U1: "spendCoins U (spentOutPoints tx) = Some (U1, cs)" "agreeOutside D (viewOver v C) U1"
      using agree_spendCoins [OF assms(6) _ conjunct1 [OF sp]] assms(7) False by blast
    have "agreeOutside (D - set (createdOutPoints tx)) (viewOver view' C) (addCoins U1 tx ?h)"
      unfolding v(2) AddTxOuts_viewOver by (rule agree_addCoins [OF U1(2)])
    moreover have "0 \<le> sum_list (map outValue (TxOut tx))"
      using assms(2) by (auto simp: saneOutputs_def list_all_iff intro!: sum_list_nonneg)
    then have "txFee < 2 ^ 63" using cs(3,4) False MaxGrain_small by (simp add: fees_def)
    then have "acc' = acc + txFee" using int64_no_wrap [OF assms(4,5) cs(5) _ c(3)] c(4) by simp
    moreover have "acc' < 2 ^ 63" using c(4) int64_bounds(2) by simp
    ultimately show ?thesis using c(1) issued False U1(1) v(3) sp cs(2,4,5)
      by (intro exI [of _ "addCoins U1 tx ?h"] exI [of _ cs] exI [of _ issued]) (simp add: connectCoins_def)
  qed
qed

text \<open>What the transactions of a block issue, and what its coinbase pays.\<close>

definition issuedIn :: "'p externals \<Rightarrow> Params \<Rightarrow> blockNode \<Rightarrow> MsgTx list \<Rightarrow> int" where
  "issuedIn E params node txs =
     sum_list (map (\<lambda>tx. case checkInferenceGoTx (secp E) (sha3sum E) tx node params of Inl _ \<Rightarrow> 0 | Inr issued \<Rightarrow> issued) txs)"

definition coinbasePays :: "MsgTx list \<Rightarrow> int" where
  "coinbasePays txs = sum_list (map (\<lambda>tx. if IsCoinBaseTx tx then sum_list (map outValue (TxOut tx)) else 0) txs)"

lemma connectCoins_value:
  assumes "connectCoins h U tx = Some (U', cs)" "goodCoins U" "saneOutputs tx" "IsCoinBaseTx tx \<longrightarrow> issued = 0"
  shows "goodCoins U' \<and> totalValue U' + fees tx cs issued \<le> totalValue U + issued + coinbasePays [tx]"
proof -
  have nn: "\<forall>txOut \<in> set (TxOut tx). 0 \<le> outValue txOut" using assms(3) by (auto simp: saneOutputs_def list_all_iff)
  show ?thesis
  proof (cases "IsCoinBaseTx tx")
    case True
    then show ?thesis using addCoins_value [OF assms(2) nn, of h] assms(1,4) by (auto simp: connectCoins_def fees_def coinbasePays_def)
  next
    case False
    then obtain U1 where "spendCoins U (spentOutPoints tx) = Some (U1, cs)" "U' = addCoins U1 tx h"
      using assms(1) by (auto simp: connectCoins_def)
    with spendCoins_value [OF assms(2)] addCoins_value [OF _ nn, of U1 h] False show ?thesis
      by (fastforce simp: fees_def coinbasePays_def)
  qed
qed

lemma checkConnectTxs:
  assumes "foldE (checkConnectTx E params node) (view, stxos, acc) txs = Inr (view', stxos', acc')"
    and "inOrder txs" "\<forall>tx \<in> set txs. saneOutputs tx \<and> distinct (spentOutPoints tx)" "0 \<le> acc" "acc < 2 ^ 63"
    and "agreeOutside (set (concat (map createdOutPoints txs))) (viewOver view C) U"
  shows "\<exists>U' cs. connectBlockCoins (node_height node) U txs = Some (U', cs) \<and> stxos' = map_option (\<lambda>l. l @ cs) stxos \<and>
    viewOver view' C = U' \<and> list_all (spendable (node_height node) params) cs \<and> acc \<le> acc' \<and> acc' < 2 ^ 63 \<and>
    (goodCoins U \<longrightarrow> goodCoins U' \<and> totalValue U' + (acc' - acc) \<le> totalValue U + issuedIn E params node txs + coinbasePays txs)"
  using assms
proof (induction txs arbitrary: view stxos acc U)
  case Nil
  then show ?case by (cases stxos) (auto simp: agreeOutside_def issuedIn_def coinbasePays_def)
next
  case (Cons tx txs)
  let ?h = "node_height node"
  obtain v s a where st: "checkConnectTx E params node (view, stxos, acc) tx = Inr (v, s, a)"
    "foldE (checkConnectTx E params node) (v, s, a) txs = Inr (view', stxos', acc')"
    using Cons.prems(1) by auto
  have created: "Hash op \<in> set (map TxHash (tx # txs))" if op: "op \<in> set (concat (map createdOutPoints (tx # txs)))" for op
    using op by (auto simp: createdOutPoints_def txOutPoint_def)
  have "IsCoinBaseTx tx \<or> set (spentOutPoints tx) \<inter> set (concat (map createdOutPoints (tx # txs))) = {}"
  proof (cases "IsCoinBaseTx tx")
    case False
    then have "\<forall>op \<in> set (spentOutPoints tx). Hash op \<notin> set (map TxHash (tx # txs))" using Cons.prems(2) by (simp add: list_all_iff)
    then show ?thesis using created by blast
  qed simp
  from checkConnectTx_step [OF st(1) _ _ Cons.prems(4,5,6) this] Cons.prems(3)
  obtain U1 cs1 issued where s1: "checkInferenceGoTx (secp E) (sha3sum E) tx node params = Inr issued" "IsCoinBaseTx tx \<longrightarrow> issued = 0"
    "connectCoins ?h U tx = Some (U1, cs1)" "s = map_option (\<lambda>l. l @ cs1) stxos"
    "agreeOutside (set (concat (map createdOutPoints (tx # txs))) - set (createdOutPoints tx)) (viewOver v C) U1"
    "0 \<le> fees tx cs1 issued" "list_all (spendable ?h params) cs1" "a = acc + fees tx cs1 issued" "a < 2 ^ 63" by auto
  have "agreeOutside (set (concat (map createdOutPoints txs))) (viewOver v C) U1" using s1(5) by (auto simp: agreeOutside_def)
  from Cons.IH [OF st(2) _ _ _ s1(9) this] Cons.prems(2,3,4) s1(6,8)
  obtain U' cs2 where s2: "connectBlockCoins ?h U1 txs = Some (U', cs2)" "stxos' = map_option (\<lambda>l. l @ cs2) s" "viewOver view' C = U'"
    "list_all (spendable ?h params) cs2" "a \<le> acc'" "acc' < 2 ^ 63"
    "goodCoins U1 \<longrightarrow> goodCoins U' \<and> totalValue U' + (acc' - a) \<le> totalValue U1 + issuedIn E params node txs + coinbasePays txs" by auto
  have "goodCoins U' \<and> totalValue U' + (acc' - acc) \<le> totalValue U + issuedIn E params node (tx # txs) + coinbasePays (tx # txs)" if "goodCoins U"
    using connectCoins_value [OF s1(3) that _ s1(2)] Cons.prems(3) s2(7) s1(1,8) by (auto simp: issuedIn_def coinbasePays_def)
  then show ?case using s1(3,4,6,7,8) s2 by (intro exI [of _ U'] exI [of _ "cs1 @ cs2"]) (simp add: option.map_comp comp_def)
qed

section \<open>What an accepted block does\<close>

lemma checkBlockSanity_facts:
  assumes "checkBlockSanity E msgBlock params now flags = Inr u"
  shows "coinbaseFirst (Transactions msgBlock)" "distinct (map TxHash (Transactions msgBlock))"
    "\<forall>tx \<in> set (Transactions msgBlock). saneOutputs tx \<and> distinct (spentOutPoints tx)"
proof -
  let ?txs = "Transactions msgBlock"
  have c: "?txs \<noteq> []" "IsCoinBaseTx (?txs ! 0)" "\<forall>tx \<in> set (drop 1 ?txs). \<not> IsCoinBaseTx tx"
    using assms by (auto simp: checkBlockSanity_def Let_def forE_Inr_iff)
  then show "coinbaseFirst ?txs" by (cases ?txs) (auto simp: coinbaseFirst_def list_all_iff)
  show "distinct (map TxHash ?txs)" using assms by (auto simp: checkBlockSanity_def Let_def seenBefore_iff)
  have "\<forall>tx \<in> set ?txs. CheckTransactionSanity (secp E) tx (MaxSupportedTxVersion params \<ge> uint TxVersionInference) = Inr ()"
    using assms by (auto simp: checkBlockSanity_def Let_def forE_Inr_iff)
  then show "\<forall>tx \<in> set ?txs. saneOutputs tx \<and> distinct (spentOutPoints tx)" using CheckTransactionSanity_facts(3,4) by blast
qed

lemma CalcBlockSubsidy_bounds:
  assumes "standardTime params" "0 \<le> h" "h < 2 ^ 31" "CalcBlockSubsidy h (Some params) = Inr subsidy"
  shows "0 \<le> subsidy" "subsidy \<le> 2500 * GrainPerMDL"
  using CalcBlockSubsidy_eq [OF assms(1,2,3)] assms(2,4) curveSubsidy_bounds(1) [of "h + 669110"] curveSubsidy_le [of "h + 669110"]
  by (auto simp: GrainPerMDL_def split: if_splits)

lemma createsFresh_unseen:
  "distinct (map TxHash txs) \<Longrightarrow> \<forall>op \<in> set (concat (map createdOutPoints txs)). U op = None \<Longrightarrow> connectBlockCoins h U txs \<noteq> None \<Longrightarrow>
     createsFresh h U txs"
proof (induction txs arbitrary: U)
  case (Cons tx txs)
  obtain U1 cs where c: "connectCoins h U tx = Some (U1, cs)" "connectBlockCoins h U1 txs \<noteq> None"
    using Cons.prems(3) by (auto split: option.splits prod.splits)
  have "U1 op = None" if op: "op \<in> set (concat (map createdOutPoints txs))" for op
  proof -
    have "Hash op \<in> TxHash ` set txs" using op by (auto simp: createdOutPoints_def txOutPoint_def)
    then have "op \<notin> set (createdOutPoints tx)" using Cons.prems(1) by (auto simp: createdOutPoints_def txOutPoint_def)
    then show ?thesis using connectCoins_dom [OF c(1), of op] Cons.prems(2) op by (cases "U1 op = None") auto
  qed
  then show ?case using Cons.IH [of U1] Cons.prems c by (simp add: list_all_iff)
qed simp

lemma sum_list_coinbase:
  assumes "coinbaseFirst txs"
  shows "coinbasePays txs = sum_list (map outValue (TxOut (txs ! 0)))"
proof -
  have "sum_list (map (\<lambda>tx. if IsCoinBaseTx tx then sum_list (map outValue (TxOut tx)) else 0) ts) = 0"
    if "list_all (\<lambda>tx. \<not> IsCoinBaseTx tx) ts" for ts using that by (induction ts) auto
  then show ?thesis using assms by (auto simp: coinbaseFirst_def coinbasePays_def split: list.splits)
qed

text \<open>The blocks that are checked: sane, in order, with inputs whose hashes have the length the type of the code gives them.\<close>

definition wellOrdered :: "MsgBlock \<Rightarrow> bool" where
  "wellOrdered msgBlock \<longleftrightarrow> inOrder (Transactions msgBlock) \<and>
     list_all (\<lambda>tx. list_all (\<lambda>op. wf_hash (Hash op)) (spentOutPoints tx)) (Transactions msgBlock)"

lemma checkConnectBlock_sound:
  assumes "checkConnectBlock E b node msgBlock h view stxos = Inr (view', b', stxos')" "wellOrdered msgBlock"
    and "checkBlockSanity E msgBlock params now flags = Inr u" "cacheInv (pubKeys E) (chainCache b)"
    and "C = cacheCoins (pubKeys E) (chainCache b)" "U = viewOver view C"
  shows "\<exists>U' cs acc subsidy. connectBlockCoins (node_height node) U (Transactions msgBlock) = Some (U', cs) \<and>
    stxos' = map_option (\<lambda>l. l @ cs) stxos \<and> viewOver view' C = U' \<and> bestHash view' = nhash (nfields node) \<and>
    (\<forall>op \<in> set (blockOutPoints msgBlock). U op = None) \<and> list_all (spendable (node_height node) (chainParams b)) cs \<and>
    cacheInv (pubKeys E) (chainCache b') \<and> cacheCoins (pubKeys E) (chainCache b') = C \<and> b' = b\<lparr>chainCache := chainCache b'\<rparr> \<and>
    utxoSetBucket (chainCache b') = utxoSetBucket (chainCache b) \<and> 0 \<le> acc \<and> acc < 2 ^ 63 \<and>
    (goodCoins U \<longrightarrow> goodCoins U' \<and>
       totalValue U' + acc \<le> totalValue U + issuedIn E (chainParams b) node (Transactions msgBlock) + coinbasePays (Transactions msgBlock)) \<and>
    CalcBlockSubsidy (node_height node) (Some (chainParams b)) = Inr subsidy \<and>
    sumOutputs (Transactions msgBlock ! 0) \<le> int64 (subsidy + acc)"
proof -
  let ?txs = "Transactions msgBlock" and ?K = "pubKeys E" and ?p = "chainParams b"
  note sane = checkBlockSanity_facts [OF assms(3)]
  obtain v1 b1 v2 c2 v3 acc subsidy where r:
    "checkBIP0030 E b msgBlock view = Inr (v1, b1)" "fetchInputUtxos ?K v1 (chainCache b1) msgBlock h = Inr (v2, c2)"
    "foldE (checkConnectTx E ?p node) (v2, stxos, 0) ?txs = Inr (v3, stxos', acc)"
    "CalcBlockSubsidy (node_height node) (Some ?p) = Inr subsidy" "sumOutputs (?txs ! 0) \<le> int64 (subsidy + acc)"
    "view' = v3\<lparr>bestHash := nhash (nfields node)\<rparr>" "b' = b1\<lparr>chainCache := c2\<rparr>"
    using assms(1) by (auto simp: checkConnectBlock_def Let_def storeResult_def not_less split: if_splits sum.splits storeError.splits)
  note b1 = checkBIP0030_facts [OF r(1) assms(4,5)]
  obtain v needed where f: "findInputsToFetch v1 msgBlock h = (v, needed)" by fastforce
  have inv: "searchInv ?txs C v1 (v, needed)"
    using findInputsToFetch_inv [of msgBlock C v1 h] sane(1) assms(2) f by (simp add: wellOrdered_def)
  have absent: "\<forall>op \<in> set needed. map_of (viewEntries v) op = None" "list_all (\<lambda>op. wf_hash (Hash op)) needed"
    using inv by (auto simp: searchInv_def list_all_iff)
  obtain v' c' where l: "fetchUtxosFromCache ?K v (chainCache b1) needed = Inr (v', c')" "viewOver v' C = viewOver v C"
    "cacheInv ?K c'" "cacheCoins ?K c' = C" "utxoSetBucket c' = utxoSetBucket (chainCache b1)"
    using fetch_viewOver [OF b1(3) absent(2,1) b1(4)] by blast
  then have e: "v' = v2" "c' = c2" using r(2) f by (simp_all add: fetchInputUtxos_def)
  have "agreeOutside (set (concat (map createdOutPoints ?txs))) (viewOver v2 C) U"
    using inv l(2) e b1(1) assms(6) by (simp add: searchInv_def)
  from checkConnectTxs [OF r(3) _ sane(3) _ _ this] assms(2)
  obtain U' cs where c: "connectBlockCoins (node_height node) U ?txs = Some (U', cs)" "stxos' = map_option (\<lambda>l. l @ cs) stxos"
    "viewOver v3 C = U'" "list_all (spendable (node_height node) ?p) cs" "0 \<le> acc" "acc < 2 ^ 63"
    "goodCoins U \<longrightarrow> goodCoins U' \<and> totalValue U' + acc \<le> totalValue U + issuedIn E ?p node ?txs + coinbasePays ?txs"
    by (auto simp: wellOrdered_def)
  have b': "b' = b\<lparr>chainCache := chainCache b'\<rparr>" unfolding r(7) by (subst b1(6)) simp
  show ?thesis
    by (intro exI [of _ U'] exI [of _ cs] exI [of _ acc] exI [of _ subsidy] conjI c r(4,5) b' b1(2) [folded assms(6)])
      (simp_all add: r(6,7) c(3) l(3,4,5) b1(5) flip: e(2))
qed

end
