(* ===== verification/Sha_Bits.thy ===== *)
theory Sha_Bits
  imports Chainhash
begin

unbundle bit_operations_syntax

text \<open>
  Evaluation of SHA-256 by rewriting.  The compression function of \<open>Chainhash\<close> is restated on words given as lists of
  32 bits, least significant first, where addition is a ripple-carry adder and a rotation a permutation of the list; the lemma
  \<open>sha256_block_bits\<close> reduces a block of the hash to that form, and the equations collected as \<open>bits_eval\<close> compute it in the
  simplifier with no arithmetic at all.  The digests of concrete transactions are obtained this way in \<open>Digest_Examples\<close>.
\<close>

section \<open>Words as lists of bits\<close>

definition bw :: "bool list \<Rightarrow> 32 word" where "bw bs = horner_sum of_bool 2 bs"

definition wb :: "32 word \<Rightarrow> bool list" where "wb w = map (bit w) [0..<32]"

lemma bit_bw: "bit (bw bs) n \<longleftrightarrow> n < 32 \<and> n < length bs \<and> bs ! n"
  by (simp add: bw_def bit_horner_sum_bit_word_iff)

lemma bw_wb [simp]: "bw (wb w) = w"
  by (rule bit_word_eqI) (simp add: bit_bw wb_def)

lemma length_wb [simp]: "length (wb w) = 32"
  by (simp add: wb_def)

fun nb :: "unit list \<Rightarrow> num \<Rightarrow> bool list" where
  "nb [] m = []"
| "nb (u # us) num.One = True # map (\<lambda>_. False) us"
| "nb (u # us) (num.Bit0 m) = False # nb us m"
| "nb (u # us) (num.Bit1 m) = True # nb us m"

lemma nb_bits: "nb us m = map (bit (numeral m :: int)) [0..<length us]"
proof (induction us m rule: nb.induct)
qed (auto simp: upt_conv_Cons map_Suc_upt [symmetric] bit_Suc bit_1_iff simp del: upt_Suc intro!: nth_equalityI)

lemma wb_nb:
  assumes "length us = 32"
  shows "wb (numeral m) = nb us m"
proof -
  have "bit (numeral m :: 32 word) i \<longleftrightarrow> i < 32 \<and> bit (numeral m :: int) i" for i
    using bit_word_of_int_iff [where 'a = 32, of "numeral m" i] by simp
  then show ?thesis unfolding nb_bits wb_def assms by (intro map_cong refl) simp
qed

lemma wb_numeral: "wb (numeral m) = nb [(), (), (), (), (), (), (), (), (), (), (), (), (), (), (), (), (), (), (), (), (), (), (), (), (), (), (), (), (), (), (), ()] m"
  by (rule wb_nb) simp

lemma wb_0: "wb 0 = map (\<lambda>_. False) [(), (), (), (), (), (), (), (), (), (), (), (), (), (), (), (), (), (), (), (), (), (), (), (), (), (), (), (), (), (), (), ()]"
proof -
  have "wb 0 = map (\<lambda>_. False) us" if "length us = 32" for us :: "unit list"
    using that by (intro nth_equalityI) (simp_all add: wb_def)
  from this [of "replicate 32 ()"] show ?thesis by (simp add: numeral_eq_Suc)
qed

lemma wb_1: "wb 1 = nb [(), (), (), (), (), (), (), (), (), (), (), (), (), (), (), (), (), (), (), (), (), (), (), (), (), (), (), (), (), (), (), ()] num.One"
  using wb_numeral [of num.One] by simp

definition xor3 :: "bool \<Rightarrow> bool \<Rightarrow> bool \<Rightarrow> bool" where "xor3 a b c = (a \<noteq> (b \<noteq> c))"
definition maj3 :: "bool \<Rightarrow> bool \<Rightarrow> bool \<Rightarrow> bool" where "maj3 a b c = (a \<and> (b \<or> c) \<or> b \<and> c)"
definition ch3 :: "bool \<Rightarrow> bool \<Rightarrow> bool \<Rightarrow> bool" where "ch3 a b c = (if a then b else c)"

fun bmap3 :: "(bool \<Rightarrow> bool \<Rightarrow> bool \<Rightarrow> bool) \<Rightarrow> bool list \<Rightarrow> bool list \<Rightarrow> bool list \<Rightarrow> bool list" where
  "bmap3 f (x # xs) (y # ys) (z # zs) = f x y z # bmap3 f xs ys zs"
| "bmap3 f _ _ _ = []"

lemma bmap3_eq: "length xs = n \<Longrightarrow> length ys = n \<Longrightarrow> length zs = n \<Longrightarrow>
  length (bmap3 f xs ys zs) = n \<and> (\<forall>i < n. bmap3 f xs ys zs ! i = f (xs ! i) (ys ! i) (zs ! i))"
  by (induction f xs ys zs arbitrary: n rule: bmap3.induct) (auto simp: nth_Cons split: nat.splits)

fun badd :: "bool \<Rightarrow> bool list \<Rightarrow> bool list \<Rightarrow> bool list" where
  "badd c (x # xs) (y # ys) = xor3 x y c # badd (maj3 x y c) xs ys"
| "badd c _ _ = []"

lemma badd_sum:
  "length xs = length ys \<Longrightarrow> length (badd c xs ys) = length xs \<and> (\<exists>d.
     horner_sum of_bool 2 xs + horner_sum of_bool 2 ys + of_bool c = (horner_sum of_bool 2 (badd c xs ys) + 2 ^ length xs * of_bool d :: int))"
proof (induction c xs ys rule: badd.induct)
  case (1 c x xs y ys)
  then obtain d where d: "length (badd (maj3 x y c) xs ys) = length xs"
    "horner_sum of_bool 2 xs + horner_sum of_bool 2 ys + of_bool (maj3 x y c) =
      (horner_sum of_bool 2 (badd (maj3 x y c) xs ys) + 2 ^ length xs * of_bool d :: int)" by auto
  have "of_bool x + of_bool y + of_bool c = (of_bool (xor3 x y c) + 2 * of_bool (maj3 x y c) :: int)"
    by (cases x; cases y; cases c) (simp_all add: xor3_def maj3_def)
  with d show ?case by (auto intro!: exI [of _ d] simp: algebra_simps)
qed auto

lemma badd_add: "length xs = 32 \<Longrightarrow> length ys = 32 \<Longrightarrow> bw (badd False xs ys) = bw xs + bw ys \<and> length (badd False xs ys) = 32"
proof -
  assume len: "length xs = 32" "length ys = 32"
  then obtain d where d: "length (badd False xs ys) = 32"
    "horner_sum of_bool 2 xs + horner_sum of_bool 2 ys = (horner_sum of_bool 2 (badd False xs ys) + 2 ^ 32 * of_bool d :: int)"
    using badd_sum [of xs ys False] by auto
  have hs: "(word_of_int (horner_sum of_bool 2 bs) :: 32 word) = bw bs" for bs
    unfolding bw_def by (induction bs) simp_all
  have "(word_of_int (horner_sum of_bool 2 xs + horner_sum of_bool 2 ys) :: 32 word) = word_of_int (horner_sum of_bool 2 (badd False xs ys) + 2 ^ 32 * of_bool d)"
    by (simp only: d(2))
  then have "bw xs + bw ys = bw (badd False xs ys)" by (simp add: hs)
  then show ?thesis using d(1) by simp
qed

definition brot :: "nat \<Rightarrow> bool list \<Rightarrow> bool list" where "brot n xs = drop n xs @ take n xs"

lemma length_brot [simp]: "length (brot n xs) = length xs"
  by (simp add: brot_def min_def)

lemma rotr_bw:
  assumes "length xs = 32" "n < 32"
  shows "word_rotr n (bw xs) = bw (brot n xs)"
proof (rule bit_word_eqI)
  fix i
  assume i: "i < LENGTH(32)"
  show "bit (word_rotr n (bw xs)) i = bit (bw (brot n xs)) i"
  proof (cases "i + n < 32")
    case True
    then have "i < 32 - n" by simp
    then show ?thesis using assms i True by (simp add: bit_simps bit_bw brot_def nth_append add.commute)
  next
    case False
    then have "(i + n) mod 32 = i + n - 32" using assms i by (simp add: mod_if)
    moreover have "\<not> i < 32 - n" "i - (32 - n) = i + n - 32" "i + n - 32 < 32" using False assms i by simp_all
    ultimately show ?thesis using assms i False by (simp add: bit_simps bit_bw brot_def nth_append add.commute)
  qed
qed

lemma drop_bw: "length xs = 32 \<Longrightarrow> n \<le> 32 \<Longrightarrow> drop_bit n (bw xs) = bw (drop n xs @ replicate n False)"
  by (rule bit_word_eqI) (auto simp: bit_simps bit_bw nth_append add.commute)

lemma bmap3_bw:
  assumes "length xs = 32" "length ys = 32" "length zs = 32"
  shows "bw xs XOR bw ys XOR bw zs = bw (bmap3 xor3 xs ys zs)" "sha_Ch (bw xs) (bw ys) (bw zs) = bw (bmap3 ch3 xs ys zs)"
    "sha_Maj (bw xs) (bw ys) (bw zs) = bw (bmap3 maj3 xs ys zs)"
  using bmap3_eq [OF assms]
  by (auto intro!: bit_word_eqI simp: bit_simps bit_bw assms xor3_def ch3_def maj3_def sha_Ch_def sha_Maj_def split: if_splits)

definition bSigma0 :: "bool list \<Rightarrow> bool list" where
  "bSigma0 xs = bmap3 xor3 (brot 2 xs) (brot 13 xs) (brot 22 xs)"

definition bSigma1 :: "bool list \<Rightarrow> bool list" where
  "bSigma1 xs = bmap3 xor3 (brot 6 xs) (brot 11 xs) (brot 25 xs)"

definition bsigma0 :: "bool list \<Rightarrow> bool list" where
  "bsigma0 xs = bmap3 xor3 (brot 7 xs) (brot 18 xs) (drop 3 xs @ replicate 3 False)"

definition bsigma1 :: "bool list \<Rightarrow> bool list" where
  "bsigma1 xs = bmap3 xor3 (brot 17 xs) (brot 19 xs) (drop 10 xs @ replicate 10 False)"

lemma sigmas_bw:
  assumes "length xs = 32"
  shows "Sigma0 (bw xs) = bw (bSigma0 xs)" "Sigma1 (bw xs) = bw (bSigma1 xs)" "sigma0 (bw xs) = bw (bsigma0 xs)" "sigma1 (bw xs) = bw (bsigma1 xs)"
    "length (bSigma0 xs) = 32" "length (bSigma1 xs) = 32" "length (bsigma0 xs) = 32" "length (bsigma1 xs) = 32"
  using assms bmap3_eq [where n = 32 and f = xor3]
  by (simp_all add: Sigma0_def Sigma1_def sigma0_def sigma1_def bSigma0_def bSigma1_def bsigma0_def bsigma1_def rotr_bw drop_bw bmap3_bw)

lemma bSigma0_bits:
  "bSigma0 [x0, x1, x2, x3, x4, x5, x6, x7, x8, x9, x10, x11, x12, x13, x14, x15, x16, x17, x18, x19, x20, x21, x22, x23, x24, x25, x26, x27, x28, x29, x30, x31] =
     [xor3 x2 x13 x22, xor3 x3 x14 x23, xor3 x4 x15 x24, xor3 x5 x16 x25, xor3 x6 x17 x26, xor3 x7 x18 x27, xor3 x8 x19 x28, xor3 x9 x20 x29, xor3 x10 x21 x30, xor3 x11 x22 x31, xor3 x12 x23 x0, xor3 x13 x24 x1, xor3 x14 x25 x2, xor3 x15 x26 x3, xor3 x16 x27 x4, xor3 x17 x28 x5, xor3 x18 x29 x6, xor3 x19 x30 x7, xor3 x20 x31 x8, xor3 x21 x0 x9, xor3 x22 x1 x10, xor3 x23 x2 x11, xor3 x24 x3 x12, xor3 x25 x4 x13, xor3 x26 x5 x14, xor3 x27 x6 x15, xor3 x28 x7 x16, xor3 x29 x8 x17, xor3 x30 x9 x18, xor3 x31 x10 x19, xor3 x0 x11 x20, xor3 x1 x12 x21]"
  by (simp add: bSigma0_def brot_def)

lemma bSigma1_bits:
  "bSigma1 [x0, x1, x2, x3, x4, x5, x6, x7, x8, x9, x10, x11, x12, x13, x14, x15, x16, x17, x18, x19, x20, x21, x22, x23, x24, x25, x26, x27, x28, x29, x30, x31] =
     [xor3 x6 x11 x25, xor3 x7 x12 x26, xor3 x8 x13 x27, xor3 x9 x14 x28, xor3 x10 x15 x29, xor3 x11 x16 x30, xor3 x12 x17 x31, xor3 x13 x18 x0, xor3 x14 x19 x1, xor3 x15 x20 x2, xor3 x16 x21 x3, xor3 x17 x22 x4, xor3 x18 x23 x5, xor3 x19 x24 x6, xor3 x20 x25 x7, xor3 x21 x26 x8, xor3 x22 x27 x9, xor3 x23 x28 x10, xor3 x24 x29 x11, xor3 x25 x30 x12, xor3 x26 x31 x13, xor3 x27 x0 x14, xor3 x28 x1 x15, xor3 x29 x2 x16, xor3 x30 x3 x17, xor3 x31 x4 x18, xor3 x0 x5 x19, xor3 x1 x6 x20, xor3 x2 x7 x21, xor3 x3 x8 x22, xor3 x4 x9 x23, xor3 x5 x10 x24]"
  by (simp add: bSigma1_def brot_def)

lemma bsigma0_bits:
  "bsigma0 [x0, x1, x2, x3, x4, x5, x6, x7, x8, x9, x10, x11, x12, x13, x14, x15, x16, x17, x18, x19, x20, x21, x22, x23, x24, x25, x26, x27, x28, x29, x30, x31] =
     [xor3 x7 x18 x3, xor3 x8 x19 x4, xor3 x9 x20 x5, xor3 x10 x21 x6, xor3 x11 x22 x7, xor3 x12 x23 x8, xor3 x13 x24 x9, xor3 x14 x25 x10, xor3 x15 x26 x11, xor3 x16 x27 x12, xor3 x17 x28 x13, xor3 x18 x29 x14, xor3 x19 x30 x15, xor3 x20 x31 x16, xor3 x21 x0 x17, xor3 x22 x1 x18, xor3 x23 x2 x19, xor3 x24 x3 x20, xor3 x25 x4 x21, xor3 x26 x5 x22, xor3 x27 x6 x23, xor3 x28 x7 x24, xor3 x29 x8 x25, xor3 x30 x9 x26, xor3 x31 x10 x27, xor3 x0 x11 x28, xor3 x1 x12 x29, xor3 x2 x13 x30, xor3 x3 x14 x31, xor3 x4 x15 False, xor3 x5 x16 False, xor3 x6 x17 False]"
  by (simp add: bsigma0_def brot_def numeral_eq_Suc)

lemma bsigma1_bits:
  "bsigma1 [x0, x1, x2, x3, x4, x5, x6, x7, x8, x9, x10, x11, x12, x13, x14, x15, x16, x17, x18, x19, x20, x21, x22, x23, x24, x25, x26, x27, x28, x29, x30, x31] =
     [xor3 x17 x19 x10, xor3 x18 x20 x11, xor3 x19 x21 x12, xor3 x20 x22 x13, xor3 x21 x23 x14, xor3 x22 x24 x15, xor3 x23 x25 x16, xor3 x24 x26 x17, xor3 x25 x27 x18, xor3 x26 x28 x19, xor3 x27 x29 x20, xor3 x28 x30 x21, xor3 x29 x31 x22, xor3 x30 x0 x23, xor3 x31 x1 x24, xor3 x0 x2 x25, xor3 x1 x3 x26, xor3 x2 x4 x27, xor3 x3 x5 x28, xor3 x4 x6 x29, xor3 x5 x7 x30, xor3 x6 x8 x31, xor3 x7 x9 False, xor3 x8 x10 False, xor3 x9 x11 False, xor3 x10 x12 False, xor3 x11 x13 False, xor3 x12 x14 False, xor3 x13 x15 False, xor3 x14 x16 False, xor3 x15 x17 False, xor3 x16 x18 False]"
  by (simp add: bsigma1_def brot_def numeral_eq_Suc)

section \<open>The compression function on bits\<close>

fun bfinish :: "bool list \<Rightarrow> bool list \<Rightarrow> bool list list \<Rightarrow> bool list list" where
  "bfinish t1 t2 [a, b, c, d, e, f, g, h] = [badd False t1 t2, a, b, c, badd False d t1, e, f, g]"
| "bfinish t1 t2 st = st"

fun bround :: "bool list \<Rightarrow> bool list \<Rightarrow> bool list list \<Rightarrow> bool list list" where
  "bround k w [a, b, c, d, e, f, g, h] =
     bfinish (badd False (badd False (badd False (badd False h (bSigma1 e)) (bmap3 ch3 e f g)) k) w)
       (badd False (bSigma0 a) (bmap3 maj3 a b c)) [a, b, c, d, e, f, g, h]"
| "bround k w st = st"

fun brounds :: "bool list list \<Rightarrow> bool list list \<Rightarrow> bool list list \<Rightarrow> bool list list" where
  "brounds [] ws st = st"
| "brounds (k # ks) ws st =
     brounds ks (tl ws @ [badd False (badd False (badd False (bsigma1 (ws ! 14)) (ws ! 9)) (bsigma0 (ws ! 1))) (ws ! 0)]) (bround k (ws ! 0) st)"

abbreviation all32 :: "bool list list \<Rightarrow> bool" where "all32 \<equiv> list_all (\<lambda>xs. length xs = 32)"

lemma bround_bw:
  assumes "length k = 32" "length w = 32" "all32 st" "length st = 8"
  shows "sha256_round (bw k) (bw w) (map bw st) = map bw (bround k w st) \<and> all32 (bround k w st) \<and> length (bround k w st) = 8"
proof -
  obtain a b c d e f g h where st: "st = [a, b, c, d, e, f, g, h]"
    using assms(4) by (auto simp: numeral_eq_Suc length_Suc_conv)
  then have l: "length a = 32" "length b = 32" "length c = 32" "length d = 32" "length e = 32" "length f = 32" "length g = 32" "length h = 32"
    using assms(3) by simp_all
  have m: "length (bmap3 ch3 e f g) = 32" "length (bmap3 maj3 a b c) = 32" using bmap3_eq l by blast+
  show ?thesis using assms(1,2) l m by (simp add: st Let_def sigmas_bw bmap3_bw badd_add)
qed

lemma brounds_bw:
  "all32 ks \<Longrightarrow> all32 ws \<Longrightarrow> length ws = 16 \<Longrightarrow> all32 st \<Longrightarrow> length st = 8 \<Longrightarrow>
     sha256_rounds (map bw ks) (map bw ws) (map bw st) = map bw (brounds ks ws st) \<and> all32 (brounds ks ws st) \<and> length (brounds ks ws st) = 8"
proof (induction ks arbitrary: ws st)
  case (Cons k ks)
  have w: "length (ws ! i) = 32" if "i < 16" for i using Cons.prems(2,3) that by (simp add: list_all_length)
  let ?new = "badd False (badd False (badd False (bsigma1 (ws ! 14)) (ws ! 9)) (bsigma0 (ws ! 1))) (ws ! 0)"
  have new: "length ?new = 32" "bw ?new = sigma1 (bw (ws ! 14)) + bw (ws ! 9) + sigma0 (bw (ws ! 1)) + bw (ws ! 0)"
    using w by (simp_all add: badd_add sigmas_bw)
  have tl: "all32 (tl ws @ [?new])" "length (tl ws @ [?new]) = 16" using Cons.prems(2,3) new(1) by (cases ws; simp)+
  have r: "sha256_round (bw k) (bw (ws ! 0)) (map bw st) = map bw (bround k (ws ! 0) st)" "all32 (bround k (ws ! 0) st)" "length (bround k (ws ! 0) st) = 8"
    using bround_bw [of k "ws ! 0" st] w Cons.prems by simp_all
  have n: "map bw ws ! i = bw (ws ! i)" if "i < 16" for i using that Cons.prems(3) by simp
  have "map bw (tl ws @ [?new]) = tl (map bw ws) @ [sigma1 (map bw ws ! 14) + map bw ws ! 9 + sigma0 (map bw ws ! 1) + map bw ws ! 0]"
    using new(2) n by (simp add: map_tl)
  then show ?case using Cons.IH [OF _ tl r(2,3)] Cons.prems(1) r(1) n [of 0] by simp
qed simp

lemma sha256_block_bits:
  assumes "length H = 8" "map (\<lambda>i. word_of_int (be_int (slice (4 * i) (4 * i + 4) blk))) [0..<16] = W" "length W = 16"
    and "brounds (map wb sha256_K) (map wb W) (map wb H) = map wb R" "map2 (+) H R = R'"
  shows "sha256_block H blk = R'"
proof -
  have e: "map bw (map wb xs) = xs" "all32 (map wb xs)" for xs by (simp_all add: comp_def list_all_iff)
  have "sha256_rounds sha256_K W H = map bw (map wb R)"
    using brounds_bw [of "map wb sha256_K" "map wb W" "map wb H"] assms(1,3,4) e by (simp del: map_map)
  then show ?thesis using assms(2,5) e(1) by (simp add: sha256_block_def)
qed

lemma xor3_table:
  "xor3 True True True = True"
  "xor3 True True False = False"
  "xor3 True False True = False"
  "xor3 True False False = True"
  "xor3 False True True = False"
  "xor3 False True False = True"
  "xor3 False False True = True"
  "xor3 False False False = False"
  by (simp_all add: xor3_def)

lemma maj3_table:
  "maj3 True True True = True"
  "maj3 True True False = True"
  "maj3 True False True = True"
  "maj3 True False False = False"
  "maj3 False True True = True"
  "maj3 False True False = False"
  "maj3 False False True = False"
  "maj3 False False False = False"
  by (simp_all add: maj3_def)

lemma ch3_table:
  "ch3 True True True = True"
  "ch3 True True False = True"
  "ch3 True False True = False"
  "ch3 True False False = False"
  "ch3 False True True = True"
  "ch3 False True False = False"
  "ch3 False False True = True"
  "ch3 False False False = False"
  by (simp_all add: ch3_def)

lemma brounds_step:
  "brounds (k # ks) [va, vb, vc, vd, ve, vf, vg, vh, vi, vj, vk, vl, vm, vn, vo, vp] st =
     brounds ks [vb, vc, vd, ve, vf, vg, vh, vi, vj, vk, vl, vm, vn, vo, vp, badd False (badd False (badd False (bsigma1 vo) vj) (bsigma0 vb)) va] (bround k va st)"
  by simp

lemma sha256_K_literal: "sha256_K =
    [1116352408, 1899447441, 3049323471, 3921009573, 961987163, 1508970993, 2453635748, 2870763221, 3624381080,
     310598401, 607225278, 1426881987, 1925078388, 2162078206, 2614888103, 3248222580, 3835390401, 4022224774,
     264347078, 604807628, 770255983, 1249150122, 1555081692, 1996064986, 2554220882, 2821834349, 2952996808,
     3210313671, 3336571891, 3584528711, 113926993, 338241895, 666307205, 773529912, 1294757372, 1396182291,
     1695183700, 1986661051, 2177026350, 2456956037, 2730485921, 2820302411, 3259730800, 3345764771, 3516065817,
     3600352804, 4094571909, 275423344, 430227734, 506948616, 659060556, 883997877, 958139571, 1322822218, 1537002063,
     1747873779, 1955562222, 2024104815, 2227730452, 2361852424, 2428436474, 2756734187, 3204031479, 3329325298]"
  by code_simp

declare sha256_K_literal [code]

lemma sha256_H0_literal: "sha256_H0 =
    [1779033703, 3144134277, 1013904242, 2773480762, 1359893119, 2600822924, 528734635, 1541459225]"
  by code_simp

lemmas bits_eval = sha256_K_literal wb_numeral wb_0 wb_1 nb.simps xor3_table maj3_table ch3_table bmap3.simps(1) badd.simps(1) badd.simps(2) bmap3.simps(2)
  bSigma0_bits bSigma1_bits bsigma0_bits bsigma1_bits brounds.simps(1) brounds_step bround.simps(1) bfinish.simps(1) list.map(1,2)

end
