(* ===== verification/Digest_Examples.thy ===== *)
theory Digest_Examples
  imports Utxo_Cache Sha_Bits
begin

text \<open>
  Four concrete transactions and their ids, computed by the kernel from the definition of SHA-256 in \<open>Chainhash\<close>.  The digest
  of a test vector of the standard (FIPS 180-4) is checked on the way.

  The transactions are a coinbase, a transaction with two outputs, and one that spends each of the two; they serve as blocks
  with the last three in either order.
\<close>

section \<open>A test vector\<close>

lemma sha256_blocks_fold:
  "list_all (\<lambda>b. length b = 64) bs \<Longrightarrow> sha256_blocks (length bs) H (concat bs) = foldl sha256_block H bs"
  by (induction bs arbitrary: H) simp_all

lemma Sum256_fold:
  assumes "sha256_pad m = concat bs" "list_all (\<lambda>b. length b = 64) bs" "foldl sha256_block sha256_H0 bs = H"
    and "concat (map (\<lambda>w. rev (PutUint32 w)) H) = d"
  shows "Sum256 m = d"
proof -
  have "length (concat bs) = 64 * length bs" using assms(2) by (induction bs) simp_all
  then show ?thesis using assms sha256_blocks_fold [OF assms(2)] by (simp add: Sum256_def)
qed

lemma digest_block_1: "sha256_block [1779033703, 3144134277, 1013904242, 2773480762, 1359893119, 2600822924, 528734635, 1541459225]
    [97, 98, 99, 128, 0, 0, 0, 0, 0, 0, 0, 0, 0, 0, 0, 0, 0, 0, 0, 0, 0, 0, 0, 0, 0, 0, 0, 0, 0, 0, 0, 0, 0, 0, 0, 0,
     0, 0, 0, 0, 0, 0, 0, 0, 0, 0, 0, 0, 0, 0, 0, 0, 0, 0, 0, 0, 0, 0, 0, 0, 0, 0, 0, 24] =
    [3128432319, 2399260650, 1094795486, 1571693091, 2953011619, 2518121116, 3021012833, 4060091821]"
proof (rule sha256_block_bits
    [where W = "[1633837952, 0, 0, 0, 0, 0, 0, 0, 0, 0, 0, 0, 0, 0, 0, 24]"
       and R = "[1349398616, 3550093669, 80891244, 3093179625, 1593118500, 4212265488, 2492278198, 2518632596]"])
qed (simp, code_simp, simp, simp only: bits_eval, code_simp)

lemma sha256_test_vector: "Sum256 [97, 98, 99] =
    [186, 120, 22, 191, 143, 1, 207, 234, 65, 65, 64, 222, 93, 174, 34, 35, 176, 3, 97, 163, 150, 23, 122, 156, 180,
     16, 255, 97, 242, 0, 21, 173]"
proof (rule Sum256_fold)
  show "sha256_pad [97, 98, 99] =
    concat [[97, 98, 99, 128, 0, 0, 0, 0, 0, 0, 0, 0, 0, 0, 0, 0, 0, 0, 0, 0, 0, 0, 0, 0, 0, 0, 0, 0, 0, 0, 0, 0, 0, 0, 0, 0,
     0, 0, 0, 0, 0, 0, 0, 0, 0, 0, 0, 0, 0, 0, 0, 0, 0, 0, 0, 0, 0, 0, 0, 0, 0, 0, 0, 24]]"
    by code_simp
  show "foldl sha256_block sha256_H0 [[97, 98, 99, 128, 0, 0, 0, 0, 0, 0, 0, 0, 0, 0, 0, 0, 0, 0, 0, 0, 0, 0, 0, 0, 0, 0, 0, 0, 0, 0, 0, 0, 0, 0, 0, 0,
     0, 0, 0, 0, 0, 0, 0, 0, 0, 0, 0, 0, 0, 0, 0, 0, 0, 0, 0, 0, 0, 0, 0, 0, 0, 0, 0, 24]] =
    [3128432319, 2399260650, 1094795486, 1571693091, 2953011619, 2518121116, 3021012833, 4060091821]"
    by (simp only: foldl.simps sha256_H0_literal digest_block_1)
  show "concat (map (\<lambda>w. rev (PutUint32 w)) [3128432319, 2399260650, 1094795486, 1571693091, 2953011619, 2518121116, 3021012833, 4060091821]) =
    [186, 120, 22, 191, 143, 1, 207, 234, 65, 65, 64, 222, 93, 174, 34, 35, 176, 3, 97, 163, 150, 23, 122, 156, 180,
     16, 255, 97, 242, 0, 21, 173]"
    by code_simp
qed simp

section \<open>The transactions\<close>

definition fundTx :: MsgTx where
  "fundTx = \<lparr>MsgTx.Version = 1,
     TxIn = [\<lparr>PreviousOutPoint = exampleOutPoint, SignatureScript = [], Witness = [], Sequence = 0\<rparr>],
     TxOut = [\<lparr>Value = 2000, PkScript = 0x51 # 0x20 # replicate 32 8\<rparr>, \<lparr>Value = 3000, PkScript = 0x51 # 0x20 # replicate 32 9\<rparr>],
     LockTime = 0\<rparr>"

definition rewardTx :: MsgTx where
  "rewardTx = \<lparr>MsgTx.Version = 1,
     TxIn = [\<lparr>PreviousOutPoint = \<lparr>Hash = zeroHash, Index = 0xffffffff\<rparr>, SignatureScript = [0x52, 0], Witness = [], Sequence = 0\<rparr>],
     TxOut = [\<lparr>Value = 0, PkScript = [0x6a]\<rparr>], LockTime = 0\<rparr>"

definition fundHash :: hash where
  "fundHash = [139, 71, 211, 138, 251, 255, 43, 167, 18, 209, 50, 50, 35, 211, 51, 217, 145, 188, 28, 41, 153, 82, 192, 38,
     184, 178, 253, 141, 95, 105, 216, 240]"

definition burnTx :: "32 word \<Rightarrow> 64 word \<Rightarrow> MsgTx" where
  "burnTx i amount = \<lparr>MsgTx.Version = 1,
     TxIn = [\<lparr>PreviousOutPoint = \<lparr>Hash = fundHash, Index = i\<rparr>, SignatureScript = [], Witness = [], Sequence = 0\<rparr>],
     TxOut = [\<lparr>Value = amount, PkScript = [0x6a]\<rparr>], LockTime = 0\<rparr>"

lemma digest_block_2: "sha256_block [1779033703, 3144134277, 1013904242, 2773480762, 1359893119, 2600822924, 528734635, 1541459225]
    [1, 0, 0, 0, 1, 3, 3, 3, 3, 3, 3, 3, 3, 3, 3, 3, 3, 3, 3, 3, 3, 3, 3, 3, 3, 3, 3, 3, 3, 3, 3, 3, 3, 3, 3, 3, 3,
     5, 0, 0, 0, 0, 0, 0, 0, 0, 2, 208, 7, 0, 0, 0, 0, 0, 0, 34, 81, 32, 8, 8, 8, 8, 8, 8] =
    [1987016568, 1365400884, 59111148, 345062080, 3624736902, 3050494917, 800435411, 482964722]"
proof (rule sha256_block_bits
    [where W = "[16777216, 16974595, 50529027, 50529027, 50529027, 50529027, 50529027, 50529027, 50529027, 50659328, 0, 720,
     117440512, 34, 1361053704, 134744072]"
       and R = "[207982865, 2516233903, 3340174202, 1866548614, 2264843783, 449671993, 271700776, 3236472793]"])
qed (simp, code_simp, simp, simp only: bits_eval, code_simp)

lemma digest_block_3: "sha256_block [1987016568, 1365400884, 59111148, 345062080, 3624736902, 3050494917, 800435411, 482964722]
    [8, 8, 8, 8, 8, 8, 8, 8, 8, 8, 8, 8, 8, 8, 8, 8, 8, 8, 8, 8, 8, 8, 8, 8, 8, 8, 184, 11, 0, 0, 0, 0, 0, 0, 34, 81,
     32, 9, 9, 9, 9, 9, 9, 9, 9, 9, 9, 9, 9, 9, 9, 9, 9, 9, 9, 9, 9, 9, 9, 9, 9, 9, 9, 9] =
    [2882924110, 3814462062, 620145133, 3277946387, 2197928065, 3625471861, 3829996354, 2350351946]"
proof (rule sha256_block_bits
    [where W = "[134744072, 134744072, 134744072, 134744072, 134744072, 134744072, 134789131, 0, 8785, 537463049, 151587081,
     151587081, 151587081, 151587081, 151587081, 151587081]"
       and R = "[895907542, 2449061178, 561033985, 2932884307, 2868158459, 574976944, 3029560943, 1867387224]"])
qed (simp, code_simp, simp, simp only: bits_eval, code_simp)

lemma digest_block_4: "sha256_block [2882924110, 3814462062, 620145133, 3277946387, 2197928065, 3625471861, 3829996354, 2350351946]
    [9, 9, 9, 9, 9, 0, 0, 0, 0, 128, 0, 0, 0, 0, 0, 0, 0, 0, 0, 0, 0, 0, 0, 0, 0, 0, 0, 0, 0, 0, 0, 0, 0, 0, 0, 0, 0,
     0, 0, 0, 0, 0, 0, 0, 0, 0, 0, 0, 0, 0, 0, 0, 0, 0, 0, 0, 0, 0, 0, 0, 0, 0, 4, 72] =
    [4048227032, 3691029038, 4097396090, 2478099221, 3329422033, 3447535145, 177939426, 3792777470]"
proof (rule sha256_block_bits
    [where W = "[151587081, 150994944, 8388608, 0, 0, 0, 0, 0, 0, 0, 0, 0, 0, 0, 0, 1096]"
       and R = "[1165302922, 4171534272, 3477250957, 3495120130, 1131493968, 4117030580, 642910368, 1442425524]"])
qed (simp, code_simp, simp, simp only: bits_eval, code_simp)

lemma fundTx_id_inner: "Sum256 [1, 0, 0, 0, 1, 3, 3, 3, 3, 3, 3, 3, 3, 3, 3, 3, 3, 3, 3, 3, 3, 3, 3, 3, 3, 3, 3, 3, 3, 3, 3, 3, 3, 3, 3, 3, 3,
     5, 0, 0, 0, 0, 0, 0, 0, 0, 2, 208, 7, 0, 0, 0, 0, 0, 0, 34, 81, 32, 8, 8, 8, 8, 8, 8, 8, 8, 8, 8, 8, 8, 8, 8, 8,
     8, 8, 8, 8, 8, 8, 8, 8, 8, 8, 8, 8, 8, 8, 8, 8, 8, 184, 11, 0, 0, 0, 0, 0, 0, 34, 81, 32, 9, 9, 9, 9, 9, 9, 9, 9,
     9, 9, 9, 9, 9, 9, 9, 9, 9, 9, 9, 9, 9, 9, 9, 9, 9, 9, 9, 9, 9, 9, 9, 9, 0, 0, 0, 0] =
    [241, 75, 10, 216, 220, 0, 162, 46, 244, 57, 77, 122, 147, 180, 203, 21, 198, 114, 242, 209, 205, 125, 54, 41,
     10, 155, 35, 226, 226, 17, 48, 254]"
proof (rule Sum256_fold)
  show "sha256_pad [1, 0, 0, 0, 1, 3, 3, 3, 3, 3, 3, 3, 3, 3, 3, 3, 3, 3, 3, 3, 3, 3, 3, 3, 3, 3, 3, 3, 3, 3, 3, 3, 3, 3, 3, 3, 3,
     5, 0, 0, 0, 0, 0, 0, 0, 0, 2, 208, 7, 0, 0, 0, 0, 0, 0, 34, 81, 32, 8, 8, 8, 8, 8, 8, 8, 8, 8, 8, 8, 8, 8, 8, 8,
     8, 8, 8, 8, 8, 8, 8, 8, 8, 8, 8, 8, 8, 8, 8, 8, 8, 184, 11, 0, 0, 0, 0, 0, 0, 34, 81, 32, 9, 9, 9, 9, 9, 9, 9, 9,
     9, 9, 9, 9, 9, 9, 9, 9, 9, 9, 9, 9, 9, 9, 9, 9, 9, 9, 9, 9, 9, 9, 9, 9, 0, 0, 0, 0] =
    concat [[1, 0, 0, 0, 1, 3, 3, 3, 3, 3, 3, 3, 3, 3, 3, 3, 3, 3, 3, 3, 3, 3, 3, 3, 3, 3, 3, 3, 3, 3, 3, 3, 3, 3, 3, 3, 3,
     5, 0, 0, 0, 0, 0, 0, 0, 0, 2, 208, 7, 0, 0, 0, 0, 0, 0, 34, 81, 32, 8, 8, 8, 8, 8, 8],
     [8, 8, 8, 8, 8, 8, 8, 8, 8, 8, 8, 8, 8, 8, 8, 8, 8, 8, 8, 8, 8, 8, 8, 8, 8, 8, 184, 11, 0, 0, 0, 0, 0, 0, 34, 81,
     32, 9, 9, 9, 9, 9, 9, 9, 9, 9, 9, 9, 9, 9, 9, 9, 9, 9, 9, 9, 9, 9, 9, 9, 9, 9, 9, 9],
     [9, 9, 9, 9, 9, 0, 0, 0, 0, 128, 0, 0, 0, 0, 0, 0, 0, 0, 0, 0, 0, 0, 0, 0, 0, 0, 0, 0, 0, 0, 0, 0, 0, 0, 0, 0, 0,
     0, 0, 0, 0, 0, 0, 0, 0, 0, 0, 0, 0, 0, 0, 0, 0, 0, 0, 0, 0, 0, 0, 0, 0, 0, 4, 72]]"
    by code_simp
  show "foldl sha256_block sha256_H0 [[1, 0, 0, 0, 1, 3, 3, 3, 3, 3, 3, 3, 3, 3, 3, 3, 3, 3, 3, 3, 3, 3, 3, 3, 3, 3, 3, 3, 3, 3, 3, 3, 3, 3, 3, 3, 3,
     5, 0, 0, 0, 0, 0, 0, 0, 0, 2, 208, 7, 0, 0, 0, 0, 0, 0, 34, 81, 32, 8, 8, 8, 8, 8, 8],
     [8, 8, 8, 8, 8, 8, 8, 8, 8, 8, 8, 8, 8, 8, 8, 8, 8, 8, 8, 8, 8, 8, 8, 8, 8, 8, 184, 11, 0, 0, 0, 0, 0, 0, 34, 81,
     32, 9, 9, 9, 9, 9, 9, 9, 9, 9, 9, 9, 9, 9, 9, 9, 9, 9, 9, 9, 9, 9, 9, 9, 9, 9, 9, 9],
     [9, 9, 9, 9, 9, 0, 0, 0, 0, 128, 0, 0, 0, 0, 0, 0, 0, 0, 0, 0, 0, 0, 0, 0, 0, 0, 0, 0, 0, 0, 0, 0, 0, 0, 0, 0, 0,
     0, 0, 0, 0, 0, 0, 0, 0, 0, 0, 0, 0, 0, 0, 0, 0, 0, 0, 0, 0, 0, 0, 0, 0, 0, 4, 72]] =
    [4048227032, 3691029038, 4097396090, 2478099221, 3329422033, 3447535145, 177939426, 3792777470]"
    by (simp only: foldl.simps sha256_H0_literal digest_block_2 digest_block_3 digest_block_4)
  show "concat (map (\<lambda>w. rev (PutUint32 w)) [4048227032, 3691029038, 4097396090, 2478099221, 3329422033, 3447535145, 177939426, 3792777470]) =
    [241, 75, 10, 216, 220, 0, 162, 46, 244, 57, 77, 122, 147, 180, 203, 21, 198, 114, 242, 209, 205, 125, 54, 41,
     10, 155, 35, 226, 226, 17, 48, 254]"
    by code_simp
qed simp

lemma digest_block_5: "sha256_block [1779033703, 3144134277, 1013904242, 2773480762, 1359893119, 2600822924, 528734635, 1541459225]
    [241, 75, 10, 216, 220, 0, 162, 46, 244, 57, 77, 122, 147, 180, 203, 21, 198, 114, 242, 209, 205, 125, 54, 41,
     10, 155, 35, 226, 226, 17, 48, 254, 128, 0, 0, 0, 0, 0, 0, 0, 0, 0, 0, 0, 0, 0, 0, 0, 0, 0, 0, 0, 0, 0, 0, 0, 0,
     0, 0, 0, 0, 0, 1, 0] =
    [2336740234, 4227804071, 315699762, 601043929, 2445024297, 2572337190, 3098738061, 1600772336]"
proof (rule sha256_block_bits
    [where W = "[4048227032, 3691029038, 4097396090, 2478099221, 3329422033, 3447535145, 177939426, 3792777470, 2147483648, 0, 0,
     0, 0, 0, 0, 256]"
       and R = "[557706531, 1083669794, 3596762816, 2122530463, 1085131178, 4266481562, 2570003426, 59313111]"])
qed (simp, code_simp, simp, simp only: bits_eval, code_simp)

lemma fundTx_id_outer: "Sum256 [241, 75, 10, 216, 220, 0, 162, 46, 244, 57, 77, 122, 147, 180, 203, 21, 198, 114, 242, 209, 205, 125, 54, 41,
     10, 155, 35, 226, 226, 17, 48, 254] =
    [139, 71, 211, 138, 251, 255, 43, 167, 18, 209, 50, 50, 35, 211, 51, 217, 145, 188, 28, 41, 153, 82, 192, 38,
     184, 178, 253, 141, 95, 105, 216, 240]"
proof (rule Sum256_fold)
  show "sha256_pad [241, 75, 10, 216, 220, 0, 162, 46, 244, 57, 77, 122, 147, 180, 203, 21, 198, 114, 242, 209, 205, 125, 54, 41,
     10, 155, 35, 226, 226, 17, 48, 254] =
    concat [[241, 75, 10, 216, 220, 0, 162, 46, 244, 57, 77, 122, 147, 180, 203, 21, 198, 114, 242, 209, 205, 125, 54, 41,
     10, 155, 35, 226, 226, 17, 48, 254, 128, 0, 0, 0, 0, 0, 0, 0, 0, 0, 0, 0, 0, 0, 0, 0, 0, 0, 0, 0, 0, 0, 0, 0, 0,
     0, 0, 0, 0, 0, 1, 0]]"
    by code_simp
  show "foldl sha256_block sha256_H0 [[241, 75, 10, 216, 220, 0, 162, 46, 244, 57, 77, 122, 147, 180, 203, 21, 198, 114, 242, 209, 205, 125, 54, 41,
     10, 155, 35, 226, 226, 17, 48, 254, 128, 0, 0, 0, 0, 0, 0, 0, 0, 0, 0, 0, 0, 0, 0, 0, 0, 0, 0, 0, 0, 0, 0, 0, 0,
     0, 0, 0, 0, 0, 1, 0]] =
    [2336740234, 4227804071, 315699762, 601043929, 2445024297, 2572337190, 3098738061, 1600772336]"
    by (simp only: foldl.simps sha256_H0_literal digest_block_5)
  show "concat (map (\<lambda>w. rev (PutUint32 w)) [2336740234, 4227804071, 315699762, 601043929, 2445024297, 2572337190, 3098738061, 1600772336]) =
    [139, 71, 211, 138, 251, 255, 43, 167, 18, 209, 50, 50, 35, 211, 51, 217, 145, 188, 28, 41, 153, 82, 192, 38,
     184, 178, 253, 141, 95, 105, 216, 240]"
    by code_simp
qed simp

lemma fundTx_id: "TxHash fundTx =
    [139, 71, 211, 138, 251, 255, 43, 167, 18, 209, 50, 50, 35, 211, 51, 217, 145, 188, 28, 41, 153, 82, 192, 38,
     184, 178, 253, 141, 95, 105, 216, 240]"
proof -
  have "SerializeNoWitness fundTx = [1, 0, 0, 0, 1, 3, 3, 3, 3, 3, 3, 3, 3, 3, 3, 3, 3, 3, 3, 3, 3, 3, 3, 3, 3, 3, 3, 3, 3, 3, 3, 3, 3, 3, 3, 3, 3,
     5, 0, 0, 0, 0, 0, 0, 0, 0, 2, 208, 7, 0, 0, 0, 0, 0, 0, 34, 81, 32, 8, 8, 8, 8, 8, 8, 8, 8, 8, 8, 8, 8, 8, 8, 8,
     8, 8, 8, 8, 8, 8, 8, 8, 8, 8, 8, 8, 8, 8, 8, 8, 8, 184, 11, 0, 0, 0, 0, 0, 0, 34, 81, 32, 9, 9, 9, 9, 9, 9, 9, 9,
     9, 9, 9, 9, 9, 9, 9, 9, 9, 9, 9, 9, 9, 9, 9, 9, 9, 9, 9, 9, 9, 9, 9, 9, 0, 0, 0, 0]"
    by code_simp
  then show ?thesis by (simp only: TxHash_def DoubleHashRaw_def Let_def fundTx_id_inner fundTx_id_outer)
qed

lemma digest_block_6: "sha256_block [1779033703, 3144134277, 1013904242, 2773480762, 1359893119, 2600822924, 528734635, 1541459225]
    [1, 0, 0, 0, 1, 0, 0, 0, 0, 0, 0, 0, 0, 0, 0, 0, 0, 0, 0, 0, 0, 0, 0, 0, 0, 0, 0, 0, 0, 0, 0, 0, 0, 0, 0, 0, 0,
     255, 255, 255, 255, 2, 82, 0, 0, 0, 0, 0, 1, 0, 0, 0, 0, 0, 0, 0, 0, 1, 106, 0, 0, 0, 0, 128] =
    [3792055362, 3273270631, 2924432881, 1303003225, 4174215823, 1240637444, 2995693257, 428886105]"
proof (rule sha256_block_bits
    [where W = "[16777216, 16777216, 0, 0, 0, 0, 0, 0, 0, 16777215, 4278342144, 0, 16777216, 0, 92672, 128]"
       and R = "[2013021659, 129136354, 1910528639, 2824489759, 2814322704, 2934781816, 2466958622, 3182394176]"])
qed (simp, code_simp, simp, simp only: bits_eval, code_simp)

lemma digest_block_7: "sha256_block [3792055362, 3273270631, 2924432881, 1303003225, 4174215823, 1240637444, 2995693257, 428886105]
    [0, 0, 0, 0, 0, 0, 0, 0, 0, 0, 0, 0, 0, 0, 0, 0, 0, 0, 0, 0, 0, 0, 0, 0, 0, 0, 0, 0, 0, 0, 0, 0, 0, 0, 0, 0, 0,
     0, 0, 0, 0, 0, 0, 0, 0, 0, 0, 0, 0, 0, 0, 0, 0, 0, 0, 0, 0, 0, 0, 0, 0, 0, 1, 248] =
    [3338978622, 745369513, 207928664, 2975471289, 4145889889, 3533540146, 3731208595, 343692475]"
proof (rule sha256_block_bits
    [where W = "[0, 0, 0, 0, 0, 0, 0, 0, 0, 0, 0, 0, 0, 0, 0, 504]"
       and R = "[3841890556, 1767066178, 1578463079, 1672468064, 4266641362, 2292902702, 735515338, 4209773666]"])
qed (simp, code_simp, simp, simp only: bits_eval, code_simp)

lemma rewardTx_id_inner: "Sum256 [1, 0, 0, 0, 1, 0, 0, 0, 0, 0, 0, 0, 0, 0, 0, 0, 0, 0, 0, 0, 0, 0, 0, 0, 0, 0, 0, 0, 0, 0, 0, 0, 0, 0, 0, 0, 0,
     255, 255, 255, 255, 2, 82, 0, 0, 0, 0, 0, 1, 0, 0, 0, 0, 0, 0, 0, 0, 1, 106, 0, 0, 0, 0] =
    [199, 4, 197, 62, 44, 109, 111, 169, 12, 100, 189, 88, 177, 90, 22, 185, 247, 29, 66, 97, 210, 157, 139, 50, 222,
     101, 185, 147, 20, 124, 84, 187]"
proof (rule Sum256_fold)
  show "sha256_pad [1, 0, 0, 0, 1, 0, 0, 0, 0, 0, 0, 0, 0, 0, 0, 0, 0, 0, 0, 0, 0, 0, 0, 0, 0, 0, 0, 0, 0, 0, 0, 0, 0, 0, 0, 0, 0,
     255, 255, 255, 255, 2, 82, 0, 0, 0, 0, 0, 1, 0, 0, 0, 0, 0, 0, 0, 0, 1, 106, 0, 0, 0, 0] =
    concat [[1, 0, 0, 0, 1, 0, 0, 0, 0, 0, 0, 0, 0, 0, 0, 0, 0, 0, 0, 0, 0, 0, 0, 0, 0, 0, 0, 0, 0, 0, 0, 0, 0, 0, 0, 0, 0,
     255, 255, 255, 255, 2, 82, 0, 0, 0, 0, 0, 1, 0, 0, 0, 0, 0, 0, 0, 0, 1, 106, 0, 0, 0, 0, 128],
     [0, 0, 0, 0, 0, 0, 0, 0, 0, 0, 0, 0, 0, 0, 0, 0, 0, 0, 0, 0, 0, 0, 0, 0, 0, 0, 0, 0, 0, 0, 0, 0, 0, 0, 0, 0, 0,
     0, 0, 0, 0, 0, 0, 0, 0, 0, 0, 0, 0, 0, 0, 0, 0, 0, 0, 0, 0, 0, 0, 0, 0, 0, 1, 248]]"
    by code_simp
  show "foldl sha256_block sha256_H0 [[1, 0, 0, 0, 1, 0, 0, 0, 0, 0, 0, 0, 0, 0, 0, 0, 0, 0, 0, 0, 0, 0, 0, 0, 0, 0, 0, 0, 0, 0, 0, 0, 0, 0, 0, 0, 0,
     255, 255, 255, 255, 2, 82, 0, 0, 0, 0, 0, 1, 0, 0, 0, 0, 0, 0, 0, 0, 1, 106, 0, 0, 0, 0, 128],
     [0, 0, 0, 0, 0, 0, 0, 0, 0, 0, 0, 0, 0, 0, 0, 0, 0, 0, 0, 0, 0, 0, 0, 0, 0, 0, 0, 0, 0, 0, 0, 0, 0, 0, 0, 0, 0,
     0, 0, 0, 0, 0, 0, 0, 0, 0, 0, 0, 0, 0, 0, 0, 0, 0, 0, 0, 0, 0, 0, 0, 0, 0, 1, 248]] =
    [3338978622, 745369513, 207928664, 2975471289, 4145889889, 3533540146, 3731208595, 343692475]"
    by (simp only: foldl.simps sha256_H0_literal digest_block_6 digest_block_7)
  show "concat (map (\<lambda>w. rev (PutUint32 w)) [3338978622, 745369513, 207928664, 2975471289, 4145889889, 3533540146, 3731208595, 343692475]) =
    [199, 4, 197, 62, 44, 109, 111, 169, 12, 100, 189, 88, 177, 90, 22, 185, 247, 29, 66, 97, 210, 157, 139, 50, 222,
     101, 185, 147, 20, 124, 84, 187]"
    by code_simp
qed simp

lemma digest_block_8: "sha256_block [1779033703, 3144134277, 1013904242, 2773480762, 1359893119, 2600822924, 528734635, 1541459225]
    [199, 4, 197, 62, 44, 109, 111, 169, 12, 100, 189, 88, 177, 90, 22, 185, 247, 29, 66, 97, 210, 157, 139, 50, 222,
     101, 185, 147, 20, 124, 84, 187, 128, 0, 0, 0, 0, 0, 0, 0, 0, 0, 0, 0, 0, 0, 0, 0, 0, 0, 0, 0, 0, 0, 0, 0, 0, 0,
     0, 0, 0, 0, 1, 0] =
    [3899712632, 3175319238, 2716592754, 4247793534, 823181879, 3899165841, 4253916564, 2552692193]"
proof (rule sha256_block_bits
    [where W = "[3338978622, 745369513, 207928664, 2975471289, 4145889889, 3533540146, 3731208595, 343692475, 2147483648, 0, 0,
     0, 0, 0, 0, 256]"
       and R = "[2120678929, 31184961, 1702688512, 1474312772, 3758256056, 1298342917, 3725181929, 1011232968]"])
qed (simp, code_simp, simp, simp only: bits_eval, code_simp)

lemma rewardTx_id_outer: "Sum256 [199, 4, 197, 62, 44, 109, 111, 169, 12, 100, 189, 88, 177, 90, 22, 185, 247, 29, 66, 97, 210, 157, 139, 50, 222,
     101, 185, 147, 20, 124, 84, 187] =
    [232, 112, 228, 120, 189, 67, 134, 198, 161, 235, 234, 114, 253, 48, 47, 126, 49, 16, 194, 55, 232, 104, 140,
     145, 253, 141, 157, 148, 152, 38, 253, 225]"
proof (rule Sum256_fold)
  show "sha256_pad [199, 4, 197, 62, 44, 109, 111, 169, 12, 100, 189, 88, 177, 90, 22, 185, 247, 29, 66, 97, 210, 157, 139, 50, 222,
     101, 185, 147, 20, 124, 84, 187] =
    concat [[199, 4, 197, 62, 44, 109, 111, 169, 12, 100, 189, 88, 177, 90, 22, 185, 247, 29, 66, 97, 210, 157, 139, 50, 222,
     101, 185, 147, 20, 124, 84, 187, 128, 0, 0, 0, 0, 0, 0, 0, 0, 0, 0, 0, 0, 0, 0, 0, 0, 0, 0, 0, 0, 0, 0, 0, 0, 0,
     0, 0, 0, 0, 1, 0]]"
    by code_simp
  show "foldl sha256_block sha256_H0 [[199, 4, 197, 62, 44, 109, 111, 169, 12, 100, 189, 88, 177, 90, 22, 185, 247, 29, 66, 97, 210, 157, 139, 50, 222,
     101, 185, 147, 20, 124, 84, 187, 128, 0, 0, 0, 0, 0, 0, 0, 0, 0, 0, 0, 0, 0, 0, 0, 0, 0, 0, 0, 0, 0, 0, 0, 0, 0,
     0, 0, 0, 0, 1, 0]] =
    [3899712632, 3175319238, 2716592754, 4247793534, 823181879, 3899165841, 4253916564, 2552692193]"
    by (simp only: foldl.simps sha256_H0_literal digest_block_8)
  show "concat (map (\<lambda>w. rev (PutUint32 w)) [3899712632, 3175319238, 2716592754, 4247793534, 823181879, 3899165841, 4253916564, 2552692193]) =
    [232, 112, 228, 120, 189, 67, 134, 198, 161, 235, 234, 114, 253, 48, 47, 126, 49, 16, 194, 55, 232, 104, 140,
     145, 253, 141, 157, 148, 152, 38, 253, 225]"
    by code_simp
qed simp

lemma rewardTx_id: "TxHash rewardTx =
    [232, 112, 228, 120, 189, 67, 134, 198, 161, 235, 234, 114, 253, 48, 47, 126, 49, 16, 194, 55, 232, 104, 140,
     145, 253, 141, 157, 148, 152, 38, 253, 225]"
proof -
  have "SerializeNoWitness rewardTx = [1, 0, 0, 0, 1, 0, 0, 0, 0, 0, 0, 0, 0, 0, 0, 0, 0, 0, 0, 0, 0, 0, 0, 0, 0, 0, 0, 0, 0, 0, 0, 0, 0, 0, 0, 0, 0,
     255, 255, 255, 255, 2, 82, 0, 0, 0, 0, 0, 1, 0, 0, 0, 0, 0, 0, 0, 0, 1, 106, 0, 0, 0, 0]"
    by code_simp
  then show ?thesis by (simp only: TxHash_def DoubleHashRaw_def Let_def rewardTx_id_inner rewardTx_id_outer)
qed

lemma digest_block_9: "sha256_block [1779033703, 3144134277, 1013904242, 2773480762, 1359893119, 2600822924, 528734635, 1541459225]
    [1, 0, 0, 0, 1, 139, 71, 211, 138, 251, 255, 43, 167, 18, 209, 50, 50, 35, 211, 51, 217, 145, 188, 28, 41, 153,
     82, 192, 38, 184, 178, 253, 141, 95, 105, 216, 240, 0, 0, 0, 0, 0, 0, 0, 0, 0, 1, 208, 7, 0, 0, 0, 0, 0, 0, 1,
     106, 0, 0, 0, 0, 128, 0, 0] =
    [1053393489, 3221696613, 2578384273, 4212646163, 4270435996, 2138842886, 836503019, 1785339125]"
proof (rule sha256_block_bits
    [where W = "[16777216, 25905107, 2331770667, 2803028274, 841208627, 3650206748, 697914048, 649638653, 2371840472, 4026531840,
     0, 464, 117440512, 1, 1778384896, 8388608]"
       and R = "[3569327082, 77562336, 1564480031, 1439165401, 2910542877, 3832987258, 307768384, 243879900]"])
qed (simp, code_simp, simp, simp only: bits_eval, code_simp)

lemma digest_block_10: "sha256_block [1053393489, 3221696613, 2578384273, 4212646163, 4270435996, 2138842886, 836503019, 1785339125]
    [0, 0, 0, 0, 0, 0, 0, 0, 0, 0, 0, 0, 0, 0, 0, 0, 0, 0, 0, 0, 0, 0, 0, 0, 0, 0, 0, 0, 0, 0, 0, 0, 0, 0, 0, 0, 0,
     0, 0, 0, 0, 0, 0, 0, 0, 0, 0, 0, 0, 0, 0, 0, 0, 0, 0, 0, 0, 0, 0, 0, 0, 0, 1, 232] =
    [2696931161, 519066419, 3174203767, 1842241143, 3670803005, 1976807860, 1133197645, 3914192978]"
proof (rule sha256_block_bits
    [where W = "[0, 0, 0, 0, 0, 0, 0, 0, 0, 0, 0, 0, 0, 0, 0, 488]"
       and R = "[1643537672, 1592337102, 595819494, 1924562276, 3695334305, 4132932270, 296694626, 2128853853]"])
qed (simp, code_simp, simp, simp only: bits_eval, code_simp)

lemma burnTx0_id_inner: "Sum256 [1, 0, 0, 0, 1, 139, 71, 211, 138, 251, 255, 43, 167, 18, 209, 50, 50, 35, 211, 51, 217, 145, 188, 28, 41, 153,
     82, 192, 38, 184, 178, 253, 141, 95, 105, 216, 240, 0, 0, 0, 0, 0, 0, 0, 0, 0, 1, 208, 7, 0, 0, 0, 0, 0, 0, 1,
     106, 0, 0, 0, 0] =
    [160, 191, 231, 89, 30, 240, 83, 51, 189, 50, 129, 119, 109, 206, 94, 119, 218, 204, 2, 61, 117, 211, 177, 180,
     67, 139, 57, 77, 233, 77, 216, 82]"
proof (rule Sum256_fold)
  show "sha256_pad [1, 0, 0, 0, 1, 139, 71, 211, 138, 251, 255, 43, 167, 18, 209, 50, 50, 35, 211, 51, 217, 145, 188, 28, 41, 153,
     82, 192, 38, 184, 178, 253, 141, 95, 105, 216, 240, 0, 0, 0, 0, 0, 0, 0, 0, 0, 1, 208, 7, 0, 0, 0, 0, 0, 0, 1,
     106, 0, 0, 0, 0] =
    concat [[1, 0, 0, 0, 1, 139, 71, 211, 138, 251, 255, 43, 167, 18, 209, 50, 50, 35, 211, 51, 217, 145, 188, 28, 41, 153,
     82, 192, 38, 184, 178, 253, 141, 95, 105, 216, 240, 0, 0, 0, 0, 0, 0, 0, 0, 0, 1, 208, 7, 0, 0, 0, 0, 0, 0, 1,
     106, 0, 0, 0, 0, 128, 0, 0],
     [0, 0, 0, 0, 0, 0, 0, 0, 0, 0, 0, 0, 0, 0, 0, 0, 0, 0, 0, 0, 0, 0, 0, 0, 0, 0, 0, 0, 0, 0, 0, 0, 0, 0, 0, 0, 0,
     0, 0, 0, 0, 0, 0, 0, 0, 0, 0, 0, 0, 0, 0, 0, 0, 0, 0, 0, 0, 0, 0, 0, 0, 0, 1, 232]]"
    by code_simp
  show "foldl sha256_block sha256_H0 [[1, 0, 0, 0, 1, 139, 71, 211, 138, 251, 255, 43, 167, 18, 209, 50, 50, 35, 211, 51, 217, 145, 188, 28, 41, 153,
     82, 192, 38, 184, 178, 253, 141, 95, 105, 216, 240, 0, 0, 0, 0, 0, 0, 0, 0, 0, 1, 208, 7, 0, 0, 0, 0, 0, 0, 1,
     106, 0, 0, 0, 0, 128, 0, 0],
     [0, 0, 0, 0, 0, 0, 0, 0, 0, 0, 0, 0, 0, 0, 0, 0, 0, 0, 0, 0, 0, 0, 0, 0, 0, 0, 0, 0, 0, 0, 0, 0, 0, 0, 0, 0, 0,
     0, 0, 0, 0, 0, 0, 0, 0, 0, 0, 0, 0, 0, 0, 0, 0, 0, 0, 0, 0, 0, 0, 0, 0, 0, 1, 232]] =
    [2696931161, 519066419, 3174203767, 1842241143, 3670803005, 1976807860, 1133197645, 3914192978]"
    by (simp only: foldl.simps sha256_H0_literal digest_block_9 digest_block_10)
  show "concat (map (\<lambda>w. rev (PutUint32 w)) [2696931161, 519066419, 3174203767, 1842241143, 3670803005, 1976807860, 1133197645, 3914192978]) =
    [160, 191, 231, 89, 30, 240, 83, 51, 189, 50, 129, 119, 109, 206, 94, 119, 218, 204, 2, 61, 117, 211, 177, 180,
     67, 139, 57, 77, 233, 77, 216, 82]"
    by code_simp
qed simp

lemma digest_block_11: "sha256_block [1779033703, 3144134277, 1013904242, 2773480762, 1359893119, 2600822924, 528734635, 1541459225]
    [160, 191, 231, 89, 30, 240, 83, 51, 189, 50, 129, 119, 109, 206, 94, 119, 218, 204, 2, 61, 117, 211, 177, 180,
     67, 139, 57, 77, 233, 77, 216, 82, 128, 0, 0, 0, 0, 0, 0, 0, 0, 0, 0, 0, 0, 0, 0, 0, 0, 0, 0, 0, 0, 0, 0, 0, 0,
     0, 0, 0, 0, 0, 1, 0] =
    [482599216, 1555430059, 4049399254, 4067971331, 1136483706, 270889528, 2638676602, 296110850]"
proof (rule sha256_block_bits
    [where W = "[2696931161, 519066419, 3174203767, 1842241143, 3670803005, 1976807860, 1133197645, 3914192978, 2147483648, 0, 0,
     0, 0, 0, 0, 256]"
       and R = "[2998532809, 2706263078, 3035495012, 1294490569, 4071557883, 1965033900, 2109941967, 3049618921]"])
qed (simp, code_simp, simp, simp only: bits_eval, code_simp)

lemma burnTx0_id_outer: "Sum256 [160, 191, 231, 89, 30, 240, 83, 51, 189, 50, 129, 119, 109, 206, 94, 119, 218, 204, 2, 61, 117, 211, 177, 180,
     67, 139, 57, 77, 233, 77, 216, 82] =
    [28, 195, 225, 48, 92, 181, 250, 171, 241, 92, 237, 214, 242, 120, 81, 3, 67, 189, 93, 122, 16, 37, 114, 56, 157,
     71, 2, 122, 17, 166, 75, 2]"
proof (rule Sum256_fold)
  show "sha256_pad [160, 191, 231, 89, 30, 240, 83, 51, 189, 50, 129, 119, 109, 206, 94, 119, 218, 204, 2, 61, 117, 211, 177, 180,
     67, 139, 57, 77, 233, 77, 216, 82] =
    concat [[160, 191, 231, 89, 30, 240, 83, 51, 189, 50, 129, 119, 109, 206, 94, 119, 218, 204, 2, 61, 117, 211, 177, 180,
     67, 139, 57, 77, 233, 77, 216, 82, 128, 0, 0, 0, 0, 0, 0, 0, 0, 0, 0, 0, 0, 0, 0, 0, 0, 0, 0, 0, 0, 0, 0, 0, 0,
     0, 0, 0, 0, 0, 1, 0]]"
    by code_simp
  show "foldl sha256_block sha256_H0 [[160, 191, 231, 89, 30, 240, 83, 51, 189, 50, 129, 119, 109, 206, 94, 119, 218, 204, 2, 61, 117, 211, 177, 180,
     67, 139, 57, 77, 233, 77, 216, 82, 128, 0, 0, 0, 0, 0, 0, 0, 0, 0, 0, 0, 0, 0, 0, 0, 0, 0, 0, 0, 0, 0, 0, 0, 0,
     0, 0, 0, 0, 0, 1, 0]] =
    [482599216, 1555430059, 4049399254, 4067971331, 1136483706, 270889528, 2638676602, 296110850]"
    by (simp only: foldl.simps sha256_H0_literal digest_block_11)
  show "concat (map (\<lambda>w. rev (PutUint32 w)) [482599216, 1555430059, 4049399254, 4067971331, 1136483706, 270889528, 2638676602, 296110850]) =
    [28, 195, 225, 48, 92, 181, 250, 171, 241, 92, 237, 214, 242, 120, 81, 3, 67, 189, 93, 122, 16, 37, 114, 56, 157,
     71, 2, 122, 17, 166, 75, 2]"
    by code_simp
qed simp

lemma burnTx0_id: "TxHash (burnTx 0 2000) =
    [28, 195, 225, 48, 92, 181, 250, 171, 241, 92, 237, 214, 242, 120, 81, 3, 67, 189, 93, 122, 16, 37, 114, 56, 157,
     71, 2, 122, 17, 166, 75, 2]"
proof -
  have "SerializeNoWitness (burnTx 0 2000) = [1, 0, 0, 0, 1, 139, 71, 211, 138, 251, 255, 43, 167, 18, 209, 50, 50, 35, 211, 51, 217, 145, 188, 28, 41, 153,
     82, 192, 38, 184, 178, 253, 141, 95, 105, 216, 240, 0, 0, 0, 0, 0, 0, 0, 0, 0, 1, 208, 7, 0, 0, 0, 0, 0, 0, 1,
     106, 0, 0, 0, 0]"
    by code_simp
  then show ?thesis by (simp only: TxHash_def DoubleHashRaw_def Let_def burnTx0_id_inner burnTx0_id_outer)
qed

lemma digest_block_12: "sha256_block [1779033703, 3144134277, 1013904242, 2773480762, 1359893119, 2600822924, 528734635, 1541459225]
    [1, 0, 0, 0, 1, 139, 71, 211, 138, 251, 255, 43, 167, 18, 209, 50, 50, 35, 211, 51, 217, 145, 188, 28, 41, 153,
     82, 192, 38, 184, 178, 253, 141, 95, 105, 216, 240, 1, 0, 0, 0, 0, 0, 0, 0, 0, 1, 184, 11, 0, 0, 0, 0, 0, 0, 1,
     106, 0, 0, 0, 0, 128, 0, 0] =
    [1348884701, 3129821721, 2023726757, 180402880, 4290020307, 2242712027, 3773124612, 2472825651]"
proof (rule sha256_block_bits
    [where W = "[16777216, 25905107, 2331770667, 2803028274, 841208627, 3650206748, 697914048, 649638653, 2371840472, 4026597376,
     0, 440, 184549376, 1, 1778384896, 8388608]"
       and R = "[3864818294, 4280654740, 1009822515, 1701889414, 2930127188, 3936856399, 3244389977, 931366426]"])
qed (simp, code_simp, simp, simp only: bits_eval, code_simp)

lemma digest_block_13: "sha256_block [1348884701, 3129821721, 2023726757, 180402880, 4290020307, 2242712027, 3773124612, 2472825651]
    [0, 0, 0, 0, 0, 0, 0, 0, 0, 0, 0, 0, 0, 0, 0, 0, 0, 0, 0, 0, 0, 0, 0, 0, 0, 0, 0, 0, 0, 0, 0, 0, 0, 0, 0, 0, 0,
     0, 0, 0, 0, 0, 0, 0, 0, 0, 0, 0, 0, 0, 0, 0, 0, 0, 0, 0, 0, 0, 0, 0, 0, 0, 1, 232] =
    [1828093020, 3390828674, 2045006325, 2539386020, 1120526446, 574953262, 910098288, 4293369867]"
proof (rule sha256_block_bits
    [where W = "[0, 0, 0, 0, 0, 0, 0, 0, 0, 0, 0, 0, 0, 0, 0, 488]"
       and R = "[479208319, 261006953, 21279568, 2358983140, 1125473435, 2627208531, 1431940972, 1820544216]"])
qed (simp, code_simp, simp, simp only: bits_eval, code_simp)

lemma burnTx1_id_inner: "Sum256 [1, 0, 0, 0, 1, 139, 71, 211, 138, 251, 255, 43, 167, 18, 209, 50, 50, 35, 211, 51, 217, 145, 188, 28, 41, 153,
     82, 192, 38, 184, 178, 253, 141, 95, 105, 216, 240, 1, 0, 0, 0, 0, 0, 0, 0, 0, 1, 184, 11, 0, 0, 0, 0, 0, 0, 1,
     106, 0, 0, 0, 0] =
    [108, 246, 124, 92, 202, 27, 240, 130, 121, 228, 81, 245, 151, 91, 244, 164, 66, 201, 224, 110, 34, 69, 23, 46,
     54, 62, 255, 112, 255, 231, 160, 11]"
proof (rule Sum256_fold)
  show "sha256_pad [1, 0, 0, 0, 1, 139, 71, 211, 138, 251, 255, 43, 167, 18, 209, 50, 50, 35, 211, 51, 217, 145, 188, 28, 41, 153,
     82, 192, 38, 184, 178, 253, 141, 95, 105, 216, 240, 1, 0, 0, 0, 0, 0, 0, 0, 0, 1, 184, 11, 0, 0, 0, 0, 0, 0, 1,
     106, 0, 0, 0, 0] =
    concat [[1, 0, 0, 0, 1, 139, 71, 211, 138, 251, 255, 43, 167, 18, 209, 50, 50, 35, 211, 51, 217, 145, 188, 28, 41, 153,
     82, 192, 38, 184, 178, 253, 141, 95, 105, 216, 240, 1, 0, 0, 0, 0, 0, 0, 0, 0, 1, 184, 11, 0, 0, 0, 0, 0, 0, 1,
     106, 0, 0, 0, 0, 128, 0, 0],
     [0, 0, 0, 0, 0, 0, 0, 0, 0, 0, 0, 0, 0, 0, 0, 0, 0, 0, 0, 0, 0, 0, 0, 0, 0, 0, 0, 0, 0, 0, 0, 0, 0, 0, 0, 0, 0,
     0, 0, 0, 0, 0, 0, 0, 0, 0, 0, 0, 0, 0, 0, 0, 0, 0, 0, 0, 0, 0, 0, 0, 0, 0, 1, 232]]"
    by code_simp
  show "foldl sha256_block sha256_H0 [[1, 0, 0, 0, 1, 139, 71, 211, 138, 251, 255, 43, 167, 18, 209, 50, 50, 35, 211, 51, 217, 145, 188, 28, 41, 153,
     82, 192, 38, 184, 178, 253, 141, 95, 105, 216, 240, 1, 0, 0, 0, 0, 0, 0, 0, 0, 1, 184, 11, 0, 0, 0, 0, 0, 0, 1,
     106, 0, 0, 0, 0, 128, 0, 0],
     [0, 0, 0, 0, 0, 0, 0, 0, 0, 0, 0, 0, 0, 0, 0, 0, 0, 0, 0, 0, 0, 0, 0, 0, 0, 0, 0, 0, 0, 0, 0, 0, 0, 0, 0, 0, 0,
     0, 0, 0, 0, 0, 0, 0, 0, 0, 0, 0, 0, 0, 0, 0, 0, 0, 0, 0, 0, 0, 0, 0, 0, 0, 1, 232]] =
    [1828093020, 3390828674, 2045006325, 2539386020, 1120526446, 574953262, 910098288, 4293369867]"
    by (simp only: foldl.simps sha256_H0_literal digest_block_12 digest_block_13)
  show "concat (map (\<lambda>w. rev (PutUint32 w)) [1828093020, 3390828674, 2045006325, 2539386020, 1120526446, 574953262, 910098288, 4293369867]) =
    [108, 246, 124, 92, 202, 27, 240, 130, 121, 228, 81, 245, 151, 91, 244, 164, 66, 201, 224, 110, 34, 69, 23, 46,
     54, 62, 255, 112, 255, 231, 160, 11]"
    by code_simp
qed simp

lemma digest_block_14: "sha256_block [1779033703, 3144134277, 1013904242, 2773480762, 1359893119, 2600822924, 528734635, 1541459225]
    [108, 246, 124, 92, 202, 27, 240, 130, 121, 228, 81, 245, 151, 91, 244, 164, 66, 201, 224, 110, 34, 69, 23, 46,
     54, 62, 255, 112, 255, 231, 160, 11, 128, 0, 0, 0, 0, 0, 0, 0, 0, 0, 0, 0, 0, 0, 0, 0, 0, 0, 0, 0, 0, 0, 0, 0, 0,
     0, 0, 0, 0, 0, 1, 0] =
    [1680417221, 982548390, 2837417065, 2781897416, 3998814784, 1865582757, 3964068748, 3349514613]"
proof (rule sha256_block_bits
    [where W = "[1828093020, 3390828674, 2045006325, 2539386020, 1120526446, 574953262, 910098288, 4293369867, 2147483648, 0, 0,
     0, 0, 0, 0, 256]"
       and R = "[4196350814, 2133381409, 1823512823, 8416654, 2638921665, 3559727129, 3435334113, 1808055388]"])
qed (simp, code_simp, simp, simp only: bits_eval, code_simp)

lemma burnTx1_id_outer: "Sum256 [108, 246, 124, 92, 202, 27, 240, 130, 121, 228, 81, 245, 151, 91, 244, 164, 66, 201, 224, 110, 34, 69, 23, 46,
     54, 62, 255, 112, 255, 231, 160, 11] =
    [100, 41, 33, 197, 58, 144, 127, 166, 169, 31, 140, 105, 165, 208, 98, 200, 238, 89, 18, 64, 111, 50, 136, 165,
     236, 70, 227, 140, 199, 165, 137, 117]"
proof (rule Sum256_fold)
  show "sha256_pad [108, 246, 124, 92, 202, 27, 240, 130, 121, 228, 81, 245, 151, 91, 244, 164, 66, 201, 224, 110, 34, 69, 23, 46,
     54, 62, 255, 112, 255, 231, 160, 11] =
    concat [[108, 246, 124, 92, 202, 27, 240, 130, 121, 228, 81, 245, 151, 91, 244, 164, 66, 201, 224, 110, 34, 69, 23, 46,
     54, 62, 255, 112, 255, 231, 160, 11, 128, 0, 0, 0, 0, 0, 0, 0, 0, 0, 0, 0, 0, 0, 0, 0, 0, 0, 0, 0, 0, 0, 0, 0, 0,
     0, 0, 0, 0, 0, 1, 0]]"
    by code_simp
  show "foldl sha256_block sha256_H0 [[108, 246, 124, 92, 202, 27, 240, 130, 121, 228, 81, 245, 151, 91, 244, 164, 66, 201, 224, 110, 34, 69, 23, 46,
     54, 62, 255, 112, 255, 231, 160, 11, 128, 0, 0, 0, 0, 0, 0, 0, 0, 0, 0, 0, 0, 0, 0, 0, 0, 0, 0, 0, 0, 0, 0, 0, 0,
     0, 0, 0, 0, 0, 1, 0]] =
    [1680417221, 982548390, 2837417065, 2781897416, 3998814784, 1865582757, 3964068748, 3349514613]"
    by (simp only: foldl.simps sha256_H0_literal digest_block_14)
  show "concat (map (\<lambda>w. rev (PutUint32 w)) [1680417221, 982548390, 2837417065, 2781897416, 3998814784, 1865582757, 3964068748, 3349514613]) =
    [100, 41, 33, 197, 58, 144, 127, 166, 169, 31, 140, 105, 165, 208, 98, 200, 238, 89, 18, 64, 111, 50, 136, 165,
     236, 70, 227, 140, 199, 165, 137, 117]"
    by code_simp
qed simp

lemma burnTx1_id: "TxHash (burnTx 1 3000) =
    [100, 41, 33, 197, 58, 144, 127, 166, 169, 31, 140, 105, 165, 208, 98, 200, 238, 89, 18, 64, 111, 50, 136, 165,
     236, 70, 227, 140, 199, 165, 137, 117]"
proof -
  have "SerializeNoWitness (burnTx 1 3000) = [1, 0, 0, 0, 1, 139, 71, 211, 138, 251, 255, 43, 167, 18, 209, 50, 50, 35, 211, 51, 217, 145, 188, 28, 41, 153,
     82, 192, 38, 184, 178, 253, 141, 95, 105, 216, 240, 1, 0, 0, 0, 0, 0, 0, 0, 0, 1, 184, 11, 0, 0, 0, 0, 0, 0, 1,
     106, 0, 0, 0, 0]"
    by code_simp
  then show ?thesis by (simp only: TxHash_def DoubleHashRaw_def Let_def burnTx1_id_inner burnTx1_id_outer)
qed

lemma fundTx_hash: "TxHash fundTx = fundHash"
  by (simp only: fundTx_id fundHash_def)

lemma exampleTxs_distinct:
  "TxHash rewardTx \<noteq> fundHash" "TxHash rewardTx \<noteq> TxHash (burnTx 0 2000)" "TxHash rewardTx \<noteq> TxHash (burnTx 1 3000)"
  "fundHash \<noteq> TxHash (burnTx 0 2000)" "fundHash \<noteq> TxHash (burnTx 1 3000)" "TxHash (burnTx 0 2000) \<noteq> TxHash (burnTx 1 3000)"
  "Hash exampleOutPoint \<noteq> TxHash rewardTx" "Hash exampleOutPoint \<noteq> fundHash" "Hash exampleOutPoint \<noteq> TxHash (burnTx 0 2000)"
  "Hash exampleOutPoint \<noteq> TxHash (burnTx 1 3000)"
  unfolding rewardTx_id burnTx0_id burnTx1_id fundHash_def exampleOutPoint_def by code_simp+

end
