(* ===== verification/Block_Properties.thy ===== *)
theory Block_Properties
  imports Block_Rules Digest_Examples
begin

text \<open>
  What the acceptance of a block means.  The coins a block is checked against are those of the chain, which the cache of unspent
  outputs holds; the checks work on a view that is loaded from it.

  The lemmas of the first section go from the coins to the checks: transactions without inference rules that can be connected to the coins of a view are accepted.
  They are used on concrete blocks, made of the transactions of \<open>Digest_Examples\<close> in two orders.
\<close>

section \<open>Transactions that are accepted\<close>

lemma spendInputs_accepts:
  "spendCoins (viewCoins view) (map PreviousOutPoint ins) = Some (U, cs) \<Longrightarrow>
     \<exists>view'. spendInputs spendEntry (view, stxos) ins = Inr (view', map_option (\<lambda>l. l @ cs) stxos) \<and> viewCoins view' = U"
proof (induction ins arbitrary: view stxos cs)
  case Nil
  then show ?case by (cases stxos) (auto simp: spendInputs_def)
next
  case (Cons txIn ins)
  let ?op = "PreviousOutPoint txIn"
  obtain c cs' where c: "viewCoins view ?op = Some c" "cs = c # cs'" "spendCoins ((viewCoins view)(?op := None)) (map PreviousOutPoint ins) = Some (U, cs')"
    using Cons.prems by (auto split: option.splits)
  obtain e where e: "LookupEntry view ?op = Some e" "coinOf e = c"
    using c(1) by (auto simp: viewCoins_def split: option.splits if_splits)
  let ?view = "setEntry view ?op (Some (Spend e))"
  have "viewCoins ?view = (viewCoins view)(?op := None)" by (rule ext) (simp add: viewCoins_setEntry)
  with Cons.IH [of ?view] c(3) obtain view' where
    "spendInputs spendEntry (?view, map_option (\<lambda>l. l @ [c]) stxos) ins = Inr (view', map_option (\<lambda>l. l @ cs') (map_option (\<lambda>l. l @ [c]) stxos))"
    "viewCoins view' = U" by fastforce
  moreover have "spendEntry view ?op = Inr (?view, c)" using e by (simp add: spendEntry_def)
  ultimately show ?case by (simp add: spendInputs_def spendInput_def c(2) option.map_comp comp_def)
qed

lemma AddTxOuts_viewCoins: "viewCoins (AddTxOuts view tx h) = addCoins (viewCoins view) tx h"
proof -
  have "viewOver v (\<lambda>_. None) = viewCoins v" for v
    by (rule ext) (auto simp: viewOver_def viewCoins_def LookupEntry_def)
  then show ?thesis using AddTxOuts_viewOver [of view tx h "\<lambda>_. None"] by simp
qed

text \<open>A transaction that issues nothing and, with the coins it spends, keeps the rules for values.\<close>

definition plainTx :: "int \<Rightarrow> Params \<Rightarrow> MsgTx \<Rightarrow> SpentTxOut list \<Rightarrow> bool" where
  "plainTx h params tx cs \<longleftrightarrow> MsgTx.Version tx \<noteq> TxVersionInferenceGo \<and> saneOutputs tx \<and> distinct (spentOutPoints tx) \<and>
     list_all (\<lambda>c. spendable h params c \<and> ParseInferenceBountyScript (stxoPkScript c) = None) cs \<and> coinsValue cs \<le> MaxGrain \<and>
     0 \<le> fees tx cs 0"

lemma spendCoins_lookup:
  "spendCoins U ops = Some (U', cs) \<Longrightarrow> distinct ops \<Longrightarrow> map U ops = map Some cs"
proof (induction ops arbitrary: U cs)
  case (Cons op ops)
  then obtain c cs' where c: "U op = Some c" "cs = c # cs'" "spendCoins (U(op := None)) ops = Some (U', cs')"
    by (auto split: option.splits)
  have "map U ops = map (U(op := None)) ops" using Cons.prems(2) by (intro map_cong) auto
  also have "\<dots> = map Some cs'" by (rule Cons.IH [OF c(3)]) (use Cons.prems(2) in simp)
  finally show ?case using c(1,2) by simp
qed simp

lemma checkConnectTx_accepts:
  assumes "plainTx (node_height node) params tx cs" "\<not> IsCoinBaseTx tx"
    and "connectCoins (node_height node) (viewCoins view) tx = Some (U, cs)" "0 \<le> acc" "acc + fees tx cs 0 < 2 ^ 63"
  shows "\<exists>view'. checkConnectTx E params node (view, stxos, acc) tx = Inr (view', map_option (\<lambda>l. l @ cs) stxos, acc + fees tx cs 0) \<and>
    viewCoins view' = U"
proof -
  let ?h = "node_height node"
  note plain = assms(1) [unfolded plainTx_def]
  obtain U1 where U1: "spendCoins (viewCoins view) (spentOutPoints tx) = Some (U1, cs)" "U = addCoins U1 tx ?h"
    using assms(2,3) by (auto simp: connectCoins_def split: option.splits)
  have cs: "map (viewCoins view) (spentOutPoints tx) = map Some cs" using spendCoins_lookup [OF U1(1)] plain by blast
  have in_cs: "\<exists>c \<in> set cs. viewCoins view (PreviousOutPoint txIn) = Some c" if "txIn \<in> set (TxIn tx)" for txIn
  proof -
    have "viewCoins view (PreviousOutPoint txIn) \<in> set (map (viewCoins view) (spentOutPoints tx))" using that by auto
    then show ?thesis unfolding cs by auto
  qed
  have "checkInferenceGoTx (secp E) (sha3sum E) tx node params = Inr 0"
    using plain by (simp add: checkInferenceGoTx_def CheckInferenceGoIssuance_def)
  moreover have "CheckTransactionInputsWithIssuance tx ?h view params 0 = Inr (fees tx cs 0)"
    using CheckTransactionInputsWithIssuance_iff [of tx 0 ?h view params "fees tx cs 0"] plain assms(2) cs MaxGrain_small
    by (auto simp: fees_def list_all_iff)
  moreover have "checkInferenceBountySpends (secp E) (sha3sum E) tx node view = Inr ()"
    unfolding checkInferenceBountySpends_def forE_Inr_iff
  proof
    fix txIn
    assume "txIn \<in> set (TxIn tx)"
    then obtain c where "c \<in> set cs" "viewCoins view (PreviousOutPoint txIn) = Some c" using in_cs by blast
    moreover from this obtain e where "LookupEntry view (PreviousOutPoint txIn) = Some e" "entryPkScript e = stxoPkScript c"
      by (auto simp: viewCoins_def coinOf_def split: option.splits if_splits)
    ultimately show "(case LookupEntry view (PreviousOutPoint txIn) of None \<Rightarrow> Inr ()
       | Some entry \<Rightarrow> (case ParseInferenceBountyScript (entryPkScript entry) of
           None \<Rightarrow> Inr ()
         | Some params \<Rightarrow> (case Ancestor node (entryHeight entry) of
             None \<Rightarrow> Inl (RuleError ErrBadTxOutValue)
           | Some confirming \<Rightarrow>
               CheckInferenceBountySpend (secp E) (sha3sum E) tx params (PreviousOutPoint txIn) (entryHeight entry) ?h
                 (nhash (nfields confirming)) (refundSigOf txIn)))) = Inr ()"
      using plain by (auto simp: list_all_iff)
  qed
  moreover have "int64 (acc + fees tx cs 0) = acc + fees tx cs 0" using assms(4,5) plain by (intro int64_id) auto
  moreover obtain v where "spendInputs spendEntry (view, stxos) (TxIn tx) = Inr (v, map_option (\<lambda>l. l @ cs) stxos)" "viewCoins v = U1"
    using spendInputs_accepts [OF U1(1)] by blast
  ultimately show ?thesis using assms(2) plain U1(2)
    by (intro exI [of _ "AddTxOuts v tx ?h"]) (simp add: checkConnectTx_def connectTransaction_def AddTxOuts_viewCoins Let_def)
qed

lemma checkConnectTx_coinbase:
  assumes "IsCoinBaseTx tx" "MsgTx.Version tx \<noteq> TxVersionInferenceGo" "\<forall>txIn \<in> set (TxIn tx). LookupEntry view (PreviousOutPoint txIn) = None"
    and "0 \<le> acc" "acc < 2 ^ 63"
  shows "checkConnectTx E params node (view, stxos, acc) tx = Inr (AddTxOuts view tx (node_height node), stxos, acc)"
proof -
  have "int64 acc = acc" using assms(4,5) by (intro int64_id) auto
  then show ?thesis using assms
    by (simp add: checkConnectTx_def checkInferenceGoTx_def CheckInferenceGoIssuance_def CheckTransactionInputsWithIssuance_def
        checkInferenceBountySpends_def forE_Inr_iff connectTransaction_def Let_def)
qed

text \<open>The coins the transactions of a block spend, one list for each.\<close>

fun plainTxs :: "int \<Rightarrow> Params \<Rightarrow> coins \<Rightarrow> MsgTx list \<Rightarrow> bool" where
  "plainTxs h params U [] = True"
| "plainTxs h params U (tx # txs) =
     (\<not> IsCoinBaseTx tx \<and> (case connectCoins h U tx of None \<Rightarrow> False
        | Some (U', cs) \<Rightarrow> plainTx h params tx cs \<and> fees tx cs 0 = 0 \<and> plainTxs h params U' txs))"

lemma checkConnectTxs_accept:
  "plainTxs (node_height node) params (viewCoins view) txs \<Longrightarrow>
     \<exists>view' cs. foldE (checkConnectTx E params node) (view, stxos, 0) txs = Inr (view', map_option (\<lambda>l. l @ cs) stxos, 0)"
proof (induction txs arbitrary: view stxos)
  case Nil
  show ?case by (cases stxos) auto
next
  case (Cons tx txs)
  then obtain U cs where c: "connectCoins (node_height node) (viewCoins view) tx = Some (U, cs)" "plainTx (node_height node) params tx cs"
    "fees tx cs 0 = 0" "plainTxs (node_height node) params U txs" "\<not> IsCoinBaseTx tx" by (auto split: option.splits)
  from checkConnectTx_accepts [OF c(2,5,1), of 0 E stxos] c(3) obtain v where
    v: "checkConnectTx E params node (view, stxos, 0) tx = Inr (v, map_option (\<lambda>l. l @ cs) stxos, 0)" "viewCoins v = U" by auto
  from Cons.IH [of v "map_option (\<lambda>l. l @ cs) stxos"] c(4) v(2) obtain view' cs' where
    "foldE (checkConnectTx E params node) (v, map_option (\<lambda>l. l @ cs) stxos, 0) txs =
       Inr (view', map_option (\<lambda>l. l @ cs') (map_option (\<lambda>l. l @ cs) stxos), 0)" by blast
  then show ?case using v(1) by (intro exI [of _ view'] exI [of _ "cs @ cs'"]) (simp add: option.map_comp comp_def)
qed

section \<open>Blocks that are accepted\<close>

lemma checkBIP0030_accepts:
  assumes "cacheInv (pubKeys E) (chainCache b)" "C = cacheCoins (pubKeys E) (chainCache b)" "\<forall>op \<in> set (blockOutPoints msgBlock). C op = None"
  obtains view' cache' where "checkBIP0030 E b msgBlock (NewUtxoViewpoint\<lparr>bestHash := h\<rparr>) = Inr (view', b\<lparr>chainCache := cache'\<rparr>)"
    "\<And>op. viewCoins view' op = None" "\<And>op. map_of (viewEntries view') op = None \<longleftrightarrow> op \<notin> set (blockOutPoints msgBlock)"
    "cacheInv (pubKeys E) cache'" "cacheCoins (pubKeys E) cache' = C"
    "\<And>op. heldEntry (pubKeys E) cache' op = heldEntry (pubKeys E) (chainCache b) op"
proof -
  let ?ops = "blockOutPoints msgBlock" and ?view = "NewUtxoViewpoint\<lparr>bestHash := h\<rparr>"
  have wf: "list_all (\<lambda>op. wf_hash (Hash op)) ?ops" by (auto simp: list_all_iff blockOutPoints_def txOutPoint_def TxHash_def)
  have new: "map_of (viewEntries ?view) op = None" "viewCoins ?view op = None" for op
    by (simp_all add: NewUtxoViewpoint_def viewCoins_def LookupEntry_def)
  obtain view' cache' where f: "fetchUtxosFromCache (pubKeys E) ?view (chainCache b) ?ops = Inr (view', cache')"
    "\<forall>op. viewCoins view' op = (if op \<in> set ?ops then C op else None)"
    "\<forall>op. map_of (viewEntries view') op = None \<longleftrightarrow> op \<notin> set ?ops" "cacheInv (pubKeys E) cache'" "cacheCoins (pubKeys E) cache' = C"
    "\<forall>op. heldEntry (pubKeys E) cache' op = heldEntry (pubKeys E) (chainCache b) op"
    using fetchUtxos_reads_cache [OF assms(1) wf, of ?view] unfolding new assms(2) by auto
  have none: "viewCoins view' op = None" for op using f(2) assms(3) by simp
  have "fetchUtxos (pubKeys E) ?view (chainCache b) ?ops = Inr (view', cache')"
    using f(1) new(1) by (auto simp: fetchUtxos_def fetchUtxosFromCache_def)
  moreover have "IsSpent utxo" if "LookupEntry view' op = Some utxo" for op utxo
    using none [of op] that by (auto simp: viewCoins_def split: if_splits)
  ultimately have "checkBIP0030 E b msgBlock ?view = Inr (view', b\<lparr>chainCache := cache'\<rparr>)"
    by (auto simp: checkBIP0030_def storeResult_def split: option.splits)
  with none f(3,4,5,6) show ?thesis using that by blast
qed

lemma checkSequenceLocks_old:
  assumes "\<forall>tx \<in> set txs. MsgTx.Version tx = 1" "parent node = Some p" "0 \<le> Unix (CalcPastMedianTime p)" "0 \<le> node_height node"
  shows "checkSequenceLocks node txs view = Inr ()"
  using assms by (auto simp: checkSequenceLocks_def calcSequenceLock_def SequenceLockActive_def Let_def)

text \<open>
  The coins a block is connected to: those of the outputs to load, over what the search for the inputs has put in the view.
\<close>

lemma checkConnectBlock_accepts:
  assumes "nhash (nfields node) \<noteq> GenesisHash b" "cacheInv (pubKeys E) (chainCache b)" "C = cacheCoins (pubKeys E) (chainCache b)"
    and "\<forall>op \<in> set (blockOutPoints msgBlock). C op = None" "Transactions msgBlock = coinbase # txs"
    and search: "\<And>view. (\<And>op. viewCoins view op = None) \<Longrightarrow> (\<And>op. map_of (viewEntries view) op = None \<longleftrightarrow> op \<notin> set (blockOutPoints msgBlock)) \<Longrightarrow>
      \<exists>view'. findInputsToFetch view msgBlock h = (view', needed) \<and> viewCoins view' = A \<and>
        (\<forall>txIn \<in> set (TxIn coinbase). map_of (viewEntries view') (PreviousOutPoint txIn) = None \<and> PreviousOutPoint txIn \<notin> set needed)"
    and "list_all (\<lambda>op. wf_hash (Hash op)) needed" "IsCoinBaseTx coinbase" "\<forall>tx \<in> set (coinbase # txs). MsgTx.Version tx = 1"
    and "plainTxs (node_height node) (chainParams b) (addCoins (\<lambda>op. if op \<in> set needed then C op else A op) coinbase (node_height node)) txs"
    and "parent node = Some p" "0 \<le> Unix (CalcPastMedianTime p)" "0 \<le> node_height node"
    and "CalcBlockSubsidy (node_height node) (Some (chainParams b)) = Inr subsidy" "sumOutputs coinbase \<le> int64 subsidy"
    and "\<And>view. checkBlockScripts E msgBlock view = Inr ()"
  shows "\<exists>view' cache' stxos'. checkConnectBlock E b node msgBlock h
      (NewUtxoViewpoint\<lparr>bestHash := PrevBlock (Header (BlockMsgHeader msgBlock))\<rparr>) stxos = Inr (view', b\<lparr>chainCache := cache'\<rparr>, stxos') \<and>
    cacheInv (pubKeys E) cache' \<and> cacheCoins (pubKeys E) cache' = C \<and>
    (\<forall>op. heldEntry (pubKeys E) cache' op = heldEntry (pubKeys E) (chainCache b) op)"
proof -
  let ?K = "pubKeys E" and ?v = "NewUtxoViewpoint\<lparr>bestHash := PrevBlock (Header (BlockMsgHeader msgBlock))\<rparr>" and ?h = "node_height node"
  obtain v1 c1 where r1: "checkBIP0030 E b msgBlock ?v = Inr (v1, b\<lparr>chainCache := c1\<rparr>)" "\<And>op. viewCoins v1 op = None"
    "\<And>op. map_of (viewEntries v1) op = None \<longleftrightarrow> op \<notin> set (blockOutPoints msgBlock)" "cacheInv ?K c1" "cacheCoins ?K c1 = C"
    "\<And>op. heldEntry ?K c1 op = heldEntry ?K (chainCache b) op"
    using checkBIP0030_accepts [OF assms(2,3,4)] by metis
  obtain v2 where r2: "findInputsToFetch v1 msgBlock h = (v2, needed)" "viewCoins v2 = A"
    "\<forall>txIn \<in> set (TxIn coinbase). map_of (viewEntries v2) (PreviousOutPoint txIn) = None \<and> PreviousOutPoint txIn \<notin> set needed"
    using search [OF r1(2,3)] by blast
  obtain v3 c3 where r3: "fetchUtxosFromCache ?K v2 c1 needed = Inr (v3, c3)"
    "\<forall>op. viewCoins v3 op = (if op \<in> set needed then C op else A op)"
    "\<forall>op. map_of (viewEntries v3) op = None \<longleftrightarrow> op \<notin> set needed \<and> map_of (viewEntries v2) op = None"
    "cacheInv ?K c3" "cacheCoins ?K c3 = C" "\<forall>op. heldEntry ?K c3 op = heldEntry ?K c1 op"
    using fetchUtxos_reads_cache [OF r1(4) assms(7), of v2] unfolding r1(5) r2(2) by blast
  have v3: "viewCoins v3 = (\<lambda>op. if op \<in> set needed then C op else A op)" using r3(2) by blast
  have "\<forall>txIn \<in> set (TxIn coinbase). map_of (viewEntries v3) (PreviousOutPoint txIn) = None" using r2(3) r3(3) by blast
  then have "\<forall>txIn \<in> set (TxIn coinbase). LookupEntry v3 (PreviousOutPoint txIn) = None" by (simp add: LookupEntry_def)
  then have r4: "checkConnectTx E (chainParams b) node (v3, stxos, 0) coinbase = Inr (AddTxOuts v3 coinbase ?h, stxos, 0)"
    using assms(8,9) by (intro checkConnectTx_coinbase) (auto simp: TxVersionInferenceGo_def)
  have "viewCoins (AddTxOuts v3 coinbase ?h) = addCoins (\<lambda>op. if op \<in> set needed then C op else A op) coinbase ?h"
    unfolding AddTxOuts_viewCoins v3 ..
  with assms(10) obtain v5 cs where r5: "foldE (checkConnectTx E (chainParams b) node) (AddTxOuts v3 coinbase ?h, stxos, 0) txs =
      Inr (v5, map_option (\<lambda>l. l @ cs) stxos, 0)"
    using checkConnectTxs_accept [of node "chainParams b" "AddTxOuts v3 coinbase ?h" txs E stxos] by auto
  have r6: "checkSequenceLocks node (coinbase # txs) v5 = Inr ()" using assms(9,11-13) by (intro checkSequenceLocks_old) auto
  have "checkConnectBlock E b node msgBlock h ?v stxos =
      Inr (v5\<lparr>bestHash := nhash (nfields node)\<rparr>, b\<lparr>chainCache := c3\<rparr>, map_option (\<lambda>l. l @ cs) stxos)"
    using assms(1,5,14,15,16) r1(1) r2(1) r3(1) r4 r5 r6
    by (simp add: checkConnectBlock_def fetchInputUtxos_def storeResult_def Let_def)
  then show ?thesis using r3(4,5,6) r1(6) by metis
qed

section \<open>Two blocks\<close>

text \<open>A chain whose database has one output, which no coinbase created, and the rest of the code at its most permissive.\<close>

definition oldCoin :: SpentTxOut where "oldCoin = exampleCoin\<lparr>stxoHeight := 1, stxoIsCoinBase := False\<rparr>"

definition oldCoins :: coins where "oldCoins = [exampleOutPoint \<mapsto> oldCoin]"

definition permissive :: "unit externals" where
  "permissive = \<lparr>secp = openSecp, sha3sum = (\<lambda>_. replicate 32 0), blake3 = (\<lambda>_. replicate 32 0), zkpow = lenientVerifier,
     pubKeys = noKeys, checkBlockScripts = (\<lambda>_ _. Inr ())\<rparr>"

definition txHeader :: "MsgTx list \<Rightarrow> BlockHeader" where
  "txHeader txs = provedHeader\<lparr>PrevBlock := nhash (nfields exampleTip), MerkleRoot := the (CalcMerkleRoot txs False)\<rparr>"

definition txBlock :: "MsgTx list \<Rightarrow> MsgBlock" where
  "txBlock txs = \<lparr>BlockMsgHeader = \<lparr>Certificate = Some (exampleCert (txHeader txs)), Header = txHeader txs\<rparr>, AuxPow = None, Transactions = txs\<rparr>"

definition txNode :: "MsgTx list \<Rightarrow> blockNode" where
  "txNode txs = newBlockNode (txHeader txs) (Some exampleTip) 0"

definition oldCache :: utxoCache where
  "oldCache = newUtxoCache [outpointKey exampleOutPoint \<mapsto> putSpentTxOut noKeys oldCoin] None 1000000"

definition exampleChain :: "MsgTx list \<Rightarrow> BlockChain" where
  "exampleChain txs = \<lparr>chainParams = RegressionNetParams,
     GenesisHash = (if nhash (nfields (txNode txs)) = zeroHash then replicate 32 1 else zeroHash), checkpoints = [],
     index = newBlockIndex, bestChain = \<lparr>cnodes = [parent exampleTip, Some exampleTip]\<rparr>, chainCache = oldCache,
     checkpointState = \<lparr>checkpointNode = None, nextCheckpoint = None\<rparr>\<rparr>"

definition orderedTxs :: "MsgTx list" where "orderedTxs = [rewardTx, fundTx, burnTx 0 2000, burnTx 1 3000]"

definition disorderedTxs :: "MsgTx list" where "disorderedTxs = [rewardTx, burnTx 0 2000, fundTx, burnTx 1 3000]"

lemma exampleTxs_sane:
  "CheckTransactionSanity openSecp rewardTx True = Inr ()" "CheckTransactionSanity openSecp fundTx True = Inr ()"
  "CheckTransactionSanity openSecp (burnTx 0 2000) True = Inr ()" "CheckTransactionSanity openSecp (burnTx 1 3000) True = Inr ()"
  by code_simp+

lemma oldCache_facts: "cacheInv noKeys oldCache" "cacheCoins noKeys oldCache = oldCoins"
  "utxoSetBucket oldCache = [outpointKey exampleOutPoint \<mapsto> putSpentTxOut noKeys oldCoin]"
proof -
  have "wf_coin oldCoin" by (simp add: wf_coin_def oldCoin_def exampleCoin_def)
  note holds = singleCoin_holds [OF this exampleOutPoint_wf, folded oldCoins_def]
  have "oldCoins op = None" if "\<not> wf_hash (Hash op)" for op using that exampleOutPoint_wf by (auto simp: oldCoins_def)
  from newCache_facts [OF holds this] show "cacheInv noKeys oldCache" "cacheCoins noKeys oldCache = oldCoins"
    by (simp_all add: oldCache_def)
  show "utxoSetBucket oldCache = [outpointKey exampleOutPoint \<mapsto> putSpentTxOut noKeys oldCoin]" by (simp add: oldCache_def newUtxoCache_def)
qed

lemma txHeader_facts:
  "\<not> IsAuxPowBlock (txHeader txs)" "Timestamp (txHeader txs) = unixTime 30" "Bits (txHeader txs) = 0x1d00ffff"
  "ProofCommitment (txHeader txs) = ZKCertificate_ProofCommitment (exampleCert (txHeader txs))"
  "PrevBlock (txHeader txs) = nhash (nfields exampleTip)" "MerkleRoot (txHeader txs) = the (CalcMerkleRoot txs False)"
  by (simp_all add: txHeader_def provedHeader_def exampleHeader_def IsAuxPowBlock_def auxPowMask_def ZKCertificate_ProofCommitment_def exampleCert_def)

lemma txHeader_sane: "CheckBlockHeaderSanity lenientVerifier (txHeader txs) (Some (exampleCert (txHeader txs))) regressionPowLimit (unixTime 30) 120 BFNone = Inr ()"
proof -
  have "0 < CompactToBig 0x1d00ffff" "CompactToBig 0x1d00ffff \<le> regressionPowLimit" by code_simp+
  then show ?thesis
    using checkProofOfWork_native [of "txHeader txs" BFNone lenientVerifier "Some (exampleCert (txHeader txs))" regressionPowLimit] txHeader_facts
    by (simp add: CheckBlockHeaderSanity_def verifyZKCertificateInner_iff IsCertVersionAllowed_def exampleCert_def lenientVerifier_def
        ZKCertificate_SerializedSize_def CertificateMaxSize_def PublicDataSize_def Unix_def unixTime_def Minute_def Second_def
        BFNone_def BFNoPoWCheck_def)
qed

lemma fundHash_nonzero: "fundHash \<noteq> zeroHash"
  by code_simp

lemma exampleTxs_coinbase: "IsCoinBaseTx rewardTx" "\<not> IsCoinBaseTx fundTx" "\<not> IsCoinBaseTx (burnTx i v)"
  by (code_simp, code_simp) (simp add: IsCoinBaseTx_def burnTx_def fundHash_nonzero)

lemmas exampleTxs_hashes = exampleTxs_distinct exampleTxs_distinct [symmetric] fundTx_hash

lemma txBlock_sane:
  assumes "txs = orderedTxs \<or> txs = disorderedTxs"
  shows "checkBlockSanity permissive (txBlock txs) RegressionNetParams (unixTime 30) BFNone = Inr ()"
proof -
  have "GetBlockVsize (txBlock txs) = GetBlockVsize (exampleBlock txs)"
    by (simp add: GetBlockVsize_def MsgBlock_SerializeSizeStripped_def SerializeWitnessSize_def txBlock_def exampleBlock_def)
  moreover have "GetBlockVsize (exampleBlock orderedTxs) \<le> MaxBlockVsize" "GetBlockVsize (exampleBlock disorderedTxs) \<le> MaxBlockVsize" by code_simp+
  ultimately have size: "\<not> MaxBlockVsize < GetBlockVsize (txBlock txs)" using assms by auto
  have "CalcMerkleRoot txs False \<noteq> None"
    using assms by (auto simp: CalcMerkleRoot_reference merkleRoot_None_iff merkleLeaves_def orderedTxs_def disorderedTxs_def)
  then have root: "CalcMerkleRoot txs False = Some (MerkleRoot (txHeader txs))" by (auto simp: txHeader_facts)
  have aux: "checkAuxPowData permissive (txBlock txs) RegressionNetParams = Inr ()"
    using txHeader_facts(1) by (simp add: checkAuxPowData_def txBlock_def)
  have txs: "Transactions (txBlock txs) = txs" "BlockMsgHeader (txBlock txs) = \<lparr>Certificate = Some (exampleCert (txHeader txs)), Header = txHeader txs\<rparr>"
    by (simp_all add: txBlock_def)
  have fields: "zkpow permissive = lenientVerifier" "secp permissive = openSecp" "MaxSupportedTxVersion RegressionNetParams = 5"
    "Net RegressionNetParams \<noteq> SimNet" "PowLimit RegressionNetParams = regressionPowLimit" "MaxTimeOffsetMinutes RegressionNetParams = 120"
    "uint TxVersionInference \<le> 5" by (simp_all add: permissive_def RegressionNetParams_def RegTest_def SimNet_def TxVersionInference_def)
  show ?thesis using assms root size aux txHeader_sane [of txs]
    by (auto simp: checkBlockSanity_def txs fields orderedTxs_def disorderedTxs_def exampleTxs_coinbase exampleTxs_sane seenBefore_iff
        exampleTxs_hashes MaxBlockVsize_def)
qed

subsection \<open>Their coins\<close>

abbreviation fundOut :: "32 word \<Rightarrow> OutPoint" where "fundOut i \<equiv> \<lparr>Hash = fundHash, Index = i\<rparr>"

definition fundCoin :: "nat \<Rightarrow> SpentTxOut" where "fundCoin i = createdCoin (TxOut fundTx ! i) False 2"

lemma exampleTxs_fields [simp]:
  "spentOutPoints fundTx = [exampleOutPoint]" "spentOutPoints (burnTx i v) = [fundOut i]"
  "MsgTx.Version rewardTx = 1" "MsgTx.Version fundTx = 1" "MsgTx.Version (burnTx i v) = 1"
  "length (TxOut fundTx) = 2" "length (TxOut rewardTx) = 1" "length (TxOut (burnTx i v)) = 1"
  by (simp_all add: fundTx_def burnTx_def rewardTx_def)

lemma exampleTxs_unspendable: "IsUnspendable [0x6a]" "\<not> IsUnspendable (PkScript (TxOut fundTx ! 0))" "\<not> IsUnspendable (PkScript (TxOut fundTx ! 1))"
  by code_simp+

lemma exampleOutPoint_other [simp]: "exampleOutPoint \<noteq> fundOut i" "fundOut i \<noteq> exampleOutPoint"
  using exampleTxs_distinct(8) by (metis OutPoint.select_convs(1))+

lemma addCoins_reward [simp]: "addCoins U rewardTx h = U" "addCoins U (burnTx i v) h = U"
  by (simp_all add: addCoins_def rewardTx_def burnTx_def addCoin_def exampleTxs_unspendable)

lemma addCoins_fund [simp]: "addCoins U fundTx 2 = U(fundOut 0 \<mapsto> fundCoin 0, fundOut 1 \<mapsto> fundCoin 1)"
proof -
  have "enumerate 0 (TxOut fundTx) = [(0, TxOut fundTx ! 0), (1, TxOut fundTx ! 1)]" by (simp add: fundTx_def)
  then show ?thesis using exampleTxs_unspendable(2,3)
    by (simp add: addCoins_def addCoin_def fundCoin_def txOutPoint_def fundTx_hash exampleTxs_coinbase)
qed

lemma connectCoins_examples [simp]:
  "connectCoins h U rewardTx = Some (U, [])"
  "connectCoins h U (burnTx i v) = map_option (\<lambda>c. (U(fundOut i := None), [c])) (U (fundOut i))"
  "connectCoins 2 U fundTx =
     map_option (\<lambda>c. (U(exampleOutPoint := None, fundOut 0 \<mapsto> fundCoin 0, fundOut 1 \<mapsto> fundCoin 1), [c])) (U exampleOutPoint)"
  using exampleTxs_coinbase by (auto simp: connectCoins_def split: option.splits)

lemma plain_examples [simp]:
  "plainTx 2 RegressionNetParams fundTx [oldCoin]" "fees fundTx [oldCoin] 0 = 0"
  "plainTx 2 RegressionNetParams (burnTx 0 2000) [fundCoin 0]" "fees (burnTx 0 2000) [fundCoin 0] 0 = 0"
  "plainTx 2 RegressionNetParams (burnTx 1 3000) [fundCoin (Suc 0)]" "fees (burnTx 1 3000) [fundCoin (Suc 0)] 0 = 0"
  by (code_simp)+

subsection \<open>Their acceptance\<close>

lemma txNode_facts: "node_height (txNode txs) = 2" "parent (txNode txs) = Some exampleTip" "nhash (nfields (txNode txs)) \<noteq> GenesisHash (exampleChain txs)"
proof -
  show "node_height (txNode txs) = 2" "parent (txNode txs) = Some exampleTip" by (simp_all add: txNode_def newBlockNode_def Let_def int32_id)
  have "zeroHash \<noteq> replicate 32 1" by code_simp
  then show "nhash (nfields (txNode txs)) \<noteq> GenesisHash (exampleChain txs)" by (auto simp: exampleChain_def)
qed

lemma exampleTip_time: "0 \<le> Unix (CalcPastMedianTime exampleTip)"
proof -
  have "timestamp (nfields exampleTip) = 20" "timestamp (nfields (newBlockNode (exampleHeader 10) None 0)) = 10"
    by (simp_all add: exampleTip_def newBlockNode_def Let_def exampleHeader_def Unix_def unixTime_def)
  then have "pastTimes medianTimeBlocks (Some exampleTip) = [20, 10]" by (simp add: medianTimeBlocks_def numeral_eq_Suc)
  then show ?thesis by (simp add: CalcPastMedianTime_def Unix_def unixTime_def)
qed

lemma exampleSubsidy: "CalcBlockSubsidy 2 (Some RegressionNetParams) = Inr (2500 * GrainPerMDL)"
  using CalcBlockSubsidy_eq [OF standardTime_networks(4), of 2] by simp

lemma example_TxIn:
  "TxIn fundTx = [\<lparr>PreviousOutPoint = exampleOutPoint, SignatureScript = [], Witness = [], Sequence = 0\<rparr>]"
  "TxIn (burnTx i v) = [\<lparr>PreviousOutPoint = fundOut i, SignatureScript = [], Witness = [], Sequence = 0\<rparr>]"
  "TxIn rewardTx = [\<lparr>PreviousOutPoint = \<lparr>Hash = zeroHash, Index = 0xffffffff\<rparr>, SignatureScript = [0x52, 0], Witness = [], Sequence = 0\<rparr>]"
  by (simp_all add: fundTx_def burnTx_def rewardTx_def)

lemma example_TxOut:
  "TxOut rewardTx = [\<lparr>Value = 0, PkScript = [0x6a]\<rparr>]" "TxOut (burnTx i v) = [\<lparr>Value = v, PkScript = [0x6a]\<rparr>]"
  by (simp_all add: rewardTx_def burnTx_def)

lemma exampleTxs_nonzero: "TxHash rewardTx \<noteq> zeroHash" "TxHash (burnTx 0 2000) \<noteq> zeroHash" "TxHash (burnTx 1 3000) \<noteq> zeroHash"
  unfolding rewardTx_id burnTx0_id burnTx1_id by code_simp+

lemma exampleTxs_outPoints:
  assumes "txs = orderedTxs \<or> txs = disorderedTxs" "op \<in> set (blockOutPoints (txBlock txs))"
  shows "Hash op \<noteq> Hash exampleOutPoint" "Hash op \<noteq> zeroHash"
proof -
  have "Hash op \<in> TxHash ` set txs" using assms(2) by (auto simp: blockOutPoints_def txBlock_def txOutPoint_def)
  then have "Hash op \<in> {TxHash rewardTx, fundHash, TxHash (burnTx 0 2000), TxHash (burnTx 1 3000)}"
    using assms(1) by (auto simp: orderedTxs_def disorderedTxs_def fundTx_hash)
  then show "Hash op \<noteq> Hash exampleOutPoint" "Hash op \<noteq> zeroHash" using exampleTxs_hashes fundHash_nonzero exampleTxs_nonzero by auto
qed

lemma exampleTxs_search:
  assumes "\<And>op. viewCoins view op = None" "\<And>op. map_of (viewEntries view) op = None \<longleftrightarrow> op \<notin> set (blockOutPoints (txBlock txs))"
    and "txs = orderedTxs \<or> txs = disorderedTxs"
  shows "\<exists>view'. findInputsToFetch view (txBlock txs) 2 = (view', [exampleOutPoint]) \<and>
    viewCoins view' = [fundOut 0 \<mapsto> fundCoin 0, fundOut 1 \<mapsto> fundCoin 1] \<and>
    (\<forall>txIn \<in> set (TxIn rewardTx). map_of (viewEntries view') (PreviousOutPoint txIn) = None \<and> PreviousOutPoint txIn \<notin> set [exampleOutPoint])"
proof -
  have loaded: "map_of (viewEntries view) exampleOutPoint = None" "map_of (viewEntries view) (fundOut 0) \<noteq> None"
    "map_of (viewEntries view) \<lparr>Hash = zeroHash, Index = 0xffffffff\<rparr> = None"
  proof -
    show "map_of (viewEntries view) exampleOutPoint = None" "map_of (viewEntries view) \<lparr>Hash = zeroHash, Index = 0xffffffff\<rparr> = None"
      using exampleTxs_outPoints [OF assms(3)] unfolding assms(2) by fastforce+
    have "txOutPoint fundTx 0 \<in> set (blockOutPoints (txBlock txs))"
      using assms(3) by (auto simp: blockOutPoints_def txBlock_def orderedTxs_def disorderedTxs_def)
    then show "map_of (viewEntries view) (fundOut 0) \<noteq> None" unfolding assms(2) by (simp add: txOutPoint_def fundTx_hash)
  qed
  have null: "\<lparr>Hash = zeroHash, Index = 0xffffffff\<rparr> \<noteq> exampleOutPoint" by code_simp
  have flight: "txInFlight orderedTxs fundHash = Some 1" "txInFlight orderedTxs (Hash exampleOutPoint) = None"
    "txInFlight disorderedTxs fundHash = Some 2" "txInFlight disorderedTxs (Hash exampleOutPoint) = None"
    using exampleTxs_hashes by (simp_all add: txInFlight_def orderedTxs_def disorderedTxs_def)
  have added: "map_of (viewEntries (AddTxOuts v fundTx 2)) op = map_of (viewEntries v) op" if "Hash op \<noteq> fundHash" for v op
    using that by (simp add: AddTxOuts_entries fundTx_hash)
  have coins: "viewCoins view = (\<lambda>_. None)" using assms(1) by blast
  from assms(3) show ?thesis
  proof
    assume "txs = orderedTxs"
    then have "findInputsToFetch view (txBlock txs) 2 = (AddTxOuts (AddTxOuts view fundTx 2) fundTx 2, [exampleOutPoint])"
      using flight loaded by (simp add: findInputsToFetch_def txBlock_def findInput_def example_TxIn) (simp add: orderedTxs_def findInput_def example_TxIn)
    then show ?thesis using added loaded coins null fundHash_nonzero by (simp add: AddTxOuts_viewCoins example_TxIn)
  next
    assume "txs = disorderedTxs"
    then have "findInputsToFetch view (txBlock txs) 2 = (AddTxOuts view fundTx 2, [exampleOutPoint])"
      using flight loaded by (simp add: findInputsToFetch_def txBlock_def findInput_def example_TxIn) (simp add: disorderedTxs_def findInput_def example_TxIn)
    then show ?thesis using added loaded coins null fundHash_nonzero by (simp add: AddTxOuts_viewCoins example_TxIn)
  qed
qed

lemma example_fields:
  "pubKeys permissive = noKeys" "chainCache (exampleChain txs) = oldCache" "chainParams (exampleChain txs) = RegressionNetParams"
  by (simp_all add: permissive_def exampleChain_def)

lemma exampleTxs_accepted:
  assumes "txs = orderedTxs \<or> txs = disorderedTxs"
  shows "\<exists>view' cache' stxos'. checkConnectBlock permissive (exampleChain txs) (txNode txs) (txBlock txs) 2
      (NewUtxoViewpoint\<lparr>bestHash := nhash (nfields exampleTip)\<rparr>) stxos = Inr (view', (exampleChain txs)\<lparr>chainCache := cache'\<rparr>, stxos') \<and>
    cacheInv noKeys cache' \<and> cacheCoins noKeys cache' = oldCoins \<and> (\<forall>op. heldEntry noKeys cache' op = heldEntry noKeys oldCache op)"
proof -
  obtain rest where rest: "Transactions (txBlock txs) = rewardTx # rest" "\<forall>tx \<in> set (rewardTx # rest). MsgTx.Version tx = 1"
    "plainTxs 2 RegressionNetParams (\<lambda>op. if op \<in> set [exampleOutPoint] then oldCoins op else [fundOut 0 \<mapsto> fundCoin 0, fundOut 1 \<mapsto> fundCoin 1] op) rest"
    using assms by (auto simp: txBlock_def orderedTxs_def disorderedTxs_def oldCoins_def exampleTxs_coinbase)
  have fresh: "\<forall>op \<in> set (blockOutPoints (txBlock txs)). oldCoins op = None"
    using exampleTxs_outPoints [OF assms] by (auto simp: oldCoins_def)
  have pays: "sumOutputs rewardTx \<le> int64 (2500 * GrainPerMDL)" by code_simp
  have header: "PrevBlock (Header (BlockMsgHeader (txBlock txs))) = nhash (nfields exampleTip)" by (simp add: txBlock_def txHeader_facts)
  show ?thesis
    unfolding header [symmetric] example_fields(1) [symmetric] example_fields(2) [of txs, symmetric]
    apply (rule checkConnectBlock_accepts [where C = oldCoins and needed = "[exampleOutPoint]" and p = exampleTip and subsidy = "2500 * GrainPerMDL" and
          A = "[fundOut 0 \<mapsto> fundCoin 0, fundOut 1 \<mapsto> fundCoin 1]" and coinbase = rewardTx and txs = rest])
    subgoal using txNode_facts by simp
    subgoal using example_fields oldCache_facts by simp
    subgoal using example_fields oldCache_facts by simp
    subgoal using fresh by simp
    subgoal using rest by simp
    subgoal using exampleTxs_search assms by simp
    subgoal using exampleOutPoint_wf by simp
    subgoal using exampleTxs_coinbase by simp
    subgoal using rest by simp
    subgoal using rest example_fields txNode_facts by simp
    subgoal using txNode_facts by simp
    subgoal using exampleTip_time by simp
    subgoal using txNode_facts by simp
    subgoal using txNode_facts example_fields exampleSubsidy by simp
    subgoal using pays by simp
    by (simp add: permissive_def)
qed

lemma orderedTxs_wellOrdered: "wellOrdered (txBlock orderedTxs)"
proof -
  have "wf_hash fundHash" "wf_hash (Hash exampleOutPoint)" "list_all (\<lambda>op. wf_hash (Hash op)) (spentOutPoints rewardTx)" by code_simp+
  then show ?thesis using exampleTxs_hashes exampleTxs_coinbase
    by (simp add: wellOrdered_def txBlock_def orderedTxs_def)
qed

lemma oldCache_absent: "op \<noteq> exampleOutPoint \<Longrightarrow> wf_hash (Hash op) \<Longrightarrow> dbFetchUtxoEntry noKeys (utxoSetBucket oldCache) op = Inr None"
proof -
  assume op: "op \<noteq> exampleOutPoint" "wf_hash (Hash op)"
  have "wf_coin oldCoin" by (simp add: wf_coin_def oldCoin_def exampleCoin_def)
  from singleCoin_holds [OF this exampleOutPoint_wf] op show ?thesis by (simp add: oldCache_facts dbHolds_def)
qed

text \<open>
  An output that was spent in the cache since the last flush, while the database still has it.  Adding such an output again would mark the entry as fresh,
  although the database has one, and spending it once more would drop the entry and bring the stored coin back.
\<close>

definition spentUnflushed :: "(bytes \<Rightarrow> bytes option) \<Rightarrow> utxoCache \<Rightarrow> OutPoint \<Rightarrow> bool" where
  "spentUnflushed K s op \<longleftrightarrow> cacheCoins K s op = None \<and> dbFetchUtxoEntry K (utxoSetBucket s) op \<noteq> Inr None"

lemma oldCache_flushed: "wf_hash (Hash op) \<Longrightarrow> \<not> spentUnflushed noKeys oldCache op"
  using oldCache_absent by (cases "op = exampleOutPoint") (simp_all add: spentUnflushed_def oldCache_facts oldCoins_def)

lemma foldl_sum_ge: "x \<in> set xs \<Longrightarrow> g x \<le> foldl (\<lambda>n x. n + g x) (n :: nat) xs"
proof (induction xs arbitrary: n)
  case (Cons y ys)
  have "m \<le> foldl (\<lambda>n x. n + g x) m ys" for m by (induction ys arbitrary: m) (auto intro: order_trans [OF le_add1])
  from this [of "n + g y"] Cons show ?case by (cases "x = y") auto
qed simp

text \<open>A sane block is small, and so are its scripts, and its outputs can be stored.\<close>

lemma sane_block_coins:
  assumes "checkBlockSanity E msgBlock params now flags = Inr u" "0 \<le> h" "h < 2 ^ 31" "tx \<in> set (Transactions msgBlock)" "txOut \<in> set (TxOut tx)"
  shows "wf_coin (createdCoin txOut cb h)"
proof -
  have "length (PkScript txOut) \<le> TxOut_SerializeSize txOut" by (simp add: TxOut_SerializeSize_def)
  also have "\<dots> \<le> SerializeSizeStripped tx" unfolding SerializeSizeStripped_def baseSize_def Let_def by (rule foldl_sum_ge [OF assms(5)])
  also have "\<dots> \<le> MsgBlock_SerializeSizeStripped msgBlock" unfolding MsgBlock_SerializeSizeStripped_def by (rule foldl_sum_ge [OF assms(4)])
  finally have "int (length (PkScript txOut)) \<le> int (MsgBlock_SerializeSizeStripped msgBlock)" by simp
  also have "\<dots> \<le> GetBlockVsize msgBlock"
    using CalcVsize_ceiling [of "int (SerializeWitnessSize msgBlock)" "int (MsgBlock_SerializeSizeStripped msgBlock)"] by (simp add: GetBlockVsize_def)
  also have "\<dots> \<le> 1000000" using assms(1) by (auto simp: checkBlockSanity_def Let_def MaxBlockVsize_def not_less)
  finally have "int (length (PkScript txOut)) \<le> 1000000" .
  moreover have "0 \<le> outValue txOut" "outValue txOut \<le> MaxGrain"
    using checkBlockSanity_facts(3) [OF assms(1)] assms(4,5) by (auto simp: saneOutputs_def list_all_iff)
  moreover have "MaxGrain \<le> 2 ^ 60" by (simp add: MaxGrain_def GrainPerMDL_def)
  ultimately show ?thesis using assms(2,3) by (simp add: wf_coin_def createdCoin_def)
qed

lemma accepted_addable:
  assumes "checkBlockSanity E msgBlock params now flags = Inr u" "chain_node node" "cacheInv K s"
    and "\<forall>op \<in> set (blockOutPoints msgBlock). cacheCoins K s op = None \<and> \<not> spentUnflushed K s op"
  shows "blockAddable K (utxoSetBucket s) msgBlock (node_height node)"
proof -
  have h: "0 \<le> node_height node" "node_height node < 2 ^ 31" using chain_node_linked [OF assms(2)] by (simp_all add: linked_def)
  have "cacheAddable K (utxoSetBucket s) (txOutPoint tx i) (TxOut tx ! i) (node_height node)"
    if tx: "tx \<in> set (Transactions msgBlock)" "i < length (TxOut tx)" for tx i
  proof -
    have "txOutPoint tx i \<in> set (blockOutPoints msgBlock)" using tx by (force simp: blockOutPoints_def)
    then have "dbFetchUtxoEntry K (utxoSetBucket s) (txOutPoint tx i) = Inr None" using assms(4) by (auto simp: spentUnflushed_def)
    then show ?thesis using sane_block_coins [OF assms(1) h tx(1) nth_mem [OF tx(2)]] by (simp add: cacheAddable_def txOutPoint_def TxHash_def)
  qed
  then show ?thesis by (simp add: blockAddable_def list_all_length nth_enumerate_eq all_set_conv_all_nth)
qed

section \<open>Properties\<close>

text \<open>
  C1. A block that the sanity checks and \<open>checkConnectBlock\<close> accept, and in which no transaction spends an output of itself or of a later one, can be
  connected to the coins of the chain: every input is there when its transaction is reached, no output of the block existed before, no immature output
  is spent, the view then stands for exactly the coins after the block, the journal has exactly the coins spent, and of the chain state nothing changed but what the cache has loaded.
\<close>

theorem accepted_block_connects:
  assumes "checkConnectBlock E b node msgBlock h view stxos = Inr (view', b', stxos')"
    and "checkBlockSanity E msgBlock (chainParams b) now flags = Inr ()" "wellOrdered msgBlock" "cacheInv (pubKeys E) (chainCache b)"
    and "C = cacheCoins (pubKeys E) (chainCache b)"
  shows "\<exists>U cs. connectBlockCoins (node_height node) (viewOver view C) (Transactions msgBlock) = Some (U, cs) \<and>
    createsFresh (node_height node) (viewOver view C) (Transactions msgBlock) \<and> list_all (spendable (node_height node) (chainParams b)) cs \<and>
    viewOver view' C = U \<and> bestHash view' = nhash (nfields node) \<and> stxos' = map_option (\<lambda>l. l @ cs) stxos \<and>
    cacheInv (pubKeys E) (chainCache b') \<and> cacheCoins (pubKeys E) (chainCache b') = C \<and> b' = b\<lparr>chainCache := chainCache b'\<rparr>"
proof -
  obtain U cs where s: "connectBlockCoins (node_height node) (viewOver view C) (Transactions msgBlock) = Some (U, cs)"
    "stxos' = map_option (\<lambda>l. l @ cs) stxos" "viewOver view' C = U" "bestHash view' = nhash (nfields node)"
    "\<forall>op \<in> set (blockOutPoints msgBlock). viewOver view C op = None" "list_all (spendable (node_height node) (chainParams b)) cs"
    "cacheInv (pubKeys E) (chainCache b')" "cacheCoins (pubKeys E) (chainCache b') = C" "b' = b\<lparr>chainCache := chainCache b'\<rparr>"
    using checkConnectBlock_sound [OF assms(1,3,2,4,5) refl] by blast
  have "createsFresh (node_height node) (viewOver view C) (Transactions msgBlock)"
    using s(1,5) blockOutPoints_created(1) checkBlockSanity_facts(2) [OF assms(2)] by (intro createsFresh_unseen) auto
  with s show ?thesis by blast
qed

theorem accepted_block_connects_witness:
  "\<exists>view' b' stxos'. checkConnectBlock permissive (exampleChain orderedTxs) (txNode orderedTxs) (txBlock orderedTxs) 2
      (NewUtxoViewpoint\<lparr>bestHash := nhash (nfields exampleTip)\<rparr>) (Some []) = Inr (view', b', stxos') \<and>
    viewOver view' oldCoins = (\<lambda>_. None) \<and> stxos' = Some [oldCoin, fundCoin 0, fundCoin 1]"
proof -
  obtain view' b' stxos' where r: "checkConnectBlock permissive (exampleChain orderedTxs) (txNode orderedTxs) (txBlock orderedTxs) 2
      (NewUtxoViewpoint\<lparr>bestHash := nhash (nfields exampleTip)\<rparr>) (Some []) = Inr (view', b', stxos')"
    using exampleTxs_accepted [of orderedTxs "Some []"] by auto
  have s: "checkBlockSanity permissive (txBlock orderedTxs) (chainParams (exampleChain orderedTxs)) (unixTime 30) BFNone = Inr ()"
    unfolding example_fields by (rule txBlock_sane) simp
  have "connectBlockCoins 2 oldCoins (Transactions (txBlock orderedTxs)) = Some (Map.empty, [oldCoin, fundCoin 0, fundCoin 1])"
    by (simp add: txBlock_def orderedTxs_def oldCoins_def)
  then show ?thesis
    using accepted_block_connects [OF r s orderedTxs_wellOrdered _ refl] r by (auto simp: example_fields oldCache_facts txNode_facts)
qed

text \<open>
  C4. The cache of unspent outputs takes an accepted block in which the transactions are in order: after the checks, connecting its transactions to the
  cache succeeds, with the same journal, and the cache then holds the coins the view stands for; the database is not touched.  The one condition on
  the cache, which the checks do not imply, is that the block does not create again an output that was spent in the cache
  since the last flush and that the database still has; this takes a transaction with the id of an earlier one.  That the outputs of the block can be
  stored, and that the database has none of them otherwise, follows from the checks.
\<close>

theorem accepted_block_reaches_cache:
  assumes "checkConnectBlock E b node msgBlock h (NewUtxoViewpoint\<lparr>bestHash := parentHash\<rparr>) (Some []) = Inr (view', b', stxos')"
    and "checkBlockSanity E msgBlock (chainParams b) now flags = Inr ()" "wellOrdered msgBlock" "cacheInv (pubKeys E) (chainCache b)" "chain_node node"
    and "\<forall>op \<in> set (blockOutPoints msgBlock). \<not> spentUnflushed (pubKeys E) (chainCache b) op"
  shows "\<exists>cache'. cache_connectTransactions (pubKeys E) (chainCache b') msgBlock (node_height node) (Some []) = Inr (cache', stxos') \<and>
    cacheInv (pubKeys E) cache' \<and> cacheCoins (pubKeys E) cache' = viewOver view' (cacheCoins (pubKeys E) (chainCache b)) \<and>
    utxoSetBucket cache' = utxoSetBucket (chainCache b)"
proof -
  let ?C = "cacheCoins (pubKeys E) (chainCache b)"
  obtain cs where s: "connectBlockCoins (node_height node) ?C (Transactions msgBlock) = Some (viewOver view' ?C, cs)"
    "stxos' = Some cs" "cacheInv (pubKeys E) (chainCache b')" "cacheCoins (pubKeys E) (chainCache b') = ?C"
    "utxoSetBucket (chainCache b') = utxoSetBucket (chainCache b)" "\<forall>op \<in> set (blockOutPoints msgBlock). ?C op = None"
    using checkConnectBlock_sound [OF assms(1,3,2,4) refl refl] by auto
  have "blockAddable (pubKeys E) (utxoSetBucket (chainCache b)) msgBlock (node_height node)"
    using s(6) assms(6) by (intro accepted_addable [OF assms(2,5,4)]) blast
  then show ?thesis
    using cache_connects [of "pubKeys E" "utxoSetBucket (chainCache b)" "chainCache b'" "node_height node" msgBlock "viewOver view' ?C" cs "Some []"] s
    by (auto simp: cacheOn_def)
qed

theorem accepted_block_reaches_cache_witness:
  "\<exists>view' b' stxos' cache'. checkConnectBlock permissive (exampleChain orderedTxs) (txNode orderedTxs) (txBlock orderedTxs) 2
      (NewUtxoViewpoint\<lparr>bestHash := nhash (nfields exampleTip)\<rparr>) (Some []) = Inr (view', b', stxos') \<and>
    cache_connectTransactions noKeys (chainCache b') (txBlock orderedTxs) 2 (Some []) = Inr (cache', stxos')"
proof -
  obtain view' b' stxos' where r: "checkConnectBlock permissive (exampleChain orderedTxs) (txNode orderedTxs) (txBlock orderedTxs) 2
      (NewUtxoViewpoint\<lparr>bestHash := nhash (nfields exampleTip)\<rparr>) (Some []) = Inr (view', b', stxos')"
    using exampleTxs_accepted [of orderedTxs "Some []"] by auto
  have s: "checkBlockSanity permissive (txBlock orderedTxs) (chainParams (exampleChain orderedTxs)) (unixTime 30) BFNone = Inr ()"
    unfolding example_fields by (rule txBlock_sane) simp
  have n: "chain_node (txNode orderedTxs)" unfolding txNode_def by (rule chain_node.extend [OF exampleTip_chain]) simp
  have "\<forall>op \<in> set (blockOutPoints (txBlock orderedTxs)). \<not> spentUnflushed (pubKeys permissive) (chainCache (exampleChain orderedTxs)) op"
    unfolding example_fields by (intro ballI oldCache_flushed) (auto simp: blockOutPoints_def txOutPoint_def TxHash_def)
  then show ?thesis
    using accepted_block_reaches_cache [OF r s orderedTxs_wellOrdered _ n] r
    by (auto simp: example_fields oldCache_facts txNode_facts)
qed

lemma int64_coinbase:
  assumes "0 \<le> out" "out \<le> int64 (subsidy + acc)" "0 \<le> subsidy" "subsidy < 2 ^ 62" "0 \<le> acc" "acc < 2 ^ 63"
  shows "out \<le> subsidy + acc"
proof (cases "subsidy + acc < 2 ^ 63")
  case True
  then show ?thesis using assms int64_id [of "subsidy + acc"] by simp
qed (use assms int64_bounds(2) [of "subsidy + acc"] in simp)

text \<open>
  C2. No block that is accepted creates money: after a block in order the unspent outputs are worth at most what they were worth before,
  together with the subsidy for its height and what its issuing transactions are permitted to issue.  Fees are paid by what the inputs leave over, and an
  overflow of subsidy and fees is no way around it.
\<close>

theorem accepted_block_conserves_value:
  assumes "checkConnectBlock E b node msgBlock h view stxos = Inr (view', b', stxos')"
    and "checkBlockSanity E msgBlock (chainParams b) now flags = Inr ()" "wellOrdered msgBlock" "cacheInv (pubKeys E) (chainCache b)"
    and "C = cacheCoins (pubKeys E) (chainCache b)" "goodCoins (viewOver view C)"
    and "standardTime (chainParams b)" "0 \<le> node_height node" "node_height node < 2 ^ 31"
  shows "\<exists>subsidy. CalcBlockSubsidy (node_height node) (Some (chainParams b)) = Inr subsidy \<and> 0 \<le> subsidy \<and> subsidy \<le> 2500 * GrainPerMDL \<and>
    goodCoins (viewOver view' C) \<and>
    totalValue (viewOver view' C) \<le> totalValue (viewOver view C) + subsidy + issuedIn E (chainParams b) node (Transactions msgBlock)"
proof -
  let ?txs = "Transactions msgBlock"
  obtain acc subsidy where s: "0 \<le> acc" "acc < 2 ^ 63" "goodCoins (viewOver view' C)"
    "totalValue (viewOver view' C) + acc \<le> totalValue (viewOver view C) + issuedIn E (chainParams b) node ?txs + coinbasePays ?txs"
    "CalcBlockSubsidy (node_height node) (Some (chainParams b)) = Inr subsidy" "sumOutputs (?txs ! 0) \<le> int64 (subsidy + acc)"
    using checkConnectBlock_sound [OF assms(1,3,2,4,5) refl] assms(6) by auto
  note subsidy = CalcBlockSubsidy_bounds [OF assms(7,8,9) s(5)]
  note sane = checkBlockSanity_facts [OF assms(2)]
  have "?txs \<noteq> []" using sane(1) by (auto simp: coinbaseFirst_def)
  then have "saneOutputs (?txs ! 0)" using sane(3) by simp
  then have "sumOutputs (?txs ! 0) = coinbasePays ?txs" "0 \<le> coinbasePays ?txs"
    by (auto simp: sum_list_coinbase [OF sane(1)] sumOutputs_exact saneOutputs_def list_all_iff intro!: sum_list_nonneg)
  then have "coinbasePays ?txs \<le> subsidy + acc"
    using int64_coinbase [of "coinbasePays ?txs" subsidy acc] s(1,2,6) subsidy by (simp add: GrainPerMDL_def)
  then show ?thesis using s(3,4,5) subsidy by auto
qed

lemma oldCoins_good: "goodCoins oldCoins" "totalValue oldCoins = 5000"
  by (auto simp: goodCoins_def totalValue_def oldCoins_def oldCoin_def exampleCoin_def)

theorem accepted_block_conserves_value_witness:
  "\<exists>view' b' stxos'. checkConnectBlock permissive (exampleChain orderedTxs) (txNode orderedTxs) (txBlock orderedTxs) 2
      (NewUtxoViewpoint\<lparr>bestHash := nhash (nfields exampleTip)\<rparr>) None = Inr (view', b', stxos') \<and>
    totalValue (viewOver view' oldCoins) \<le> 5000 + 2500 * GrainPerMDL + issuedIn permissive RegressionNetParams (txNode orderedTxs) orderedTxs"
proof -
  obtain view' b' stxos' where r: "checkConnectBlock permissive (exampleChain orderedTxs) (txNode orderedTxs) (txBlock orderedTxs) 2
      (NewUtxoViewpoint\<lparr>bestHash := nhash (nfields exampleTip)\<rparr>) None = Inr (view', b', stxos')"
    using exampleTxs_accepted [of orderedTxs None] by auto
  have s: "checkBlockSanity permissive (txBlock orderedTxs) (chainParams (exampleChain orderedTxs)) (unixTime 30) BFNone = Inr ()"
    unfolding example_fields by (rule txBlock_sane) simp
  have t: "Transactions (txBlock orderedTxs) = orderedTxs" by (simp add: txBlock_def)
  show ?thesis
    using accepted_block_conserves_value [OF r s orderedTxs_wellOrdered _ refl] r standardTime_networks(4) oldCoins_good exampleSubsidy
    by (auto simp: example_fields oldCache_facts txNode_facts t)
qed

text \<open>
  C5. The order matters, and the checks do not enforce it.  A block of four transactions, in which the second spends an output of the third and the fourth
  spends another output of the third, passes the sanity checks and \<open>checkConnectBlock\<close>: the check for duplicate outputs has put the outputs of the block into the view as absent, so that
  the output spent too early is not looked up again, and the search for the inputs of the fourth transaction adds it to the view.  Connecting the
  accepted block to the cache then fails with an assertion.
\<close>

theorem disordered_block_accepted:
  "checkBlockSanity permissive (txBlock disorderedTxs) RegressionNetParams (unixTime 30) BFNone = Inr () \<and>
   \<not> inOrder disorderedTxs \<and> connectBlockCoins 2 oldCoins disorderedTxs = None \<and>
   (\<exists>view' b' stxos'. checkConnectBlock permissive (exampleChain disorderedTxs) (txNode disorderedTxs) (txBlock disorderedTxs) 2
      (NewUtxoViewpoint\<lparr>bestHash := nhash (nfields exampleTip)\<rparr>) (Some []) = Inr (view', b', stxos') \<and>
      cache_connectTransactions noKeys (chainCache b') (txBlock disorderedTxs) 2 (Some []) = Inl storeAssert)"
proof (intro conjI)
  show "checkBlockSanity permissive (txBlock disorderedTxs) RegressionNetParams (unixTime 30) BFNone = Inr ()"
    by (rule txBlock_sane) simp
  show "\<not> inOrder disorderedTxs" using exampleTxs_hashes exampleTxs_coinbase by (simp add: disorderedTxs_def)
  show "connectBlockCoins 2 oldCoins disorderedTxs = None" by (simp add: disorderedTxs_def oldCoins_def)
  obtain view' cache' stxos' where r: "checkConnectBlock permissive (exampleChain disorderedTxs) (txNode disorderedTxs) (txBlock disorderedTxs) 2
      (NewUtxoViewpoint\<lparr>bestHash := nhash (nfields exampleTip)\<rparr>) (Some []) = Inr (view', (exampleChain disorderedTxs)\<lparr>chainCache := cache'\<rparr>, stxos')"
    "cacheInv noKeys cache'" "\<forall>op. heldEntry noKeys cache' op = heldEntry noKeys oldCache op"
    using exampleTxs_accepted [of disorderedTxs "Some []"] by auto
  have wf: "wf_hash fundHash" by code_simp
  have "heldEntry noKeys cache' (fundOut 0) = None"
    using r(3) oldCache_absent [of "fundOut 0"] wf by (simp add: oldCache_def newUtxoCache_def mapSlice_get_def dbEntry_def)
  then have "spendCached noKeys cache' (fundOut 0) = Inl storeAssert"
    using fetchEntries_correct [OF r(2), of "[fundOut 0]"] wf by (auto simp: spendCached_def)
  then have "cache_connectTransactions noKeys cache' (txBlock disorderedTxs) 2 (Some []) = Inl storeAssert"
    using exampleTxs_coinbase
    by (simp add: cache_connectTransactions_def txBlock_def disorderedTxs_def cache_connectTransaction_def addTxIns_def addTxIn_def spendInput_def
        cache_addTxOuts_def addOutputs_def cache_addTxOut_def exampleTxs_unspendable example_TxIn example_TxOut)
  with r(1) show "\<exists>view' b' stxos'. checkConnectBlock permissive (exampleChain disorderedTxs) (txNode disorderedTxs) (txBlock disorderedTxs) 2
      (NewUtxoViewpoint\<lparr>bestHash := nhash (nfields exampleTip)\<rparr>) (Some []) = Inr (view', b', stxos') \<and>
      cache_connectTransactions noKeys (chainCache b') (txBlock disorderedTxs) 2 (Some []) = Inl storeAssert" by auto
qed

end
