(* ===== verification/State_Error.thy ===== *)
theory State_Error
  imports Prelude
begin

text \<open>
  Operations that change a state and may fail: the changes made before the failure stay, as they do in the code.
\<close>

type_synonym ('s, 'e, 'a) stateE = "'s \<Rightarrow> ('e, 'a) result \<times> 's"

definition returnS :: "'a \<Rightarrow> ('s, 'e, 'a) stateE" where
  "returnS x s = (Inr x, s)"

definition bindS :: "('s, 'e, 'a) stateE \<Rightarrow> ('a \<Rightarrow> ('s, 'e, 'b) stateE) \<Rightarrow> ('s, 'e, 'b) stateE" where
  "bindS m f s = (case m s of (Inl e, s) \<Rightarrow> (Inl e, s) | (Inr x, s) \<Rightarrow> f x s)"

text \<open>A result that reads the state, and a change of the state that cannot fail.\<close>

definition readS :: "('s \<Rightarrow> ('e, 'a) result) \<Rightarrow> ('s, 'e, 'a) stateE" where
  "readS f s = (f s, s)"

definition modifyS :: "('s \<Rightarrow> 's) \<Rightarrow> ('s, 'e, unit) stateE" where
  "modifyS f s = (Inr (), f s)"

fun foldS :: "('a \<Rightarrow> 'b \<Rightarrow> ('s, 'e, 'a) stateE) \<Rightarrow> 'a \<Rightarrow> 'b list \<Rightarrow> ('s, 'e, 'a) stateE" where
  "foldS f a [] = returnS a"
| "foldS f a (x # xs) = bindS (f a x) (\<lambda>a. foldS f a xs)"

lemma stateE_simps [simp]:
  "returnS x s = (Inr x, s)" "readS f s = (f s, s)" "modifyS g s = (Inr (), g s)"
  "m s = (Inr y, t) \<Longrightarrow> bindS m k s = k y t" "m s = (Inl e, t) \<Longrightarrow> bindS m k s = (Inl e, t)"
  by (simp_all add: returnS_def readS_def modifyS_def bindS_def)

lemma bindS_Inr_iff: "bindS m f s = (Inr y, t) \<longleftrightarrow> (\<exists>x u. m s = (Inr x, u) \<and> f x u = (Inr y, t))"
  by (auto simp: bindS_def split: prod.splits sum.splits)

lemma bindS_Inl_iff: "bindS m f s = (Inl e, t) \<longleftrightarrow> m s = (Inl e, t) \<or> (\<exists>x u. m s = (Inr x, u) \<and> f x u = (Inl e, t))"
  by (auto simp: bindS_def split: prod.splits sum.splits)

text \<open>A property of states that every step keeps, whether it fails or not, is kept by the whole.\<close>

definition keeps :: "('s \<Rightarrow> bool) \<Rightarrow> ('s, 'e, 'a) stateE \<Rightarrow> bool" where
  "keeps P m \<longleftrightarrow> (\<forall>s. P s \<longrightarrow> P (snd (m s)))"

lemma keepsD: "keeps P m \<Longrightarrow> P s \<Longrightarrow> m s = (r, t) \<Longrightarrow> P t"
  by (metis keeps_def snd_conv)

lemma keeps_return [intro]: "keeps P (returnS x)" "keeps P (readS f)"
  by (simp_all add: keeps_def)

lemma keeps_bind [intro]: "keeps P m \<Longrightarrow> (\<And>x. keeps P (f x)) \<Longrightarrow> keeps P (bindS m f)"
  by (auto simp: keeps_def bindS_def split: prod.splits sum.splits)

lemma keeps_fold: "(\<And>a x. x \<in> set xs \<Longrightarrow> keeps P (f a x)) \<Longrightarrow> keeps P (foldS f a xs)"
  by (induction xs arbitrary: a) auto

lemma foldS_total:
  assumes "\<And>a x s. x \<in> set xs \<Longrightarrow> I s \<Longrightarrow> \<exists>s'. f a x s = (Inr (g a x), s') \<and> I s'" "I s"
  shows "\<exists>s'. foldS f a xs s = (Inr (foldl g a xs), s') \<and> I s'"
  using assms
proof (induction xs arbitrary: a s)
  case (Cons x xs)
  obtain s1 where "f a x s = (Inr (g a x), s1)" "I s1" using Cons.prems(1) [of x s a] Cons.prems(2) by auto
  then show ?case using Cons.IH [of s1 "g a x"] Cons.prems(1) by simp
qed simp

end
