(* ===== verification/Header_Examples.thy ===== *)
theory Header_Examples
  imports Chain_View Digest_Examples
begin

text \<open>
  Four concrete headers and their hashes, computed by the kernel from the definition of SHA-256: a root, two blocks on it, the second
  of which has a harder difficulty, and a block on the first.  All of them vote with bit 28 of the version.
  Their nodes are the small tree that the examples of voting and of recovery use.
\<close>

definition treeHeader :: "hash \<Rightarrow> int \<Rightarrow> 32 word \<Rightarrow> BlockHeader" where
  "treeHeader prev s bits = \<lparr>Version = 0x30000000, PrevBlock = prev, MerkleRoot = replicate 32 0, Timestamp = unixTime s, Bits = bits,
     ProofCommitment = replicate 32 0\<rparr>"

definition rootHeader :: BlockHeader where
  "rootHeader = treeHeader (replicate 32 0) 10 0x1d00ffff"

lemma header_block_1: "sha256_block [1779033703, 3144134277, 1013904242, 2773480762, 1359893119, 2600822924, 528734635, 1541459225]
    [0, 0, 0, 48, 0, 0, 0, 0, 0, 0, 0, 0, 0, 0, 0, 0, 0, 0, 0, 0, 0, 0, 0, 0, 0, 0, 0, 0, 0, 0, 0, 0, 0, 0, 0, 0, 0,
     0, 0, 0, 0, 0, 0, 0, 0, 0, 0, 0, 0, 0, 0, 0, 0, 0, 0, 0, 0, 0, 0, 0, 0, 0, 0, 0] =
    [123828776, 1985384885, 4263033796, 2399204501, 1554752014, 3842495347, 2921303227, 2537376030]"
proof (rule sha256_block_bits
    [where W = "[48, 0, 0, 0, 0, 0, 0, 0, 0, 0, 0, 0, 0, 0, 0, 0]"
       and R = "[2639762369, 3136217904, 3249129554, 3920691035, 194858895, 1241672423, 2392568592, 995916805]"])
qed (simp, code_simp, simp, simp only: bits_eval, code_simp)

lemma header_block_2: "sha256_block [123828776, 1985384885, 4263033796, 2399204501, 1554752014, 3842495347, 2921303227, 2537376030]
    [0, 0, 0, 0, 10, 0, 0, 0, 255, 255, 0, 29, 0, 0, 0, 0, 0, 0, 0, 0, 0, 0, 0, 0, 0, 0, 0, 0, 0, 0, 0, 0, 0, 0, 0,
     0, 0, 0, 0, 0, 0, 0, 0, 0, 128, 0, 0, 0, 0, 0, 0, 0, 0, 0, 0, 0, 0, 0, 0, 0, 0, 0, 3, 96] =
    [3429020959, 3423437313, 767563624, 2175931549, 1388474967, 3608946085, 2204136599, 3189117008]"
proof (rule sha256_block_bits
    [where W = "[0, 167772160, 4294901789, 0, 0, 0, 0, 0, 0, 0, 0, 2147483648, 0, 0, 0, 864]"
       and R = "[3305192183, 1438052428, 799497124, 4071694344, 4128690249, 4061418034, 3577800668, 651740978]"])
qed (simp, code_simp, simp, simp only: bits_eval, code_simp)

lemma rootHeader_inner: "Sum256 [0, 0, 0, 48, 0, 0, 0, 0, 0, 0, 0, 0, 0, 0, 0, 0, 0, 0, 0, 0, 0, 0, 0, 0, 0, 0, 0, 0, 0, 0, 0, 0, 0, 0, 0, 0, 0,
     0, 0, 0, 0, 0, 0, 0, 0, 0, 0, 0, 0, 0, 0, 0, 0, 0, 0, 0, 0, 0, 0, 0, 0, 0, 0, 0, 0, 0, 0, 0, 10, 0, 0, 0, 255,
     255, 0, 29, 0, 0, 0, 0, 0, 0, 0, 0, 0, 0, 0, 0, 0, 0, 0, 0, 0, 0, 0, 0, 0, 0, 0, 0, 0, 0, 0, 0, 0, 0, 0, 0] =
    [204, 98, 181, 31, 204, 13, 130, 1, 45, 192, 23, 104, 129, 178, 20, 157, 82, 194, 114, 87, 215, 28, 37, 165, 131,
     96, 116, 151, 190, 22, 16, 80]"
proof (rule Sum256_fold)
  show "sha256_pad [0, 0, 0, 48, 0, 0, 0, 0, 0, 0, 0, 0, 0, 0, 0, 0, 0, 0, 0, 0, 0, 0, 0, 0, 0, 0, 0, 0, 0, 0, 0, 0, 0, 0, 0, 0, 0,
     0, 0, 0, 0, 0, 0, 0, 0, 0, 0, 0, 0, 0, 0, 0, 0, 0, 0, 0, 0, 0, 0, 0, 0, 0, 0, 0, 0, 0, 0, 0, 10, 0, 0, 0, 255,
     255, 0, 29, 0, 0, 0, 0, 0, 0, 0, 0, 0, 0, 0, 0, 0, 0, 0, 0, 0, 0, 0, 0, 0, 0, 0, 0, 0, 0, 0, 0, 0, 0, 0, 0] =
    concat [[0, 0, 0, 48, 0, 0, 0, 0, 0, 0, 0, 0, 0, 0, 0, 0, 0, 0, 0, 0, 0, 0, 0, 0, 0, 0, 0, 0, 0, 0, 0, 0, 0, 0, 0, 0, 0,
     0, 0, 0, 0, 0, 0, 0, 0, 0, 0, 0, 0, 0, 0, 0, 0, 0, 0, 0, 0, 0, 0, 0, 0, 0, 0, 0],
     [0, 0, 0, 0, 10, 0, 0, 0, 255, 255, 0, 29, 0, 0, 0, 0, 0, 0, 0, 0, 0, 0, 0, 0, 0, 0, 0, 0, 0, 0, 0, 0, 0, 0, 0,
     0, 0, 0, 0, 0, 0, 0, 0, 0, 128, 0, 0, 0, 0, 0, 0, 0, 0, 0, 0, 0, 0, 0, 0, 0, 0, 0, 3, 96]]"
    by code_simp
  show "foldl sha256_block sha256_H0 [[0, 0, 0, 48, 0, 0, 0, 0, 0, 0, 0, 0, 0, 0, 0, 0, 0, 0, 0, 0, 0, 0, 0, 0, 0, 0, 0, 0, 0, 0, 0, 0, 0, 0, 0, 0, 0,
     0, 0, 0, 0, 0, 0, 0, 0, 0, 0, 0, 0, 0, 0, 0, 0, 0, 0, 0, 0, 0, 0, 0, 0, 0, 0, 0],
     [0, 0, 0, 0, 10, 0, 0, 0, 255, 255, 0, 29, 0, 0, 0, 0, 0, 0, 0, 0, 0, 0, 0, 0, 0, 0, 0, 0, 0, 0, 0, 0, 0, 0, 0,
     0, 0, 0, 0, 0, 0, 0, 0, 0, 128, 0, 0, 0, 0, 0, 0, 0, 0, 0, 0, 0, 0, 0, 0, 0, 0, 0, 3, 96]] =
    [3429020959, 3423437313, 767563624, 2175931549, 1388474967, 3608946085, 2204136599, 3189117008]"
    by (simp only: foldl.simps sha256_H0_literal header_block_1 header_block_2)
  show "concat (map (\<lambda>w. rev (PutUint32 w)) [3429020959, 3423437313, 767563624, 2175931549, 1388474967, 3608946085, 2204136599, 3189117008]) =
    [204, 98, 181, 31, 204, 13, 130, 1, 45, 192, 23, 104, 129, 178, 20, 157, 82, 194, 114, 87, 215, 28, 37, 165, 131,
     96, 116, 151, 190, 22, 16, 80]"
    by code_simp
qed simp

lemma header_block_3: "sha256_block [1779033703, 3144134277, 1013904242, 2773480762, 1359893119, 2600822924, 528734635, 1541459225]
    [204, 98, 181, 31, 204, 13, 130, 1, 45, 192, 23, 104, 129, 178, 20, 157, 82, 194, 114, 87, 215, 28, 37, 165, 131,
     96, 116, 151, 190, 22, 16, 80, 128, 0, 0, 0, 0, 0, 0, 0, 0, 0, 0, 0, 0, 0, 0, 0, 0, 0, 0, 0, 0, 0, 0, 0, 0, 0, 0,
     0, 0, 0, 1, 0] =
    [477368227, 66691978, 4131924783, 3307338072, 1498830127, 3949626330, 578859981, 1483667582]"
proof (rule sha256_block_bits
    [where W = "[3429020959, 3423437313, 767563624, 2175931549, 1388474967, 3608946085, 2204136599, 3189117008, 2147483648, 0, 0,
     0, 0, 0, 0, 256]"
       and R = "[2993301820, 1217524997, 3118020541, 533857310, 138937008, 1348803406, 50125346, 4237175653]"])
qed (simp, code_simp, simp, simp only: bits_eval, code_simp)

lemma rootHeader_outer: "Sum256 [204, 98, 181, 31, 204, 13, 130, 1, 45, 192, 23, 104, 129, 178, 20, 157, 82, 194, 114, 87, 215, 28, 37, 165, 131,
     96, 116, 151, 190, 22, 16, 80] =
    [28, 116, 15, 163, 3, 249, 163, 138, 246, 72, 43, 47, 197, 33, 249, 88, 89, 86, 85, 47, 235, 106, 131, 218, 34,
     128, 179, 205, 88, 110, 248, 126]"
proof (rule Sum256_fold)
  show "sha256_pad [204, 98, 181, 31, 204, 13, 130, 1, 45, 192, 23, 104, 129, 178, 20, 157, 82, 194, 114, 87, 215, 28, 37, 165, 131,
     96, 116, 151, 190, 22, 16, 80] =
    concat [[204, 98, 181, 31, 204, 13, 130, 1, 45, 192, 23, 104, 129, 178, 20, 157, 82, 194, 114, 87, 215, 28, 37, 165, 131,
     96, 116, 151, 190, 22, 16, 80, 128, 0, 0, 0, 0, 0, 0, 0, 0, 0, 0, 0, 0, 0, 0, 0, 0, 0, 0, 0, 0, 0, 0, 0, 0, 0, 0,
     0, 0, 0, 1, 0]]"
    by code_simp
  show "foldl sha256_block sha256_H0 [[204, 98, 181, 31, 204, 13, 130, 1, 45, 192, 23, 104, 129, 178, 20, 157, 82, 194, 114, 87, 215, 28, 37, 165, 131,
     96, 116, 151, 190, 22, 16, 80, 128, 0, 0, 0, 0, 0, 0, 0, 0, 0, 0, 0, 0, 0, 0, 0, 0, 0, 0, 0, 0, 0, 0, 0, 0, 0, 0,
     0, 0, 0, 1, 0]] =
    [477368227, 66691978, 4131924783, 3307338072, 1498830127, 3949626330, 578859981, 1483667582]"
    by (simp only: foldl.simps sha256_H0_literal header_block_3)
  show "concat (map (\<lambda>w. rev (PutUint32 w)) [477368227, 66691978, 4131924783, 3307338072, 1498830127, 3949626330, 578859981, 1483667582]) =
    [28, 116, 15, 163, 3, 249, 163, 138, 246, 72, 43, 47, 197, 33, 249, 88, 89, 86, 85, 47, 235, 106, 131, 218, 34,
     128, 179, 205, 88, 110, 248, 126]"
    by code_simp
qed simp

lemma rootHeader_id: "BlockHash rootHeader =
    [28, 116, 15, 163, 3, 249, 163, 138, 246, 72, 43, 47, 197, 33, 249, 88, 89, 86, 85, 47, 235, 106, 131, 218, 34,
     128, 179, 205, 88, 110, 248, 126]"
proof -
  have "writeBlockHeader rootHeader = [0, 0, 0, 48, 0, 0, 0, 0, 0, 0, 0, 0, 0, 0, 0, 0, 0, 0, 0, 0, 0, 0, 0, 0, 0, 0, 0, 0, 0, 0, 0, 0, 0, 0, 0, 0, 0,
     0, 0, 0, 0, 0, 0, 0, 0, 0, 0, 0, 0, 0, 0, 0, 0, 0, 0, 0, 0, 0, 0, 0, 0, 0, 0, 0, 0, 0, 0, 0, 10, 0, 0, 0, 255,
     255, 0, 29, 0, 0, 0, 0, 0, 0, 0, 0, 0, 0, 0, 0, 0, 0, 0, 0, 0, 0, 0, 0, 0, 0, 0, 0, 0, 0, 0, 0, 0, 0, 0, 0]"
    by code_simp
  then show ?thesis by (simp only: BlockHash_def DoubleHashRaw_def Let_def rootHeader_inner rootHeader_outer)
qed

definition rootHash :: hash where
  "rootHash = [28, 116, 15, 163, 3, 249, 163, 138, 246, 72, 43, 47, 197, 33, 249, 88, 89, 86, 85, 47, 235, 106, 131, 218, 34,
     128, 179, 205, 88, 110, 248, 126]"

definition mainHeader :: BlockHeader where
  "mainHeader = treeHeader rootHash 20 0x1d00ffff"

definition sideHeader :: BlockHeader where
  "sideHeader = treeHeader rootHash 21 0x1c00ffff"

lemma header_block_4: "sha256_block [1779033703, 3144134277, 1013904242, 2773480762, 1359893119, 2600822924, 528734635, 1541459225]
    [0, 0, 0, 48, 28, 116, 15, 163, 3, 249, 163, 138, 246, 72, 43, 47, 197, 33, 249, 88, 89, 86, 85, 47, 235, 106,
     131, 218, 34, 128, 179, 205, 88, 110, 248, 126, 0, 0, 0, 0, 0, 0, 0, 0, 0, 0, 0, 0, 0, 0, 0, 0, 0, 0, 0, 0, 0, 0,
     0, 0, 0, 0, 0, 0] =
    [2941695845, 1554066150, 3468162939, 1293307238, 4176922726, 2262826931, 2904378950, 2835083431]"
proof (rule sha256_block_bits
    [where W = "[48, 477368227, 66691978, 4131924783, 3307338072, 1498830127, 3949626330, 578859981, 1483667582, 0, 0, 0, 0, 0,
     0, 0]"
       and R = "[1162662142, 2704899169, 2454258697, 2814793772, 2817029607, 3956971303, 2375644315, 1293624206]"])
qed (simp, code_simp, simp, simp only: bits_eval, code_simp)

lemma header_block_5: "sha256_block [2941695845, 1554066150, 3468162939, 1293307238, 4176922726, 2262826931, 2904378950, 2835083431]
    [0, 0, 0, 0, 20, 0, 0, 0, 255, 255, 0, 29, 0, 0, 0, 0, 0, 0, 0, 0, 0, 0, 0, 0, 0, 0, 0, 0, 0, 0, 0, 0, 0, 0, 0,
     0, 0, 0, 0, 0, 0, 0, 0, 0, 128, 0, 0, 0, 0, 0, 0, 0, 0, 0, 0, 0, 0, 0, 0, 0, 0, 0, 3, 96] =
    [656731284, 1749404637, 3221587619, 4039594246, 3423139166, 19703094, 2113622175, 2451916395]"
proof (rule sha256_block_bits
    [where W = "[0, 335544320, 4294901789, 0, 0, 0, 0, 0, 0, 0, 0, 2147483648, 0, 0, 0, 864]"
       and R = "[2010002735, 195338487, 4048391976, 2746287008, 3541183736, 2051843459, 3504210521, 3911800260]"])
qed (simp, code_simp, simp, simp only: bits_eval, code_simp)

lemma mainHeader_inner: "Sum256 [0, 0, 0, 48, 28, 116, 15, 163, 3, 249, 163, 138, 246, 72, 43, 47, 197, 33, 249, 88, 89, 86, 85, 47, 235, 106,
     131, 218, 34, 128, 179, 205, 88, 110, 248, 126, 0, 0, 0, 0, 0, 0, 0, 0, 0, 0, 0, 0, 0, 0, 0, 0, 0, 0, 0, 0, 0, 0,
     0, 0, 0, 0, 0, 0, 0, 0, 0, 0, 20, 0, 0, 0, 255, 255, 0, 29, 0, 0, 0, 0, 0, 0, 0, 0, 0, 0, 0, 0, 0, 0, 0, 0, 0, 0,
     0, 0, 0, 0, 0, 0, 0, 0, 0, 0, 0, 0, 0, 0] =
    [39, 36, 236, 148, 104, 69, 203, 221, 192, 5, 134, 163, 240, 199, 81, 6, 204, 8, 245, 94, 1, 44, 165, 54, 125,
     251, 80, 159, 146, 37, 70, 107]"
proof (rule Sum256_fold)
  show "sha256_pad [0, 0, 0, 48, 28, 116, 15, 163, 3, 249, 163, 138, 246, 72, 43, 47, 197, 33, 249, 88, 89, 86, 85, 47, 235, 106,
     131, 218, 34, 128, 179, 205, 88, 110, 248, 126, 0, 0, 0, 0, 0, 0, 0, 0, 0, 0, 0, 0, 0, 0, 0, 0, 0, 0, 0, 0, 0, 0,
     0, 0, 0, 0, 0, 0, 0, 0, 0, 0, 20, 0, 0, 0, 255, 255, 0, 29, 0, 0, 0, 0, 0, 0, 0, 0, 0, 0, 0, 0, 0, 0, 0, 0, 0, 0,
     0, 0, 0, 0, 0, 0, 0, 0, 0, 0, 0, 0, 0, 0] =
    concat [[0, 0, 0, 48, 28, 116, 15, 163, 3, 249, 163, 138, 246, 72, 43, 47, 197, 33, 249, 88, 89, 86, 85, 47, 235, 106,
     131, 218, 34, 128, 179, 205, 88, 110, 248, 126, 0, 0, 0, 0, 0, 0, 0, 0, 0, 0, 0, 0, 0, 0, 0, 0, 0, 0, 0, 0, 0, 0,
     0, 0, 0, 0, 0, 0],
     [0, 0, 0, 0, 20, 0, 0, 0, 255, 255, 0, 29, 0, 0, 0, 0, 0, 0, 0, 0, 0, 0, 0, 0, 0, 0, 0, 0, 0, 0, 0, 0, 0, 0, 0,
     0, 0, 0, 0, 0, 0, 0, 0, 0, 128, 0, 0, 0, 0, 0, 0, 0, 0, 0, 0, 0, 0, 0, 0, 0, 0, 0, 3, 96]]"
    by code_simp
  show "foldl sha256_block sha256_H0 [[0, 0, 0, 48, 28, 116, 15, 163, 3, 249, 163, 138, 246, 72, 43, 47, 197, 33, 249, 88, 89, 86, 85, 47, 235, 106,
     131, 218, 34, 128, 179, 205, 88, 110, 248, 126, 0, 0, 0, 0, 0, 0, 0, 0, 0, 0, 0, 0, 0, 0, 0, 0, 0, 0, 0, 0, 0, 0,
     0, 0, 0, 0, 0, 0],
     [0, 0, 0, 0, 20, 0, 0, 0, 255, 255, 0, 29, 0, 0, 0, 0, 0, 0, 0, 0, 0, 0, 0, 0, 0, 0, 0, 0, 0, 0, 0, 0, 0, 0, 0,
     0, 0, 0, 0, 0, 0, 0, 0, 0, 128, 0, 0, 0, 0, 0, 0, 0, 0, 0, 0, 0, 0, 0, 0, 0, 0, 0, 3, 96]] =
    [656731284, 1749404637, 3221587619, 4039594246, 3423139166, 19703094, 2113622175, 2451916395]"
    by (simp only: foldl.simps sha256_H0_literal header_block_4 header_block_5)
  show "concat (map (\<lambda>w. rev (PutUint32 w)) [656731284, 1749404637, 3221587619, 4039594246, 3423139166, 19703094, 2113622175, 2451916395]) =
    [39, 36, 236, 148, 104, 69, 203, 221, 192, 5, 134, 163, 240, 199, 81, 6, 204, 8, 245, 94, 1, 44, 165, 54, 125,
     251, 80, 159, 146, 37, 70, 107]"
    by code_simp
qed simp

lemma header_block_6: "sha256_block [1779033703, 3144134277, 1013904242, 2773480762, 1359893119, 2600822924, 528734635, 1541459225]
    [39, 36, 236, 148, 104, 69, 203, 221, 192, 5, 134, 163, 240, 199, 81, 6, 204, 8, 245, 94, 1, 44, 165, 54, 125,
     251, 80, 159, 146, 37, 70, 107, 128, 0, 0, 0, 0, 0, 0, 0, 0, 0, 0, 0, 0, 0, 0, 0, 0, 0, 0, 0, 0, 0, 0, 0, 0, 0,
     0, 0, 0, 0, 1, 0] =
    [2642392303, 678944010, 1169949873, 1578925841, 329841699, 1743182323, 2917599520, 1375309292]"
proof (rule sha256_block_bits
    [where W = "[656731284, 1749404637, 3221587619, 4039594246, 3423139166, 19703094, 2113622175, 2451916395, 2147483648, 0, 0,
     0, 0, 0, 0, 256]"
       and R = "[863358600, 1829777029, 156045631, 3100412375, 3264915876, 3437326695, 2388864885, 4128817363]"])
qed (simp, code_simp, simp, simp only: bits_eval, code_simp)

lemma mainHeader_outer: "Sum256 [39, 36, 236, 148, 104, 69, 203, 221, 192, 5, 134, 163, 240, 199, 81, 6, 204, 8, 245, 94, 1, 44, 165, 54, 125,
     251, 80, 159, 146, 37, 70, 107] =
    [157, 127, 180, 239, 40, 119, 221, 10, 69, 188, 4, 177, 94, 28, 127, 17, 19, 168, 252, 35, 103, 230, 217, 243,
     173, 231, 9, 32, 81, 249, 141, 236]"
proof (rule Sum256_fold)
  show "sha256_pad [39, 36, 236, 148, 104, 69, 203, 221, 192, 5, 134, 163, 240, 199, 81, 6, 204, 8, 245, 94, 1, 44, 165, 54, 125,
     251, 80, 159, 146, 37, 70, 107] =
    concat [[39, 36, 236, 148, 104, 69, 203, 221, 192, 5, 134, 163, 240, 199, 81, 6, 204, 8, 245, 94, 1, 44, 165, 54, 125,
     251, 80, 159, 146, 37, 70, 107, 128, 0, 0, 0, 0, 0, 0, 0, 0, 0, 0, 0, 0, 0, 0, 0, 0, 0, 0, 0, 0, 0, 0, 0, 0, 0,
     0, 0, 0, 0, 1, 0]]"
    by code_simp
  show "foldl sha256_block sha256_H0 [[39, 36, 236, 148, 104, 69, 203, 221, 192, 5, 134, 163, 240, 199, 81, 6, 204, 8, 245, 94, 1, 44, 165, 54, 125,
     251, 80, 159, 146, 37, 70, 107, 128, 0, 0, 0, 0, 0, 0, 0, 0, 0, 0, 0, 0, 0, 0, 0, 0, 0, 0, 0, 0, 0, 0, 0, 0, 0,
     0, 0, 0, 0, 1, 0]] =
    [2642392303, 678944010, 1169949873, 1578925841, 329841699, 1743182323, 2917599520, 1375309292]"
    by (simp only: foldl.simps sha256_H0_literal header_block_6)
  show "concat (map (\<lambda>w. rev (PutUint32 w)) [2642392303, 678944010, 1169949873, 1578925841, 329841699, 1743182323, 2917599520, 1375309292]) =
    [157, 127, 180, 239, 40, 119, 221, 10, 69, 188, 4, 177, 94, 28, 127, 17, 19, 168, 252, 35, 103, 230, 217, 243,
     173, 231, 9, 32, 81, 249, 141, 236]"
    by code_simp
qed simp

lemma mainHeader_id: "BlockHash mainHeader =
    [157, 127, 180, 239, 40, 119, 221, 10, 69, 188, 4, 177, 94, 28, 127, 17, 19, 168, 252, 35, 103, 230, 217, 243,
     173, 231, 9, 32, 81, 249, 141, 236]"
proof -
  have "writeBlockHeader mainHeader = [0, 0, 0, 48, 28, 116, 15, 163, 3, 249, 163, 138, 246, 72, 43, 47, 197, 33, 249, 88, 89, 86, 85, 47, 235, 106,
     131, 218, 34, 128, 179, 205, 88, 110, 248, 126, 0, 0, 0, 0, 0, 0, 0, 0, 0, 0, 0, 0, 0, 0, 0, 0, 0, 0, 0, 0, 0, 0,
     0, 0, 0, 0, 0, 0, 0, 0, 0, 0, 20, 0, 0, 0, 255, 255, 0, 29, 0, 0, 0, 0, 0, 0, 0, 0, 0, 0, 0, 0, 0, 0, 0, 0, 0, 0,
     0, 0, 0, 0, 0, 0, 0, 0, 0, 0, 0, 0, 0, 0]"
    by code_simp
  then show ?thesis by (simp only: BlockHash_def DoubleHashRaw_def Let_def mainHeader_inner mainHeader_outer)
qed

lemma header_block_7: "sha256_block [1779033703, 3144134277, 1013904242, 2773480762, 1359893119, 2600822924, 528734635, 1541459225]
    [0, 0, 0, 48, 28, 116, 15, 163, 3, 249, 163, 138, 246, 72, 43, 47, 197, 33, 249, 88, 89, 86, 85, 47, 235, 106,
     131, 218, 34, 128, 179, 205, 88, 110, 248, 126, 0, 0, 0, 0, 0, 0, 0, 0, 0, 0, 0, 0, 0, 0, 0, 0, 0, 0, 0, 0, 0, 0,
     0, 0, 0, 0, 0, 0] =
    [2941695845, 1554066150, 3468162939, 1293307238, 4176922726, 2262826931, 2904378950, 2835083431]"
proof (rule sha256_block_bits
    [where W = "[48, 477368227, 66691978, 4131924783, 3307338072, 1498830127, 3949626330, 578859981, 1483667582, 0, 0, 0, 0, 0,
     0, 0]"
       and R = "[1162662142, 2704899169, 2454258697, 2814793772, 2817029607, 3956971303, 2375644315, 1293624206]"])
qed (simp, code_simp, simp, simp only: bits_eval, code_simp)

lemma header_block_8: "sha256_block [2941695845, 1554066150, 3468162939, 1293307238, 4176922726, 2262826931, 2904378950, 2835083431]
    [0, 0, 0, 0, 21, 0, 0, 0, 255, 255, 0, 28, 0, 0, 0, 0, 0, 0, 0, 0, 0, 0, 0, 0, 0, 0, 0, 0, 0, 0, 0, 0, 0, 0, 0,
     0, 0, 0, 0, 0, 0, 0, 0, 0, 128, 0, 0, 0, 0, 0, 0, 0, 0, 0, 0, 0, 0, 0, 0, 0, 0, 0, 3, 96] =
    [2438929921, 350669315, 1055858075, 1199794944, 514818588, 422005458, 1681451942, 4261850150]"
proof (rule sha256_block_bits
    [where W = "[0, 352321536, 4294901788, 0, 0, 0, 0, 0, 0, 0, 0, 2147483648, 0, 0, 0, 864]"
       and R = "[3792201372, 3091570461, 1882662432, 4201455002, 632863158, 2454145823, 3072040288, 1426766719]"])
qed (simp, code_simp, simp, simp only: bits_eval, code_simp)

lemma sideHeader_inner: "Sum256 [0, 0, 0, 48, 28, 116, 15, 163, 3, 249, 163, 138, 246, 72, 43, 47, 197, 33, 249, 88, 89, 86, 85, 47, 235, 106,
     131, 218, 34, 128, 179, 205, 88, 110, 248, 126, 0, 0, 0, 0, 0, 0, 0, 0, 0, 0, 0, 0, 0, 0, 0, 0, 0, 0, 0, 0, 0, 0,
     0, 0, 0, 0, 0, 0, 0, 0, 0, 0, 21, 0, 0, 0, 255, 255, 0, 28, 0, 0, 0, 0, 0, 0, 0, 0, 0, 0, 0, 0, 0, 0, 0, 0, 0, 0,
     0, 0, 0, 0, 0, 0, 0, 0, 0, 0, 0, 0, 0, 0] =
    [145, 95, 30, 1, 20, 230, 202, 3, 62, 239, 29, 155, 71, 131, 107, 0, 30, 175, 130, 28, 25, 39, 74, 210, 100, 56,
     235, 166, 254, 6, 172, 38]"
proof (rule Sum256_fold)
  show "sha256_pad [0, 0, 0, 48, 28, 116, 15, 163, 3, 249, 163, 138, 246, 72, 43, 47, 197, 33, 249, 88, 89, 86, 85, 47, 235, 106,
     131, 218, 34, 128, 179, 205, 88, 110, 248, 126, 0, 0, 0, 0, 0, 0, 0, 0, 0, 0, 0, 0, 0, 0, 0, 0, 0, 0, 0, 0, 0, 0,
     0, 0, 0, 0, 0, 0, 0, 0, 0, 0, 21, 0, 0, 0, 255, 255, 0, 28, 0, 0, 0, 0, 0, 0, 0, 0, 0, 0, 0, 0, 0, 0, 0, 0, 0, 0,
     0, 0, 0, 0, 0, 0, 0, 0, 0, 0, 0, 0, 0, 0] =
    concat [[0, 0, 0, 48, 28, 116, 15, 163, 3, 249, 163, 138, 246, 72, 43, 47, 197, 33, 249, 88, 89, 86, 85, 47, 235, 106,
     131, 218, 34, 128, 179, 205, 88, 110, 248, 126, 0, 0, 0, 0, 0, 0, 0, 0, 0, 0, 0, 0, 0, 0, 0, 0, 0, 0, 0, 0, 0, 0,
     0, 0, 0, 0, 0, 0],
     [0, 0, 0, 0, 21, 0, 0, 0, 255, 255, 0, 28, 0, 0, 0, 0, 0, 0, 0, 0, 0, 0, 0, 0, 0, 0, 0, 0, 0, 0, 0, 0, 0, 0, 0,
     0, 0, 0, 0, 0, 0, 0, 0, 0, 128, 0, 0, 0, 0, 0, 0, 0, 0, 0, 0, 0, 0, 0, 0, 0, 0, 0, 3, 96]]"
    by code_simp
  show "foldl sha256_block sha256_H0 [[0, 0, 0, 48, 28, 116, 15, 163, 3, 249, 163, 138, 246, 72, 43, 47, 197, 33, 249, 88, 89, 86, 85, 47, 235, 106,
     131, 218, 34, 128, 179, 205, 88, 110, 248, 126, 0, 0, 0, 0, 0, 0, 0, 0, 0, 0, 0, 0, 0, 0, 0, 0, 0, 0, 0, 0, 0, 0,
     0, 0, 0, 0, 0, 0],
     [0, 0, 0, 0, 21, 0, 0, 0, 255, 255, 0, 28, 0, 0, 0, 0, 0, 0, 0, 0, 0, 0, 0, 0, 0, 0, 0, 0, 0, 0, 0, 0, 0, 0, 0,
     0, 0, 0, 0, 0, 0, 0, 0, 0, 128, 0, 0, 0, 0, 0, 0, 0, 0, 0, 0, 0, 0, 0, 0, 0, 0, 0, 3, 96]] =
    [2438929921, 350669315, 1055858075, 1199794944, 514818588, 422005458, 1681451942, 4261850150]"
    by (simp only: foldl.simps sha256_H0_literal header_block_7 header_block_8)
  show "concat (map (\<lambda>w. rev (PutUint32 w)) [2438929921, 350669315, 1055858075, 1199794944, 514818588, 422005458, 1681451942, 4261850150]) =
    [145, 95, 30, 1, 20, 230, 202, 3, 62, 239, 29, 155, 71, 131, 107, 0, 30, 175, 130, 28, 25, 39, 74, 210, 100, 56,
     235, 166, 254, 6, 172, 38]"
    by code_simp
qed simp

lemma header_block_9: "sha256_block [1779033703, 3144134277, 1013904242, 2773480762, 1359893119, 2600822924, 528734635, 1541459225]
    [145, 95, 30, 1, 20, 230, 202, 3, 62, 239, 29, 155, 71, 131, 107, 0, 30, 175, 130, 28, 25, 39, 74, 210, 100, 56,
     235, 166, 254, 6, 172, 38, 128, 0, 0, 0, 0, 0, 0, 0, 0, 0, 0, 0, 0, 0, 0, 0, 0, 0, 0, 0, 0, 0, 0, 0, 0, 0, 0, 0,
     0, 0, 1, 0] =
    [2766813926, 449823561, 3538726681, 1574817612, 1665323306, 1890468445, 1741471120, 2233053197]"
proof (rule sha256_block_bits
    [where W = "[2438929921, 350669315, 1055858075, 1199794944, 514818588, 422005458, 1681451942, 4261850150, 2147483648, 0, 0,
     0, 0, 0, 0, 256]"
       and R = "[987780223, 1600656580, 2524822439, 3096304146, 305430187, 3584612817, 1212736485, 691593972]"])
qed (simp, code_simp, simp, simp only: bits_eval, code_simp)

lemma sideHeader_outer: "Sum256 [145, 95, 30, 1, 20, 230, 202, 3, 62, 239, 29, 155, 71, 131, 107, 0, 30, 175, 130, 28, 25, 39, 74, 210, 100, 56,
     235, 166, 254, 6, 172, 38] =
    [164, 234, 58, 230, 26, 207, 195, 73, 210, 236, 175, 25, 93, 221, 207, 76, 99, 66, 209, 42, 112, 174, 66, 93,
     103, 204, 189, 144, 133, 25, 176, 13]"
proof (rule Sum256_fold)
  show "sha256_pad [145, 95, 30, 1, 20, 230, 202, 3, 62, 239, 29, 155, 71, 131, 107, 0, 30, 175, 130, 28, 25, 39, 74, 210, 100, 56,
     235, 166, 254, 6, 172, 38] =
    concat [[145, 95, 30, 1, 20, 230, 202, 3, 62, 239, 29, 155, 71, 131, 107, 0, 30, 175, 130, 28, 25, 39, 74, 210, 100, 56,
     235, 166, 254, 6, 172, 38, 128, 0, 0, 0, 0, 0, 0, 0, 0, 0, 0, 0, 0, 0, 0, 0, 0, 0, 0, 0, 0, 0, 0, 0, 0, 0, 0, 0,
     0, 0, 1, 0]]"
    by code_simp
  show "foldl sha256_block sha256_H0 [[145, 95, 30, 1, 20, 230, 202, 3, 62, 239, 29, 155, 71, 131, 107, 0, 30, 175, 130, 28, 25, 39, 74, 210, 100, 56,
     235, 166, 254, 6, 172, 38, 128, 0, 0, 0, 0, 0, 0, 0, 0, 0, 0, 0, 0, 0, 0, 0, 0, 0, 0, 0, 0, 0, 0, 0, 0, 0, 0, 0,
     0, 0, 1, 0]] =
    [2766813926, 449823561, 3538726681, 1574817612, 1665323306, 1890468445, 1741471120, 2233053197]"
    by (simp only: foldl.simps sha256_H0_literal header_block_9)
  show "concat (map (\<lambda>w. rev (PutUint32 w)) [2766813926, 449823561, 3538726681, 1574817612, 1665323306, 1890468445, 1741471120, 2233053197]) =
    [164, 234, 58, 230, 26, 207, 195, 73, 210, 236, 175, 25, 93, 221, 207, 76, 99, 66, 209, 42, 112, 174, 66, 93,
     103, 204, 189, 144, 133, 25, 176, 13]"
    by code_simp
qed simp

lemma sideHeader_id: "BlockHash sideHeader =
    [164, 234, 58, 230, 26, 207, 195, 73, 210, 236, 175, 25, 93, 221, 207, 76, 99, 66, 209, 42, 112, 174, 66, 93,
     103, 204, 189, 144, 133, 25, 176, 13]"
proof -
  have "writeBlockHeader sideHeader = [0, 0, 0, 48, 28, 116, 15, 163, 3, 249, 163, 138, 246, 72, 43, 47, 197, 33, 249, 88, 89, 86, 85, 47, 235, 106,
     131, 218, 34, 128, 179, 205, 88, 110, 248, 126, 0, 0, 0, 0, 0, 0, 0, 0, 0, 0, 0, 0, 0, 0, 0, 0, 0, 0, 0, 0, 0, 0,
     0, 0, 0, 0, 0, 0, 0, 0, 0, 0, 21, 0, 0, 0, 255, 255, 0, 28, 0, 0, 0, 0, 0, 0, 0, 0, 0, 0, 0, 0, 0, 0, 0, 0, 0, 0,
     0, 0, 0, 0, 0, 0, 0, 0, 0, 0, 0, 0, 0, 0]"
    by code_simp
  then show ?thesis by (simp only: BlockHash_def DoubleHashRaw_def Let_def sideHeader_inner sideHeader_outer)
qed

definition nextHeader :: BlockHeader where
  "nextHeader = treeHeader (BlockHash mainHeader) 30 0x1d00ffff"

lemma nextHeader_bytes: "writeBlockHeader nextHeader =
    [0, 0, 0, 48, 157, 127, 180, 239, 40, 119, 221, 10, 69, 188, 4, 177, 94, 28, 127, 17, 19, 168, 252, 35, 103, 230,
     217, 243, 173, 231, 9, 32, 81, 249, 141, 236, 0, 0, 0, 0, 0, 0, 0, 0, 0, 0, 0, 0, 0, 0, 0, 0, 0, 0, 0, 0, 0, 0,
     0, 0, 0, 0, 0, 0, 0, 0, 0, 0, 30, 0, 0, 0, 255, 255, 0, 29, 0, 0, 0, 0, 0, 0, 0, 0, 0, 0, 0, 0, 0, 0, 0, 0, 0, 0,
     0, 0, 0, 0, 0, 0, 0, 0, 0, 0, 0, 0, 0, 0]"
  unfolding nextHeader_def mainHeader_id by code_simp

lemma header_block_10: "sha256_block [1779033703, 3144134277, 1013904242, 2773480762, 1359893119, 2600822924, 528734635, 1541459225]
    [0, 0, 0, 48, 157, 127, 180, 239, 40, 119, 221, 10, 69, 188, 4, 177, 94, 28, 127, 17, 19, 168, 252, 35, 103, 230,
     217, 243, 173, 231, 9, 32, 81, 249, 141, 236, 0, 0, 0, 0, 0, 0, 0, 0, 0, 0, 0, 0, 0, 0, 0, 0, 0, 0, 0, 0, 0, 0,
     0, 0, 0, 0, 0, 0] =
    [3988445000, 437778290, 1845555137, 3885743743, 2153135391, 283448924, 508843402, 39041593]"
proof (rule sha256_block_bits
    [where W = "[48, 2642392303, 678944010, 1169949873, 1578925841, 329841699, 1743182323, 2917599520, 1375309292, 0, 0, 0, 0, 0,
     0, 0]"
       and R = "[2209411297, 1588611309, 831650895, 1112262981, 793242272, 1977593296, 4275076063, 2792549664]"])
qed (simp, code_simp, simp, simp only: bits_eval, code_simp)

lemma header_block_11: "sha256_block [3988445000, 437778290, 1845555137, 3885743743, 2153135391, 283448924, 508843402, 39041593]
    [0, 0, 0, 0, 30, 0, 0, 0, 255, 255, 0, 29, 0, 0, 0, 0, 0, 0, 0, 0, 0, 0, 0, 0, 0, 0, 0, 0, 0, 0, 0, 0, 0, 0, 0,
     0, 0, 0, 0, 0, 0, 0, 0, 0, 128, 0, 0, 0, 0, 0, 0, 0, 0, 0, 0, 0, 0, 0, 0, 0, 0, 0, 3, 96] =
    [2112306820, 2154523424, 1164946835, 4234038701, 764664785, 3384811696, 1838854348, 2903191693]"
proof (rule sha256_block_bits
    [where W = "[0, 503316480, 4294901789, 0, 0, 0, 0, 0, 0, 0, 0, 2147483648, 0, 0, 0, 864]"
       and R = "[2418829116, 1716745134, 3614358994, 348294958, 2906496690, 3101362772, 1330010946, 2864150100]"])
qed (simp, code_simp, simp, simp only: bits_eval, code_simp)

lemma nextHeader_inner: "Sum256 [0, 0, 0, 48, 157, 127, 180, 239, 40, 119, 221, 10, 69, 188, 4, 177, 94, 28, 127, 17, 19, 168, 252, 35, 103, 230,
     217, 243, 173, 231, 9, 32, 81, 249, 141, 236, 0, 0, 0, 0, 0, 0, 0, 0, 0, 0, 0, 0, 0, 0, 0, 0, 0, 0, 0, 0, 0, 0,
     0, 0, 0, 0, 0, 0, 0, 0, 0, 0, 30, 0, 0, 0, 255, 255, 0, 29, 0, 0, 0, 0, 0, 0, 0, 0, 0, 0, 0, 0, 0, 0, 0, 0, 0, 0,
     0, 0, 0, 0, 0, 0, 0, 0, 0, 0, 0, 0, 0, 0] =
    [125, 231, 62, 132, 128, 107, 107, 32, 69, 111, 173, 147, 252, 94, 77, 173, 45, 147, 219, 209, 201, 192, 32, 176,
     109, 154, 176, 204, 173, 11, 48, 141]"
proof (rule Sum256_fold)
  show "sha256_pad [0, 0, 0, 48, 157, 127, 180, 239, 40, 119, 221, 10, 69, 188, 4, 177, 94, 28, 127, 17, 19, 168, 252, 35, 103, 230,
     217, 243, 173, 231, 9, 32, 81, 249, 141, 236, 0, 0, 0, 0, 0, 0, 0, 0, 0, 0, 0, 0, 0, 0, 0, 0, 0, 0, 0, 0, 0, 0,
     0, 0, 0, 0, 0, 0, 0, 0, 0, 0, 30, 0, 0, 0, 255, 255, 0, 29, 0, 0, 0, 0, 0, 0, 0, 0, 0, 0, 0, 0, 0, 0, 0, 0, 0, 0,
     0, 0, 0, 0, 0, 0, 0, 0, 0, 0, 0, 0, 0, 0] =
    concat [[0, 0, 0, 48, 157, 127, 180, 239, 40, 119, 221, 10, 69, 188, 4, 177, 94, 28, 127, 17, 19, 168, 252, 35, 103, 230,
     217, 243, 173, 231, 9, 32, 81, 249, 141, 236, 0, 0, 0, 0, 0, 0, 0, 0, 0, 0, 0, 0, 0, 0, 0, 0, 0, 0, 0, 0, 0, 0,
     0, 0, 0, 0, 0, 0],
     [0, 0, 0, 0, 30, 0, 0, 0, 255, 255, 0, 29, 0, 0, 0, 0, 0, 0, 0, 0, 0, 0, 0, 0, 0, 0, 0, 0, 0, 0, 0, 0, 0, 0, 0,
     0, 0, 0, 0, 0, 0, 0, 0, 0, 128, 0, 0, 0, 0, 0, 0, 0, 0, 0, 0, 0, 0, 0, 0, 0, 0, 0, 3, 96]]"
    by code_simp
  show "foldl sha256_block sha256_H0 [[0, 0, 0, 48, 157, 127, 180, 239, 40, 119, 221, 10, 69, 188, 4, 177, 94, 28, 127, 17, 19, 168, 252, 35, 103, 230,
     217, 243, 173, 231, 9, 32, 81, 249, 141, 236, 0, 0, 0, 0, 0, 0, 0, 0, 0, 0, 0, 0, 0, 0, 0, 0, 0, 0, 0, 0, 0, 0,
     0, 0, 0, 0, 0, 0],
     [0, 0, 0, 0, 30, 0, 0, 0, 255, 255, 0, 29, 0, 0, 0, 0, 0, 0, 0, 0, 0, 0, 0, 0, 0, 0, 0, 0, 0, 0, 0, 0, 0, 0, 0,
     0, 0, 0, 0, 0, 0, 0, 0, 0, 128, 0, 0, 0, 0, 0, 0, 0, 0, 0, 0, 0, 0, 0, 0, 0, 0, 0, 3, 96]] =
    [2112306820, 2154523424, 1164946835, 4234038701, 764664785, 3384811696, 1838854348, 2903191693]"
    by (simp only: foldl.simps sha256_H0_literal header_block_10 header_block_11)
  show "concat (map (\<lambda>w. rev (PutUint32 w)) [2112306820, 2154523424, 1164946835, 4234038701, 764664785, 3384811696, 1838854348, 2903191693]) =
    [125, 231, 62, 132, 128, 107, 107, 32, 69, 111, 173, 147, 252, 94, 77, 173, 45, 147, 219, 209, 201, 192, 32, 176,
     109, 154, 176, 204, 173, 11, 48, 141]"
    by code_simp
qed simp

lemma header_block_12: "sha256_block [1779033703, 3144134277, 1013904242, 2773480762, 1359893119, 2600822924, 528734635, 1541459225]
    [125, 231, 62, 132, 128, 107, 107, 32, 69, 111, 173, 147, 252, 94, 77, 173, 45, 147, 219, 209, 201, 192, 32, 176,
     109, 154, 176, 204, 173, 11, 48, 141, 128, 0, 0, 0, 0, 0, 0, 0, 0, 0, 0, 0, 0, 0, 0, 0, 0, 0, 0, 0, 0, 0, 0, 0,
     0, 0, 0, 0, 0, 0, 1, 0] =
    [401522491, 495118702, 2637478667, 1741421771, 3600891210, 3178715974, 2151983695, 4100515306]"
proof (rule sha256_block_bits
    [where W = "[2112306820, 2154523424, 1164946835, 4234038701, 764664785, 3384811696, 1838854348, 2903191693, 2147483648, 0, 0,
     0, 0, 0, 0, 256]"
       and R = "[2917456084, 1645951721, 1623574425, 3262908305, 2240998091, 577893050, 1623249060, 2559056081]"])
qed (simp, code_simp, simp, simp only: bits_eval, code_simp)

lemma nextHeader_outer: "Sum256 [125, 231, 62, 132, 128, 107, 107, 32, 69, 111, 173, 147, 252, 94, 77, 173, 45, 147, 219, 209, 201, 192, 32, 176,
     109, 154, 176, 204, 173, 11, 48, 141] =
    [23, 238, 191, 59, 29, 130, 233, 110, 157, 52, 187, 11, 103, 203, 252, 203, 214, 161, 61, 74, 189, 119, 91, 70,
     128, 68, 170, 79, 244, 104, 229, 234]"
proof (rule Sum256_fold)
  show "sha256_pad [125, 231, 62, 132, 128, 107, 107, 32, 69, 111, 173, 147, 252, 94, 77, 173, 45, 147, 219, 209, 201, 192, 32, 176,
     109, 154, 176, 204, 173, 11, 48, 141] =
    concat [[125, 231, 62, 132, 128, 107, 107, 32, 69, 111, 173, 147, 252, 94, 77, 173, 45, 147, 219, 209, 201, 192, 32, 176,
     109, 154, 176, 204, 173, 11, 48, 141, 128, 0, 0, 0, 0, 0, 0, 0, 0, 0, 0, 0, 0, 0, 0, 0, 0, 0, 0, 0, 0, 0, 0, 0,
     0, 0, 0, 0, 0, 0, 1, 0]]"
    by code_simp
  show "foldl sha256_block sha256_H0 [[125, 231, 62, 132, 128, 107, 107, 32, 69, 111, 173, 147, 252, 94, 77, 173, 45, 147, 219, 209, 201, 192, 32, 176,
     109, 154, 176, 204, 173, 11, 48, 141, 128, 0, 0, 0, 0, 0, 0, 0, 0, 0, 0, 0, 0, 0, 0, 0, 0, 0, 0, 0, 0, 0, 0, 0,
     0, 0, 0, 0, 0, 0, 1, 0]] =
    [401522491, 495118702, 2637478667, 1741421771, 3600891210, 3178715974, 2151983695, 4100515306]"
    by (simp only: foldl.simps sha256_H0_literal header_block_12)
  show "concat (map (\<lambda>w. rev (PutUint32 w)) [401522491, 495118702, 2637478667, 1741421771, 3600891210, 3178715974, 2151983695, 4100515306]) =
    [23, 238, 191, 59, 29, 130, 233, 110, 157, 52, 187, 11, 103, 203, 252, 203, 214, 161, 61, 74, 189, 119, 91, 70,
     128, 68, 170, 79, 244, 104, 229, 234]"
    by code_simp
qed simp

lemma nextHeader_id: "BlockHash nextHeader =
    [23, 238, 191, 59, 29, 130, 233, 110, 157, 52, 187, 11, 103, 203, 252, 203, 214, 161, 61, 74, 189, 119, 91, 70,
     128, 68, 170, 79, 244, 104, 229, 234]"
  by (simp only: BlockHash_def DoubleHashRaw_def Let_def nextHeader_bytes nextHeader_inner nextHeader_outer)

lemma rootHeader_hash: "BlockHash rootHeader = rootHash"
  by (simp only: rootHeader_id rootHash_def)

lemma headers_distinct:
  "rootHash \<noteq> BlockHash mainHeader" "rootHash \<noteq> BlockHash sideHeader" "rootHash \<noteq> BlockHash nextHeader"
  "BlockHash mainHeader \<noteq> BlockHash sideHeader" "BlockHash mainHeader \<noteq> BlockHash nextHeader"
  "BlockHash sideHeader \<noteq> BlockHash nextHeader"
  unfolding rootHash_def mainHeader_id sideHeader_id nextHeader_id by code_simp+

section \<open>The tree\<close>

definition rootNode :: blockNode where "rootNode = newBlockNode rootHeader None 0"
definition mainNode :: blockNode where "mainNode = newBlockNode mainHeader (Some rootNode) 0"
definition sideNode :: blockNode where "sideNode = newBlockNode sideHeader (Some rootNode) 0"
definition nextNode :: blockNode where "nextNode = newBlockNode nextHeader (Some mainNode) 0"

lemma tree_parents [simp]: "parent rootNode = None" "parent mainNode = Some rootNode" "parent sideNode = Some rootNode" "parent nextNode = Some mainNode"
  by (simp_all add: rootNode_def mainNode_def sideNode_def nextNode_def newBlockNode_extend newBlockNode_genesis)

lemma tree_heights [simp]: "node_height rootNode = 0"
  by (simp add: rootNode_def newBlockNode_genesis)

lemma tree_heights_1 [simp]: "node_height mainNode = 1" "node_height sideNode = 1"
  by (simp_all add: mainNode_def sideNode_def newBlockNode_extend int32_id)

lemma tree_heights_2 [simp]: "node_height nextNode = 2"
  by (simp add: nextNode_def newBlockNode_extend int32_id)

lemma tree_chain [simp]: "chain_node rootNode"
  unfolding rootNode_def by (intro chain_node.intros)

lemma tree_chain_1 [simp]: "chain_node mainNode" "chain_node sideNode"
  unfolding mainNode_def sideNode_def by (intro chain_node.intros tree_chain; simp)+

lemma tree_chain_2 [simp]: "chain_node nextNode"
  unfolding nextNode_def by (intro chain_node.intros tree_chain_1) simp

lemma tree_hashes [simp]:
  "nhash (nfields rootNode) = rootHash" "nhash (nfields mainNode) = BlockHash mainHeader"
  "nhash (nfields sideNode) = BlockHash sideHeader" "nhash (nfields nextNode) = BlockHash nextHeader"
  by (simp_all add: rootNode_def mainNode_def sideNode_def nextNode_def rootHeader_hash)

lemma tree_times [simp]:
  "timestamp (nfields rootNode) = 10" "timestamp (nfields mainNode) = 20" "timestamp (nfields sideNode) = 21" "timestamp (nfields nextNode) = 30"
  by (simp_all add: rootNode_def mainNode_def sideNode_def nextNode_def rootHeader_def mainHeader_def sideHeader_def nextHeader_def treeHeader_def)

lemma tree_versions [simp]:
  "nversion (nfields rootNode) = 0x30000000" "nversion (nfields mainNode) = 0x30000000"
  "nversion (nfields sideNode) = 0x30000000" "nversion (nfields nextNode) = 0x30000000"
  by (simp_all add: rootNode_def mainNode_def sideNode_def nextNode_def rootHeader_def mainHeader_def sideHeader_def nextHeader_def treeHeader_def)

lemma tree_distinct [simp]:
  "rootNode \<noteq> mainNode" "rootNode \<noteq> sideNode" "rootNode \<noteq> nextNode" "mainNode \<noteq> sideNode" "mainNode \<noteq> nextNode" "sideNode \<noteq> nextNode"
  using headers_distinct tree_hashes by metis+

end
