(* ===== verification/Threshold.thy ===== *)
theory Threshold
  imports State_Error Header_Examples
begin

text \<open>
  Voting on rule changes (\<^verbatim>\<open>node/blockchain/thresholdstate.go\<close>, \<^verbatim>\<open>node/blockchain/versionbits.go\<close> and
  \<^verbatim>\<open>node/chaincfg/deployment_time_frame.go\<close>): the state machine of a deployment over windows of blocks, the caches of states per window,
  the version the next block is expected to have, and the warnings about unknown rules.

  The state machine is shared by two checkers of conditions, one for the deployments of the network and one that looks for
  unknown bits; the latter asks for the expected version and so reads and updates the caches of the former.  The interface between them is the locale
  \<open>voting\<close>, interpreted for both.
\<close>

unbundle bit_operations_syntax

section \<open>Deployments\<close>

text \<open>The zero time, which stands for no bound, is \<open>None\<close>.\<close>

record ConsensusDeployment =
  BitNumber :: "8 word"
  MinActivationHeight :: "32 word"
  CustomActivationThreshold :: "32 word"
  AlwaysActiveHeight :: "32 word"
  startTime :: "int option"
  endTime :: "int option"

record votingParams =
  RuleChangeActivationThreshold :: "32 word"
  MinerConfirmationWindow :: "32 word"
  Deployments :: "ConsensusDeployment list"

definition EffectiveAlwaysActiveHeight :: "ConsensusDeployment \<Rightarrow> 32 word" where
  "EffectiveAlwaysActiveHeight d = (if AlwaysActiveHeight d = 0 then 0xffffffff else AlwaysActiveHeight d)"

definition dummyStart :: int where "dummyStart = unixTime 1767225601"
definition dummyEnd :: int where "dummyEnd = unixTime 1777247999"

definition MainNetVoting :: votingParams where
  "MainNetVoting = \<lparr>RuleChangeActivationThreshold = 1916, MinerConfirmationWindow = 2016, Deployments =
     [\<lparr>BitNumber = 28, MinActivationHeight = 0, CustomActivationThreshold = 0, AlwaysActiveHeight = 0,
        startTime = Some dummyStart, endTime = Some dummyEnd\<rparr>,
      \<lparr>BitNumber = 22, MinActivationHeight = 100000, CustomActivationThreshold = 1815, AlwaysActiveHeight = 0,
        startTime = Some dummyStart, endTime = Some dummyEnd\<rparr>,
      \<lparr>BitNumber = 30, MinActivationHeight = 0, CustomActivationThreshold = 0, AlwaysActiveHeight = 1,
        startTime = None, endTime = None\<rparr>]\<rparr>"

definition RegressionNetVoting :: votingParams where
  "RegressionNetVoting = \<lparr>RuleChangeActivationThreshold = 108, MinerConfirmationWindow = 144, Deployments =
     [\<lparr>BitNumber = 28, MinActivationHeight = 0, CustomActivationThreshold = 0, AlwaysActiveHeight = 0,
        startTime = None, endTime = None\<rparr>,
      \<lparr>BitNumber = 22, MinActivationHeight = 600, CustomActivationThreshold = 72, AlwaysActiveHeight = 0,
        startTime = None, endTime = None\<rparr>,
      \<lparr>BitNumber = 30, MinActivationHeight = 0, CustomActivationThreshold = 0, AlwaysActiveHeight = 1,
        startTime = None, endTime = None\<rparr>]\<rparr>"

text \<open>The block clock: \<open>None\<close> is an error, for a block without a parent in the index.\<close>

definition PastMedianTime :: "blockIndex \<Rightarrow> blockNode \<Rightarrow> int option" where
  "PastMedianTime index blockHeader =
     (case parent blockHeader of
        None \<Rightarrow> None
      | Some p \<Rightarrow> (case LookupNode index (nhash (nfields p)) of
          None \<Rightarrow> None
        | Some prevNode \<Rightarrow>
            let f = nfields blockHeader in
            Some (CalcPastMedianTime (BlockNode (Some prevNode) None
              \<lparr>nhash = nhash f, workSum = 0, height = height f, nversion = 0, nbits = nbits f, timestamp = timestamp f,
               nmerkleRoot = zeroHash, nproofCommitment = zeroHash, vsize = 0\<rparr>))))"

definition DeploymentStarter_HasStarted :: "blockIndex \<Rightarrow> int option \<Rightarrow> blockNode \<Rightarrow> bool option" where
  "DeploymentStarter_HasStarted index start blkHeader =
     (case start of
        None \<Rightarrow> Some True
      | Some t \<Rightarrow> map_option (\<lambda>medianTime. medianTime > t \<or> medianTime = t) (PastMedianTime index blkHeader))"

definition DeploymentEnder_HasEnded :: "blockIndex \<Rightarrow> int option \<Rightarrow> blockNode \<Rightarrow> bool option" where
  "DeploymentEnder_HasEnded index end_time blkHeader =
     (case end_time of
        None \<Rightarrow> Some False
      | Some t \<Rightarrow> map_option (\<lambda>medianTime. medianTime > t \<or> medianTime = t) (PastMedianTime index blkHeader))"

section \<open>The state machine\<close>

datatype ThresholdState = ThresholdDefined | ThresholdStarted | ThresholdLockedIn | ThresholdActive | ThresholdFailed

type_synonym thresholdStateCache = "hash \<rightharpoonup> ThresholdState"

text \<open>The interface of a checker; testing the condition may change a state of its own, of type \<open>'s\<close>.\<close>

record 's thresholdConditionChecker =
  HasStarted :: "blockNode \<Rightarrow> bool"
  HasEnded :: "blockNode \<Rightarrow> bool"
  ActivationThreshold :: "32 word"
  ConfirmationWindow :: "32 word"
  EligibleToActivate :: "blockNode \<Rightarrow> bool"
  IsSpeedy :: bool
  Condition :: "blockNode \<Rightarrow> ('s, chainError, bool) stateE"
  ForceActive :: "blockNode option \<Rightarrow> bool"

text \<open>The votes in the window that ends with a node.\<close>

fun countVotes :: "'s thresholdConditionChecker \<Rightarrow> nat \<Rightarrow> blockNode option \<Rightarrow> 32 word \<Rightarrow> ('s, chainError, 32 word) stateE" where
  "countVotes checker 0 countNode votes = returnS votes"
| "countVotes checker (Suc i) None votes = readS (\<lambda>_. Inl GoPanic)"
| "countVotes checker (Suc i) (Some countNode) votes =
     bindS (Condition checker countNode) (\<lambda>condition.
       countVotes checker i (parent countNode) (if condition then votes + 1 else votes))"

definition thresholdStateTransition ::
  "ThresholdState \<Rightarrow> blockNode \<Rightarrow> 's thresholdConditionChecker \<Rightarrow> int \<Rightarrow> ('s, chainError, ThresholdState) stateE" where
  "thresholdStateTransition state prevNode checker confirmationWindow =
     (case state of
        ThresholdDefined \<Rightarrow>
          if \<not> IsSpeedy checker \<and> HasEnded checker prevNode then returnS ThresholdFailed
          else if HasStarted checker prevNode then returnS ThresholdStarted
          else returnS state
      | ThresholdStarted \<Rightarrow>
          if \<not> IsSpeedy checker \<and> HasEnded checker prevNode then returnS ThresholdFailed
          else bindS (countVotes checker (nat confirmationWindow) (Some prevNode) 0) (\<lambda>votes.
            if votes \<ge> ActivationThreshold checker then returnS ThresholdLockedIn
            else if IsSpeedy checker \<and> HasEnded checker prevNode then returnS ThresholdFailed
            else returnS state)
      | ThresholdLockedIn \<Rightarrow>
          if \<not> EligibleToActivate checker prevNode then returnS ThresholdLockedIn else returnS ThresholdActive
      | ThresholdActive \<Rightarrow> returnS state
      | ThresholdFailed \<Rightarrow> returnS state)"

text \<open>
  The walk back to the last window whose state is known: the node of that window, if there is one, the nodes of the windows to calculate, newest
  first, and the cache.  It has fuel; \<open>None\<close> is that it did not end.
\<close>

fun windowsBack :: "nat \<Rightarrow> 's thresholdConditionChecker \<Rightarrow> int \<Rightarrow> blockNode option \<Rightarrow> blockNode list \<Rightarrow> thresholdStateCache \<Rightarrow>
    (blockNode option \<times> blockNode list \<times> thresholdStateCache) option" where
  "windowsBack fuel checker window None neededStates cache = Some (None, neededStates, cache)"
| "windowsBack 0 checker window (Some prevNode) neededStates cache = None"
| "windowsBack (Suc fuel) checker window (Some prevNode) neededStates cache =
     (let h = nhash (nfields prevNode) in
      if cache h \<noteq> None then Some (Some prevNode, neededStates, cache)
      else if \<not> HasStarted checker prevNode then Some (Some prevNode, neededStates, cache(h \<mapsto> ThresholdDefined))
      else windowsBack fuel checker window (RelativeAncestor prevNode window) (neededStates @ [prevNode]) cache)"

text \<open>The states of the windows, oldest first, each from the one before.\<close>

fun calcStates :: "'s thresholdConditionChecker \<Rightarrow> int \<Rightarrow> blockNode list \<Rightarrow> ThresholdState \<Rightarrow>
    (thresholdStateCache \<times> 's, chainError, ThresholdState) stateE" where
  "calcStates checker window [] state (cache, s) = (Inr state, cache, s)"
| "calcStates checker window (prevNode # rest) state (cache, s) =
     (case thresholdStateTransition state prevNode checker window s of
        (Inl e, s) \<Rightarrow> (Inl e, cache, s)
      | (Inr state, s) \<Rightarrow> calcStates checker window rest state (cache(nhash (nfields prevNode) \<mapsto> state), s))"

definition thresholdState ::
  "blockNode option \<Rightarrow> 's thresholdConditionChecker \<Rightarrow> (thresholdStateCache \<times> 's, chainError, ThresholdState) stateE" where
  "thresholdState prevNode checker st =
     (let confirmationWindow = int32 (uint (ConfirmationWindow checker)); (cache, s) = st in
      if ForceActive checker prevNode then (Inr ThresholdActive, st)
      else case prevNode of
        None \<Rightarrow> (Inr ThresholdDefined, st)
      | Some node \<Rightarrow>
          if int32 (node_height node + 1) < confirmationWindow then (Inr ThresholdDefined, st)
          else if confirmationWindow = 0 then (Inl GoPanic, st)
          else
            let next = int32 (node_height node + 1);
                into = next - go_div next confirmationWindow * confirmationWindow in
            (case windowsBack (nat (node_height node) + 2) checker confirmationWindow (Ancestor node (int32 (node_height node - into))) [] cache of
               None \<Rightarrow> (Inl GoPanic, st)
             | Some (lastNode, neededStates, cache) \<Rightarrow>
                 (case lastNode of
                    None \<Rightarrow> calcStates checker confirmationWindow (rev neededStates) ThresholdDefined (cache, s)
                  | Some known \<Rightarrow> (case cache (nhash (nfields known)) of
                      None \<Rightarrow> (Inl AssertError, cache, s)
                    | Some state \<Rightarrow> calcStates checker confirmationWindow (rev neededStates) state (cache, s)))))"

section \<open>The checkers\<close>

definition vbTopBits :: "32 word" where "vbTopBits = 0x20000000"
definition vbTopMask :: "32 word" where "vbTopMask = 0xe0000000"
definition vbNumBits :: nat where "vbNumBits = 29"

definition deploymentChecker :: "votingParams \<Rightarrow> blockIndex \<Rightarrow> ConsensusDeployment \<Rightarrow> 's thresholdConditionChecker" where
  "deploymentChecker params index deployment = \<lparr>
     HasStarted = (\<lambda>blkNode. DeploymentStarter_HasStarted index (startTime deployment) blkNode = Some True),
     HasEnded = (\<lambda>blkNode. DeploymentEnder_HasEnded index (endTime deployment) blkNode = Some True),
     ActivationThreshold = (if CustomActivationThreshold deployment \<noteq> 0 then CustomActivationThreshold deployment
       else RuleChangeActivationThreshold params),
     ConfirmationWindow = MinerConfirmationWindow params,
     EligibleToActivate = (\<lambda>blkNode. if MinActivationHeight deployment = 0 then True
       else word_of_int (node_height blkNode) + 1 \<ge> MinActivationHeight deployment),
     IsSpeedy = (MinActivationHeight deployment \<noteq> 0 \<or> CustomActivationThreshold deployment \<noteq> 0),
     Condition = (\<lambda>node. returnS (nversion (nfields node) AND vbTopMask = vbTopBits \<and>
       nversion (nfields node) AND push_bit (unat (BitNumber deployment)) 1 \<noteq> 0)),
     ForceActive = (\<lambda>nodeOpt. case nodeOpt of None \<Rightarrow> False
       | Some node \<Rightarrow> word_of_int (node_height node) + 1 \<ge> EffectiveAlwaysActiveHeight deployment)\<rparr>"

text \<open>One cache for each deployment; an index without a cache panics.\<close>

definition deploymentStep :: "votingParams \<Rightarrow> blockIndex \<Rightarrow> blockNode option \<Rightarrow> nat \<Rightarrow> (thresholdStateCache list, chainError, ThresholdState) stateE" where
  "deploymentStep params index prevNode deploymentID caches =
     (if deploymentID \<ge> length (Deployments params) \<or> deploymentID \<ge> length caches then (Inl GoPanic, caches)
      else case thresholdState prevNode (deploymentChecker params index (Deployments params ! deploymentID)) (caches ! deploymentID, ()) of
        (r, cache, _) \<Rightarrow> (r, caches[deploymentID := cache]))"

datatype deploymentError = DeploymentError "32 word" | chainFault chainError

definition deploymentState ::
  "votingParams \<Rightarrow> blockIndex \<Rightarrow> blockNode option \<Rightarrow> 32 word \<Rightarrow> (thresholdStateCache list, deploymentError, ThresholdState) stateE" where
  "deploymentState params index prevNode deploymentID caches =
     (if deploymentID > word_of_nat (length (Deployments params)) then (Inl (DeploymentError deploymentID), caches)
      else case deploymentStep params index prevNode (unat deploymentID) caches of
        (Inl e, caches) \<Rightarrow> (Inl (chainFault e), caches)
      | (Inr state, caches) \<Rightarrow> (Inr state, caches))"

definition BlockChain_ThresholdState ::
  "votingParams \<Rightarrow> blockIndex \<Rightarrow> chainView \<Rightarrow> 32 word \<Rightarrow> (thresholdStateCache list, deploymentError, ThresholdState) stateE" where
  "BlockChain_ThresholdState params index bestChain deploymentID = deploymentState params index (tip bestChain) deploymentID"

definition IsDeploymentActive ::
  "votingParams \<Rightarrow> blockIndex \<Rightarrow> chainView \<Rightarrow> 32 word \<Rightarrow> (thresholdStateCache list, deploymentError, bool) stateE" where
  "IsDeploymentActive params index bestChain deploymentID =
     bindS (deploymentState params index (tip bestChain) deploymentID) (\<lambda>state. returnS (state = ThresholdActive))"

definition calcNextBlockVersion :: "votingParams \<Rightarrow> blockIndex \<Rightarrow> blockNode option \<Rightarrow> (thresholdStateCache list, chainError, 32 word) stateE" where
  "calcNextBlockVersion params index prevNode =
     foldS (\<lambda>expectedVersion i.
         bindS (deploymentStep params index prevNode i) (\<lambda>state.
           returnS (if state = ThresholdStarted \<or> state = ThresholdLockedIn
             then expectedVersion OR push_bit (unat (BitNumber (Deployments params ! i))) 1 else expectedVersion)))
       vbTopBits [0..<length (Deployments params)]"

definition CalcNextBlockVersion :: "votingParams \<Rightarrow> blockIndex \<Rightarrow> chainView \<Rightarrow> (thresholdStateCache list, chainError, 32 word) stateE" where
  "CalcNextBlockVersion params index bestChain = calcNextBlockVersion params index (tip bestChain)"

definition bitConditionChecker :: "votingParams \<Rightarrow> blockIndex \<Rightarrow> nat \<Rightarrow> thresholdStateCache list thresholdConditionChecker" where
  "bitConditionChecker params index bit_number = \<lparr>
     HasStarted = (\<lambda>_. True), HasEnded = (\<lambda>_. False), ActivationThreshold = RuleChangeActivationThreshold params,
     ConfirmationWindow = MinerConfirmationWindow params, EligibleToActivate = (\<lambda>_. True), IsSpeedy = False,
     Condition = (\<lambda>node.
       let conditionMask = push_bit bit_number 1; version = nversion (nfields node) in
       if version AND vbTopMask \<noteq> vbTopBits then returnS False
       else if version AND conditionMask = 0 then returnS False
       else bindS (calcNextBlockVersion params index (parent node)) (\<lambda>expectedVersion.
         returnS (expectedVersion AND conditionMask = 0))),
     ForceActive = (\<lambda>_. False)\<rparr>"

section \<open>Warnings\<close>

text \<open>The caches of the chain and whether a warning was given.\<close>

record votingState =
  warningCaches :: "thresholdStateCache list"
  deploymentCaches :: "thresholdStateCache list"
  unknownRulesWarned :: bool

definition newThresholdCaches :: "nat \<Rightarrow> thresholdStateCache list" where
  "newThresholdCaches numCaches = replicate numCaches Map.empty"

definition warningStep :: "votingParams \<Rightarrow> blockIndex \<Rightarrow> blockNode option \<Rightarrow> nat \<Rightarrow> (votingState, chainError, ThresholdState) stateE" where
  "warningStep params index prevNode bit_number v =
     (if bit_number \<ge> length (warningCaches v) then (Inl GoPanic, v)
      else case thresholdState prevNode (bitConditionChecker params index bit_number) (warningCaches v ! bit_number, deploymentCaches v) of
        (r, cache, caches) \<Rightarrow> (r, v\<lparr>warningCaches := (warningCaches v)[bit_number := cache], deploymentCaches := caches\<rparr>))"

definition warnUnknownRuleActivations :: "votingParams \<Rightarrow> blockIndex \<Rightarrow> blockNode \<Rightarrow> (votingState, chainError, unit) stateE" where
  "warnUnknownRuleActivations params index node =
     foldS (\<lambda>_ bit_number.
         bindS (warningStep params index (parent node) bit_number) (\<lambda>state.
           if state = ThresholdActive then modifyS (\<lambda>v. v\<lparr>unknownRulesWarned := True\<rparr>) else returnS ()))
       () [0..<vbNumBits]"

definition initThresholdCaches :: "votingParams \<Rightarrow> blockIndex \<Rightarrow> chainView \<Rightarrow> bool \<Rightarrow> (votingState, chainError, unit) stateE" where
  "initThresholdCaches params index bestChain isCurrent =
     (case tip bestChain of
        None \<Rightarrow> readS (\<lambda>_. Inl GoPanic)
      | Some bestNode \<Rightarrow>
          bindS (foldS (\<lambda>_ bit_number. bindS (warningStep params index (parent bestNode) bit_number) (\<lambda>_. returnS ())) () [0..<vbNumBits]) (\<lambda>_.
          bindS (foldS (\<lambda>_ i v. case deploymentStep params index (parent bestNode) i (deploymentCaches v) of
                    (Inl e, caches) \<Rightarrow> (Inl e, v\<lparr>deploymentCaches := caches\<rparr>)
                  | (Inr _, caches) \<Rightarrow> (Inr (), v\<lparr>deploymentCaches := caches\<rparr>)) () [0..<length (Deployments params)]) (\<lambda>_.
            if isCurrent then warnUnknownRuleActivations params index bestNode else returnS ())))"

section \<open>The reference\<close>

text \<open>The same machine without caches: the state of a window from the state of the window before it.\<close>

fun windowVotes :: "(blockNode \<Rightarrow> bool) \<Rightarrow> nat \<Rightarrow> blockNode option \<Rightarrow> nat" where
  "windowVotes vote 0 node = 0"
| "windowVotes vote (Suc i) None = 0"
| "windowVotes vote (Suc i) (Some node) = (if vote node then 1 else 0) + windowVotes vote i (parent node)"

definition nextState :: "'s thresholdConditionChecker \<Rightarrow> (blockNode \<Rightarrow> bool) \<Rightarrow> ThresholdState \<Rightarrow> blockNode \<Rightarrow> ThresholdState" where
  "nextState checker vote state node =
     (case state of
        ThresholdDefined \<Rightarrow>
          if \<not> IsSpeedy checker \<and> HasEnded checker node then ThresholdFailed
          else if HasStarted checker node then ThresholdStarted else ThresholdDefined
      | ThresholdStarted \<Rightarrow>
          if \<not> IsSpeedy checker \<and> HasEnded checker node then ThresholdFailed
          else if windowVotes vote (unat (ConfirmationWindow checker)) (Some node) \<ge> unat (ActivationThreshold checker) then ThresholdLockedIn
          else if IsSpeedy checker \<and> HasEnded checker node then ThresholdFailed else ThresholdStarted
      | ThresholdLockedIn \<Rightarrow> if EligibleToActivate checker node then ThresholdActive else ThresholdLockedIn
      | ThresholdActive \<Rightarrow> ThresholdActive
      | ThresholdFailed \<Rightarrow> ThresholdFailed)"

fun windowState :: "'s thresholdConditionChecker \<Rightarrow> (blockNode \<Rightarrow> bool) \<Rightarrow> nat \<Rightarrow> blockNode option \<Rightarrow> ThresholdState" where
  "windowState checker vote 0 node = ThresholdDefined"
| "windowState checker vote (Suc k) None = ThresholdDefined"
| "windowState checker vote (Suc k) (Some node) =
     (if HasStarted checker node
      then nextState checker vote (windowState checker vote k (Ancestor node (node_height node - uint (ConfirmationWindow checker)))) node
      else ThresholdDefined)"

definition ruleState :: "'s thresholdConditionChecker \<Rightarrow> (blockNode \<Rightarrow> bool) \<Rightarrow> blockNode option \<Rightarrow> ThresholdState" where
  "ruleState checker vote prevNode =
     (if ForceActive checker prevNode then ThresholdActive
      else case prevNode of
        None \<Rightarrow> ThresholdDefined
      | Some node \<Rightarrow>
          let window = uint (ConfirmationWindow checker); k = (node_height node + 1) div window in
          windowState checker vote (nat k) (Ancestor node (k * window - 1)))"

text \<open>
  The nodes the states are asked for: closed under parents, told apart by their hashes, below the greatest height; and a window that is not empty.
\<close>

definition votingNodes :: "int \<Rightarrow> blockNode set \<Rightarrow> bool" where
  "votingNodes window N \<longleftrightarrow> 0 < window \<and> window < 2 ^ 31 \<and> inj_on (\<lambda>n. nhash (nfields n)) N \<and>
     (\<forall>n \<in> N. chain_node n \<and> node_height n + 1 < 2 ^ 31 \<and> (\<forall>p. parent n = Some p \<longrightarrow> p \<in> N))"

text \<open>A cache is right when what it has for the last block of a window is the state of that window.\<close>

definition cacheAgrees :: "'s thresholdConditionChecker \<Rightarrow> (blockNode \<Rightarrow> bool) \<Rightarrow> blockNode set \<Rightarrow> thresholdStateCache \<Rightarrow> bool" where
  "cacheAgrees checker vote N cache \<longleftrightarrow>
     (\<forall>n \<in> N. \<forall>k st. node_height n + 1 = int k * uint (ConfirmationWindow checker) \<longrightarrow> cache (nhash (nfields n)) = Some st \<longrightarrow>
        st = windowState checker vote k (Some n))"

lemma votingNodes_ancestor:
  assumes "votingNodes window N" "n \<in> N" "Ancestor n h = Some m"
  shows "m \<in> N"
proof -
  have "chain_node n" using assms(1,2) by (simp add: votingNodes_def)
  then show ?thesis using assms(2,3)
  proof (induction arbitrary: h rule: chain_induct)
    case (root n)
    then have "h = 0" by (auto simp: Ancestor_def split: if_splits)
    then show ?case using root Ancestor_self [OF root(1)] by simp
  next
    case (child n p)
    have "p \<in> N" using assms(1) child.prems(1) child(2) by (auto simp: votingNodes_def)
    then show ?case
    proof (cases "h = node_height n")
      case True
      then show ?thesis using child.prems Ancestor_self [OF child(1)] by simp
    next
      case False
      then have "h \<le> node_height p" using child.prems(2) child(4) by (auto simp: Ancestor_def split: if_splits)
      then show ?thesis using child.IH [OF \<open>p \<in> N\<close>, of h] child.prems(2) Ancestor_parent [OF child(1,2)] by simp
    qed
  qed
qed

lemma windowVotes_le: "windowVotes vote i node \<le> i"
  by (induction vote i node rule: windowVotes.induct) auto

lemma cacheAgrees_update:
  assumes "cacheAgrees checker vote N cache" "votingNodes w N" "n \<in> N" "node_height n + 1 = int k * uint (ConfirmationWindow checker)"
    and "0 < uint (ConfirmationWindow checker)"
  shows "cacheAgrees checker vote N (cache(nhash (nfields n) \<mapsto> windowState checker vote k (Some n)))"
  unfolding cacheAgrees_def
proof (intro ballI allI impI)
  fix m j st
  assume m: "m \<in> N" "node_height m + 1 = int j * uint (ConfirmationWindow checker)"
    "(cache(nhash (nfields n) \<mapsto> windowState checker vote k (Some n))) (nhash (nfields m)) = Some st"
  show "st = windowState checker vote j (Some m)"
  proof (cases "m = n")
    case True
    then have "j = k" using m(2) assms(4,5) by simp
    then show ?thesis using m(3) True by simp
  next
    case False
    then have "nhash (nfields m) \<noteq> nhash (nfields n)" using assms(2,3) m(1) by (auto simp: votingNodes_def inj_on_def)
    then show ?thesis using m assms(1) by (auto simp: cacheAgrees_def)
  qed
qed

section \<open>The interface of a checker\<close>

text \<open>
  What the state machine needs of a checker: on the nodes, the condition is a fixed vote, and testing it does not fail and keeps the checker's own state in order.
\<close>

locale voting =
  fixes checker :: "'s thresholdConditionChecker" and vote :: "blockNode \<Rightarrow> bool" and inv :: "'s \<Rightarrow> bool" and N :: "blockNode set"
  assumes condition: "votingNodes (uint (ConfirmationWindow checker)) N \<Longrightarrow> n \<in> N \<Longrightarrow> inv s \<Longrightarrow>
    \<exists>s'. Condition checker n s = (Inr (vote n), s') \<and> inv s'"
begin

lemma countVotes_eq:
  assumes "votingNodes (uint (ConfirmationWindow checker)) N"
  shows "n \<in> N \<Longrightarrow> int i \<le> node_height n + 1 \<Longrightarrow> inv s \<Longrightarrow>
    \<exists>s'. countVotes checker i (Some n) c s = (Inr (c + of_nat (windowVotes vote i (Some n))), s') \<and> inv s'"
proof (induction i arbitrary: n s c)
  case (Suc i)
  obtain s1 where s1: "Condition checker n s = (Inr (vote n), s1)" "inv s1" using condition [OF assms Suc.prems(1,3)] by blast
  let ?c = "if vote n then c + 1 else c"
  have "chain_node n" using assms Suc.prems(1) by (simp add: votingNodes_def)
  show ?case
  proof (cases i)
    case 0
    then show ?thesis using s1 by simp
  next
    case (Suc j)
    then obtain p where p: "parent n = Some p"
      using Suc.prems(2) chain_node_root [OF \<open>chain_node n\<close>] by (cases "parent n") auto
    have "p \<in> N" "node_height n = node_height p + 1"
      using assms Suc.prems(1) p chain_node_parent [OF \<open>chain_node n\<close> p] by (auto simp: votingNodes_def)
    then obtain s2 where "countVotes checker i (Some p) ?c s1 = (Inr (?c + of_nat (windowVotes vote i (Some p))), s2)" "inv s2"
      using Suc.IH [of p s1 ?c] Suc.prems(2) s1(2) by auto
    then show ?thesis using s1(1) p by (simp add: add.assoc)
  qed
qed simp

lemma transition_eq:
  assumes "votingNodes (uint (ConfirmationWindow checker)) N" "n \<in> N" "inv s" "uint (ConfirmationWindow checker) \<le> node_height n + 1"
  shows "\<exists>s'. thresholdStateTransition st n checker (uint (ConfirmationWindow checker)) s = (Inr (nextState checker vote st n), s') \<and> inv s'"
proof -
  let ?w = "uint (ConfirmationWindow checker)"
  have w: "nat ?w = unat (ConfirmationWindow checker)" by simp
  obtain s' where s': "countVotes checker (nat ?w) (Some n) 0 s = (Inr (of_nat (windowVotes vote (nat ?w) (Some n))), s')" "inv s'"
    using countVotes_eq [OF assms(1,2), of "nat ?w" s 0] assms(3,4) by auto
  have "windowVotes vote (nat ?w) (Some n) < 2 ^ 32"
  proof -
    have "int (windowVotes vote (nat ?w) (Some n)) \<le> ?w" using windowVotes_le [of vote "nat ?w" "Some n"] uint_ge_0 [of "ConfirmationWindow checker"] by linarith
    then have "int (windowVotes vote (nat ?w) (Some n)) < 2 ^ 31" using assms(1) unfolding votingNodes_def by linarith
    then show ?thesis by simp
  qed
  then have "unat (of_nat (windowVotes vote (nat ?w) (Some n)) :: 32 word) = windowVotes vote (nat ?w) (Some n)"
    by (simp add: unat_of_nat take_bit_nat_eq_self)
  then have ge: "(of_nat (windowVotes vote (nat ?w) (Some n)) :: 32 word) \<ge> ActivationThreshold checker \<longleftrightarrow>
      unat (ActivationThreshold checker) \<le> windowVotes vote (unat (ConfirmationWindow checker)) (Some n)"
    by (simp add: word_le_nat_alt)
  show ?thesis
    using assms(3) s' ge unfolding w by (cases st) (auto simp: thresholdStateTransition_def nextState_def)
qed

lemma calcStates_append:
  "calcStates checker w (xs @ ys) st (cache, s) =
    (case calcStates checker w xs st (cache, s) of (Inl e, c) \<Rightarrow> (Inl e, c) | (Inr st, c) \<Rightarrow> calcStates checker w ys st c)"
proof (induction xs arbitrary: st cache s)
  case (Cons x xs)
  show ?case by (cases "thresholdStateTransition st x checker w s"; case_tac a) (simp_all add: Cons.IH fun_upd_def)
qed simp

text \<open>Walking back and calculating forward gives the state of the window, from any cache that is right.\<close>

lemma windows_correct:
  assumes "votingNodes (uint (ConfirmationWindow checker)) N" "cacheAgrees checker vote N cache" "k \<le> fuel"
    and "case node of None \<Rightarrow> k = 0 | Some n \<Rightarrow> n \<in> N \<and> node_height n + 1 = int k * uint (ConfirmationWindow checker)"
  shows "\<exists>known needed cache' st. windowsBack fuel checker (uint (ConfirmationWindow checker)) node acc cache = Some (known, acc @ needed, cache') \<and>
    cacheAgrees checker vote N cache' \<and> (case known of None \<Rightarrow> st = ThresholdDefined | Some m \<Rightarrow> cache' (nhash (nfields m)) = Some st) \<and>
    (\<forall>s. inv s \<longrightarrow> (\<exists>cache'' s'. calcStates checker (uint (ConfirmationWindow checker)) (rev needed) st (cache', s) =
       (Inr (windowState checker vote k node), cache'', s') \<and> cacheAgrees checker vote N cache'' \<and> inv s'))"
  using assms(3,4)
proof (induction k arbitrary: fuel node acc)
  case 0
  have "node = None"
  proof (cases node)
    case (Some n)
    then have "0 \<le> node_height n" using "0.prems"(2) assms(1) chain_node_height by (auto simp: votingNodes_def)
    then show ?thesis using "0.prems"(2) Some by simp
  qed simp
  then show ?case using assms(2) by simp
next
  case (Suc k)
  let ?w = "uint (ConfirmationWindow checker)"
  obtain n where n: "node = Some n" "n \<in> N" "node_height n + 1 = int (Suc k) * ?w" using Suc.prems(2) by (cases node) auto
  obtain f where f: "fuel = Suc f" "k \<le> f" using Suc.prems(1) by (cases fuel) auto
  have cn: "chain_node n" "node_height n + 1 < 2 ^ 31" "0 < ?w" "?w < 2 ^ 31" using assms(1) n(2) by (auto simp: votingNodes_def)
  let ?h = "nhash (nfields n)"
  show ?case
  proof (cases "cache ?h")
    case (Some st)
    then have "st = windowState checker vote (Suc k) (Some n)" using assms(2) n unfolding cacheAgrees_def by blast
    then show ?thesis using Some assms(2) by (intro exI [of _ "Some n"] exI [of _ "[]"] exI [of _ cache] exI [of _ st]) (auto simp: n(1) f(1))
  next
    case None
    show ?thesis
    proof (cases "HasStarted checker n")
      case False
      have "cacheAgrees checker vote N (cache(?h \<mapsto> ThresholdDefined))"
        using cacheAgrees_update [OF assms(2,1) n(2,3) cn(3)] False by simp
      then show ?thesis using None False
        by (intro exI [of _ "Some n"] exI [of _ "[]"] exI [of _ "cache(?h \<mapsto> ThresholdDefined)"] exI [of _ ThresholdDefined]) (auto simp: n(1) f(1) fun_upd_def)
    next
      case True
      let ?prev = "Ancestor n (node_height n - ?w)"
      have h: "node_height n - ?w = int k * ?w - 1" using n(3) by (simp add: algebra_simps)
      have rel: "RelativeAncestor n ?w = ?prev"
        using cn chain_node_height [OF cn(1)] by (simp add: RelativeAncestor_def int32_id)
      have "case ?prev of None \<Rightarrow> k = 0 | Some m \<Rightarrow> m \<in> N \<and> node_height m + 1 = int k * ?w"
      proof (cases "k = 0")
        case True
        then show ?thesis using h by (simp add: Ancestor_def)
      next
        case False
        then have "1 * 1 \<le> int k * ?w" using cn(3) by (intro mult_mono) auto
        moreover have "node_height n - ?w \<le> node_height n" using cn(3) by simp
        ultimately obtain m where "?prev = Some m" "node_height m = node_height n - ?w"
          using Ancestor_chain [OF cn(1), of "node_height n - ?w"] h by force
        then show ?thesis using votingNodes_ancestor [OF assms(1) n(2)] h by simp
      qed
      from Suc.IH [OF f(2) this, of "acc @ [n]"] obtain known needed cache' st where
        IH: "windowsBack f checker ?w ?prev (acc @ [n]) cache = Some (known, (acc @ [n]) @ needed, cache')" "cacheAgrees checker vote N cache'"
          "case known of None \<Rightarrow> st = ThresholdDefined | Some m \<Rightarrow> cache' (nhash (nfields m)) = Some st"
          "\<forall>s. inv s \<longrightarrow> (\<exists>cache'' s'. calcStates checker ?w (rev needed) st (cache', s) =
             (Inr (windowState checker vote k ?prev), cache'', s') \<and> cacheAgrees checker vote N cache'' \<and> inv s')" by blast
      have "\<exists>cache'' s'. calcStates checker ?w (rev (n # needed)) st (cache', s) =
          (Inr (windowState checker vote (Suc k) (Some n)), cache'', s') \<and> cacheAgrees checker vote N cache'' \<and> inv s'" if s: "inv s" for s
      proof -
        obtain c1 s1 where s1: "calcStates checker ?w (rev needed) st (cache', s) = (Inr (windowState checker vote k ?prev), c1, s1)"
          "cacheAgrees checker vote N c1" "inv s1" using IH(4) [rule_format, OF s] by auto
        have "?w \<le> node_height n + 1" using n(3) cn(3) by (simp add: algebra_simps)
        then obtain s2 where "thresholdStateTransition (windowState checker vote k ?prev) n checker ?w s1 =
            (Inr (nextState checker vote (windowState checker vote k ?prev) n), s2)" "inv s2"
          using transition_eq [OF assms(1) n(2) s1(3)] by blast
        then show ?thesis using s1(1) True cacheAgrees_update [OF s1(2) assms(1) n(2,3) cn(3)]
          by (simp add: calcStates_append del: of_nat_Suc)
      qed
      then show ?thesis using IH(1,2,3) None True rel
        by (intro exI [of _ known] exI [of _ "n # needed"] exI [of _ cache'] exI [of _ st]) (simp add: n(1) f(1) del: windowState.simps rev.simps)
    qed
  qed
qed

lemma thresholdState_correct:
  assumes "votingNodes (uint (ConfirmationWindow checker)) N" "cacheAgrees checker vote N cache" "inv s" "\<forall>n. prevNode = Some n \<longrightarrow> n \<in> N"
  shows "\<exists>cache' s'. thresholdState prevNode checker (cache, s) = (Inr (ruleState checker vote prevNode), cache', s') \<and>
    cacheAgrees checker vote N cache' \<and> inv s'"
proof (cases "ForceActive checker prevNode \<or> prevNode = None")
  case True
  then show ?thesis using assms(2,3) by (auto simp: thresholdState_def ruleState_def)
next
  case False
  then obtain n where n: "prevNode = Some n" "n \<in> N" "\<not> ForceActive checker prevNode" using assms(4) by auto
  let ?w = "uint (ConfirmationWindow checker)" and ?next = "node_height n + 1"
  define k where "k = ?next div ?w"
  have cn: "chain_node n" "?next < 2 ^ 31" "0 < ?w" "?w < 2 ^ 31" using assms(1) n(2) by (auto simp: votingNodes_def)
  have h: "0 \<le> node_height n" using chain_node_height [OF cn(1)] by simp
  have i: "int32 ?w = ?w" "int32 ?next = ?next" using cn h by (simp_all add: int32_id)
  show ?thesis
  proof (cases "?next < ?w")
    case True
    then show ?thesis using n(1,3) assms(2,3) i h by (simp add: thresholdState_def ruleState_def div_pos_pos_trivial)
  next
    case False
    have into: "?next - go_div ?next ?w * ?w = ?next mod ?w" "node_height n - ?next mod ?w = k * ?w - 1"
      using h cn(3) by (simp_all add: go_div_nonneg k_def minus_div_mult_eq_mod [symmetric] algebra_simps)
    have "?next = k * ?w + ?next mod ?w" by (simp add: k_def)
    moreover have "0 < k" using False cn(3) by (simp add: k_def pos_imp_zdiv_pos_iff)
    ultimately have k: "0 < k" "k * ?w \<le> ?next" using cn(3) pos_mod_sign [of ?w ?next] by linarith+
    have "1 * 1 \<le> k * ?w" using k(1) cn(3) by (intro mult_mono) auto
    then have anc: "0 \<le> k * ?w - 1" "k * ?w - 1 \<le> node_height n" using k(2) by simp_all
    obtain m where m: "Ancestor n (k * ?w - 1) = Some m" "node_height m = k * ?w - 1" using Ancestor_chain [OF cn(1) anc] by blast
    have "k * 1 \<le> k * ?w" using k(1) cn(3) by (intro mult_left_mono) auto
    then have fuel: "nat k \<le> nat (node_height n) + 2" using k(2) by simp
    have "case Some m of None \<Rightarrow> nat k = 0 | Some m \<Rightarrow> m \<in> N \<and> node_height m + 1 = int (nat k) * ?w"
      using votingNodes_ancestor [OF assms(1) n(2) m(1)] m(2) k(1) by simp
    from windows_correct [OF assms(1,2) fuel this, of "[]"] obtain known needed cache' st where
      r: "windowsBack (nat (node_height n) + 2) checker ?w (Some m) [] cache = Some (known, needed, cache')"
        "case known of None \<Rightarrow> st = ThresholdDefined | Some m \<Rightarrow> cache' (nhash (nfields m)) = Some st"
        "\<forall>s. inv s \<longrightarrow> (\<exists>cache'' s'. calcStates checker ?w (rev needed) st (cache', s) =
           (Inr (windowState checker vote (nat k) (Some m)), cache'', s') \<and> cacheAgrees checker vote N cache'' \<and> inv s')" by auto
    obtain cache'' s' where c: "calcStates checker ?w (rev needed) st (cache', s) = (Inr (windowState checker vote (nat k) (Some m)), cache'', s')"
      "cacheAgrees checker vote N cache''" "inv s'" using r(3) [rule_format, OF assms(3)] by auto
    have "int32 (k * ?w - 1) = k * ?w - 1" using anc cn(2) by (intro int32_id) auto
    then have "thresholdState prevNode checker (cache, s) = (Inr (windowState checker vote (nat k) (Some m)), cache'', s')"
      using n(1,3) False cn(3) m(1) r(1,2) c(1)
      by (cases known) (simp_all add: thresholdState_def Let_def i into)
    moreover have "ruleState checker vote prevNode = windowState checker vote (nat k) (Some m)"
      using n(1,3) m(1) by (simp add: ruleState_def Let_def k_def)
    ultimately show ?thesis using c(2,3) by simp
  qed
qed

end

section \<open>The checkers meet the interface\<close>

definition deploymentVote :: "ConsensusDeployment \<Rightarrow> blockNode \<Rightarrow> bool" where
  "deploymentVote deployment node \<longleftrightarrow> nversion (nfields node) AND vbTopMask = vbTopBits \<and>
     nversion (nfields node) AND push_bit (unat (BitNumber deployment)) 1 \<noteq> 0"

interpretation deployments: voting "deploymentChecker params index deployment" "deploymentVote deployment" "\<lambda>_. True" N
  for params index deployment N
  by unfold_locales (simp add: deploymentChecker_def deploymentVote_def)

abbreviation deploymentRule :: "votingParams \<Rightarrow> blockIndex \<Rightarrow> nat \<Rightarrow> blockNode option \<Rightarrow> ThresholdState" where
  "deploymentRule params index i \<equiv>
     ruleState (deploymentChecker params index (Deployments params ! i) :: unit thresholdConditionChecker) (deploymentVote (Deployments params ! i))"

abbreviation window :: "votingParams \<Rightarrow> int" where
  "window params \<equiv> uint (MinerConfirmationWindow params)"

definition deploymentCachesAgree :: "votingParams \<Rightarrow> blockIndex \<Rightarrow> blockNode set \<Rightarrow> thresholdStateCache list \<Rightarrow> bool" where
  "deploymentCachesAgree params index N caches \<longleftrightarrow> length caches = length (Deployments params) \<and>
     (\<forall>i < length (Deployments params). cacheAgrees (deploymentChecker params index (Deployments params ! i) :: unit thresholdConditionChecker)
        (deploymentVote (Deployments params ! i)) N (caches ! i))"

lemma deploymentStep_correct:
  assumes "votingNodes (window params) N" "deploymentCachesAgree params index N caches" "i < length (Deployments params)"
    and "\<forall>n. prevNode = Some n \<longrightarrow> n \<in> N"
  shows "\<exists>caches'. deploymentStep params index prevNode i caches = (Inr (deploymentRule params index i prevNode), caches') \<and>
    deploymentCachesAgree params index N caches'"
proof -
  let ?c = "deploymentChecker params index (Deployments params ! i) :: unit thresholdConditionChecker"
  have w: "ConfirmationWindow ?c = MinerConfirmationWindow params" by (simp add: deploymentChecker_def)
  have "votingNodes (uint (ConfirmationWindow ?c)) N" using assms(1) by (simp add: w)
  moreover have "cacheAgrees ?c (deploymentVote (Deployments params ! i)) N (caches ! i)" using assms(2,3) by (simp add: deploymentCachesAgree_def)
  ultimately obtain cache' where "thresholdState prevNode ?c (caches ! i, ()) = (Inr (deploymentRule params index i prevNode), cache', ())"
    "cacheAgrees ?c (deploymentVote (Deployments params ! i)) N cache'"
    using deployments.thresholdState_correct [OF _ _ TrueI assms(4)] by (metis old.unit.exhaust)
  then show ?thesis using assms(2,3) by (auto simp: deploymentStep_def deploymentCachesAgree_def nth_list_update)
qed

definition nextBlockVersion :: "votingParams \<Rightarrow> blockIndex \<Rightarrow> blockNode option \<Rightarrow> 32 word" where
  "nextBlockVersion params index prevNode =
     foldl (\<lambda>v i. if deploymentRule params index i prevNode \<in> {ThresholdStarted, ThresholdLockedIn}
       then v OR push_bit (unat (BitNumber (Deployments params ! i))) 1 else v) vbTopBits [0..<length (Deployments params)]"

lemma calcNextBlockVersion_correct:
  assumes "votingNodes (window params) N" "deploymentCachesAgree params index N caches" "\<forall>n. prevNode = Some n \<longrightarrow> n \<in> N"
  shows "\<exists>caches'. calcNextBlockVersion params index prevNode caches = (Inr (nextBlockVersion params index prevNode), caches') \<and>
    deploymentCachesAgree params index N caches'"
  unfolding calcNextBlockVersion_def nextBlockVersion_def
proof (rule foldS_total [where I = "deploymentCachesAgree params index N"])
  fix v i caches
  assume "i \<in> set [0..<length (Deployments params)]" "deploymentCachesAgree params index N caches"
  then obtain caches' where "deploymentStep params index prevNode i caches = (Inr (deploymentRule params index i prevNode), caches')"
    "deploymentCachesAgree params index N caches'"
    using deploymentStep_correct [OF assms(1) _ _ assms(3), of index caches i] by auto
  then show "\<exists>caches'. bindS (deploymentStep params index prevNode i) (\<lambda>state.
        returnS (if state = ThresholdStarted \<or> state = ThresholdLockedIn
          then v OR push_bit (unat (BitNumber (Deployments params ! i))) 1 else v)) caches =
      (Inr (if deploymentRule params index i prevNode \<in> {ThresholdStarted, ThresholdLockedIn}
          then v OR push_bit (unat (BitNumber (Deployments params ! i))) 1 else v), caches') \<and> deploymentCachesAgree params index N caches'" by simp
qed (rule assms(2))

text \<open>A block votes for an unknown rule when its version has the bit and the deployments do not call for it.\<close>

definition unknownVote :: "votingParams \<Rightarrow> blockIndex \<Rightarrow> nat \<Rightarrow> blockNode \<Rightarrow> bool" where
  "unknownVote params index b node \<longleftrightarrow> nversion (nfields node) AND vbTopMask = vbTopBits \<and>
     nversion (nfields node) AND push_bit b 1 \<noteq> 0 \<and> nextBlockVersion params index (parent node) AND push_bit b 1 = 0"

interpretation warnings: voting "bitConditionChecker params index b" "unknownVote params index b" "deploymentCachesAgree params index N" N
  for params index b N
proof
  fix n caches
  assume N: "votingNodes (uint (ConfirmationWindow (bitConditionChecker params index b))) N" "n \<in> N" "deploymentCachesAgree params index N caches"
  then have "votingNodes (window params) N" "\<forall>p. parent n = Some p \<longrightarrow> p \<in> N" by (auto simp: bitConditionChecker_def votingNodes_def)
  from calcNextBlockVersion_correct [OF this(1) N(3) this(2)] obtain caches' where
    "calcNextBlockVersion params index (parent n) caches = (Inr (nextBlockVersion params index (parent n)), caches')"
    "deploymentCachesAgree params index N caches'" by blast
  then show "\<exists>s'. Condition (bitConditionChecker params index b) n caches = (Inr (unknownVote params index b n), s') \<and> deploymentCachesAgree params index N s'"
    using N(3) by (auto simp: bitConditionChecker_def unknownVote_def Let_def)
qed

definition votingAgrees :: "votingParams \<Rightarrow> blockIndex \<Rightarrow> blockNode set \<Rightarrow> votingState \<Rightarrow> bool" where
  "votingAgrees params index N v \<longleftrightarrow> length (warningCaches v) = vbNumBits \<and> deploymentCachesAgree params index N (deploymentCaches v) \<and>
     (\<forall>b < vbNumBits. cacheAgrees (bitConditionChecker params index b) (unknownVote params index b) N (warningCaches v ! b))"

abbreviation unknownRule :: "votingParams \<Rightarrow> blockIndex \<Rightarrow> nat \<Rightarrow> blockNode option \<Rightarrow> ThresholdState" where
  "unknownRule params index b \<equiv> ruleState (bitConditionChecker params index b) (unknownVote params index b)"

lemma warningStep_correct:
  assumes "votingNodes (window params) N" "votingAgrees params index N v" "b < vbNumBits" "\<forall>n. prevNode = Some n \<longrightarrow> n \<in> N"
  shows "\<exists>v'. warningStep params index prevNode b v = (Inr (unknownRule params index b prevNode), v') \<and> votingAgrees params index N v' \<and>
    unknownRulesWarned v' = unknownRulesWarned v"
proof -
  let ?c = "bitConditionChecker params index b"
  have w: "ConfirmationWindow ?c = MinerConfirmationWindow params" by (simp add: bitConditionChecker_def)
  have "votingNodes (uint (ConfirmationWindow ?c)) N" using assms(1) by (simp add: w)
  moreover have "cacheAgrees ?c (unknownVote params index b) N (warningCaches v ! b)" "deploymentCachesAgree params index N (deploymentCaches v)"
    using assms(2,3) by (simp_all add: votingAgrees_def)
  ultimately obtain cache' caches' where "thresholdState prevNode ?c (warningCaches v ! b, deploymentCaches v) =
      (Inr (unknownRule params index b prevNode), cache', caches')"
    "cacheAgrees ?c (unknownVote params index b) N cache'" "deploymentCachesAgree params index N caches'"
    using warnings.thresholdState_correct [OF _ _ _ assms(4)] by blast
  then show ?thesis using assms(2,3) by (auto simp: warningStep_def votingAgrees_def nth_list_update)
qed

lemma warnings_correct:
  assumes "votingNodes (window params) N" "\<forall>n. prevNode = Some n \<longrightarrow> n \<in> N"
  shows "\<forall>b \<in> set bs. b < vbNumBits \<Longrightarrow> votingAgrees params index N v \<Longrightarrow>
    \<exists>v'. foldS (\<lambda>_ b. bindS (warningStep params index prevNode b) (\<lambda>state.
        if state = ThresholdActive then modifyS (\<lambda>v. v\<lparr>unknownRulesWarned := True\<rparr>) else returnS ())) () bs v = (Inr (), v') \<and>
      votingAgrees params index N v' \<and>
      (unknownRulesWarned v' \<longleftrightarrow> unknownRulesWarned v \<or> (\<exists>b \<in> set bs. unknownRule params index b prevNode = ThresholdActive))"
proof (induction bs arbitrary: v)
  case (Cons b bs)
  obtain v1 where v1: "warningStep params index prevNode b v = (Inr (unknownRule params index b prevNode), v1)"
    "votingAgrees params index N v1" "unknownRulesWarned v1 = unknownRulesWarned v"
    using warningStep_correct [OF assms(1) Cons.prems(2) _ assms(2)] Cons.prems(1) by auto
  have v2: "votingAgrees params index N (v1\<lparr>unknownRulesWarned := True\<rparr>)" using v1(2) by (simp add: votingAgrees_def)
  show ?case
  proof (cases "unknownRule params index b prevNode = ThresholdActive")
    case True
    then show ?thesis using Cons.IH [OF _ v2] Cons.prems(1) v1(1) by simp
  next
    case False
    then show ?thesis using Cons.IH [OF _ v1(2)] Cons.prems(1) v1(1,3) by simp
  qed
qed simp

section \<open>The states a deployment goes through\<close>

text \<open>One window to the next; a rule change that is active or has failed stays so.\<close>

inductive nextWindow :: "ThresholdState \<Rightarrow> ThresholdState \<Rightarrow> bool" where
  stay: "nextWindow state state"
| begins: "nextWindow ThresholdDefined ThresholdStarted"
| expires: "nextWindow ThresholdDefined ThresholdFailed"
| locksIn: "nextWindow ThresholdStarted ThresholdLockedIn"
| fails: "nextWindow ThresholdStarted ThresholdFailed"
| activates: "nextWindow ThresholdLockedIn ThresholdActive"

inductive_cases nextWindowE: "nextWindow a b"

lemma nextWindow_final: "nextWindow\<^sup>*\<^sup>* a b \<Longrightarrow> a \<in> {ThresholdActive, ThresholdFailed} \<Longrightarrow> b = a"
  by (induction rule: rtranclp_induct) (auto elim: nextWindowE)

lemma nextState_nextWindow: "nextWindow state (nextState checker vote state node)"
  by (cases state) (auto simp: nextState_def intro: nextWindow.intros)

definition startsOnce :: "'s thresholdConditionChecker \<Rightarrow> blockNode set \<Rightarrow> bool" where
  "startsOnce checker N \<longleftrightarrow> (\<forall>n \<in> N. \<forall>p. parent n = Some p \<longrightarrow> HasStarted checker p \<longrightarrow> HasStarted checker n)"

lemma startsOnce_ancestor:
  assumes "votingNodes w N" "startsOnce checker N" "n \<in> N" "Ancestor n h = Some m" "HasStarted checker m"
  shows "HasStarted checker n"
proof -
  have "chain_node n" using assms(1,3) by (simp add: votingNodes_def)
  then show ?thesis using assms(3,4)
  proof (induction arbitrary: h rule: chain_induct)
    case (root n)
    then have "h = 0" by (auto simp: Ancestor_def split: if_splits)
    then show ?case using root assms(5) Ancestor_self [OF root(1)] by simp
  next
    case (child n p)
    have "p \<in> N" using assms(1) child.prems(1) child(2) by (auto simp: votingNodes_def)
    show ?case
    proof (cases "h = node_height n")
      case True
      then show ?thesis using child.prems(2) assms(5) Ancestor_self [OF child(1)] by simp
    next
      case False
      then have "h \<le> node_height p" using child.prems(2) child(4) by (auto simp: Ancestor_def split: if_splits)
      then have "HasStarted checker p" using child.IH [OF \<open>p \<in> N\<close>, of h] child.prems(2) Ancestor_parent [OF child(1,2)] by simp
      then show ?thesis using assms(2) child.prems(1) child(2) by (auto simp: startsOnce_def)
    qed
  qed
qed

text \<open>The ends of the windows of one chain.\<close>

abbreviation windowEnd :: "'s thresholdConditionChecker \<Rightarrow> blockNode \<Rightarrow> nat \<Rightarrow> blockNode option" where
  "windowEnd checker n k \<equiv> Ancestor n (int k * uint (ConfirmationWindow checker) - 1)"

lemma windowState_step:
  assumes "votingNodes (uint (ConfirmationWindow checker)) N" "startsOnce checker N" "n \<in> N"
    and "int (Suc k) * uint (ConfirmationWindow checker) \<le> node_height n + 1"
  shows "nextWindow (windowState checker vote k (windowEnd checker n k)) (windowState checker vote (Suc k) (windowEnd checker n (Suc k)))"
proof -
  let ?w = "uint (ConfirmationWindow checker)"
  have w: "0 < ?w" and n: "chain_node n" using assms(1,3) by (auto simp: votingNodes_def)
  have "1 * 1 \<le> int (Suc k) * ?w" using w by (intro mult_mono) auto
  then obtain e where e: "windowEnd checker n (Suc k) = Some e" "node_height e = int (Suc k) * ?w - 1"
    using Ancestor_chain [OF n, of "int (Suc k) * ?w - 1"] assms(4) by auto
  have eN: "e \<in> N" by (rule votingNodes_ancestor [OF assms(1,3) e(1)])
  have h: "node_height e - ?w = int k * ?w - 1" using e(2) by (simp add: algebra_simps)
  have anc: "Ancestor e (node_height e - ?w) = windowEnd checker n k"
    unfolding h using Ancestor_trans [OF n e(1), of "int k * ?w - 1"] e(2) w by (simp add: algebra_simps)
  show ?thesis
  proof (cases "HasStarted checker e")
    case True
    then show ?thesis unfolding e(1) by (simp add: anc nextState_nextWindow)
  next
    case False
    have "windowState checker vote k (windowEnd checker n k) = ThresholdDefined"
    proof (cases k)
      case (Suc j)
      have "\<not> HasStarted checker d" if "windowEnd checker n k = Some d" for d
        using startsOnce_ancestor [OF assms(1,2) eN, of "node_height e - ?w" d] that False unfolding anc by blast
      then show ?thesis by (cases "windowEnd checker n k") (simp_all add: Suc)
    qed simp
    then show ?thesis unfolding e(1) using False by (simp add: nextWindow.intros)
  qed
qed

lemma windowState_steps:
  assumes "votingNodes (uint (ConfirmationWindow checker)) N" "startsOnce checker N" "n \<in> N"
    and "j \<le> k" "int k * uint (ConfirmationWindow checker) \<le> node_height n + 1"
  shows "nextWindow\<^sup>*\<^sup>* (windowState checker vote j (windowEnd checker n j)) (windowState checker vote k (windowEnd checker n k))"
  using assms(4,5)
proof (induction k rule: dec_induct)
  case (step k)
  have "int k * uint (ConfirmationWindow checker) \<le> node_height n + 1"
    using step.prems assms(1) by (simp add: votingNodes_def algebra_simps)
  from rtranclp.rtrancl_into_rtrancl [OF step.IH [OF this] windowState_step [OF assms(1-3) step.prems]] show ?case .
qed simp

text \<open>A rule that is not forced moves along the state machine from a block to its descendants.\<close>

lemma ruleState_steps:
  assumes "votingNodes (uint (ConfirmationWindow checker)) N" "startsOnce checker N" "n \<in> N" "Ancestor n (node_height m) = Some m"
    and "\<not> ForceActive checker (Some m)" "\<not> ForceActive checker (Some n)"
  shows "nextWindow\<^sup>*\<^sup>* (ruleState checker vote (Some m)) (ruleState checker vote (Some n))"
proof -
  let ?w = "uint (ConfirmationWindow checker)"
  have w: "0 < ?w" and n: "chain_node n" using assms(1,3) by (auto simp: votingNodes_def)
  have m: "m \<in> N" by (rule votingNodes_ancestor [OF assms(1,3,4)])
  have le: "node_height m \<le> node_height n" using assms(4) by (auto simp: Ancestor_def split: if_splits)
  have h: "0 \<le> node_height m" using chain_node_height m assms(1) by (auto simp: votingNodes_def)
  define j k where "j = nat ((node_height m + 1) div ?w)" and "k = nat ((node_height n + 1) div ?w)"
  have jk: "int j = (node_height m + 1) div ?w" "int k = (node_height n + 1) div ?w"
    using h le w by (simp_all add: j_def k_def pos_imp_zdiv_nonneg_iff)
  have jw: "int j * ?w \<le> node_height m + 1" "int k * ?w \<le> node_height n + 1"
    unfolding jk using div_mult_mod_eq [of "node_height m + 1" ?w] div_mult_mod_eq [of "node_height n + 1" ?w] w
      pos_mod_sign [of ?w "node_height m + 1"] pos_mod_sign [of ?w "node_height n + 1"] by linarith+
  have "j \<le> k" unfolding j_def k_def using le w by (intro nat_mono zdiv_mono1) auto
  have "windowEnd checker m j = windowEnd checker n j" using Ancestor_trans [OF n assms(4), of "int j * ?w - 1"] jw(1) by simp
  then show ?thesis
    using windowState_steps [OF assms(1-3) \<open>j \<le> k\<close> jw(2), of vote] assms(5,6)
    by (simp add: ruleState_def Let_def jk [symmetric])
qed

section \<open>Time\<close>

text \<open>
  The blocks are in the index, and the time of each is not before the median time of its parent, as the rules for headers demand.
\<close>

definition timedChain :: "blockIndex \<Rightarrow> blockNode set \<Rightarrow> bool" where
  "timedChain index N \<longleftrightarrow> (\<forall>n \<in> N. LookupNode index (nhash (nfields n)) = Some n \<and>
     (\<forall>p. parent n = Some p \<longrightarrow> CalcPastMedianTime p \<le> unixTime (timestamp (nfields n))))"

lemma CalcPastMedianTime_cong: "parent n = parent m \<Longrightarrow> timestamp (nfields n) = timestamp (nfields m) \<Longrightarrow> CalcPastMedianTime n = CalcPastMedianTime m"
  by (simp add: CalcPastMedianTime_def medianTimeBlocks_def numeral_eq_Suc)

lemma median_step:
  assumes "parent n = Some p" "CalcPastMedianTime p \<le> unixTime (timestamp (nfields n))"
  shows "CalcPastMedianTime p \<le> CalcPastMedianTime n"
proof -
  let ?ts = "pastTimes (Suc 10) (Some p)" and ?t = "timestamp (nfields n)"
  have eleven: "medianTimeBlocks = Suc 10" by (simp add: medianTimeBlocks_def)
  have "sort ?ts ! (length ?ts div 2) \<le> ?t" using assms(2) unfolding CalcPastMedianTime_def eleven Let_def unixTime_def by simp
  then have "sort ?ts ! (length ?ts div 2) \<le> sort (?t # take 10 ?ts) ! (length (?t # take 10 ?ts) div 2)"
    by (intro median_window_mono length_pastTimes) (simp_all only: pastTimes_step list.distinct not_False_eq_True, simp)
  then show ?thesis unfolding CalcPastMedianTime_def eleven Let_def pastTimes_step [of 10 n] assms(1) unixTime_def by simp
qed

lemma deploymentChecker_startsOnce:
  assumes "votingNodes w N" "timedChain index N"
  shows "startsOnce (deploymentChecker params index deployment) N"
  unfolding startsOnce_def
proof (intro ballI allI impI)
  fix n p
  assume n: "n \<in> N" "parent n = Some p" "HasStarted (deploymentChecker params index deployment) p"
  have p: "p \<in> N" using assms(1) n(1,2) by (auto simp: votingNodes_def)
  have time: "PastMedianTime index m = Some (CalcPastMedianTime m)" if m: "m \<in> N" "parent m = Some q" for m q
  proof -
    have "q \<in> N" using assms(1) m by (auto simp: votingNodes_def)
    then have "LookupNode index (nhash (nfields q)) = Some q" using assms(2) by (simp add: timedChain_def)
    then show ?thesis using m(2) by (auto simp: PastMedianTime_def Let_def intro: CalcPastMedianTime_cong)
  qed
  have mono: "CalcPastMedianTime p \<le> CalcPastMedianTime n" using median_step [OF n(2)] assms(2) n(1,2) by (simp add: timedChain_def)
  show "HasStarted (deploymentChecker params index deployment) n"
  proof (cases "startTime deployment")
    case None
    then show ?thesis by (simp add: deploymentChecker_def DeploymentStarter_HasStarted_def)
  next
    case (Some t)
    obtain q where q: "parent p = Some q"
      using n(3) Some by (cases "parent p") (simp_all add: deploymentChecker_def DeploymentStarter_HasStarted_def PastMedianTime_def)
    show ?thesis using n(3) Some time [OF p q] time [OF n(1,2)] mono
      by (auto simp: deploymentChecker_def DeploymentStarter_HasStarted_def)
  qed
qed

lemma ForceActive_descendant:
  assumes "chain_node n" "chain_node m" "node_height n + 1 < 2 ^ 31" "node_height m \<le> node_height n"
    "ForceActive (deploymentChecker params index deployment) (Some m)"
  shows "ForceActive (deploymentChecker params index deployment) (Some n)"
proof -
  have u: "uint (word_of_int (node_height k) + 1 :: 32 word) = node_height k + 1" if "0 \<le> node_height k" "node_height k + 1 < 2 ^ 31" for k
  proof -
    have "word_of_int (node_height k) + 1 = (word_of_int (node_height k + 1) :: 32 word)" by simp
    then show ?thesis using that by (simp add: uint_word_of_int del: of_int_add)
  qed
  show ?thesis
    using assms u [of m] u [of n] chain_node_height [of m] chain_node_height [of n]
    by (simp add: deploymentChecker_def word_le_def)
qed

lemma deploymentState_correct:
  assumes "votingNodes (window params) N" "deploymentCachesAgree params index N caches" "\<forall>n. prevNode = Some n \<longrightarrow> n \<in> N"
    and "unat i < length (Deployments params)" "length (Deployments params) < 2 ^ 32"
  shows "\<exists>caches'. deploymentState params index prevNode i caches = (Inr (deploymentRule params index (unat i) prevNode), caches') \<and>
    deploymentCachesAgree params index N caches'"
proof -
  have "unat (word_of_nat (length (Deployments params)) :: 32 word) = length (Deployments params)"
    using assms(5) by (simp add: unat_of_nat take_bit_nat_eq_self)
  then have "\<not> i > word_of_nat (length (Deployments params))" using assms(4) by (simp add: word_less_nat_alt)
  then show ?thesis using deploymentStep_correct [OF assms(1,2,4,3)] by (auto simp: deploymentState_def)
qed

lemma newCaches_agree: "deploymentCachesAgree params index N (newThresholdCaches (length (Deployments params)))"
  by (simp add: deploymentCachesAgree_def newThresholdCaches_def cacheAgrees_def)

section \<open>Properties\<close>

text \<open>
  C15. The caches do not change the state of a deployment: from any caches that are right, and in particular from empty ones,
  \<open>deploymentState\<close> returns for every block of the chain the state that the windows give when they are calculated one after the other from the first, without
  a cache; it does not fail, and the caches stay right.
\<close>

theorem deployment_state_memoised:
  assumes "votingNodes (window params) N" "\<forall>n. prevNode = Some n \<longrightarrow> n \<in> N"
    and "unat i < length (Deployments params)" "length (Deployments params) < 2 ^ 32"
  shows "(\<forall>caches. deploymentCachesAgree params index N caches \<longrightarrow> (\<exists>caches'. deploymentState params index prevNode i caches =
        (Inr (ruleState (deploymentChecker params index (Deployments params ! unat i) :: unit thresholdConditionChecker)
          (deploymentVote (Deployments params ! unat i)) prevNode), caches') \<and> deploymentCachesAgree params index N caches')) \<and>
    deploymentCachesAgree params index N (newThresholdCaches (length (Deployments params)))"
  using deploymentState_correct [OF assms(1) _ assms(2-4)] newCaches_agree by blast

definition exampleVoting :: votingParams where
  "exampleVoting = \<lparr>RuleChangeActivationThreshold = 1, MinerConfirmationWindow = 1, Deployments =
     [\<lparr>BitNumber = 28, MinActivationHeight = 0, CustomActivationThreshold = 0, AlwaysActiveHeight = 0,
        startTime = None, endTime = None\<rparr>]\<rparr>"

definition exampleIndex :: blockIndex where
  "exampleIndex = newBlockIndex\<lparr>nodes := [rootHash \<mapsto> rootNode, BlockHash mainHeader \<mapsto> mainNode, BlockHash nextHeader \<mapsto> nextNode]\<rparr>"

lemma exampleVoting_nodes: "votingNodes (window exampleVoting) {rootNode, mainNode, nextNode}"
  using headers_distinct by (auto simp: votingNodes_def exampleVoting_def inj_on_def)

lemma exampleVoting_simps [simp]: "length (Deployments exampleVoting) = 1" "unat (0 :: 32 word) = 0"
  by (simp_all add: exampleVoting_def)

lemma vote_bit: "(0x30000000 AND vbTopMask :: 32 word) = vbTopBits" "(0x30000000 :: 32 word) AND push_bit 28 1 \<noteq> 0"
  by (simp_all add: vbTopMask_def vbTopBits_def)

lemma exampleVoting_states:
  "deploymentRule exampleVoting index 0 (Some rootNode) = ThresholdStarted"
  "deploymentRule exampleVoting index 0 (Some nextNode) = ThresholdActive"
proof -
  let ?d = "Deployments exampleVoting ! 0"
  let ?c = "deploymentChecker exampleVoting index ?d :: unit thresholdConditionChecker"
  have unforced: "\<not> ForceActive ?c (Some rootNode)"
    "\<not> ForceActive ?c (Some nextNode)"
    by (simp_all add: deploymentChecker_def exampleVoting_def EffectiveAlwaysActiveHeight_def word_le_def)
  have w: "uint (ConfirmationWindow ?c) = 1"
    by (simp add: deploymentChecker_def exampleVoting_def)
  have r: "Ancestor rootNode 0 = Some rootNode" "Ancestor nextNode 2 = Some nextNode" "Ancestor nextNode 1 = Some mainNode" "Ancestor mainNode 0 = Some rootNode"
    using Ancestor_self [of rootNode] Ancestor_self [of nextNode] Ancestor_self [of mainNode]
      Ancestor_parent [of nextNode mainNode 1] Ancestor_parent [of mainNode rootNode 0] by simp_all
  have c: "HasStarted ?c n" "\<not> HasEnded ?c n" "EligibleToActivate ?c n" "ActivationThreshold ?c = 1" "ConfirmationWindow ?c = 1" for n
    by (simp_all add: deploymentChecker_def exampleVoting_def DeploymentStarter_HasStarted_def DeploymentEnder_HasEnded_def)
  have v: "deploymentVote ?d rootNode" "deploymentVote ?d mainNode" "deploymentVote ?d nextNode"
    using vote_bit by (simp_all add: exampleVoting_def deploymentVote_def)
  have "windowState ?c (deploymentVote ?d) 1 (Some rootNode) = ThresholdStarted" by (simp add: c nextState_def)
  then show "deploymentRule exampleVoting index 0 (Some rootNode) = ThresholdStarted" by (simp add: ruleState_def unforced w Let_def r)
  have "windowState ?c (deploymentVote ?d) 3 (Some nextNode) = ThresholdActive" by (simp add: c v r nextState_def numeral_eq_Suc)
  then show "deploymentRule exampleVoting index 0 (Some nextNode) = ThresholdActive" by (simp add: ruleState_def unforced w Let_def r)
qed

theorem deployment_state_memoised_witness:
  "\<exists>caches. deploymentState exampleVoting exampleIndex (Some nextNode) 0 (newThresholdCaches 1) = (Inr ThresholdActive, caches) \<and>
     deploymentCachesAgree exampleVoting exampleIndex {rootNode, mainNode, nextNode} caches"
proof -
  have n: "\<forall>n. Some nextNode = Some n \<longrightarrow> n \<in> {rootNode, mainNode, nextNode}" by simp
  have "unat (0 :: 32 word) < length (Deployments exampleVoting)" "length (Deployments exampleVoting) < 2 ^ 32" by simp_all
  note m = deployment_state_memoised [OF exampleVoting_nodes n this, of exampleIndex]
  have "deploymentCachesAgree exampleVoting exampleIndex {rootNode, mainNode, nextNode} (newThresholdCaches 1)" using m by simp
  with m exampleVoting_states(2) [of exampleIndex] show ?thesis by (metis exampleVoting_simps(2))
qed

text \<open>
  C16. A deployment moves from block to block of a chain only along the state machine: for a block and any of its ancestors,
  on a chain whose times the header rules accept, both states are calculated without failure, a rule that was active at the ancestor
  is active at the block, and, unless the deployment is one that is always active by then, the second state is reached from the first by
  steps of the machine (defined, started, locked in, active, or failed from the first two), so that active and failed are final.
\<close>

theorem deployment_follows_machine:
  assumes "votingNodes (window params) N" "timedChain index N" "n \<in> N" "Ancestor n (node_height m) = Some m"
    and "deploymentCachesAgree params index N caches" "unat i < length (Deployments params)" "length (Deployments params) < 2 ^ 32"
  shows "\<exists>before after caches1 caches2.
    deploymentState params index (Some m) i caches = (Inr before, caches1) \<and>
    deploymentState params index (Some n) i caches1 = (Inr after, caches2) \<and>
    (before = ThresholdActive \<longrightarrow> after = ThresholdActive) \<and>
    (\<not> ForceActive (deploymentChecker params index (Deployments params ! unat i) :: unit thresholdConditionChecker) (Some n) \<longrightarrow> nextWindow\<^sup>*\<^sup>* before after)"
proof -
  let ?c = "deploymentChecker params index (Deployments params ! unat i) :: unit thresholdConditionChecker"
  have m: "m \<in> N" by (rule votingNodes_ancestor [OF assms(1,3,4)])
  have w: "votingNodes (uint (ConfirmationWindow ?c)) N" using assms(1) by (simp add: deploymentChecker_def)
  have once: "startsOnce ?c N" by (rule deploymentChecker_startsOnce [OF assms(1,2)])
  have cn: "chain_node n" "chain_node m" "node_height n + 1 < 2 ^ 31" using assms(1,3) m by (auto simp: votingNodes_def)
  have le: "node_height m \<le> node_height n" using assms(4) by (auto simp: Ancestor_def split: if_splits)
  have "\<forall>k. Some m = Some k \<longrightarrow> k \<in> N" "\<forall>k. Some n = Some k \<longrightarrow> k \<in> N" using m assms(3) by simp_all
  then obtain caches1 caches2 where
    st: "deploymentState params index (Some m) i caches = (Inr (deploymentRule params index (unat i) (Some m)), caches1)"
      "deploymentState params index (Some n) i caches1 = (Inr (deploymentRule params index (unat i) (Some n)), caches2)"
    using deploymentState_correct [OF assms(1) _ _ assms(6,7)] assms(5) by metis
  have steps: "nextWindow\<^sup>*\<^sup>* (deploymentRule params index (unat i) (Some m)) (deploymentRule params index (unat i) (Some n))"
    if "\<not> ForceActive ?c (Some n)"
    using ruleState_steps [OF w once assms(3,4) _ that] ForceActive_descendant [OF cn le] that by blast
  have "deploymentRule params index (unat i) (Some n) = ThresholdActive" if "deploymentRule params index (unat i) (Some m) = ThresholdActive"
    using nextWindow_final [OF steps] that by (cases "ForceActive ?c (Some n)") (auto simp: ruleState_def)
  then show ?thesis using st steps by blast
qed

theorem deployment_follows_machine_witness:
  "\<exists>caches1 caches2. deploymentState exampleVoting exampleIndex (Some rootNode) 0 (newThresholdCaches 1) = (Inr ThresholdStarted, caches1) \<and>
     deploymentState exampleVoting exampleIndex (Some nextNode) 0 caches1 = (Inr ThresholdActive, caches2) \<and>
     nextWindow\<^sup>*\<^sup>* ThresholdStarted ThresholdActive"
proof -
  let ?N = "{rootNode, mainNode, nextNode}"
  have "CalcPastMedianTime rootNode = unixTime 10" "CalcPastMedianTime mainNode = unixTime 20"
    by (simp_all add: CalcPastMedianTime_def medianTimeBlocks_def numeral_eq_Suc)
  then have t: "timedChain exampleIndex ?N"
    using headers_distinct by (auto simp: timedChain_def exampleIndex_def LookupNode_def newBlockIndex_def unixTime_def)
  have a: "Ancestor nextNode (node_height rootNode) = Some rootNode"
    using Ancestor_parent [of nextNode mainNode 0] Ancestor_parent [of mainNode rootNode 0] Ancestor_self [of rootNode] by simp
  have c: "deploymentCachesAgree exampleVoting exampleIndex ?N (newThresholdCaches 1)"
    using newCaches_agree [of exampleVoting exampleIndex ?N] by simp
  have l: "unat (0 :: 32 word) < length (Deployments exampleVoting)" "length (Deployments exampleVoting) < 2 ^ 32" "nextNode \<in> ?N" by simp_all
  have "\<forall>n. Some rootNode = Some n \<longrightarrow> n \<in> ?N" "\<forall>n. Some nextNode = Some n \<longrightarrow> n \<in> ?N" by simp_all
  note s1 = deploymentState_correct [OF exampleVoting_nodes c this(1) l(1,2)] and s2 = deploymentState_correct [OF exampleVoting_nodes _ this(2) l(1,2)]
  have "\<not> ForceActive (deploymentChecker exampleVoting exampleIndex (Deployments exampleVoting ! unat (0 :: 32 word)) :: unit thresholdConditionChecker) (Some nextNode)"
    by (simp add: deploymentChecker_def exampleVoting_def EffectiveAlwaysActiveHeight_def)
  with deployment_follows_machine [OF exampleVoting_nodes t l(3) a c l(1,2)] s1 s2 exampleVoting_states [of exampleIndex]
  show ?thesis by (metis (no_types, lifting) Pair_inject exampleVoting_simps(2) sum.inject(2))
qed

text \<open>
  C24. The number of a deployment is checked one too late.  For every network, on a chain of blocks and from caches that are right, \<open>deploymentState\<close> returns
  a state exactly for the numbers below the number of deployments, and the error for an unknown deployment exactly for those above it; for
  the number of deployments itself, the first number that no deployment has, it panics at the access to the list.
\<close>

theorem deployment_id_off_by_one:
  assumes "votingNodes (window params) N" "deploymentCachesAgree params index N caches" "\<forall>n. prevNode = Some n \<longrightarrow> n \<in> N"
    and "length (Deployments params) < 2 ^ 32"
  shows "((\<exists>state. fst (deploymentState params index prevNode i caches) = Inr state) \<longleftrightarrow> unat i < length (Deployments params)) \<and>
    (fst (deploymentState params index prevNode i caches) = Inl (chainFault GoPanic) \<longleftrightarrow> unat i = length (Deployments params)) \<and>
    (fst (deploymentState params index prevNode i caches) = Inl (DeploymentError i) \<longleftrightarrow> unat i > length (Deployments params))"
proof -
  have "unat (word_of_nat (length (Deployments params)) :: 32 word) = length (Deployments params)"
    using assms(4) by (simp add: unat_of_nat take_bit_nat_eq_self)
  then have gt: "i > word_of_nat (length (Deployments params)) \<longleftrightarrow> unat i > length (Deployments params)" by (simp add: word_less_nat_alt)
  consider "unat i < length (Deployments params)" | "unat i = length (Deployments params)" | "unat i > length (Deployments params)" by linarith
  then show ?thesis
  proof cases
    case 1
    then show ?thesis using deploymentState_correct [OF assms(1-3) _ assms(4), of i] by auto
  next
    case 2
    then show ?thesis using gt by (simp add: deploymentState_def deploymentStep_def)
  next
    case 3
    then show ?thesis using gt by (simp add: deploymentState_def)
  qed
qed

theorem deployment_id_off_by_one_witness:
  "fst (deploymentState exampleVoting exampleIndex (Some nextNode) 1 (newThresholdCaches 1)) = Inl (chainFault GoPanic) \<and>
   fst (deploymentState exampleVoting exampleIndex (Some nextNode) 2 (newThresholdCaches 1)) = Inl (DeploymentError 2)"
proof -
  let ?N = "{rootNode, mainNode, nextNode}"
  have c: "deploymentCachesAgree exampleVoting exampleIndex ?N (newThresholdCaches 1)" using newCaches_agree [of exampleVoting] by simp
  have n: "\<forall>n. Some nextNode = Some n \<longrightarrow> n \<in> ?N" "length (Deployments exampleVoting) < 2 ^ 32" by simp_all
  show ?thesis using deployment_id_off_by_one [OF exampleVoting_nodes c n, of 1] deployment_id_off_by_one [OF exampleVoting_nodes c n, of 2] by simp
qed

text \<open>
  C22. The warnings about unknown rules never stop a block: on a chain of blocks, from caches that are right, \<open>warnUnknownRuleActivations\<close> does not
  fail, whatever bits the blocks vote for, it keeps the caches right, those of the deployments that it reads included, and it has warned
  exactly when it had before or one of the 29 bits has become active at the parent of the block by votes the deployments do not explain.
\<close>

theorem warnings_never_fail:
  assumes "votingNodes (window params) N" "votingAgrees params index N v" "node \<in> N"
  shows "\<exists>v'. warnUnknownRuleActivations params index node v = (Inr (), v') \<and> votingAgrees params index N v' \<and>
    (unknownRulesWarned v' \<longleftrightarrow> unknownRulesWarned v \<or>
      (\<exists>b < vbNumBits. ruleState (bitConditionChecker params index b) (unknownVote params index b) (parent node) = ThresholdActive))"
proof -
  have "\<forall>p. parent node = Some p \<longrightarrow> p \<in> N" using assms(1,3) by (simp add: votingNodes_def)
  from warnings_correct [OF assms(1) this _ assms(2), of "[0..<vbNumBits]"] show ?thesis
    by (simp add: warnUnknownRuleActivations_def Bex_def conj_commute)
qed

theorem warnings_never_fail_witness:
  "\<exists>v. warnUnknownRuleActivations exampleVoting exampleIndex rootNode
       \<lparr>warningCaches = newThresholdCaches 29, deploymentCaches = newThresholdCaches 1, unknownRulesWarned = False\<rparr> = (Inr (), v) \<and>
     \<not> unknownRulesWarned v"
proof -
  let ?v = "\<lparr>warningCaches = newThresholdCaches 29, deploymentCaches = newThresholdCaches 1, unknownRulesWarned = False\<rparr>"
  have "votingAgrees exampleVoting exampleIndex {rootNode, mainNode, nextNode} ?v"
    using newCaches_agree [of exampleVoting] by (simp add: votingAgrees_def newThresholdCaches_def vbNumBits_def cacheAgrees_def)
  from warnings_never_fail [OF exampleVoting_nodes this, of rootNode] show ?thesis
    by (auto simp: ruleState_def bitConditionChecker_def)
qed

lemma bit_foldl_or:
  "bit (foldl (\<lambda>v i. if P i then v OR push_bit (B i) 1 else v) (v :: 32 word) xs) b \<longleftrightarrow> bit v b \<or> (b < 32 \<and> (\<exists>i \<in> set xs. P i \<and> B i = b))"
proof (induction xs arbitrary: v)
  case (Cons i xs)
  have "bit (v OR push_bit (B i) 1) b \<longleftrightarrow> bit v b \<or> (b < 32 \<and> B i = b)" by (auto simp: bit_or_iff push_bit_of_1 bit_exp_iff)
  then show ?case using Cons.IH by auto
qed simp

text \<open>
  C23. The version that \<open>calcNextBlockVersion\<close> expects of the block after a block of the chain has bit 29, the least of the top bits 001, and the bit of every
  deployment that is started or locked in at that block, and no other bit; calculating it does not fail and keeps the caches right.
\<close>

theorem next_version_bits:
  assumes "votingNodes (window params) N" "deploymentCachesAgree params index N caches" "\<forall>n. prevNode = Some n \<longrightarrow> n \<in> N"
  shows "\<exists>version caches'. calcNextBlockVersion params index prevNode caches = (Inr version, caches') \<and> deploymentCachesAgree params index N caches' \<and>
    (\<forall>b < 32. bit version b \<longleftrightarrow> b = 29 \<or> (\<exists>i < length (Deployments params). unat (BitNumber (Deployments params ! i)) = b \<and>
       ruleState (deploymentChecker params index (Deployments params ! i) :: unit thresholdConditionChecker)
         (deploymentVote (Deployments params ! i)) prevNode \<in> {ThresholdStarted, ThresholdLockedIn}))"
proof -
  have top: "bit vbTopBits b \<longleftrightarrow> b = 29" for b
  proof -
    have vb: "vbTopBits = 2 ^ 29" by (simp add: vbTopBits_def)
    show ?thesis unfolding vb bit_exp_iff by auto
  qed
  show ?thesis using calcNextBlockVersion_correct [OF assms] unfolding nextBlockVersion_def
    by (force simp: bit_foldl_or top simp del: One_nat_def)
qed

theorem next_version_bits_witness:
  "\<exists>version caches. calcNextBlockVersion exampleVoting exampleIndex (Some rootNode) (newThresholdCaches 1) = (Inr version, caches) \<and>
     bit version 28 \<and> bit version 29 \<and> \<not> bit version 30"
proof -
  let ?N = "{rootNode, mainNode, nextNode}"
  have "deploymentCachesAgree exampleVoting exampleIndex ?N (newThresholdCaches 1)" using newCaches_agree [of exampleVoting] by simp
  from next_version_bits [OF exampleVoting_nodes this, of "Some rootNode"] obtain version caches where
    v: "calcNextBlockVersion exampleVoting exampleIndex (Some rootNode) (newThresholdCaches 1) = (Inr version, caches)"
      "\<forall>b < 32. bit version b \<longleftrightarrow> b = 29 \<or> (\<exists>i < length (Deployments exampleVoting). unat (BitNumber (Deployments exampleVoting ! i)) = b \<and>
         deploymentRule exampleVoting exampleIndex i (Some rootNode) \<in> {ThresholdStarted, ThresholdLockedIn})" by auto
  have "unat (BitNumber (Deployments exampleVoting ! 0)) = 28" by (simp add: exampleVoting_def)
  then show ?thesis using v exampleVoting_states(1) [of exampleIndex] by auto
qed

end
