(* ===== verification/Recovery.thy ===== *)
theory Recovery
  imports Header_Examples
begin

text \<open>
  Recovery of the cache of unspent outputs after an unclean shutdown (\<^verbatim>\<open>InitConsistentState\<close> in \<^verbatim>\<open>node/blockchain/utxocache.go\<close>): the
  block that the database is marked consistent with is looked up in the index, the fork point of its branch with the best chain is found, the
  blocks from there to the tip are collected by following parents, and they are loaded and connected to the cache one after the other.

  The block files are the function \<open>db\<close> from the hash of a block to its bytes, \<open>None\<close> for a block that is not there; \<open>interrupted\<close> tells whether
  the interrupt channel is found closed after a block.
\<close>

section \<open>Loading a block\<close>

datatype fetchError = ErrBlockNotFound | BlockDecode wireError

text \<open>The block with its height.\<close>

definition dbFetchBlockByNode :: "(hash \<Rightarrow> bytes option) \<Rightarrow> blockNode \<Rightarrow> (fetchError, MsgBlock \<times> int) result" where
  "dbFetchBlockByNode db node =
     (case db (nhash (nfields node)) of
        None \<Rightarrow> Inl ErrBlockNotFound
      | Some rawBlock \<Rightarrow> (case MsgBlock_Deserialize rawBlock of
          Inl e \<Rightarrow> Inl (BlockDecode e)
        | Inr (block, _) \<Rightarrow> Inr (block, node_height node)))"

section \<open>Replaying blocks\<close>

datatype initError = InitStore storeError | InitFetch fetchError | errInterruptRequested | InitHash | InitAssert | InitPanic

definition liftStore :: "(storeError, 'a) result \<Rightarrow> (initError, 'a) result" where
  "liftStore r = (case r of Inl e \<Rightarrow> Inl (InitStore e) | Inr x \<Rightarrow> Inr x)"

definition liftFetch :: "(fetchError, 'a) result \<Rightarrow> (initError, 'a) result" where
  "liftFetch r = (case r of Inl e \<Rightarrow> Inl (InitFetch e) | Inr x \<Rightarrow> Inr x)"

text \<open>The loop that collects the blocks to replay, lowest first; \<open>None\<close> is that it runs past the genesis block to a nil pointer.\<close>

function attachLoop :: "blockNode \<Rightarrow> blockNode option \<Rightarrow> blockNode list \<Rightarrow> blockNode list option" where
  "attachLoop fork None attachNodes = None"
| "attachLoop fork (Some n) attachNodes =
     (if node_height n < 0 then Some attachNodes
      else if n = fork then Some attachNodes
      else attachLoop fork (parent n) (n # attachNodes))"
  by pat_completeness auto
termination by (relation "measure (\<lambda>(_, n, _). case n of None \<Rightarrow> 0 | Some m \<Rightarrow> Suc (size m))") (auto split: option.splits dest: size_parent)

definition replayBlock :: "(bytes \<Rightarrow> bytes option) \<Rightarrow> (hash \<Rightarrow> bytes option) \<Rightarrow> (blockNode \<Rightarrow> bool) \<Rightarrow> int \<Rightarrow> utxoCache \<Rightarrow> blockNode \<Rightarrow>
    (initError, utxoCache) result" where
  "replayBlock K db interrupted now s node =
     bindE (liftFetch (dbFetchBlockByNode db node)) (\<lambda>(block, blockHeight).
     bindE (liftStore (cache_connectTransactions K s block blockHeight None)) (\<lambda>(s, _).
       let bestStateHash = nhash (nfields node) in
       bindE (if shouldFlush s now FlushIfNeeded bestStateHash then liftStore (flush K s now FlushIfNeeded bestStateHash) else Inr s) (\<lambda>s.
         if interrupted node then Inl errInterruptRequested else Inr s)))"

definition InitConsistentState :: "(bytes \<Rightarrow> bytes option) \<Rightarrow> (hash \<Rightarrow> bytes option) \<Rightarrow> blockIndex \<Rightarrow> chainView \<Rightarrow> (blockNode \<Rightarrow> bool) \<Rightarrow>
    utxoCache \<Rightarrow> int \<Rightarrow> blockNode \<Rightarrow> (initError, utxoCache) result" where
  "InitConsistentState K db index bestChain interrupted s now tipNode =
     (let tipHash = nhash (nfields tipNode) in
      case utxoStateConsistency s of
        None \<Rightarrow> Inr (s\<lparr>utxoStateConsistency := Some tipHash, lastFlushHash := tipHash, lastFlushTime := now\<rparr>)
      | Some statusHash \<Rightarrow>
          if length statusHash \<noteq> HashSize then Inl InitHash
          else if statusHash = tipHash then Inr (s\<lparr>lastFlushHash := tipHash, lastFlushTime := now\<rparr>)
          else (case LookupNode index statusHash of
              None \<Rightarrow> Inl InitPanic
            | Some lastFlushNode \<Rightarrow> (case findFork bestChain (Some lastFlushNode) of
                None \<Rightarrow> Inl InitAssert
              | Some fork \<Rightarrow> (case attachLoop fork (Some tipNode) [] of
                  None \<Rightarrow> Inl InitPanic
                | Some attachNodes \<Rightarrow>
                    bindE (foldE (replayBlock K db interrupted now) s attachNodes) (\<lambda>s.
                      Inr (s\<lparr>lastFlushHash := tipHash, lastFlushTime := now\<rparr>))))))"

section \<open>The blocks that are replayed\<close>

text \<open>The heights after that of the fork up to that of the tip, each once and in order.\<close>

lemma attachLoop_chain:
  assumes "chain_node n" "Ancestor n (node_height f) = Some f"
  shows "attachLoop f (Some n) acc = Some (map (\<lambda>h. the (Ancestor n h)) [node_height f + 1..node_height n] @ acc)"
  using assms
proof (induction arbitrary: acc rule: chain_induct)
  case (root n)
  then have "node_height f = 0" by (auto simp: Ancestor_def split: if_splits)
  then have "f = n" using root Ancestor_self [OF root(1)] by simp
  then show ?case using root(3) by simp
next
  case (child n p)
  have h: "0 \<le> node_height n" using chain_node_height [OF child(1)] by simp
  show ?case
  proof (cases "n = f")
    case True
    then show ?thesis using h by simp
  next
    case False
    have le: "node_height f \<le> node_height n" "0 \<le> node_height f" using child.prems by (auto simp: Ancestor_def split: if_splits)
    have "node_height f \<noteq> node_height n" using False child.prems Ancestor_self [OF child(1)] by auto
    then have f: "node_height f \<le> node_height p" using le child(4) by simp
    have anc: "Ancestor n h = Ancestor p h" if "h \<le> node_height p" for h using Ancestor_parent [OF child(1,2) that] .
    have "attachLoop f (Some n) acc = attachLoop f (Some p) (n # acc)" using False h child(2) by simp
    also have "\<dots> = Some (map (\<lambda>h. the (Ancestor p h)) [node_height f + 1..node_height p] @ n # acc)"
      using child.IH child.prems anc [OF f] by simp
    also have "map (\<lambda>h. the (Ancestor p h)) [node_height f + 1..node_height p] = map (\<lambda>h. the (Ancestor n h)) [node_height f + 1..node_height p]"
      by (simp add: anc)
    also have "[node_height f + 1..node_height n] = [node_height f + 1..node_height p] @ [node_height n]"
      using upto_rec2 [of "node_height f + 1" "node_height n"] f child(4) by simp
    then have "map (\<lambda>h. the (Ancestor n h)) [node_height f + 1..node_height p] @ n # acc =
        map (\<lambda>h. the (Ancestor n h)) [node_height f + 1..node_height n] @ acc" using Ancestor_self [OF child(1)] by simp
    finally show ?thesis .
  qed
qed

lemma findFork_on_chain:
  assumes "cnodes c = chainOf t" "chain_node t" "node_height t < 2 ^ 31 - 1" "chain_node n" "Ancestor t (node_height n) = Some n"
  shows "findFork c (Some n) = Some n"
proof -
  have t: "0 \<le> node_height t" using chain_node_height [OF assms(2)] by simp
  then have "chainHeight c = node_height t" using assms(1,3) by (simp add: chainHeight_def int32_id)
  moreover have "node_height n \<le> node_height t" using assms(5) by (auto simp: Ancestor_def split: if_splits)
  ultimately show ?thesis using contains_chainOf [OF assms(1-4)] assms(5) by (simp add: findFork_def forkLoop.simps)
qed

section \<open>Replaying\<close>

text \<open>The node of a block: it is loaded with its height, and there is no interruption after it.\<close>

definition loadsBlock :: "(hash \<Rightarrow> bytes option) \<Rightarrow> (blockNode \<Rightarrow> bool) \<Rightarrow> blockNode \<Rightarrow> int \<times> MsgBlock \<Rightarrow> bool" where
  "loadsBlock db interrupted n hb \<longleftrightarrow> dbFetchBlockByNode db n = Inr (snd hb, fst hb) \<and> \<not> interrupted n"

lemma stored_block_loads:
  assumes "db (nhash (nfields n)) = Some e" "MsgBlock_Serialize block = Inr e" "wf_MsgBlock block" "\<not> interrupted n" "node_height n = h"
  shows "loadsBlock db interrupted n (h, block)"
proof -
  have "e = blockBytes block (case AuxPow block of None \<Rightarrow> [] | Some a \<Rightarrow> AuxPow_Serialise a)" using assms(2) MsgBlock_Serialize_wf [OF assms(3)] by simp
  then have "MsgBlock_Deserialize e = Inr (block, [])" using MsgBlock_Deserialize_run [OF assms(3) aux_encodings_canonical, of "[]"] by simp
  then show ?thesis using assms(1,4,5) by (simp add: loadsBlock_def dbFetchBlockByNode_def)
qed

lemma replayBlocks_correct:
  assumes "key_laws K"
  shows "list_all2 (loadsBlock db interrupted) ns bs \<Longrightarrow> cacheInv K s \<Longrightarrow> connectChainCoins (cacheCoins K s) bs = Some U \<Longrightarrow> createsUnseen seen bs \<Longrightarrow>
     (\<And>op. wf_hash (Hash op) \<Longrightarrow> dbFetchUtxoEntry K (utxoSetBucket s) op \<noteq> Inr None \<Longrightarrow> seen op) \<Longrightarrow>
     (\<And>op. cacheCoins K s op \<noteq> None \<Longrightarrow> seen op) \<Longrightarrow>
     \<exists>s'. foldE (replayBlock K db interrupted now) s ns = Inr s' \<and> cacheInv K s' \<and> cacheCoins K s' = U"
proof (induction ns bs arbitrary: s seen rule: list_all2_induct)
  case (Cons node ns hb bs)
  obtain h block where hb: "hb = (h, block)" by (cases hb)
  let ?n = "nhash (nfields node)"
  define seen' where "seen' = (\<lambda>op. seen op \<or> op \<in> set (createdInBlock block))"
  obtain U1 cs where c: "connectBlockCoins h (cacheCoins K s) (Transactions block) = Some (U1, cs)" "connectChainCoins U1 bs = Some U"
    using Cons.prems(2) hb by (auto split: option.splits)
  have "blockAddable K (utxoSetBucket s) block h"
    using createsUnseen_addable [of K "utxoSetBucket s" seen h block bs] Cons.prems(1,3,4) by (simp add: cacheInv_def hb)
  from cache_connects [OF _ c(1) this, of None] Cons.prems(1) obtain s1 where
    s1: "cache_connectTransactions K s block h None = Inr (s1, None)" "cacheInv K s1" "utxoSetBucket s1 = utxoSetBucket s" "cacheCoins K s1 = U1"
    by (auto simp: cacheOn_def)
  from flush_correct [OF assms s1(2), of now FlushIfNeeded ?n] obtain s2 where
    s2: "flush K s1 now FlushIfNeeded ?n = Inr s2" "cacheInv K s2" "cacheCoins K s2 = U1"
      "dbHolds K (utxoSetBucket s2) U1 \<or> utxoSetBucket s2 = utxoSetBucket s" using s1(3,4) by (auto split: if_splits)
  have "(if shouldFlush s1 now FlushIfNeeded ?n then liftStore (flush K s1 now FlushIfNeeded ?n) else Inr s1) = Inr s2"
    using s2(1) by (auto simp: liftStore_def flush_def split: if_splits)
  then have r: "replayBlock K db interrupted now s node = Inr s2"
    using Cons.hyps(1) s1(1) hb by (simp add: replayBlock_def liftStore_def liftFetch_def loadsBlock_def Let_def)
  have U1: "seen' op" if "U1 op \<noteq> None" for op
    using connectBlockCoins_dom [OF c(1) that] Cons.prems(5) by (auto simp: seen'_def createdInBlock_def)
  have "seen' op" if "wf_hash (Hash op)" "dbFetchUtxoEntry K (utxoSetBucket s2) op \<noteq> Inr None" for op
    using s2(4)
  proof
    assume "dbHolds K (utxoSetBucket s2) U1"
    then show ?thesis using U1 that by (auto simp: dbHolds_def)
  next
    assume "utxoSetBucket s2 = utxoSetBucket s"
    then show ?thesis using that Cons.prems(4) by (simp add: seen'_def)
  qed
  moreover have "createsUnseen seen' bs" "connectChainCoins (cacheCoins K s2) bs = Some U"
    using Cons.prems(3) hb c(2) s2(3) by (simp_all add: seen'_def)
  ultimately show ?case using Cons.IH [OF s2(2), of seen'] U1 s2(3) r by simp
qed simp

lemma lastFlush_update:
  "cacheCoins K (s\<lparr>lastFlushHash := h, lastFlushTime := t\<rparr>) = cacheCoins K s"
  "cacheInv K (s\<lparr>lastFlushHash := h, lastFlushTime := t\<rparr>) = cacheInv K s"
  by (rule ext) (simp_all add: cacheCoins_def cacheInv_def split: option.split)

section \<open>Properties\<close>

text \<open>
  C12. Recovery after an unclean shutdown rebuilds the lost state.  Let the best chain end with a tip, let the database hold the coins as of a block of the best
  chain, which it is marked consistent with, and let the block files have the blocks of all greater heights up to the tip.  If these blocks
  connect, in the order of their heights, and create no output that was created before, then the recovery succeeds, unless it is
  interrupted: it finds exactly these blocks, replays each of them once and in order over a new cache, with or without flushes on the way, and cache and
  database then stand for the coins as of the tip.  The tip is then recorded as the block of the last flush, whether or not a flush took place.
\<close>

theorem InitConsistentState_recovers:
  assumes "key_laws K" "dbHolds K bkt U" "\<And>op. \<not> wf_hash (Hash op) \<Longrightarrow> U op = None"
    and "chain_node tipNode" "node_height tipNode < 2 ^ 31 - 1" "cnodes bestChain = chainOf tipNode"
    and "LookupNode index statusHash = Some lastFlushNode" "Ancestor tipNode (node_height lastFlushNode) = Some lastFlushNode"
    and "length statusHash = HashSize" "statusHash \<noteq> nhash (nfields tipNode)"
    and "\<And>h. node_height lastFlushNode < h \<Longrightarrow> h \<le> node_height tipNode \<Longrightarrow> \<exists>n e. Ancestor tipNode h = Some n \<and>
      db (nhash (nfields n)) = Some e \<and> MsgBlock_Serialize (blockAt h) = Inr e \<and> wf_MsgBlock (blockAt h) \<and> \<not> interrupted n"
    and "connectChainCoins U (map (\<lambda>h. (h, blockAt h)) [node_height lastFlushNode + 1..node_height tipNode]) = Some U'"
    and "createsUnseen (\<lambda>op. U op \<noteq> None) (map (\<lambda>h. (h, blockAt h)) [node_height lastFlushNode + 1..node_height tipNode])"
  shows "\<exists>s'. InitConsistentState K db index bestChain interrupted (newUtxoCache bkt (Some statusHash) maxMemory) now tipNode = Inr s' \<and>
    cacheInv K s' \<and> cacheCoins K s' = U' \<and> lastFlushHash s' = nhash (nfields tipNode)"
proof -
  let ?hs = "[node_height lastFlushNode + 1..node_height tipNode]" and ?tip = "nhash (nfields tipNode)"
  define s where "s = newUtxoCache bkt (Some statusHash) maxMemory"
  have s: "cacheInv K s" "cacheCoins K s = U" using newCache_facts [OF assms(2,3)] by (simp_all add: s_def)
  have b: "utxoSetBucket s = bkt" "utxoStateConsistency s = Some statusHash" by (simp_all add: s_def newUtxoCache_def)
  have "0 \<le> node_height lastFlushNode" "node_height lastFlushNode \<le> node_height tipNode"
    using assms(8) by (auto simp: Ancestor_def split: if_splits)
  then have last: "chain_node lastFlushNode" using Ancestor_chain [OF assms(4)] assms(8) by (metis option.inject)
  have fork: "findFork bestChain (Some lastFlushNode) = Some lastFlushNode" by (rule findFork_on_chain [OF assms(6,4,5) last assms(8)])
  have attach: "attachLoop lastFlushNode (Some tipNode) [] = Some (map (\<lambda>h. the (Ancestor tipNode h)) ?hs)"
    using attachLoop_chain [OF assms(4,8), of "[]"] by simp
  have "loadsBlock db interrupted (the (Ancestor tipNode h)) (h, blockAt h)" if h: "h \<in> set ?hs" for h
  proof -
    obtain n e where n: "Ancestor tipNode h = Some n" "db (nhash (nfields n)) = Some e" "MsgBlock_Serialize (blockAt h) = Inr e"
      "wf_MsgBlock (blockAt h)" "\<not> interrupted n" using assms(11) [of h] h by auto
    have "node_height n = h" using Ancestor_chain [OF assms(4), of h] n(1) h \<open>0 \<le> node_height lastFlushNode\<close> by force
    then show ?thesis using stored_block_loads [of db n e "blockAt h" interrupted h] n by simp
  qed
  then have loads: "list_all2 (loadsBlock db interrupted) (map (\<lambda>h. the (Ancestor tipNode h)) ?hs) (map (\<lambda>h. (h, blockAt h)) ?hs)"
    by (simp add: list_all2_conv_all_nth)
  have "\<exists>s'. foldE (replayBlock K db interrupted now) s (map (\<lambda>h. the (Ancestor tipNode h)) ?hs) = Inr s' \<and> cacheInv K s' \<and> cacheCoins K s' = U'"
    using s assms(2) by (intro replayBlocks_correct [OF assms(1) loads _ _ assms(13)]) (auto simp: assms(12) b dbHolds_def)
  then obtain s' where s': "foldE (replayBlock K db interrupted now) s (map (\<lambda>h. the (Ancestor tipNode h)) ?hs) = Inr s'" "cacheInv K s'" "cacheCoins K s' = U'"
    by blast
  then have "cacheInv K (s'\<lparr>lastFlushHash := ?tip, lastFlushTime := now\<rparr>)"
    "cacheCoins K (s'\<lparr>lastFlushHash := ?tip, lastFlushTime := now\<rparr>) = U'" by (simp_all add: lastFlush_update)
  then show ?thesis using s'(1) assms(7,9,10) b fork attach by (simp add: InitConsistentState_def s_def [symmetric] Let_def)
qed

text \<open>The database is consistent with the root of the small tree, and the block after it spends its coin.\<close>

definition replayedBlock :: MsgBlock where "replayedBlock = exampleBlock [exampleCoinbase, exampleSpender]"

definition replayedBytes :: bytes where
  "replayedBytes = (case MsgBlock_Serialize replayedBlock of Inr e \<Rightarrow> e | Inl _ \<Rightarrow> [])"

lemma replayedBlock_stored: "wf_MsgBlock replayedBlock" "MsgBlock_Serialize replayedBlock = Inr replayedBytes"
proof -
  have "valid_MsgTx exampleCoinbase" "valid_MsgTx exampleSpender" by code_simp+
  then show wf: "wf_MsgBlock replayedBlock"
    by (simp add: replayedBlock_def exampleBlock_def wf_MsgBlock_def wf_MsgHeader_def wf_MsgCertificate_def wf_header_def HashSize_def
        IsAuxPowBlock_def MsgBlock_BlockHeader_def auxPowMask_def maxTxPerBlock_def MaxBlockPayload_def minTxPayload_def)
  show "MsgBlock_Serialize replayedBlock = Inr replayedBytes" using MsgBlock_Serialize_wf [OF wf] by (simp add: replayedBytes_def)
qed

lemma replayedBlock_connects:
  obtains U where "connectChainCoins exampleCoins [(1, replayedBlock)] = Some U" "U exampleOutPoint = None"
proof
  let ?U1 = "addCoins exampleCoins exampleCoinbase 1"
  have "?U1 exampleOutPoint = Some exampleCoin"
    using exampleBlock_facts(7) [of exampleCoinbase] by (subst addCoins_outside) (auto simp: exampleBlock_facts(3) exampleCoins_def)
  then show "connectChainCoins exampleCoins [(1, replayedBlock)] = Some (addCoins (?U1(exampleOutPoint := None)) exampleSpender 1)"
    by (simp add: replayedBlock_def exampleBlock_def connectCoins_def exampleBlock_facts)
  show "addCoins (?U1(exampleOutPoint := None)) exampleSpender 1 exampleOutPoint = None"
    using exampleBlock_facts(6) [of exampleSpender] by (subst addCoins_outside) (auto simp: exampleBlock_facts(4))
qed

theorem InitConsistentState_recovers_witness:
  "\<exists>s'. InitConsistentState noKeys [BlockHash mainHeader \<mapsto> replayedBytes] (newBlockIndex\<lparr>nodes := [rootHash \<mapsto> rootNode]\<rparr>)
       \<lparr>cnodes = chainOf mainNode\<rparr> (\<lambda>_. False) (exampleCache (Some rootHash)) 0 mainNode = Inr s' \<and>
     cacheCoins noKeys s' exampleOutPoint = None \<and> lastFlushHash s' = BlockHash mainHeader"
proof -
  obtain U where U: "connectChainCoins exampleCoins [(1, replayedBlock)] = Some U" "U exampleOutPoint = None" by (rule replayedBlock_connects)
  have a: "Ancestor mainNode (node_height rootNode) = Some rootNode" "Ancestor mainNode 1 = Some mainNode"
    using Ancestor_parent [of mainNode rootNode 0] Ancestor_self [of rootNode] Ancestor_self [of mainNode] by simp_all
  have hs: "[node_height rootNode + 1..node_height mainNode] = [1]" by simp
  have l: "LookupNode (newBlockIndex\<lparr>nodes := [rootHash \<mapsto> rootNode]\<rparr>) rootHash = Some rootNode" by (simp add: LookupNode_def)
  have u: "createsUnseen (\<lambda>op. exampleCoins op \<noteq> None) (map (\<lambda>h. (h, replayedBlock)) [node_height rootNode + 1..node_height mainNode])"
    unfolding hs replayedBlock_def using exampleNode_unseen [of 1] by simp
  have "length rootHash = HashSize" by (simp add: rootHash_def HashSize_def)
  moreover have "rootHash \<noteq> nhash (nfields mainNode)" using headers_distinct(1) by simp
  moreover have "\<exists>n e. Ancestor mainNode h = Some n \<and> [BlockHash mainHeader \<mapsto> replayedBytes] (nhash (nfields n)) = Some e \<and>
      MsgBlock_Serialize replayedBlock = Inr e \<and> wf_MsgBlock replayedBlock \<and> \<not> False"
    if "node_height rootNode < h" "h \<le> node_height mainNode" for h
  proof -
    have "h = 1" using that by simp
    then show ?thesis using a(2) replayedBlock_stored by (intro exI [of _ mainNode] exI [of _ replayedBytes]) simp
  qed
  ultimately show ?thesis
    using InitConsistentState_recovers [where blockAt = "\<lambda>_. replayedBlock" and interrupted = "\<lambda>_. False" and U' = U and bestChain = "\<lparr>cnodes = chainOf mainNode\<rparr>" and
        db = "[BlockHash mainHeader \<mapsto> replayedBytes]" and maxMemory = 1000000 and now = 0,
        OF noKeys_laws exampleBucket_holds exampleCoins_wf tree_chain_1(1) _ _ l a(1) _ _ _ _ u] U hs
    unfolding exampleCache_def by (auto simp del: upto.simps)
qed

end
