(* ===== verification/Spec2Isabelle.thy ===== *)
theory Spec2Isabelle
  imports Block_Properties Threshold Recovery
begin

text \<open>
  A verification development of the consensus core of the modelOS node, a Bitcoin-like full node in Go (\<^verbatim>\<open>src/node\<close>) with proofs of work that are
  zero-knowledge certificates, merged mining, and transactions that request, prove and reward inference.

  \<^bold>\<open>The program.\<close>  A block arrives as bytes and is decoded (package \<^verbatim>\<open>wire\<close>).  It passes context free checks, checks against its position in the tree of
  headers, and the check that its transactions can be connected to the unspent outputs; these checks work on a view that is loaded from a cache over the
  database (package \<^verbatim>\<open>blockchain\<close>).  An accepted block is connected to the cache, and its spent outputs go to a journal from which it can be disconnected.
  The cache is flushed to the database from time to time, and after an unclean shutdown the blocks since the last flush are replayed.  The tree of headers
  gives the difficulty of the next block, the median time, the fork points between branches, and the state of votes on rule changes.

  \<^bold>\<open>Conventions.\<close>  A Go function with an error result is a function into a sum type, and every early return, error and run-time panic is a branch (\<open>Prelude\<close>:
  \<open>bindE\<close>, \<open>guardE\<close>, \<open>forE\<close>, \<open>foldE\<close>); where the state that was changed before an error matters, it is passed along (\<open>State_Error\<close>).  Byte slices are lists of
  8-bit words and the fields of messages words of their width; consensus arithmetic is on integers with the wrap-around of \<^verbatim>\<open>int32\<close>, \<^verbatim>\<open>int64\<close> and
  \<^verbatim>\<open>uint64\<close> written out.  Times are nanoseconds.  SHA-256 is defined from the standard and computes.

  \<^bold>\<open>The theories, and the files below \<^verbatim>\<open>src/node\<close> they model.\<close>

  \<^item> \<open>Prelude\<close>, \<open>State_Error\<close>: errors, bytes, fixed-width integers, and what is used of the Go library.
  \<^item> \<open>Chainhash\<close> (\<^verbatim>\<open>chaincfg/chainhash\<close>): hashes and SHA-256; \<open>Sha_Bits\<close>, \<open>Digest_Examples\<close> and \<open>Header_Examples\<close> evaluate it on the transactions and headers
    of the examples, by rewriting.
  \<^item> \<open>Wire_Common\<close>, \<open>Wire_Tx\<close>, \<open>Wire_Inference\<close>, \<open>Wire_Header\<close>, \<open>Wire_AuxPow\<close>, \<open>Wire_Block\<close> (\<^verbatim>\<open>wire\<close>): the codecs of transactions, inference payloads, headers,
    certificates, merged-mining data, blocks and header batches.  The interface \<open>codec\<close> states that a decoder accepts exactly the encodings of well-formed values;
    the codecs of integers, byte strings, outpoints, transactions, payloads, headers, certificates and header batches are interpretations of it, those that take scripts
    from a shared buffer of \<open>slab_codec\<close>.  Merged-mining data, and so blocks, have several encodings of one value and are treated on their own.  \<open>fixed_layout\<close> is the interface of
    payloads with fields at fixed offsets, \<open>op_return_carrier\<close> that of scripts that carry a payload.  Shown are round trips, exact acceptance, sizes,
    that the transaction id commits to everything but the witnesses, and when the decoder of a transaction panics.
  \<^item> \<open>Script\<close> (\<^verbatim>\<open>txscript\<close>: tokenizer, script classes, numbers, builder), \<open>Schnorr\<close> (\<^verbatim>\<open>btcec/schnorr\<close>, \<^verbatim>\<open>txscript/taproot.go\<close>): the tokenizer accepts exactly the
    concatenations of well-formed opcodes; signatures that are made verify.
  \<^item> \<open>Work_Math\<close>, \<open>Difficulty\<close> (\<^verbatim>\<open>blockchain/internal/workmath\<close>, \<^verbatim>\<open>difficulty.go\<close>, \<^verbatim>\<open>aserti.go\<close>), \<open>Chain_Params\<close> (\<^verbatim>\<open>chaincfg/params.go\<close>, \<^verbatim>\<open>error.go\<close>): compact targets and
    work, the two difficulty rules, their range, monotonicity and schedule, and a chain whose required difficulty the bound after a checkpoint rejects.
  \<^item> \<open>Block_Index\<close>, \<open>Chain_View\<close> (\<^verbatim>\<open>blockindex.go\<close>, \<^verbatim>\<open>chainview.go\<close>): nodes with skip pointers, median time, the view of the best chain, fork points and locators.
    The relation \<open>chain_node\<close> describes the nodes the code can build; on them the skip pointers agree with following parents, setting a tip leaves exactly its chain,
    and the fork point is the highest common block.
  \<^item> \<open>Tx_Basics\<close>, \<open>Merkle\<close> (\<^verbatim>\<open>vsize.go\<close>, \<^verbatim>\<open>merkle.go\<close>, \<^verbatim>\<open>rolling_merkle.go\<close>): virtual sizes, and the two computations of Merkle roots against one reference.
  \<^item> \<open>Compress\<close>, \<open>Chainio\<close> (\<^verbatim>\<open>compress.go\<close>, \<^verbatim>\<open>chainio.go\<close>): stored outputs and the spend journal, with round trips.
  \<^item> \<open>Coin_Store\<close>, \<open>Utxo_View\<close>, \<open>Size_Helper\<close>, \<open>Utxo_Cache\<close> (\<^verbatim>\<open>utxoviewpoint.go\<close>, \<^verbatim>\<open>sizehelper.go\<close>, \<^verbatim>\<open>utxocache.go\<close>): the specification is a map from outpoints to coins, with
    \<open>connectBlockCoins\<close> as the meaning of a block.  The interface \<open>coin_store\<close> has the laws of spending and adding one output; view and cache are interpretations
    of it, so connecting a block is proved once for both.  The interface \<open>modified_entries\<close> does the same for disconnecting.  Shown are the refinement of the
    specification, that disconnecting undoes connecting down to the bytes of the database, and that a flush persists the coins.
  \<^item> \<open>Recovery\<close> (\<^verbatim>\<open>utxocache.go\<close>, \<^verbatim>\<open>chainio.go\<close>): the replay after an unclean shutdown, from the lookup of the last consistent block and the walk back from the tip to
    the loading and connecting of the blocks, leaves the coins as of the tip.
  \<^item> \<open>Inference_Rules\<close> (\<^verbatim>\<open>inference_covenant.go\<close>, \<^verbatim>\<open>inferencego.go\<close>): who can spend a bounty and when, that a claim does not fix where it pays, and exactly
    what an authority may issue.
  \<^item> \<open>Tx_Rules\<close>, \<open>Pow_Rules\<close>, \<open>Block_Rules\<close> (\<^verbatim>\<open>validate.go\<close>, \<^verbatim>\<open>auxpow.go\<close>, \<^verbatim>\<open>checkpoints.go\<close>, \<^verbatim>\<open>zkpow/verify.go\<close>, parts of \<^verbatim>\<open>chain.go\<close>): subsidy, transaction rules, relative locks, proof of work,
    and the checks of whole blocks, with the code's order of the checks.
  \<^item> \<open>Block_Properties\<close>: what spans these parts.  A block that passes the checks, with its transactions in order, can be connected to the coins of the chain, view and
    cache then agree with the specification, and the value of all coins grows at most by subsidy and issuance; and a block out of order that passes all
    checks although it cannot be connected.
  \<^item> \<open>Threshold\<close> (\<^verbatim>\<open>thresholdstate.go\<close>, \<^verbatim>\<open>versionbits.go\<close>, \<^verbatim>\<open>chaincfg/deployment_time_frame.go\<close>): the state machine of rule changes with its caches.  The interface \<open>voting\<close> has the
    law of a checker; the two checkers of the code are interpretations of it.  Shown are the equivalence with the machine without caches, that its steps are
    those of the relation \<open>nextWindow\<close>, the expected version bit by bit, and that warnings never fail.

  \<^bold>\<open>Code outside the model.\<close>  The curve (\<open>Secp\<close>, with the documented laws \<open>secp_laws\<close>), SHA3-256, BLAKE3, the verifier of the proofs in Rust (\<open>ZkVerifier\<close>), parsing of
  compressed keys (\<open>key_laws\<close>) and the execution of the scripts of a block are parameters, collected in the record \<open>externals\<close> where the checks of blocks need them.  No
  property of a hash function is assumed beyond the length of its result; results that rest on one name the two messages that would have to collide.

  \<^bold>\<open>Termination and fuel.\<close>  Loops over parents end by the size of a node and are total functions.  Loops of the code that could run for ever are partial functions into
  \<open>option\<close> (\<open>Merkle\<close>, \<open>Chain_View\<close>, \<open>Schnorr\<close>).  It is proved that the Merkle computation and the locator return; the loop of \<^verbatim>\<open>Sign\<close> over nonces ends
  only if some nonce gives a usable hash, so what is proved of signing is about one nonce.  The walk over confirmation windows (\<open>windowsBack\<close>) has the height of the block plus two as
  fuel, which is enough since each step goes back at least one block; the lemma \<open>windows_correct\<close> shows that it does not run out.

  \<^bold>\<open>Where the model abstracts.\<close>  Pointers to nodes are compared as values, and the status of a node is kept in the index; Go maps are association lists or functions, and no
  result depends on their order; logarithms taken in floating point are exact; a slice of stored data is bounded by its length and not its capacity; what a check
  that fails has loaded into the cache is not kept, which changes no coin.  Locks, logging and notifications are left out.

  \<^bold>\<open>Not modelled.\<close>  The handlers that tie the parts together on a running node are not: \<^verbatim>\<open>ProcessBlock\<close> with the pool of orphans, \<^verbatim>\<open>maybeAcceptBlock\<close>,
  \<^verbatim>\<open>connectBestChain\<close> and the reorganisation of the chain, and the initialisation of the chain state; they also drive the database, the index manager and
  notifications.  Nor are the script engine, the mempool, mining templates, the optional indexes, the storage engine, the network and its other messages, remote procedure
  calls, configuration, the remaining signature schemes and utility packages, the wallet, the light client, the seeders and the proxy, the proof system and miners in Rust
  and Python, and the applications: they are policy, input and output, separate programs, or code in other languages behind an interface.
\<close>

end
